(* ===== verification/Prelude.thy ===== *)
theory Prelude
  imports Complex_Main "HOL-Library.Char_ord" "HOL-Library.List_Lexorder" "HOL-Library.Product_Lexorder"
begin

text \<open>
  What every theory of the development shares: the fact collections, the text forms of
  numbers (Python's \<^verbatim>\<open>str(int)\<close>, \<^verbatim>\<open>int(str)\<close> and Lua's \<^verbatim>\<open>'%d'\<close>), the flat
  name/value lists Lua works on, association lists as Python dictionaries, and the generic
  lemmas about them.
\<close>

named_theorems refines_intro \<open>structural rules that relate a script to its documented meaning\<close>
named_theorems key_simps \<open>distinctness of Redis key names\<close>
named_theorems cmd_simps \<open>the documented meaning of the Redis commands, unfolded\<close>

type_synonym fields = "(string \<times> string) list"

section \<open>Numbers as text\<close>

definition digit_char :: "nat \<Rightarrow> char" where
  "digit_char d = char_of (48 + d)"

definition char_digit :: "char \<Rightarrow> nat option" where
  "char_digit c =
     (let n = of_char c :: nat in if 48 \<le> n \<and> n \<le> 57 then Some (n - 48) else None)"

fun str_nat :: "nat \<Rightarrow> string" where
  "str_nat n =
     (if n < 10 then [digit_char n] else str_nat (n div 10) @ [digit_char (n mod 10)])"

declare str_nat.simps [simp del]

definition str_int :: "int \<Rightarrow> string" where
  "str_int i = (if i < 0 then CHR ''-'' # str_nat (nat (- i)) else str_nat (nat i))"

text \<open>
  Digits as Python's \<^verbatim>\<open>int()\<close> reads them: at least one digit, and single underscores
  between digits are skipped.
\<close>

fun read_digits :: "nat \<Rightarrow> string \<Rightarrow> nat option" where
  "read_digits acc [] = Some acc"
| "read_digits acc (c # cs) =
     (case char_digit c of
        Some d \<Rightarrow> read_digits (10 * acc + d) cs
      | None \<Rightarrow>
          (case cs of
             [] \<Rightarrow> None
           | c' # cs' \<Rightarrow>
               (if c = CHR ''_'' then
                  (case char_digit c' of
                     Some d \<Rightarrow> read_digits (10 * acc + d) cs'
                   | None \<Rightarrow> None)
                else None)))"

definition read_nat :: "string \<Rightarrow> nat option" where
  "read_nat s = (case s of
       [] \<Rightarrow> None
     | c # cs \<Rightarrow> (case char_digit c of None \<Rightarrow> None | Some d \<Rightarrow> read_digits d cs))"

definition is_space :: "char \<Rightarrow> bool" where
  "is_space c \<longleftrightarrow> (let n = of_char c :: nat in
     n = 32 \<or> (9 \<le> n \<and> n \<le> 13) \<or> (28 \<le> n \<and> n \<le> 31) \<or> n = 133 \<or> n = 160)"

definition strip :: "string \<Rightarrow> string" where
  "strip s = rev (dropWhile is_space (rev (dropWhile is_space s)))"

definition read_int :: "string \<Rightarrow> int option" where
  "read_int s = (case strip s of
       [] \<Rightarrow> None
     | c # cs \<Rightarrow>
         (if c = CHR ''-'' then map_option (\<lambda>n. - int n) (read_nat cs)
          else if c = CHR ''+'' then map_option int (read_nat cs)
          else map_option int (read_nat (c # cs))))"

lemma char_digit_digit_char [simp]: "d < 10 \<Longrightarrow> char_digit (digit_char d) = Some d"
  by (simp add: char_digit_def digit_char_def of_char_of take_bit_eq_mod)

lemma str_nat_nonempty [simp]: "str_nat n \<noteq> []"
  by (subst str_nat.simps) simp

lemma read_digits_append_digit:
  "read_digits acc xs = Some n \<Longrightarrow> d < 10 \<Longrightarrow>
   read_digits acc (xs @ [digit_char d]) = Some (10 * n + d)"
  by (induction acc xs rule: read_digits.induct)
    (auto split: option.splits list.splits if_splits)

lemma read_nat_append_digit:
  "read_nat xs = Some n \<Longrightarrow> d < 10 \<Longrightarrow> read_nat (xs @ [digit_char d]) = Some (10 * n + d)"
  by (auto simp: read_nat_def read_digits_append_digit split: list.splits option.splits)

lemma read_nat_str_nat [simp]: "read_nat (str_nat n) = Some n"
proof (induction n rule: str_nat.induct)
  case (1 n)
  show ?case
  proof (cases "n < 10")
    case True
    then show ?thesis by (subst str_nat.simps) (simp add: read_nat_def)
  next
    case False
    with 1 have "read_nat (str_nat (n div 10)) = Some (n div 10)" by simp
    from read_nat_append_digit [OF this, of "n mod 10"] False show ?thesis
      by (subst str_nat.simps) simp
  qed
qed

lemma digit_char_plain:
  "d < 10 \<Longrightarrow> \<not> is_space (digit_char d) \<and> digit_char d \<noteq> CHR ''-'' \<and> digit_char d \<noteq> CHR ''+''"
proof -
  assume d: "d < 10"
  have code: "of_char (digit_char d) = 48 + d"
    using d by (simp add: digit_char_def of_char_of take_bit_eq_mod)
  moreover have "of_char CHR ''-'' = (45 :: nat)" and "of_char CHR ''+'' = (43 :: nat)"
    by simp_all
  with code have "digit_char d \<noteq> CHR ''-''" "digit_char d \<noteq> CHR ''+''"
    by fastforce+
  ultimately show ?thesis using d by (auto simp: is_space_def)
qed

lemma str_nat_chars: "c \<in> set (str_nat n) \<Longrightarrow> \<exists>d < 10. c = digit_char d"
proof (induction n rule: str_nat.induct)
  case (1 n)
  then have "c \<in> set (str_nat (n div 10)) \<and> \<not> n < 10 \<or> c = digit_char (n mod 10)"
    by (subst (asm) (2) str_nat.simps) (auto split: if_splits)
  with 1 show ?case by (metis mod_less_divisor zero_less_numeral)
qed

lemma strip_no_space: "(\<forall>c \<in> set s. \<not> is_space c) \<Longrightarrow> strip s = s"
proof -
  assume *: "\<forall>c \<in> set s. \<not> is_space c"
  then have "dropWhile is_space s = s" by (cases s) auto
  moreover from * have "dropWhile is_space (rev s) = rev s" by (cases "rev s") auto
  ultimately show ?thesis by (simp add: strip_def)
qed

lemma last_dropWhile: "dropWhile P xs \<noteq> [] \<Longrightarrow> last (dropWhile P xs) = last xs"
  by (induction xs) auto

lemma strip_strip: "strip (strip s) = strip s"
proof -
  let ?u = "dropWhile is_space s" let ?w = "dropWhile is_space (rev ?u)"
  have "strip (rev ?w) = rev ?w"
  proof (cases ?w)
    case (Cons c cs)
    then have u: "?u \<noteq> []" by (metis dropWhile.simps(1) list.distinct(1) rev.simps(1))
    have h: "hd (rev ?w) = hd ?u"
    proof -
      have "?w \<noteq> []" using Cons by simp
      from last_dropWhile [OF this] show ?thesis by (simp only: hd_rev last_rev)
    qed
    have "\<not> is_space (hd (rev ?w))" unfolding h by (rule hd_dropWhile [OF u])
    then have "dropWhile is_space (rev ?w) = rev ?w" by (simp only: dropWhile_eq_self_iff simp_thms)
    then show ?thesis by (simp only: strip_def rev_rev_ident dropWhile_idem)
  next
    case Nil
    then show ?thesis by (simp only: Nil rev.simps dropWhile.simps strip_def)
  qed
  then show ?thesis by (simp only: strip_def)
qed

lemma read_int_str_int [simp]: "read_int (str_int i) = Some i"
proof (cases "i < 0")
  case True
  have "\<forall>c \<in> set (str_int i). \<not> is_space c"
    using str_nat_chars digit_char_plain by (auto simp: str_int_def is_space_def split: if_splits)
  with True show ?thesis by (simp add: read_int_def strip_no_space) (simp add: str_int_def)
next
  case False
  have "\<forall>c \<in> set (str_int i). \<not> is_space c"
    using False str_nat_chars digit_char_plain by (auto simp: str_int_def)
  moreover obtain c cs where s: "str_nat (nat i) = c # cs" by (cases "str_nat (nat i)") auto
  moreover have "c \<noteq> CHR ''-'' \<and> c \<noteq> CHR ''+''"
    using str_nat_chars [of c "nat i"] digit_char_plain s by auto
  ultimately show ?thesis
    using False read_nat_str_nat [of "nat i"] by (simp add: read_int_def strip_no_space str_int_def)
qed

lemma str_int_inject [simp]: "str_int i = str_int j \<longleftrightarrow> i = j"
  by (metis option.inject read_int_str_int)

lemma str_nat_inject [simp]: "str_nat i = str_nat j \<longleftrightarrow> i = j"
  by (metis option.inject read_nat_str_nat)

section \<open>Flat name/value lists\<close>

text \<open>
  Lua sees a stream entry as \<^verbatim>\<open>{name, value, name, value, ...}\<close>; Redis stores pairs.
\<close>

fun flat_of :: "fields \<Rightarrow> string list" where
  "flat_of [] = []"
| "flat_of ((n, v) # ps) = n # v # flat_of ps"

fun pair_up :: "string list \<Rightarrow> fields option" where
  "pair_up [] = Some []"
| "pair_up [n] = None"
| "pair_up (n # v # xs) = map_option ((#) (n, v)) (pair_up xs)"

lemma pair_up_flat_of [simp]: "pair_up (flat_of ps) = Some ps"
  by (induction ps rule: flat_of.induct) auto

lemma flat_of_pair_up: "pair_up xs = Some ps \<Longrightarrow> xs = flat_of ps"
  by (induction xs arbitrary: ps rule: pair_up.induct) auto

lemma flat_of_append [simp]: "flat_of (xs @ ys) = flat_of xs @ flat_of ys"
  by (induction xs rule: flat_of.induct) auto

lemma flat_of_eq_Nil [simp]: "flat_of ps = [] \<longleftrightarrow> ps = []"
  by (cases ps) auto

section \<open>Python dictionaries as association lists\<close>

text \<open>
  A dict built from pairs keeps the first position of a key and its last value. Lookups only
  depend on the last value.
\<close>

definition dict_get :: "fields \<Rightarrow> string \<Rightarrow> string option" where
  "dict_get ps k = map_of (rev ps) k"

lemma dict_get_Nil [simp]: "dict_get [] k = None"
  by (simp add: dict_get_def)

lemma dict_get_append [simp]:
  "dict_get (ps @ qs) k = (case dict_get qs k of None \<Rightarrow> dict_get ps k | Some v \<Rightarrow> Some v)"
  by (simp add: dict_get_def map_add_def split: option.splits)

lemma dict_get_single [simp]: "dict_get [(n, v)] k = (if n = k then Some v else None)"
  by (simp add: dict_get_def)

lemma dict_get_Cons:
  "dict_get (p # ps) k = (case dict_get ps k of None \<Rightarrow> (if fst p = k then Some (snd p) else None)
     | Some v \<Rightarrow> Some v)"
  using dict_get_append [of "[p]" ps k] dict_get_single [of "fst p" "snd p" k]
  by (simp del: dict_get_append dict_get_single split: option.splits)

section \<open>Generic lemmas\<close>

lemma map_of_filter_neq:
  "map_of (filter (\<lambda>p. fst p \<noteq> a) xs) k = (if k = a then None else map_of xs k)"
  by (induction xs) auto

lemma map_of_filter_key: "map_of (filter (\<lambda>p. P (fst p)) xs) k = (if P k then map_of xs k else None)"
  by (induction xs) auto

end
