(* ===== verification/Redis_Service.thy ===== *)
theory Redis_Service
  imports Prelude
begin

text \<open>
  Redis is a service outside the repository: here it is a parameter. The record
  \<open>redis_ops\<close> lists the commands the scripts and the Python client call, over an opaque
  server state \<open>'s\<close>. What the code relies on is the documented behaviour of each command,
  stated once as a function on a store \<open>rdb\<close> (streams with consumer groups and pending
  lists, hashes, sorted sets, strings, expiry times, a clock). The locale
  \<open>redis_service\<close> says that a server, seen through a view function, behaves as documented;
  every theorem about the queue assumes it for an arbitrary server. A script is a state
  transformer that may stop with an error reply and then keeps what it has already written,
  as Redis does.
\<close>

section \<open>Scripts\<close>

datatype redis_error =
    WrongType | NoGroup | BusyGroup | BadArity | BadInteger | BadId | ErrorReply string

type_synonym key = string
type_synonym eid = "nat \<times> nat"
type_synonym ('s, 'a) script = "'s \<Rightarrow> (redis_error + 'a) \<times> 's"

definition ret :: "'a \<Rightarrow> ('s, 'a) script" where
  "ret x = (\<lambda>s. (Inr x, s))"

definition raise :: "redis_error \<Rightarrow> ('s, 'a) script" where
  "raise e = (\<lambda>s. (Inl e, s))"

definition call :: "('s, 'a) script \<Rightarrow> ('a \<Rightarrow> ('s, 'b) script) \<Rightarrow> ('s, 'b) script" where
  "call m k = (\<lambda>s. case m s of (Inl e, s') \<Rightarrow> (Inl e, s') | (Inr x, s') \<Rightarrow> k x s')"

primrec fold_script :: "('b \<Rightarrow> 'a \<Rightarrow> ('s, 'b) script) \<Rightarrow> 'b \<Rightarrow> 'a list \<Rightarrow> ('s, 'b) script" where
  "fold_script f acc [] = ret acc"
| "fold_script f acc (x # xs) = call (f acc x) (\<lambda>acc'. fold_script f acc' xs)"

lemma ret_apply [simp]: "ret x s = (Inr x, s)"
  by (simp add: ret_def)

lemma raise_apply [simp]: "raise e s = (Inl e, s)"
  by (simp add: raise_def)

lemma call_Inr: "m s = (Inr x, s') \<Longrightarrow> call m k s = k x s'"
  by (simp add: call_def)

lemma call_Inl: "m s = (Inl e, s') \<Longrightarrow> call m k s = (Inl e, s')"
  by (simp add: call_def)

lemma call_apply:
  "call m k s = (case m s of (Inl e, s') \<Rightarrow> (Inl e, s') | (Inr x, s') \<Rightarrow> k x s')"
  by (simp add: call_def)

section \<open>The documented store\<close>

record pent =
  p_owner :: string
  p_time :: int
  p_count :: nat

record rgroup =
  g_last :: eid
  g_pel :: "(eid \<times> pent) list"
  g_cons :: "(string \<times> int) list"

record rstream =
  s_entries :: "(eid \<times> fields) list"
  s_last :: eid
  s_groups :: "string \<rightharpoonup> rgroup"

record rdb =
  strs :: "key \<rightharpoonup> string"
  hashes :: "key \<rightharpoonup> (string \<rightharpoonup> string)"
  zsets :: "key \<rightharpoonup> (string \<times> int) list"
  streams :: "key \<rightharpoonup> rstream"
  expiry :: "key \<rightharpoonup> nat"
  clock :: nat

definition empty_stream :: rstream where
  "empty_stream = \<lparr>s_entries = [], s_last = (0, 0), s_groups = Map.empty\<rparr>"

definition empty_group :: rgroup where
  "empty_group = \<lparr>g_last = (0, 0), g_pel = [], g_cons = []\<rparr>"

definition empty_rdb :: rdb where
  "empty_rdb = \<lparr>strs = Map.empty, hashes = Map.empty, zsets = Map.empty, streams = Map.empty,
     expiry = Map.empty, clock = 0\<rparr>"

text \<open>A key holds one type; a command for another type is refused.\<close>

definition str_ok :: "key \<Rightarrow> rdb \<Rightarrow> bool" where
  "str_ok k v \<longleftrightarrow> hashes v k = None \<and> zsets v k = None \<and> streams v k = None"

definition hash_ok :: "key \<Rightarrow> rdb \<Rightarrow> bool" where
  "hash_ok k v \<longleftrightarrow> strs v k = None \<and> zsets v k = None \<and> streams v k = None"

definition zset_ok :: "key \<Rightarrow> rdb \<Rightarrow> bool" where
  "zset_ok k v \<longleftrightarrow> strs v k = None \<and> hashes v k = None \<and> streams v k = None"

definition stream_ok :: "key \<Rightarrow> rdb \<Rightarrow> bool" where
  "stream_ok k v \<longleftrightarrow> strs v k = None \<and> hashes v k = None \<and> zsets v k = None"

definition get_stream :: "key \<Rightarrow> rdb \<Rightarrow> rstream" where
  "get_stream k v = (case streams v k of None \<Rightarrow> empty_stream | Some s \<Rightarrow> s)"

definition put_stream :: "key \<Rightarrow> rstream \<Rightarrow> rdb \<Rightarrow> rdb" where
  "put_stream k s v = v\<lparr>streams := (streams v)(k \<mapsto> s)\<rparr>"

definition get_hash :: "key \<Rightarrow> rdb \<Rightarrow> (string \<rightharpoonup> string)" where
  "get_hash k v = (case hashes v k of None \<Rightarrow> Map.empty | Some h \<Rightarrow> h)"

definition get_zset :: "key \<Rightarrow> rdb \<Rightarrow> (string \<times> int) list" where
  "get_zset k v = (case zsets v k of None \<Rightarrow> [] | Some z \<Rightarrow> z)"

definition put_zset :: "key \<Rightarrow> (string \<times> int) list \<Rightarrow> rdb \<Rightarrow> rdb" where
  "put_zset k z v = v\<lparr>zsets := (zsets v)(k := (if z = [] then None else Some z))\<rparr>"

definition ms_of :: "rdb \<Rightarrow> nat" where
  "ms_of v = clock v div 1000"

text \<open>Entry ids in their text form \<^verbatim>\<open><ms>-<seq>\<close>.\<close>

definition eid_str :: "eid \<Rightarrow> string" where
  "eid_str i = str_nat (fst i) @ CHR ''-'' # str_nat (snd i)"

definition eid_of :: "string \<Rightarrow> eid option" where
  "eid_of s =
     (let a = takeWhile (\<lambda>c. c \<noteq> CHR ''-'') s; b = dropWhile (\<lambda>c. c \<noteq> CHR ''-'') s
      in case (read_nat a, b) of
           (Some m, _ # r) \<Rightarrow> map_option (Pair m) (read_nat r)
         | _ \<Rightarrow> None)"

lemma eid_of_eid_str [simp]: "eid_of (eid_str i) = Some i"
proof -
  have *: "c \<noteq> CHR ''-''" if "c \<in> set (str_nat n)" for c n
    using str_nat_chars [OF that] digit_char_plain by auto
  then have "takeWhile (\<lambda>c. c \<noteq> CHR ''-'') (eid_str i) = str_nat (fst i)"
    and "dropWhile (\<lambda>c. c \<noteq> CHR ''-'') (eid_str i) = CHR ''-'' # str_nat (snd i)"
    by (simp_all add: eid_str_def takeWhile_append2 dropWhile_append2)
  then show ?thesis by (simp add: eid_of_def)
qed

lemma eid_str_inject [simp]: "eid_str i = eid_str j \<longleftrightarrow> i = j"
  by (metis eid_of_eid_str option.inject)

section \<open>Documented commands: strings, hashes, keys, time\<close>

definition d_get :: "key \<Rightarrow> (rdb, string option) script" where
  "d_get k = (\<lambda>v. if str_ok k v then (Inr (strs v k), v) else (Inl WrongType, v))"

definition d_exists :: "key \<Rightarrow> (rdb, nat) script" where
  "d_exists k = (\<lambda>v. (Inr (if strs v k = None \<and> hashes v k = None \<and> zsets v k = None
      \<and> streams v k = None then 0 else 1), v))"

definition drop_key :: "key \<Rightarrow> rdb \<Rightarrow> rdb" where
  "drop_key k v = v\<lparr>strs := (strs v)(k := None), hashes := (hashes v)(k := None),
     zsets := (zsets v)(k := None), streams := (streams v)(k := None),
     expiry := (expiry v)(k := None)\<rparr>"

definition d_del :: "key \<Rightarrow> (rdb, unit) script" where
  "d_del k = (\<lambda>v. (Inr (), drop_key k v))"

definition d_set :: "key \<Rightarrow> string \<Rightarrow> (rdb, unit) script" where
  "d_set k x = (\<lambda>v. (Inr (), (drop_key k v)\<lparr>strs := (strs v)(k \<mapsto> x)\<rparr>))"

text \<open>\<^verbatim>\<open>SET k x NX [EX ttl]\<close>: true iff the key did not exist.\<close>

definition d_set_nx :: "key \<Rightarrow> string \<Rightarrow> nat option \<Rightarrow> (rdb, bool) script" where
  "d_set_nx k x ttl = (\<lambda>v.
     if str_ok k v \<and> strs v k = None
     then (Inr True, v\<lparr>strs := (strs v)(k \<mapsto> x),
             expiry := (expiry v)(k := map_option (\<lambda>t. clock v + t * 1000000) ttl)\<rparr>)
     else (Inr False, v))"

definition d_expire :: "key \<Rightarrow> nat \<Rightarrow> (rdb, unit) script" where
  "d_expire k ttl = (\<lambda>v.
     if strs v k = None \<and> hashes v k = None \<and> zsets v k = None \<and> streams v k = None
     then (Inr (), v)
     else (Inr (), v\<lparr>expiry := (expiry v)(k \<mapsto> clock v + ttl * 1000000)\<rparr>))"

definition d_hget :: "key \<Rightarrow> string \<Rightarrow> (rdb, string option) script" where
  "d_hget k f = (\<lambda>v. if hash_ok k v then (Inr (get_hash k v f), v) else (Inl WrongType, v))"

definition d_hgetall :: "key \<Rightarrow> (rdb, string \<rightharpoonup> string) script" where
  "d_hgetall k = (\<lambda>v. if hash_ok k v then (Inr (get_hash k v), v) else (Inl WrongType, v))"

definition d_hset :: "key \<Rightarrow> fields \<Rightarrow> (rdb, unit) script" where
  "d_hset k ps = (\<lambda>v. if hash_ok k v
     then (Inr (), v\<lparr>hashes := (hashes v)(k \<mapsto> get_hash k v ++ map_of (rev ps))\<rparr>)
     else (Inl WrongType, v))"

definition d_hincrby :: "key \<Rightarrow> string \<Rightarrow> int \<Rightarrow> (rdb, int) script" where
  "d_hincrby k f n = (\<lambda>v.
     if hash_ok k v then
       (case (case get_hash k v f of None \<Rightarrow> Some 0 | Some x \<Rightarrow> read_int x) of
          None \<Rightarrow> (Inl BadInteger, v)
        | Some c \<Rightarrow> (Inr (c + n),
            v\<lparr>hashes := (hashes v)(k \<mapsto> (get_hash k v)(f \<mapsto> str_int (c + n)))\<rparr>))
     else (Inl WrongType, v))"

text \<open>\<^verbatim>\<open>TIME\<close>: seconds and microseconds.\<close>

definition d_time :: "(rdb, nat \<times> nat) script" where
  "d_time = (\<lambda>v. (Inr (clock v div 1000000, clock v mod 1000000), v))"

text \<open>
  Time passes between scripts, never inside one. A key whose expiry time has come is gone.
\<close>

definition d_tick :: "nat \<Rightarrow> (rdb, unit) script" where
  "d_tick d = (\<lambda>v.
     let t = clock v + d;
         gone = (\<lambda>k. case expiry v k of None \<Rightarrow> False | Some e \<Rightarrow> e \<le> t)
     in (Inr (), \<lparr>strs = (\<lambda>k. if gone k then None else strs v k),
          hashes = (\<lambda>k. if gone k then None else hashes v k),
          zsets = (\<lambda>k. if gone k then None else zsets v k),
          streams = (\<lambda>k. if gone k then None else streams v k),
          expiry = (\<lambda>k. if gone k then None else expiry v k), clock = t\<rparr>))"

section \<open>Documented commands: sorted sets\<close>

definition zins :: "string \<Rightarrow> int \<Rightarrow> (string \<times> int) list \<Rightarrow> (string \<times> int) list" where
  "zins m sc z = insort_key (\<lambda>p. (snd p, fst p)) (m, sc) (filter (\<lambda>p. fst p \<noteq> m) z)"

definition d_zadd :: "key \<Rightarrow> int \<Rightarrow> string \<Rightarrow> (rdb, unit) script" where
  "d_zadd k sc m = (\<lambda>v. if zset_ok k v then (Inr (), put_zset k (zins m sc (get_zset k v)) v)
     else (Inl WrongType, v))"

definition d_zcard :: "key \<Rightarrow> (rdb, nat) script" where
  "d_zcard k = (\<lambda>v. if zset_ok k v then (Inr (length (get_zset k v)), v) else (Inl WrongType, v))"

definition d_zrem :: "key \<Rightarrow> string \<Rightarrow> (rdb, unit) script" where
  "d_zrem k m = (\<lambda>v. if zset_ok k v
     then (Inr (), put_zset k (filter (\<lambda>p. fst p \<noteq> m) (get_zset k v)) v)
     else (Inl WrongType, v))"

text \<open>\<^verbatim>\<open>ZRANGE k -inf hi BYSCORE LIMIT 0 n\<close>.\<close>

definition d_zrange_due :: "key \<Rightarrow> int \<Rightarrow> nat \<Rightarrow> (rdb, string list) script" where
  "d_zrange_due k hi n = (\<lambda>v. if zset_ok k v
     then (Inr (take n (map fst (filter (\<lambda>p. snd p \<le> hi) (get_zset k v)))), v)
     else (Inl WrongType, v))"

section \<open>Documented commands: streams and consumer groups\<close>

definition next_eid :: "eid \<Rightarrow> nat \<Rightarrow> eid" where
  "next_eid l ms = (if fst l < ms then (ms, 0) else (fst l, Suc (snd l)))"

text \<open>\<^verbatim>\<open>XADD k *\<close> with a flat name/value list.\<close>

definition d_xadd :: "key \<Rightarrow> string list \<Rightarrow> (rdb, eid) script" where
  "d_xadd k flat = (\<lambda>v.
     if stream_ok k v then
       (case pair_up flat of
          None \<Rightarrow> (Inl BadArity, v)
        | Some ps \<Rightarrow>
            (if ps = [] then (Inl BadArity, v)
             else (let s = get_stream k v; i = next_eid (s_last s) (ms_of v) in
               (Inr i, put_stream k (s\<lparr>s_entries := s_entries s @ [(i, ps)], s_last := i\<rparr>) v))))
     else (Inl WrongType, v))"

definition d_xlen :: "key \<Rightarrow> (rdb, nat) script" where
  "d_xlen k = (\<lambda>v. if stream_ok k v then (Inr (length (s_entries (get_stream k v))), v)
     else (Inl WrongType, v))"

definition d_xdel :: "key \<Rightarrow> eid \<Rightarrow> (rdb, unit) script" where
  "d_xdel k i = (\<lambda>v. if stream_ok k v then
       (case streams v k of
          None \<Rightarrow> (Inr (), v)
        | Some s \<Rightarrow> (Inr (),
            put_stream k (s\<lparr>s_entries := filter (\<lambda>p. fst p \<noteq> i) (s_entries s)\<rparr>) v))
     else (Inl WrongType, v))"

datatype lower = FromStart | Incl eid | After eid

fun above :: "lower \<Rightarrow> eid \<Rightarrow> bool" where
  "above FromStart i = True"
| "above (Incl j) i = (j \<le> i)"
| "above (After j) i = (j < i)"

definition below :: "eid option \<Rightarrow> eid \<Rightarrow> bool" where
  "below hi i = (case hi of None \<Rightarrow> True | Some j \<Rightarrow> i \<le> j)"

definition take_opt :: "nat option \<Rightarrow> 'a list \<Rightarrow> 'a list" where
  "take_opt n xs = (case n of None \<Rightarrow> xs | Some m \<Rightarrow> take m xs)"

definition d_xrange :: "key \<Rightarrow> lower \<Rightarrow> eid option \<Rightarrow> nat option \<Rightarrow> (rdb, (eid \<times> fields) list) script" where
  "d_xrange k lo hi n = (\<lambda>v. if stream_ok k v
     then (Inr (take_opt n (filter (\<lambda>p. above lo (fst p) \<and> below hi (fst p))
             (s_entries (get_stream k v)))), v)
     else (Inl WrongType, v))"

definition d_xrevrange1 :: "key \<Rightarrow> (rdb, (eid \<times> fields) option) script" where
  "d_xrevrange1 k = (\<lambda>v. if stream_ok k v
     then (Inr (case rev (s_entries (get_stream k v)) of [] \<Rightarrow> None | p # _ \<Rightarrow> Some p), v)
     else (Inl WrongType, v))"

text \<open>Commands that need the group stop with \<^verbatim>\<open>NOGROUP\<close> when it does not exist.\<close>

definition with_group ::
  "key \<Rightarrow> string \<Rightarrow> (rstream \<Rightarrow> rgroup \<Rightarrow> rdb \<Rightarrow> (redis_error + 'a) \<times> rdb) \<Rightarrow> (rdb, 'a) script" where
  "with_group k g f = (\<lambda>v.
     if stream_ok k v then
       (case streams v k of
          None \<Rightarrow> (Inl NoGroup, v)
        | Some s \<Rightarrow> (case s_groups s g of None \<Rightarrow> (Inl NoGroup, v) | Some gr \<Rightarrow> f s gr v))
     else (Inl WrongType, v))"

definition put_group :: "key \<Rightarrow> string \<Rightarrow> rstream \<Rightarrow> rgroup \<Rightarrow> rdb \<Rightarrow> rdb" where
  "put_group k g s gr v = put_stream k (s\<lparr>s_groups := (s_groups s)(g \<mapsto> gr)\<rparr>) v"

definition touch :: "string \<Rightarrow> int \<Rightarrow> (string \<times> int) list \<Rightarrow> (string \<times> int) list" where
  "touch c t cs = (if c \<in> fst ` set cs then map (\<lambda>p. if fst p = c then (c, t) else p) cs
     else cs @ [(c, t)])"

definition d_xgroup_create :: "key \<Rightarrow> string \<Rightarrow> (rdb, unit) script" where
  "d_xgroup_create k g = (\<lambda>v. if stream_ok k v then
       (let s = get_stream k v in
        if s_groups s g = None then (Inr (), put_group k g s empty_group v)
        else (Inl BusyGroup, v))
     else (Inl WrongType, v))"

text \<open>\<^verbatim>\<open>XREADGROUP GROUP g c COUNT n STREAMS k >\<close>: never-delivered entries.\<close>

definition d_xreadgroup :: "key \<Rightarrow> string \<Rightarrow> string \<Rightarrow> nat \<Rightarrow> (rdb, (eid \<times> fields) list) script" where
  "d_xreadgroup k g c n = with_group k g (\<lambda>s gr v.
     let new = take n (filter (\<lambda>p. g_last gr < fst p) (s_entries s));
         t = int (ms_of v);
         gr' = gr\<lparr>g_last := (if new = [] then g_last gr else fst (last new)),
                  g_pel := g_pel gr @ map (\<lambda>p. (fst p, \<lparr>p_owner = c, p_time = t, p_count = 1\<rparr>)) new,
                  g_cons := touch c t (g_cons gr)\<rparr>
     in (Inr new, put_group k g s gr' v))"

definition d_xack :: "key \<Rightarrow> string \<Rightarrow> eid \<Rightarrow> (rdb, unit) script" where
  "d_xack k g i = (\<lambda>v. if stream_ok k v then
       (case streams v k of
          None \<Rightarrow> (Inr (), v)
        | Some s \<Rightarrow> (case s_groups s g of
            None \<Rightarrow> (Inr (), v)
          | Some gr \<Rightarrow> (Inr (),
              put_group k g s (gr\<lparr>g_pel := filter (\<lambda>p. fst p \<noteq> i) (g_pel gr)\<rparr>) v)))
     else (Inl WrongType, v))"

text \<open>\<^verbatim>\<open>XPENDING k g id id 1\<close>: owner, idle time and delivery count of one pending entry.\<close>

definition d_xpending :: "key \<Rightarrow> string \<Rightarrow> eid \<Rightarrow> (rdb, (string \<times> int \<times> nat) option) script" where
  "d_xpending k g i = with_group k g (\<lambda>s gr v.
     (Inr (map_option (\<lambda>p. (p_owner p, int (ms_of v) - p_time p, p_count p))
             (map_of (g_pel gr) i)), v))"

text \<open>\<^verbatim>\<open>XPENDING k g - + 1 consumer\<close>: the oldest pending entry of a consumer, if any.\<close>

definition d_xpending_consumer :: "key \<Rightarrow> string \<Rightarrow> string \<Rightarrow> (rdb, eid option) script" where
  "d_xpending_consumer k g c = with_group k g (\<lambda>s gr v.
     (Inr (map_option fst (find (\<lambda>p. p_owner (snd p) = c) (g_pel gr))), v))"

definition d_xpending_summary :: "key \<Rightarrow> string \<Rightarrow> (rdb, nat) script" where
  "d_xpending_summary k g = with_group k g (\<lambda>s gr v. (Inr (length (g_pel gr)), v))"

definition set_pent :: "eid \<Rightarrow> pent \<Rightarrow> (eid \<times> pent) list \<Rightarrow> (eid \<times> pent) list" where
  "set_pent i p pel = map (\<lambda>q. if fst q = i then (i, p) else q) pel"

text \<open>
  \<^verbatim>\<open>XCLAIM k g c 0 id [IDLE ms] [RETRYCOUNT n] JUSTID\<close>: the delivery count is only changed
  by \<^verbatim>\<open>RETRYCOUNT\<close>. A pending id whose entry was deleted leaves the pending list.
\<close>

definition d_xclaim_justid ::
  "key \<Rightarrow> string \<Rightarrow> string \<Rightarrow> eid \<Rightarrow> int option \<Rightarrow> nat option \<Rightarrow> (rdb, unit) script" where
  "d_xclaim_justid k g c i idle rc = with_group k g (\<lambda>s gr v.
     let t = int (ms_of v) in
     case map_of (g_pel gr) i of
       None \<Rightarrow> (Inr (), put_group k g s (gr\<lparr>g_cons := touch c t (g_cons gr)\<rparr>) v)
     | Some p \<Rightarrow>
         (if i \<in> fst ` set (s_entries s) then
            (Inr (), put_group k g s (gr\<lparr>g_pel := set_pent i
                \<lparr>p_owner = c, p_time = t - (case idle of None \<Rightarrow> 0 | Some d \<Rightarrow> d),
                 p_count = (case rc of None \<Rightarrow> p_count p | Some n \<Rightarrow> n)\<rparr> (g_pel gr),
                g_cons := touch c t (g_cons gr)\<rparr>) v)
          else (Inr (), put_group k g s (gr\<lparr>g_pel := filter (\<lambda>q. fst q \<noteq> i) (g_pel gr),
                g_cons := touch c t (g_cons gr)\<rparr>) v)))"

text \<open>
  \<^verbatim>\<open>XAUTOCLAIM k g c min-idle cursor COUNT n\<close>: scans at most \<open>10 * n\<close> pending entries
  from the cursor, claims those idle for at least \<open>min-idle\<close> (owner set, idle reset,
  delivery count incremented), drops pending ids whose entry is gone, and stops after \<open>n\<close>
  of both together. Returns the next cursor, what was claimed and what was dropped.
\<close>

fun autoclaim :: "string \<Rightarrow> int \<Rightarrow> int \<Rightarrow> (eid \<times> fields) list \<Rightarrow> nat \<Rightarrow> nat \<Rightarrow> (eid \<times> pent) list
    \<Rightarrow> (eid \<times> pent) list \<times> (eid \<times> fields) list \<times> eid list \<times> (eid \<times> pent) list" where
  "autoclaim c t mi es 0 n pel = (pel, [], [], pel)"
| "autoclaim c t mi es (Suc a) 0 pel = (pel, [], [], pel)"
| "autoclaim c t mi es (Suc a) (Suc n) [] = ([], [], [], [])"
| "autoclaim c t mi es (Suc a) (Suc n) ((i, p) # pel) =
     (case map_of es i of
        None \<Rightarrow>
          (case autoclaim c t mi es a n pel of (out, cl, del, rest) \<Rightarrow> (out, cl, i # del, rest))
      | Some fs \<Rightarrow>
          (if t - p_time p < mi then
             (case autoclaim c t mi es a (Suc n) pel of
                (out, cl, del, rest) \<Rightarrow> ((i, p) # out, cl, del, rest))
           else
             (case autoclaim c t mi es a n pel of
                (out, cl, del, rest) \<Rightarrow>
                  ((i, \<lparr>p_owner = c, p_time = t, p_count = Suc (p_count p)\<rparr>) # out,
                   (i, fs) # cl, del, rest))))"

definition d_xautoclaim ::
  "key \<Rightarrow> string \<Rightarrow> string \<Rightarrow> int \<Rightarrow> eid \<Rightarrow> nat \<Rightarrow> (rdb, eid \<times> (eid \<times> fields) list \<times> eid list) script" where
  "d_xautoclaim k g c mi cur n = with_group k g (\<lambda>s gr v.
     let t = int (ms_of v);
         before = filter (\<lambda>p. fst p < cur) (g_pel gr);
         scan = filter (\<lambda>p. cur \<le> fst p) (g_pel gr)
     in case autoclaim c t mi (s_entries s) (10 * n) n scan of
          (out, cl, del, rest) \<Rightarrow>
            (Inr (case rest of [] \<Rightarrow> (0, 0) | p # _ \<Rightarrow> fst p, cl, del),
             put_group k g s (gr\<lparr>g_pel := before @ out, g_cons := touch c t (g_cons gr)\<rparr>) v))"

text \<open>\<^verbatim>\<open>XINFO CONSUMERS\<close>: name and idle time; \<^verbatim>\<open>XGROUP DELCONSUMER\<close> discards its pending list.\<close>

definition d_xinfo_consumers :: "key \<Rightarrow> string \<Rightarrow> (rdb, (string \<times> int) list) script" where
  "d_xinfo_consumers k g = with_group k g (\<lambda>s gr v.
     (Inr (map (\<lambda>p. (fst p, int (ms_of v) - snd p)) (g_cons gr)), v))"

definition d_delconsumer :: "key \<Rightarrow> string \<Rightarrow> string \<Rightarrow> (rdb, unit) script" where
  "d_delconsumer k g c = with_group k g (\<lambda>s gr v.
     (Inr (), put_group k g s (gr\<lparr>g_pel := filter (\<lambda>p. p_owner (snd p) \<noteq> c) (g_pel gr),
        g_cons := filter (\<lambda>p. fst p \<noteq> c) (g_cons gr)\<rparr>) v))"

lemmas cmd_defs [cmd_simps] =
  d_get_def d_exists_def d_del_def d_set_def d_set_nx_def d_expire_def d_hget_def d_hgetall_def
  d_hset_def d_hincrby_def d_time_def d_zadd_def d_zcard_def d_zrem_def d_zrange_due_def
  d_xadd_def d_xlen_def d_xdel_def d_xrange_def d_xrevrange1_def d_xgroup_create_def
  d_xreadgroup_def d_xack_def d_xpending_def d_xpending_consumer_def d_xpending_summary_def
  d_xclaim_justid_def d_xautoclaim_def d_xinfo_consumers_def d_delconsumer_def
  with_group_def put_group_def put_stream_def put_zset_def drop_key_def
  str_ok_def hash_ok_def zset_ok_def stream_ok_def

section \<open>The service as a parameter\<close>

record 's redis_ops =
  GET :: "key \<Rightarrow> ('s, string option) script"
  EXISTS :: "key \<Rightarrow> ('s, nat) script"
  DEL :: "key \<Rightarrow> ('s, unit) script"
  SET :: "key \<Rightarrow> string \<Rightarrow> ('s, unit) script"
  SET_NX :: "key \<Rightarrow> string \<Rightarrow> nat option \<Rightarrow> ('s, bool) script"
  EXPIRE :: "key \<Rightarrow> nat \<Rightarrow> ('s, unit) script"
  HGET :: "key \<Rightarrow> string \<Rightarrow> ('s, string option) script"
  HGETALL :: "key \<Rightarrow> ('s, string \<rightharpoonup> string) script"
  HSET :: "key \<Rightarrow> fields \<Rightarrow> ('s, unit) script"
  HINCRBY :: "key \<Rightarrow> string \<Rightarrow> int \<Rightarrow> ('s, int) script"
  TIME :: "('s, nat \<times> nat) script"
  ZADD :: "key \<Rightarrow> int \<Rightarrow> string \<Rightarrow> ('s, unit) script"
  ZCARD :: "key \<Rightarrow> ('s, nat) script"
  ZREM :: "key \<Rightarrow> string \<Rightarrow> ('s, unit) script"
  ZRANGE_DUE :: "key \<Rightarrow> int \<Rightarrow> nat \<Rightarrow> ('s, string list) script"
  XADD :: "key \<Rightarrow> string list \<Rightarrow> ('s, eid) script"
  XLEN :: "key \<Rightarrow> ('s, nat) script"
  XDEL :: "key \<Rightarrow> eid \<Rightarrow> ('s, unit) script"
  XRANGE :: "key \<Rightarrow> lower \<Rightarrow> eid option \<Rightarrow> nat option \<Rightarrow> ('s, (eid \<times> fields) list) script"
  XREVRANGE1 :: "key \<Rightarrow> ('s, (eid \<times> fields) option) script"
  XGROUP_CREATE :: "key \<Rightarrow> string \<Rightarrow> ('s, unit) script"
  XREADGROUP :: "key \<Rightarrow> string \<Rightarrow> string \<Rightarrow> nat \<Rightarrow> ('s, (eid \<times> fields) list) script"
  XACK :: "key \<Rightarrow> string \<Rightarrow> eid \<Rightarrow> ('s, unit) script"
  XPENDING :: "key \<Rightarrow> string \<Rightarrow> eid \<Rightarrow> ('s, (string \<times> int \<times> nat) option) script"
  XPENDING_CONSUMER :: "key \<Rightarrow> string \<Rightarrow> string \<Rightarrow> ('s, eid option) script"
  XPENDING_SUMMARY :: "key \<Rightarrow> string \<Rightarrow> ('s, nat) script"
  XCLAIM_JUSTID :: "key \<Rightarrow> string \<Rightarrow> string \<Rightarrow> eid \<Rightarrow> int option \<Rightarrow> nat option \<Rightarrow> ('s, unit) script"
  XAUTOCLAIM :: "key \<Rightarrow> string \<Rightarrow> string \<Rightarrow> int \<Rightarrow> eid \<Rightarrow> nat
    \<Rightarrow> ('s, eid \<times> (eid \<times> fields) list \<times> eid list) script"
  XINFO_CONSUMERS :: "key \<Rightarrow> string \<Rightarrow> ('s, (string \<times> int) list) script"
  DELCONSUMER :: "key \<Rightarrow> string \<Rightarrow> string \<Rightarrow> ('s, unit) script"
  TICK :: "nat \<Rightarrow> ('s, unit) script"
  cjson_encode :: "string list \<Rightarrow> string"
  cjson_decode :: "string \<Rightarrow> string list option"

definition doc_redis :: "(string list \<Rightarrow> string) \<Rightarrow> (string \<Rightarrow> string list option) \<Rightarrow> rdb redis_ops" where
  "doc_redis enc dec = \<lparr>GET = d_get, EXISTS = d_exists, DEL = d_del, SET = d_set,
     SET_NX = d_set_nx, EXPIRE = d_expire, HGET = d_hget, HGETALL = d_hgetall, HSET = d_hset,
     HINCRBY = d_hincrby, TIME = d_time, ZADD = d_zadd, ZCARD = d_zcard, ZREM = d_zrem,
     ZRANGE_DUE = d_zrange_due, XADD = d_xadd, XLEN = d_xlen, XDEL = d_xdel, XRANGE = d_xrange,
     XREVRANGE1 = d_xrevrange1, XGROUP_CREATE = d_xgroup_create, XREADGROUP = d_xreadgroup,
     XACK = d_xack, XPENDING = d_xpending, XPENDING_CONSUMER = d_xpending_consumer,
     XPENDING_SUMMARY = d_xpending_summary, XCLAIM_JUSTID = d_xclaim_justid,
     XAUTOCLAIM = d_xautoclaim, XINFO_CONSUMERS = d_xinfo_consumers,
     DELCONSUMER = d_delconsumer, TICK = d_tick, cjson_encode = enc, cjson_decode = dec\<rparr>"

text \<open>The documented server that uses the same JSON codec as \<open>R\<close>.\<close>

definition doc_of :: "'s redis_ops \<Rightarrow> rdb redis_ops" where
  "doc_of R = doc_redis (cjson_encode R) (cjson_decode R)"

definition refines :: "('s \<Rightarrow> rdb) \<Rightarrow> ('s, 'a) script \<Rightarrow> (rdb, 'a) script \<Rightarrow> bool" where
  "refines view m d \<longleftrightarrow> (\<forall>s. fst (m s) = fst (d (view s)) \<and> view (snd (m s)) = snd (d (view s)))"

lemma refinesD:
  "refines view m d \<Longrightarrow> m s = (r, s') \<Longrightarrow> d (view s) = (r, view s')"
  by (metis fst_conv prod.collapse refines_def snd_conv)

lemma refines_ret [refines_intro]: "refines view (ret x) (ret x)"
  by (simp add: refines_def)

lemma refines_raise [refines_intro]: "refines view (raise e) (raise e)"
  by (simp add: refines_def)

lemma refines_call [refines_intro]:
  assumes "refines view m d" and "\<And>x. refines view (k x) (k' x)"
  shows "refines view (call m k) (call d k')"
proof -
  have "fst (call m k s) = fst (call d k' (view s)) \<and>
        view (snd (call m k s)) = snd (call d k' (view s))" for s
  proof (cases "m s")
    case (Pair r s')
    with assms(1) have d: "d (view s) = (r, view s')" by (rule refinesD)
    show ?thesis using assms(2) d Pair by (cases r) (auto simp: call_def refines_def)
  qed
  then show ?thesis by (simp add: refines_def)
qed

lemma refines_if [refines_intro]:
  "refines view m d \<Longrightarrow> refines view m' d' \<Longrightarrow>
   refines view (if b then m else m') (if b then d else d')"
  by simp

lemma refines_case_option [refines_intro]:
  "refines view m d \<Longrightarrow> (\<And>x. refines view (k x) (k' x)) \<Longrightarrow>
   refines view (case p of None \<Rightarrow> m | Some x \<Rightarrow> k x) (case p of None \<Rightarrow> d | Some x \<Rightarrow> k' x)"
  by (cases p) auto

lemma refines_case_list [refines_intro]:
  "refines view m d \<Longrightarrow> (\<And>x xs. refines view (k x xs) (k' x xs)) \<Longrightarrow>
   refines view (case p of [] \<Rightarrow> m | x # xs \<Rightarrow> k x xs) (case p of [] \<Rightarrow> d | x # xs \<Rightarrow> k' x xs)"
  by (cases p) auto

lemma refines_case_prod [refines_intro]:
  "(\<And>x y. refines view (k x y) (k' x y)) \<Longrightarrow>
   refines view (case p of (x, y) \<Rightarrow> k x y) (case p of (x, y) \<Rightarrow> k' x y)"
  by (cases p) auto

lemma refines_Let [refines_intro]:
  "refines view (k t) (k' t) \<Longrightarrow> refines view (let x = t in k x) (let x = t in k' x)"
  by simp

lemma refines_fold_script [refines_intro]:
  "(\<And>acc x. refines view (f acc x) (f' acc x)) \<Longrightarrow>
   refines view (fold_script f acc xs) (fold_script f' acc xs)"
  by (induction xs arbitrary: acc) (auto intro: refines_intro)

locale redis_service =
  fixes R :: "'s redis_ops" and view :: "'s \<Rightarrow> rdb"
  assumes GET_doc: "refines view (GET R k) (d_get k)"
    and EXISTS_doc: "refines view (EXISTS R k) (d_exists k)"
    and DEL_doc: "refines view (DEL R k) (d_del k)"
    and SET_doc: "refines view (SET R k x) (d_set k x)"
    and SET_NX_doc: "refines view (SET_NX R k x ttl) (d_set_nx k x ttl)"
    and EXPIRE_doc: "refines view (EXPIRE R k n) (d_expire k n)"
    and HGET_doc: "refines view (HGET R k x) (d_hget k x)"
    and HGETALL_doc: "refines view (HGETALL R k) (d_hgetall k)"
    and HSET_doc: "refines view (HSET R k ps) (d_hset k ps)"
    and HINCRBY_doc: "refines view (HINCRBY R k x d) (d_hincrby k x d)"
    and TIME_doc: "refines view (TIME R) d_time"
    and ZADD_doc: "refines view (ZADD R k d x) (d_zadd k d x)"
    and ZCARD_doc: "refines view (ZCARD R k) (d_zcard k)"
    and ZREM_doc: "refines view (ZREM R k x) (d_zrem k x)"
    and ZRANGE_DUE_doc: "refines view (ZRANGE_DUE R k d n) (d_zrange_due k d n)"
    and XADD_doc: "refines view (XADD R k xs) (d_xadd k xs)"
    and XLEN_doc: "refines view (XLEN R k) (d_xlen k)"
    and XDEL_doc: "refines view (XDEL R k i) (d_xdel k i)"
    and XRANGE_doc: "refines view (XRANGE R k lo hi num) (d_xrange k lo hi num)"
    and XREVRANGE1_doc: "refines view (XREVRANGE1 R k) (d_xrevrange1 k)"
    and XGROUP_CREATE_doc: "refines view (XGROUP_CREATE R k g) (d_xgroup_create k g)"
    and XREADGROUP_doc: "refines view (XREADGROUP R k g x n) (d_xreadgroup k g x n)"
    and XACK_doc: "refines view (XACK R k g i) (d_xack k g i)"
    and XPENDING_doc: "refines view (XPENDING R k g i) (d_xpending k g i)"
    and XPENDING_CONSUMER_doc:
      "refines view (XPENDING_CONSUMER R k g x) (d_xpending_consumer k g x)"
    and XPENDING_SUMMARY_doc: "refines view (XPENDING_SUMMARY R k g) (d_xpending_summary k g)"
    and XCLAIM_JUSTID_doc:
      "refines view (XCLAIM_JUSTID R k g x i idle rc) (d_xclaim_justid k g x i idle rc)"
    and XAUTOCLAIM_doc: "refines view (XAUTOCLAIM R k g x d i n) (d_xautoclaim k g x d i n)"
    and XINFO_CONSUMERS_doc: "refines view (XINFO_CONSUMERS R k g) (d_xinfo_consumers k g)"
    and DELCONSUMER_doc: "refines view (DELCONSUMER R k g x) (d_delconsumer k g x)"
    and TICK_doc: "refines view (TICK R n) (d_tick n)"
    and cjson_roundtrip: "xs \<noteq> [] \<Longrightarrow> cjson_decode R (cjson_encode R xs) = Some xs"
begin

lemmas command_docs =
  GET_doc EXISTS_doc DEL_doc SET_doc SET_NX_doc EXPIRE_doc HGET_doc HGETALL_doc HSET_doc
  HINCRBY_doc TIME_doc ZADD_doc ZCARD_doc ZREM_doc ZRANGE_DUE_doc XADD_doc XLEN_doc XDEL_doc
  XRANGE_doc XREVRANGE1_doc XGROUP_CREATE_doc XREADGROUP_doc XACK_doc XPENDING_doc
  XPENDING_CONSUMER_doc XPENDING_SUMMARY_doc XCLAIM_JUSTID_doc XAUTOCLAIM_doc
  XINFO_CONSUMERS_doc DELCONSUMER_doc TICK_doc

end

end
