(* ===== verification/Redis_Instance.thy ===== *)
theory Redis_Instance
  imports Redis_Service
begin

text \<open>
  A server that meets the documented behaviour: the documented store itself, with a codec for
  JSON arrays of strings. It shows that the hypotheses of \<open>redis_service\<close> can hold, and the
  witnesses of the properties run on it.
\<close>

fun esc :: "string \<Rightarrow> string" where
  "esc [] = []"
| "esc (c # cs) = (if c = CHR 0x22 \<or> c = CHR 0x5C then CHR 0x5C # c # esc cs else c # esc cs)"

fun enc_items :: "string list \<Rightarrow> string" where
  "enc_items [] = '']''"
| "enc_items [s] = CHR 0x22 # esc s @ [CHR 0x22, CHR '']'']"
| "enc_items (s # t # ss) = CHR 0x22 # esc s @ CHR 0x22 # CHR '','' # enc_items (t # ss)"

definition enc_strs :: "string list \<Rightarrow> string" where
  "enc_strs ss = CHR ''['' # enc_items ss"

fun dec_str :: "string \<Rightarrow> (string \<times> string) option" where
  "dec_str [] = None"
| "dec_str (c # cs) =
     (if c = CHR 0x22 then Some ([], cs)
      else if c = CHR 0x5C then
        (case cs of [] \<Rightarrow> None
         | d # ds \<Rightarrow> map_option (\<lambda>p. (d # fst p, snd p)) (dec_str ds))
      else map_option (\<lambda>p. (c # fst p, snd p)) (dec_str cs))"

fun dec_items :: "nat \<Rightarrow> string \<Rightarrow> string list option" where
  "dec_items (Suc n) (q # r) =
     (if q = CHR 0x22 then
        (case dec_str r of
           Some (s, c # r') \<Rightarrow>
             (if c = CHR '']'' then (if r' = [] then Some [s] else None)
              else if c = CHR '','' then map_option ((#) s) (dec_items n r')
              else None)
         | _ \<Rightarrow> None)
      else None)"
| "dec_items _ _ = None"

definition dec_strs :: "string \<Rightarrow> string list option" where
  "dec_strs t = (case t of [] \<Rightarrow> None | c # r \<Rightarrow>
     (if c = CHR ''['' then (if r = '']'' then Some [] else dec_items (length r) r) else None))"

lemma dec_str_esc [simp]: "dec_str (esc s @ CHR 0x22 # r) = Some (s, r)"
  by (induction s) auto

lemma dec_items_enc:
  "ss \<noteq> [] \<Longrightarrow> length (enc_items ss) \<le> n \<Longrightarrow> dec_items n (enc_items ss) = Some ss"
proof (induction ss arbitrary: n rule: enc_items.induct)
  case (2 s)
  then show ?case by (cases n) auto
next
  case (3 s t ss)
  then show ?case by (cases n) auto
qed simp

lemma dec_strs_enc_strs: "dec_strs (enc_strs ss) = Some ss"
proof (cases "ss = []")
  case False
  then have "enc_items ss \<noteq> '']''" by (cases ss rule: enc_items.cases) auto
  with False show ?thesis by (simp add: dec_strs_def enc_strs_def dec_items_enc)
qed (simp add: dec_strs_def enc_strs_def)

definition json_redis :: "rdb redis_ops" where
  "json_redis = doc_redis enc_strs dec_strs"

lemma refines_id [simp]: "refines id m m"
  by (simp add: refines_def)

interpretation json_server: redis_service json_redis id
  by unfold_locales (simp_all add: json_redis_def doc_redis_def dec_strs_enc_strs)

lemma doc_of_json_redis [simp]: "doc_of json_redis = json_redis"
  by (simp add: doc_of_def json_redis_def doc_redis_def)

end
