(* ===== verification/Lua_Scripts.thy ===== *)
theory Lua_Scripts
  imports Redis_Instance
begin

text \<open>
  The ten Lua scripts of \<^verbatim>\<open>src/ftq/scripts/\<close>, one definition each, command by command and
  branch by branch over an arbitrary server \<open>R\<close>. The arguments \<open>k1\<close>, \<open>k2\<close>, \<dots> are
  \<^verbatim>\<open>KEYS[1]\<close>, \<^verbatim>\<open>KEYS[2]\<close>, \<dots>; the others are \<^verbatim>\<open>ARGV\<close> in order, with the ones Lua
  converts by \<^verbatim>\<open>tonumber\<close> as numbers. A script runs to completion as one step.
\<close>

definition now_ms :: "'s redis_ops \<Rightarrow> ('s, nat) script" where
  "now_ms R = call (TIME R) (\<lambda>t. ret (fst t * 1000 + snd t div 1000))"

text \<open>An id that was stored as text and is passed to a stream command again.\<close>

definition as_eid :: "string \<Rightarrow> ('s, eid) script" where
  "as_eid t = (case eid_of t of None \<Rightarrow> raise BadId | Some i \<Rightarrow> ret i)"

section \<open>enqueue.lua\<close>

definition enqueue_lua ::
  "'s redis_ops \<Rightarrow> key \<Rightarrow> key \<Rightarrow> key \<Rightarrow> key \<Rightarrow> key option \<Rightarrow> string \<Rightarrow> nat \<Rightarrow> int \<Rightarrow> int \<Rightarrow> string
     \<Rightarrow> string list \<Rightarrow> ('s, string \<times> int \<times> int) script" where
  "enqueue_lua R k1 k2 k3 k4 k5 job_id idem_ttl high low count_as job_fields =
     call (case k5 of None \<Rightarrow> ret None | Some k \<Rightarrow> GET R k) (\<lambda>original.
     case original of
       Some orig \<Rightarrow> ret (orig, 0, - 1)
     | None \<Rightarrow>
     call (XLEN R k1) (\<lambda>xlen.
     call (ZCARD R k2) (\<lambda>zcard.
     let depth = int (xlen + zcard) in
     call (EXISTS R k3) (\<lambda>ex.
     let was_full = (ex = 1) in
     call (if was_full \<and> depth < low then call (DEL R k3) (\<lambda>_. ret False)
           else if \<not> was_full \<and> depth \<ge> high then call (SET R k3 ''1'') (\<lambda>_. ret True)
           else ret was_full) (\<lambda>is_full.
     if is_full then
       call (if count_as \<noteq> ''none'' then call (HINCRBY R k4 count_as 1) (\<lambda>_. ret ()) else ret ())
         (\<lambda>_. ret ('''', - 1, depth))
     else
       call (case k5 of None \<Rightarrow> ret True | Some k \<Rightarrow> SET_NX R k job_id (Some idem_ttl)) (\<lambda>_.
       call (now_ms R) (\<lambda>now.
       call (XADD R k1 (job_fields @ [''enqueued_at_ms'', str_nat now])) (\<lambda>_.
       ret (job_id, 1, depth + 1)))))))))"

section \<open>commit.lua\<close>

definition commit_lua ::
  "'s redis_ops \<Rightarrow> key \<Rightarrow> key \<Rightarrow> key \<Rightarrow> key \<Rightarrow> key \<Rightarrow> string \<Rightarrow> eid \<Rightarrow> string \<Rightarrow> string \<Rightarrow> int
     \<Rightarrow> string \<Rightarrow> string \<Rightarrow> ('s, int) script" where
  "commit_lua R k1 k2 k3 k4 k5 g i job_id result ttl worker enq =
     call (HGET R k2 ''state'') (\<lambda>state.
     if state = Some ''SUCCEEDED'' then
       call (XACK R k1 g i) (\<lambda>_.
       call (XDEL R k1 i) (\<lambda>_.
       call (HINCRBY R k4 ''duplicates_suppressed'' 1) (\<lambda>_.
       ret 0)))
     else
       call (if state = Some ''DEAD'' then
               call (HGET R k2 ''dead_entry_id'') (\<lambda>dead_id.
               call (case dead_id of None \<Rightarrow> ret ()
                     | Some d \<Rightarrow> call (as_eid d) (\<lambda>di. XDEL R k5 di)) (\<lambda>_.
               call (DEL R k2) (\<lambda>_.
               call (HINCRBY R k4 ''late_successes'' 1) (\<lambda>_.
               ret 2))))
             else ret 1) (\<lambda>outcome.
       call (now_ms R) (\<lambda>now.
       call (HSET R k2 [(''state'', ''SUCCEEDED''), (''result'', result),
                        (''finished_at_ms'', str_nat now), (''worker_id'', worker)]) (\<lambda>_.
       call (if ttl > 0 then EXPIRE R k2 (nat ttl) else ret ()) (\<lambda>_.
       call (XADD R k3 [''job_id'', job_id, ''worker_id'', worker,
                        ''enqueued_at_ms'', enq, ''finished_at_ms'', str_nat now]) (\<lambda>_.
       call (XACK R k1 g i) (\<lambda>_.
       call (XDEL R k1 i) (\<lambda>_.
       call (HINCRBY R k4 ''processed'' 1) (\<lambda>_.
       ret outcome)))))))))"

section \<open>heartbeat.lua\<close>

definition heartbeat_lua ::
  "'s redis_ops \<Rightarrow> key \<Rightarrow> key \<Rightarrow> string \<Rightarrow> eid \<Rightarrow> string \<Rightarrow> ('s, string) script" where
  "heartbeat_lua R k1 k2 g i worker =
     call (XPENDING R k1 g i) (\<lambda>p.
     if (case p of None \<Rightarrow> True | Some (owner, _, _) \<Rightarrow> owner \<noteq> worker) then
       call (HINCRBY R k2 ''lease_lost'' 1) (\<lambda>_. ret ''LEASE_LOST'')
     else
       call (XCLAIM_JUSTID R k1 g worker i None None) (\<lambda>_.
       call (HINCRBY R k2 ''heartbeats'' 1) (\<lambda>_.
       ret ''OK'')))"

section \<open>retry.lua\<close>

text \<open>The loop that replaces the value of every field named \<^verbatim>\<open>attempt\<close>.\<close>

fun set_attempt :: "string \<Rightarrow> string list \<Rightarrow> string list" where
  "set_attempt a (n # v # rest) = n # (if n = ''attempt'' then a else v) # set_attempt a rest"
| "set_attempt a rest = rest"

definition drop_entry :: "'s redis_ops \<Rightarrow> key \<Rightarrow> string \<Rightarrow> eid \<Rightarrow> key \<Rightarrow> ('s, string) script" where
  "drop_entry R k1 g i stats =
     call (XACK R k1 g i) (\<lambda>_.
     call (XDEL R k1 i) (\<lambda>_.
     call (HINCRBY R stats ''duplicates_suppressed'' 1) (\<lambda>_.
     ret ''TERMINAL'')))"

definition retry_lua ::
  "'s redis_ops \<Rightarrow> key \<Rightarrow> key \<Rightarrow> key \<Rightarrow> key \<Rightarrow> string \<Rightarrow> eid \<Rightarrow> string \<Rightarrow> string \<Rightarrow> int \<Rightarrow> bool
     \<Rightarrow> ('s, string) script" where
  "retry_lua R k1 k2 k3 k4 g i worker next_attempt delay timed_out =
     call (XPENDING R k1 g i) (\<lambda>p.
     if (case p of None \<Rightarrow> True | Some (owner, _, _) \<Rightarrow> owner \<noteq> worker) then
       call (HINCRBY R k4 ''lease_lost'' 1) (\<lambda>_. ret ''LEASE_LOST'')
     else
       call (HGET R k3 ''state'') (\<lambda>state.
       if state \<noteq> None then drop_entry R k1 g i k4
       else
         call (XRANGE R k1 (Incl i) (Some i) None) (\<lambda>entry.
         case entry of
           [] \<Rightarrow> raise (ErrorReply (''ENTRY_MISSING '' @ eid_str i))
         | e # _ \<Rightarrow>
             let fs = set_attempt next_attempt (flat_of (snd e)) in
             call (now_ms R) (\<lambda>now.
             call (ZADD R k2 (int now + delay) (cjson_encode R fs)) (\<lambda>_.
             call (XACK R k1 g i) (\<lambda>_.
             call (XDEL R k1 i) (\<lambda>_.
             call (HINCRBY R k4 ''retried'' 1) (\<lambda>_.
             call (if timed_out then call (HINCRBY R k4 ''timeouts'' 1) (\<lambda>_. ret ())
                   else ret ()) (\<lambda>_.
             ret ''OK'')))))))))"

section \<open>dead.lua\<close>

definition dead_lua ::
  "'s redis_ops \<Rightarrow> key \<Rightarrow> key \<Rightarrow> key \<Rightarrow> key \<Rightarrow> string \<Rightarrow> eid \<Rightarrow> string \<Rightarrow> string \<Rightarrow> string \<Rightarrow> string
     \<Rightarrow> string \<Rightarrow> bool \<Rightarrow> ('s, string) script" where
  "dead_lua R k1 k2 k3 k4 g i worker job_id reason error attempts timed_out =
     call (XPENDING R k1 g i) (\<lambda>p.
     case p of
       None \<Rightarrow> call (HINCRBY R k4 ''lease_lost'' 1) (\<lambda>_. ret ''LEASE_LOST'')
     | Some (owner, _, deliveries) \<Rightarrow>
     if owner \<noteq> worker then
       call (HINCRBY R k4 ''lease_lost'' 1) (\<lambda>_. ret ''LEASE_LOST'')
     else
       call (HGET R k3 ''state'') (\<lambda>state.
       if state \<noteq> None then drop_entry R k1 g i k4
       else
         call (XRANGE R k1 (Incl i) (Some i) None) (\<lambda>entry.
         let fs = (case entry of [] \<Rightarrow> [] | e # _ \<Rightarrow> flat_of (snd e)) in
         call (now_ms R) (\<lambda>now.
         let meta = [''dlq_job_id'', job_id, ''dlq_reason'', reason, ''dlq_error'', error,
                     ''dlq_attempts'', attempts, ''dlq_deliveries'', str_nat deliveries,
                     ''dlq_dead_at_ms'', str_nat now, ''dlq_worker_id'', worker,
                     ''dlq_source_entry_id'', eid_str i] in
         call (XADD R k2 (fs @ meta)) (\<lambda>dead_id.
         call (HSET R k3 [(''state'', ''DEAD''), (''dead_entry_id'', eid_str dead_id),
                          (''reason'', reason), (''error'', error),
                          (''finished_at_ms'', str_nat now), (''worker_id'', worker)]) (\<lambda>_.
         call (XACK R k1 g i) (\<lambda>_.
         call (XDEL R k1 i) (\<lambda>_.
         call (HINCRBY R k4 ''dead'' 1) (\<lambda>_.
         call (if timed_out then call (HINCRBY R k4 ''timeouts'' 1) (\<lambda>_. ret ()) else ret ()) (\<lambda>_.
         ret ''OK''))))))))))"

section \<open>schedule.lua\<close>

definition schedule_lua ::
  "'s redis_ops \<Rightarrow> key \<Rightarrow> key \<Rightarrow> key \<Rightarrow> nat \<Rightarrow> ('s, nat) script" where
  "schedule_lua R k1 k2 k3 limit =
     call (now_ms R) (\<lambda>now.
     call (ZRANGE_DUE R k1 (int now) limit) (\<lambda>due.
     call (fold_script (\<lambda>_ member.
             call (ZREM R k1 member) (\<lambda>_.
             case cjson_decode R member of
               None \<Rightarrow> raise (ErrorReply ''cjson'')
             | Some fs \<Rightarrow> call (XADD R k2 fs) (\<lambda>_. ret ()))) () due) (\<lambda>_.
     call (if due \<noteq> [] then call (HINCRBY R k3 ''scheduled'' (int (length due))) (\<lambda>_. ret ())
           else ret ()) (\<lambda>_.
     ret (length due)))))"

section \<open>reclaim.lua\<close>

definition reclaim_one ::
  "'s redis_ops \<Rightarrow> key \<Rightarrow> key \<Rightarrow> string \<Rightarrow> string \<Rightarrow> int \<Rightarrow> int \<Rightarrow> int
     \<Rightarrow> int \<times> (eid \<times> string list \<times> nat) list \<Rightarrow> eid \<times> fields
     \<Rightarrow> ('s, int \<times> (eid \<times> string list \<times> nat) list) script" where
  "reclaim_one R k1 k3 g worker min_idle threshold max_del acc e =
     (case acc of (slots, out) \<Rightarrow>
     call (XPENDING R k1 g (fst e)) (\<lambda>p.
     case p of
       None \<Rightarrow> raise (ErrorReply ''attempt to index a nil value'')
     | Some (_, _, deliveries) \<Rightarrow>
         let suspect = (int deliveries \<ge> threshold \<and> int deliveries \<le> max_del) in
         if suspect \<and> slots = 0 then
           call (XCLAIM_JUSTID R k1 g worker (fst e) (Some min_idle) (Some (deliveries - 1)))
             (\<lambda>_. ret (slots, out))
         else
           call (HINCRBY R k3 (str_nat deliveries) 1) (\<lambda>_.
           ret (if suspect then slots - 1 else slots,
                out @ [(fst e, flat_of (snd e), deliveries)]))))"

definition reclaim_lua ::
  "'s redis_ops \<Rightarrow> key \<Rightarrow> key \<Rightarrow> key \<Rightarrow> string \<Rightarrow> string \<Rightarrow> int \<Rightarrow> eid \<Rightarrow> nat \<Rightarrow> int \<Rightarrow> int \<Rightarrow> int
     \<Rightarrow> ('s, eid \<times> (eid \<times> string list \<times> nat) list \<times> eid list) script" where
  "reclaim_lua R k1 k2 k3 g worker min_idle cursor n slots threshold max_del =
     call (XAUTOCLAIM R k1 g worker min_idle cursor n) (\<lambda>r.
     case r of (cursor', claimed, deleted) \<Rightarrow>
     call (fold_script (reclaim_one R k1 k3 g worker min_idle threshold max_del) (slots, []) claimed)
       (\<lambda>acc.
     let out = snd acc in
     call (if out \<noteq> [] then call (HINCRBY R k2 ''reclaimed'' (int (length out))) (\<lambda>_. ret ())
           else ret ()) (\<lambda>_.
     ret (cursor', out, deleted))))"

section \<open>prune\_consumers.lua\<close>

definition prune_one ::
  "'s redis_ops \<Rightarrow> key \<Rightarrow> string \<Rightarrow> int \<Rightarrow> string \<Rightarrow> string list \<Rightarrow> string \<times> int
     \<Rightarrow> ('s, string list) script" where
  "prune_one R k1 g min_idle self deleted c =
     (case c of (name, idle) \<Rightarrow>
      if name \<noteq> self \<and> idle \<ge> min_idle then
        call (XPENDING_CONSUMER R k1 g name) (\<lambda>owned.
        if owned = None then
          call (DELCONSUMER R k1 g name) (\<lambda>_. ret (deleted @ [name]))
        else ret deleted)
      else ret deleted)"

definition prune_consumers_lua ::
  "'s redis_ops \<Rightarrow> key \<Rightarrow> key \<Rightarrow> string \<Rightarrow> int \<Rightarrow> string \<Rightarrow> ('s, string list) script" where
  "prune_consumers_lua R k1 k2 g min_idle self =
     call (XINFO_CONSUMERS R k1 g) (\<lambda>consumers.
     call (fold_script (prune_one R k1 g min_idle self) [] consumers) (\<lambda>deleted.
     call (if deleted \<noteq> [] then
             call (HINCRBY R k2 ''consumers_pruned'' (int (length deleted))) (\<lambda>_. ret ())
           else ret ()) (\<lambda>_.
     ret deleted)))"

section \<open>requeue.lua\<close>

fun strip_dlq :: "string list \<Rightarrow> string list" where
  "strip_dlq (n # v # rest) =
     (if take 4 n \<noteq> ''dlq_'' then n # (if n = ''attempt'' then ''0'' else v) # strip_dlq rest
      else strip_dlq rest)"
| "strip_dlq rest = []"

definition requeue_lua ::
  "'s redis_ops \<Rightarrow> key \<Rightarrow> key \<Rightarrow> key \<Rightarrow> key \<Rightarrow> string \<Rightarrow> ('s, int) script" where
  "requeue_lua R k1 k2 k3 k4 job_id =
     call (HGET R k3 ''state'') (\<lambda>state.
     if state \<noteq> Some ''DEAD'' then ret 0
     else
       call (HGET R k3 ''dead_entry_id'') (\<lambda>dead_id.
       case dead_id of
         None \<Rightarrow> raise (ErrorReply ''command arguments must be strings or integers'')
       | Some d \<Rightarrow>
           call (as_eid d) (\<lambda>di.
           call (XRANGE R k1 (Incl di) (Some di) None) (\<lambda>entry.
           case entry of
             [] \<Rightarrow> ret 0
           | e # _ \<Rightarrow>
               let fs = strip_dlq (flat_of (snd e)) in
               if fs = [] then raise (ErrorReply (''NOTHING_TO_REQUEUE '' @ job_id))
               else
                 call (XADD R k2 fs) (\<lambda>_.
                 call (XDEL R k1 di) (\<lambda>_.
                 call (DEL R k3) (\<lambda>_.
                 call (HINCRBY R k4 ''requeued'' 1) (\<lambda>_.
                 ret 1))))))))"

section \<open>ledger.lua\<close>

definition ledger_lua ::
  "'s redis_ops \<Rightarrow> key \<Rightarrow> key \<Rightarrow> key \<Rightarrow> string \<Rightarrow> int \<Rightarrow> string list \<Rightarrow> ('s, int) script" where
  "ledger_lua R k1 k2 k3 effect_key ttl extra =
     call (if ttl > 0 then SET_NX R k1 ''1'' (Some (nat ttl)) else SET_NX R k1 ''1'' None)
       (\<lambda>claimed.
     if \<not> claimed then
       call (HINCRBY R k3 ''effects_suppressed'' 1) (\<lambda>_. ret 0)
     else
       call (XADD R k2 ([''key'', effect_key] @ extra)) (\<lambda>_.
       call (HINCRBY R k3 ''effects_applied'' 1) (\<lambda>_.
       ret 1)))"

lemmas script_defs = enqueue_lua_def commit_lua_def heartbeat_lua_def retry_lua_def dead_lua_def
  schedule_lua_def reclaim_lua_def reclaim_one_def prune_consumers_lua_def prune_one_def
  requeue_lua_def ledger_lua_def drop_entry_def now_ms_def as_eid_def

section \<open>A documented server determines every script\<close>

lemma doc_of_cjson [simp]:
  "cjson_encode (doc_of R) = cjson_encode R" "cjson_decode (doc_of R) = cjson_decode R"
  by (simp_all add: doc_of_def doc_redis_def)

context redis_service
begin

lemma doc_of_refines:
  shows "refines view (GET R k) (GET (doc_of R) k)"
    and "refines view (EXISTS R k) (EXISTS (doc_of R) k)"
    and "refines view (DEL R k) (DEL (doc_of R) k)"
    and "refines view (SET R k x) (SET (doc_of R) k x)"
    and "refines view (SET_NX R k x ttl) (SET_NX (doc_of R) k x ttl)"
    and "refines view (EXPIRE R k n) (EXPIRE (doc_of R) k n)"
    and "refines view (HGET R k x) (HGET (doc_of R) k x)"
    and "refines view (HGETALL R k) (HGETALL (doc_of R) k)"
    and "refines view (HSET R k ps) (HSET (doc_of R) k ps)"
    and "refines view (HINCRBY R k x d) (HINCRBY (doc_of R) k x d)"
    and "refines view (TIME R) (TIME (doc_of R))"
    and "refines view (ZADD R k d x) (ZADD (doc_of R) k d x)"
    and "refines view (ZCARD R k) (ZCARD (doc_of R) k)"
    and "refines view (ZREM R k x) (ZREM (doc_of R) k x)"
    and "refines view (ZRANGE_DUE R k d n) (ZRANGE_DUE (doc_of R) k d n)"
    and "refines view (XADD R k xs) (XADD (doc_of R) k xs)"
    and "refines view (XLEN R k) (XLEN (doc_of R) k)"
    and "refines view (XDEL R k i) (XDEL (doc_of R) k i)"
    and "refines view (XRANGE R k lo hi num) (XRANGE (doc_of R) k lo hi num)"
    and "refines view (XREVRANGE1 R k) (XREVRANGE1 (doc_of R) k)"
    and "refines view (XGROUP_CREATE R k g) (XGROUP_CREATE (doc_of R) k g)"
    and "refines view (XREADGROUP R k g x n) (XREADGROUP (doc_of R) k g x n)"
    and "refines view (XACK R k g i) (XACK (doc_of R) k g i)"
    and "refines view (XPENDING R k g i) (XPENDING (doc_of R) k g i)"
    and "refines view (XPENDING_CONSUMER R k g x) (XPENDING_CONSUMER (doc_of R) k g x)"
    and "refines view (XPENDING_SUMMARY R k g) (XPENDING_SUMMARY (doc_of R) k g)"
    and "refines view (XCLAIM_JUSTID R k g x i idle rc) (XCLAIM_JUSTID (doc_of R) k g x i idle rc)"
    and "refines view (XAUTOCLAIM R k g x d i n) (XAUTOCLAIM (doc_of R) k g x d i n)"
    and "refines view (XINFO_CONSUMERS R k g) (XINFO_CONSUMERS (doc_of R) k g)"
    and "refines view (DELCONSUMER R k g x) (DELCONSUMER (doc_of R) k g x)"
    and "refines view (TICK R n) (TICK (doc_of R) n)"
  by (simp_all add: doc_of_def doc_redis_def command_docs)

declare doc_of_refines [refines_intro]

lemma now_ms_doc [refines_intro]: "refines view (now_ms R) (now_ms (doc_of R))"
  unfolding now_ms_def by (intro refines_intro)

lemma as_eid_doc [refines_intro]: "refines view (as_eid t) (as_eid t)"
  unfolding as_eid_def by (intro refines_intro)

lemma drop_entry_doc [refines_intro]:
  "refines view (drop_entry R k g i k') (drop_entry (doc_of R) k g i k')"
  unfolding drop_entry_def by (intro refines_intro)

lemma enqueue_doc [refines_intro]: "refines view (enqueue_lua R k1 k2 k3 k4 k5 j t h l c fs)
    (enqueue_lua (doc_of R) k1 k2 k3 k4 k5 j t h l c fs)"
  unfolding enqueue_lua_def by (intro refines_intro)

lemma commit_doc [refines_intro]: "refines view (commit_lua R k1 k2 k3 k4 k5 g i j x t w e)
    (commit_lua (doc_of R) k1 k2 k3 k4 k5 g i j x t w e)"
  unfolding commit_lua_def by (intro refines_intro)

lemma heartbeat_doc [refines_intro]: "refines view (heartbeat_lua R k1 k2 g i w)
    (heartbeat_lua (doc_of R) k1 k2 g i w)"
  unfolding heartbeat_lua_def by (intro refines_intro)

lemma retry_doc [refines_intro]: "refines view (retry_lua R k1 k2 k3 k4 g i w a d t)
    (retry_lua (doc_of R) k1 k2 k3 k4 g i w a d t)"
  unfolding retry_lua_def doc_of_cjson by (intro refines_intro)

lemma dead_doc [refines_intro]: "refines view (dead_lua R k1 k2 k3 k4 g i w j r e a t)
    (dead_lua (doc_of R) k1 k2 k3 k4 g i w j r e a t)"
  unfolding dead_lua_def by (intro refines_intro)

lemma schedule_doc [refines_intro]: "refines view (schedule_lua R k1 k2 k3 n)
    (schedule_lua (doc_of R) k1 k2 k3 n)"
  unfolding schedule_lua_def doc_of_cjson by (intro refines_intro)

lemma reclaim_doc [refines_intro]: "refines view (reclaim_lua R k1 k2 k3 g w mi c n sl th md)
    (reclaim_lua (doc_of R) k1 k2 k3 g w mi c n sl th md)"
  unfolding reclaim_lua_def reclaim_one_def by (intro refines_intro)

lemma prune_doc [refines_intro]: "refines view (prune_consumers_lua R k1 k2 g mi w)
    (prune_consumers_lua (doc_of R) k1 k2 g mi w)"
  unfolding prune_consumers_lua_def prune_one_def by (intro refines_intro)

lemma requeue_doc [refines_intro]: "refines view (requeue_lua R k1 k2 k3 k4 j)
    (requeue_lua (doc_of R) k1 k2 k3 k4 j)"
  unfolding requeue_lua_def by (intro refines_intro)

lemma ledger_doc [refines_intro]: "refines view (ledger_lua R k1 k2 k3 e t xs)
    (ledger_lua (doc_of R) k1 k2 k3 e t xs)"
  unfolding ledger_lua_def by (intro refines_intro)

end

end
