(* ===== verification/Queue_Keys.thy ===== *)
theory Queue_Keys
  imports Redis_Service
begin

text \<open>
  The Redis key names of one queue (\<^verbatim>\<open>src/ftq/keys.py\<close>), the rule for queue names
  (\<^verbatim>\<open>_QUEUE_NAME\<close> in \<^verbatim>\<open>src/ftq/config.py\<close>), and that no two roles share a key: neither
  inside one queue nor across queues with different names.
\<close>

section \<open>Key names\<close>

record keys =
  queue :: string

definition key_prefix :: "keys \<Rightarrow> string" where
  "key_prefix K = ''ftq:{'' @ queue K @ ''}''"

definition stream_key :: "keys \<Rightarrow> key" where
  "stream_key K = key_prefix K @ '':stream''"

definition delayed_key :: "keys \<Rightarrow> key" where
  "delayed_key K = key_prefix K @ '':delayed''"

definition dead_key :: "keys \<Rightarrow> key" where
  "dead_key K = key_prefix K @ '':dead''"

definition results_key :: "keys \<Rightarrow> key" where
  "results_key K = key_prefix K @ '':results''"

definition effects_key :: "keys \<Rightarrow> key" where
  "effects_key K = key_prefix K @ '':effects''"

definition full_key :: "keys \<Rightarrow> key" where
  "full_key K = key_prefix K @ '':full''"

definition reclaims_key :: "keys \<Rightarrow> key" where
  "reclaims_key K = key_prefix K @ '':reclaims''"

definition stats_key :: "keys \<Rightarrow> key" where
  "stats_key K = key_prefix K @ '':stats''"

definition done_key :: "keys \<Rightarrow> string \<Rightarrow> key" where
  "done_key K x = key_prefix K @ '':done:'' @ x"

definition idem_key :: "keys \<Rightarrow> string \<Rightarrow> key" where
  "idem_key K x = key_prefix K @ '':idem:'' @ x"

definition ledger_key :: "keys \<Rightarrow> string \<Rightarrow> key" where
  "ledger_key K x = key_prefix K @ '':ledger:'' @ x"

lemmas key_defs = key_prefix_def
  stream_key_def delayed_key_def dead_key_def results_key_def effects_key_def full_key_def reclaims_key_def stats_key_def done_key_def idem_key_def ledger_key_def

lemma keys_distinct [simp, key_simps]:
  shows "stream_key K \<noteq> delayed_key K" and "stream_key K \<noteq> dead_key K"
    and "stream_key K \<noteq> results_key K" and "stream_key K \<noteq> effects_key K"
    and "stream_key K \<noteq> full_key K" and "stream_key K \<noteq> reclaims_key K"
    and "stream_key K \<noteq> stats_key K" and "stream_key K \<noteq> done_key K y"
    and "stream_key K \<noteq> idem_key K y" and "stream_key K \<noteq> ledger_key K y"
    and "delayed_key K \<noteq> stream_key K" and "delayed_key K \<noteq> dead_key K"
    and "delayed_key K \<noteq> results_key K" and "delayed_key K \<noteq> effects_key K"
    and "delayed_key K \<noteq> full_key K" and "delayed_key K \<noteq> reclaims_key K"
    and "delayed_key K \<noteq> stats_key K" and "delayed_key K \<noteq> done_key K y"
    and "delayed_key K \<noteq> idem_key K y" and "delayed_key K \<noteq> ledger_key K y"
    and "dead_key K \<noteq> stream_key K" and "dead_key K \<noteq> delayed_key K"
    and "dead_key K \<noteq> results_key K" and "dead_key K \<noteq> effects_key K"
    and "dead_key K \<noteq> full_key K" and "dead_key K \<noteq> reclaims_key K"
    and "dead_key K \<noteq> stats_key K" and "dead_key K \<noteq> done_key K y"
    and "dead_key K \<noteq> idem_key K y" and "dead_key K \<noteq> ledger_key K y"
    and "results_key K \<noteq> stream_key K" and "results_key K \<noteq> delayed_key K"
    and "results_key K \<noteq> dead_key K" and "results_key K \<noteq> effects_key K"
    and "results_key K \<noteq> full_key K" and "results_key K \<noteq> reclaims_key K"
    and "results_key K \<noteq> stats_key K" and "results_key K \<noteq> done_key K y"
    and "results_key K \<noteq> idem_key K y" and "results_key K \<noteq> ledger_key K y"
    and "effects_key K \<noteq> stream_key K" and "effects_key K \<noteq> delayed_key K"
    and "effects_key K \<noteq> dead_key K" and "effects_key K \<noteq> results_key K"
    and "effects_key K \<noteq> full_key K" and "effects_key K \<noteq> reclaims_key K"
    and "effects_key K \<noteq> stats_key K" and "effects_key K \<noteq> done_key K y"
    and "effects_key K \<noteq> idem_key K y" and "effects_key K \<noteq> ledger_key K y"
    and "full_key K \<noteq> stream_key K" and "full_key K \<noteq> delayed_key K"
    and "full_key K \<noteq> dead_key K" and "full_key K \<noteq> results_key K"
    and "full_key K \<noteq> effects_key K" and "full_key K \<noteq> reclaims_key K"
    and "full_key K \<noteq> stats_key K" and "full_key K \<noteq> done_key K y"
    and "full_key K \<noteq> idem_key K y" and "full_key K \<noteq> ledger_key K y"
    and "reclaims_key K \<noteq> stream_key K" and "reclaims_key K \<noteq> delayed_key K"
    and "reclaims_key K \<noteq> dead_key K" and "reclaims_key K \<noteq> results_key K"
    and "reclaims_key K \<noteq> effects_key K" and "reclaims_key K \<noteq> full_key K"
    and "reclaims_key K \<noteq> stats_key K" and "reclaims_key K \<noteq> done_key K y"
    and "reclaims_key K \<noteq> idem_key K y" and "reclaims_key K \<noteq> ledger_key K y"
    and "stats_key K \<noteq> stream_key K" and "stats_key K \<noteq> delayed_key K"
    and "stats_key K \<noteq> dead_key K" and "stats_key K \<noteq> results_key K"
    and "stats_key K \<noteq> effects_key K" and "stats_key K \<noteq> full_key K"
    and "stats_key K \<noteq> reclaims_key K" and "stats_key K \<noteq> done_key K y"
    and "stats_key K \<noteq> idem_key K y" and "stats_key K \<noteq> ledger_key K y"
    and "done_key K x \<noteq> stream_key K" and "done_key K x \<noteq> delayed_key K"
    and "done_key K x \<noteq> dead_key K" and "done_key K x \<noteq> results_key K"
    and "done_key K x \<noteq> effects_key K" and "done_key K x \<noteq> full_key K"
    and "done_key K x \<noteq> reclaims_key K" and "done_key K x \<noteq> stats_key K"
    and "done_key K x \<noteq> idem_key K y" and "done_key K x \<noteq> ledger_key K y"
    and "idem_key K x \<noteq> stream_key K" and "idem_key K x \<noteq> delayed_key K"
    and "idem_key K x \<noteq> dead_key K" and "idem_key K x \<noteq> results_key K"
    and "idem_key K x \<noteq> effects_key K" and "idem_key K x \<noteq> full_key K"
    and "idem_key K x \<noteq> reclaims_key K" and "idem_key K x \<noteq> stats_key K"
    and "idem_key K x \<noteq> done_key K y" and "idem_key K x \<noteq> ledger_key K y"
    and "ledger_key K x \<noteq> stream_key K" and "ledger_key K x \<noteq> delayed_key K"
    and "ledger_key K x \<noteq> dead_key K" and "ledger_key K x \<noteq> results_key K"
    and "ledger_key K x \<noteq> effects_key K" and "ledger_key K x \<noteq> full_key K"
    and "ledger_key K x \<noteq> reclaims_key K" and "ledger_key K x \<noteq> stats_key K"
    and "ledger_key K x \<noteq> done_key K y" and "ledger_key K x \<noteq> idem_key K y"
  by (simp_all add: key_defs)

lemma keys_inject [simp, key_simps]:
  shows "done_key K x = done_key K y \<longleftrightarrow> x = y" and "idem_key K x = idem_key K y \<longleftrightarrow> x = y"
    and "ledger_key K x = ledger_key K y \<longleftrightarrow> x = y"
  by (simp_all add: key_defs)

section \<open>Queue names\<close>

definition name_char :: "char \<Rightarrow> bool" where
  "name_char c \<longleftrightarrow> (let n = of_char c :: nat in
     (65 \<le> n \<and> n \<le> 90) \<or> (97 \<le> n \<and> n \<le> 122) \<or> (48 \<le> n \<and> n \<le> 57)
     \<or> c = CHR ''_'' \<or> c = CHR ''.'' \<or> c = CHR ''-'')"

text \<open>
  \<^verbatim>\<open>re.compile(r"^[A-Za-z0-9_.-]{1,64}$").match(q)\<close>: in Python, \<^verbatim>\<open>$\<close> also matches just
  before a newline that ends the string.
\<close>

definition queue_name_ok :: "string \<Rightarrow> bool" where
  "queue_name_ok q \<longleftrightarrow>
     (let core = (if q \<noteq> [] \<and> last q = CHR 0x0A then butlast q else q)
      in 1 \<le> length core \<and> length core \<le> 64 \<and> list_all name_char core)"

lemma queue_name_no_brace: "queue_name_ok q \<Longrightarrow> CHR ''}'' \<notin> set q \<and> CHR ''{'' \<notin> set q"
proof -
  assume ok: "queue_name_ok q"
  have nc: "\<not> name_char CHR ''}''" "\<not> name_char CHR ''{''" by (simp_all add: name_char_def)
  show ?thesis
  proof (cases "q \<noteq> [] \<and> last q = CHR 0x0A")
    case True
    then obtain core where q: "q = core @ [CHR 0x0A]" by (metis append_butlast_last_id)
    with ok have "list_all name_char core" by (simp add: queue_name_ok_def)
    with nc q show ?thesis by (auto simp: list_all_iff)
  next
    case False
    with ok have "list_all name_char q" by (simp add: queue_name_ok_def Let_def split: if_splits)
    with nc show ?thesis by (auto simp: list_all_iff)
  qed
qed

section \<open>Every key of a queue lives in one cluster slot\<close>

text \<open>
  Redis Cluster hashes only the text between the first opening brace and the first closing
  brace after it, when that text is not empty.
\<close>

definition hash_tag :: "key \<Rightarrow> string" where
  "hash_tag k =
     (let r = tl (dropWhile (\<lambda>c. c \<noteq> CHR ''{'') k);
          t = takeWhile (\<lambda>c. c \<noteq> CHR ''}'') r
      in if dropWhile (\<lambda>c. c \<noteq> CHR ''{'') k \<noteq> [] \<and> CHR ''}'' \<in> set r \<and> t \<noteq> [] then t else k)"

definition queue_keys :: "keys \<Rightarrow> key set" where
  "queue_keys K = {stream_key K, delayed_key K, dead_key K, results_key K, effects_key K,
     full_key K, reclaims_key K, stats_key K}
     \<union> range (done_key K) \<union> range (idem_key K) \<union> range (ledger_key K)"

lemma queue_keys_prefix: "k \<in> queue_keys K \<Longrightarrow> \<exists>rest. k = key_prefix K @ rest"
  unfolding queue_keys_def stream_key_def delayed_key_def dead_key_def results_key_def
    effects_key_def full_key_def reclaims_key_def stats_key_def done_key_def idem_key_def
    ledger_key_def
  by auto

lemma hash_tag_prefix:
  assumes "queue_name_ok (queue K)"
  shows "hash_tag (key_prefix K @ rest) = queue K"
proof -
  have no: "CHR ''}'' \<notin> set (queue K)" using queue_name_no_brace [OF assms] by simp
  have "queue K \<noteq> []" using assms by (auto simp: queue_name_ok_def)
  moreover have "takeWhile (\<lambda>c. c \<noteq> CHR ''}'') (queue K @ CHR ''}'' # rest) = queue K"
    using no by (subst takeWhile_append2) auto
  ultimately show ?thesis by (simp add: hash_tag_def key_prefix_def)
qed

text \<open>
  The pattern's \<^verbatim>\<open>$\<close> also matches before a final newline, so such a name is accepted.
\<close>

lemma queue_name_newline: "queue_name_ok (''chaos'' @ [CHR 0x0A])"
  by code_simp

end
