(* ===== verification/Config.thy ===== *)
theory Config
  imports Queue_Keys
begin

text \<open>
  \<^verbatim>\<open>src/ftq/config.py\<close>: the settings record with its field constraints and defaults, the
  cross-field validator \<^verbatim>\<open>_check\<close>, the redelivery bound behind the retention check, the
  suspect threshold and the connection pool size. Python floats are exact rationals here:
  the validator only adds, multiplies and compares them, and rounding is not modelled.
\<close>

section \<open>Settings\<close>

datatype backpressure_mode = Reject | Block
datatype log_level = DEBUG | INFO | WARNING | ERROR
datatype log_format = JsonLog | TextLog

record settings =
  redis_url :: string
  socket_timeout :: rat
  socket_connect_timeout :: rat
  health_check_interval :: rat
  retry_attempts :: int
  retry_backoff_base :: rat
  retry_backoff_cap :: rat
  queue_name :: string
  group :: string
  concurrency :: int
  block_ms :: int
  shutdown_grace :: rat
  process_pool_size :: int
  job_timeout :: rat
  visibility_timeout :: rat
  heartbeat_interval :: rat
  reap_interval :: rat
  max_attempts :: int
  max_deliveries :: int
  suspect_deliveries :: int
  job_backoff_base :: rat
  job_backoff_cap :: rat
  scheduler_interval :: rat
  scheduler_batch :: int
  consumer_prune_idle :: rat
  consumer_prune_interval :: rat
  mode :: backpressure_mode
  high_watermark :: int
  low_watermark :: int
  block_timeout :: rat
  block_poll_interval :: rat
  loglevel :: log_level
  logformat :: log_format
  done_ttl_seconds :: int
  idempotency_ttl_seconds :: int

definition default_settings :: settings where
  "default_settings = \<lparr>redis_url = ''redis://localhost:6379/0'', socket_timeout = 5,
     socket_connect_timeout = 2, health_check_interval = 10, retry_attempts = 3,
     retry_backoff_base = 5 / 100, retry_backoff_cap = 1, queue_name = ''default'',
     group = ''workers'', concurrency = 10, block_ms = 1000, shutdown_grace = 30,
     process_pool_size = 2, job_timeout = 300, visibility_timeout = 30,
     heartbeat_interval = 10, reap_interval = 5, max_attempts = 5, max_deliveries = 10,
     suspect_deliveries = 3, job_backoff_base = 1, job_backoff_cap = 300,
     scheduler_interval = 1 / 2, scheduler_batch = 500, consumer_prune_idle = 3600,
     consumer_prune_interval = 60, mode = Reject, high_watermark = 100000,
     low_watermark = 80000, block_timeout = 30, block_poll_interval = 5 / 100,
     loglevel = INFO, logformat = JsonLog, done_ttl_seconds = 7 * 24 * 3600,
     idempotency_ttl_seconds = 24 * 3600\<rparr>"

text \<open>The \<^verbatim>\<open>gt\<close> and \<^verbatim>\<open>ge\<close> constraints of the fields, in declaration order.\<close>

definition field_constraints :: "settings \<Rightarrow> bool" where
  "field_constraints s \<longleftrightarrow>
     socket_timeout s > 0 \<and> socket_connect_timeout s > 0 \<and> health_check_interval s \<ge> 0 \<and>
     retry_attempts s \<ge> 0 \<and> retry_backoff_base s > 0 \<and> retry_backoff_cap s > 0 \<and>
     concurrency s \<ge> 1 \<and> block_ms s \<ge> 1 \<and> shutdown_grace s \<ge> 0 \<and> process_pool_size s \<ge> 1 \<and>
     job_timeout s > 0 \<and> visibility_timeout s > 0 \<and> heartbeat_interval s > 0 \<and>
     reap_interval s > 0 \<and> max_attempts s \<ge> 1 \<and> max_deliveries s \<ge> 1 \<and>
     suspect_deliveries s \<ge> 2 \<and> job_backoff_base s > 0 \<and> job_backoff_cap s > 0 \<and>
     scheduler_interval s > 0 \<and> scheduler_batch s \<ge> 1 \<and> consumer_prune_idle s > 0 \<and>
     consumer_prune_interval s > 0 \<and> high_watermark s \<ge> 1 \<and> low_watermark s \<ge> 0 \<and>
     block_timeout s \<ge> 0 \<and> block_poll_interval s > 0 \<and> done_ttl_seconds s \<ge> 0 \<and>
     idempotency_ttl_seconds s \<ge> 1"

section \<open>Derived values\<close>

definition ttl_margin :: rat where
  "ttl_margin = 10"

definition worker_loop_connections :: int where
  "worker_loop_connections = 2"

definition min_pool_connections :: int where
  "min_pool_connections = 100"

definition lifetime_bound :: "settings \<Rightarrow> rat \<Rightarrow> rat" where
  "lifetime_bound s timeout =
     (let per_delivery = timeout + visibility_timeout s;
          per_attempt = of_int (max_deliveries s) * per_delivery + job_backoff_cap s
      in of_int (max_attempts s) * per_attempt)"

definition suspect_threshold :: "settings \<Rightarrow> int" where
  "suspect_threshold s = min (suspect_deliveries s) (max_deliveries s)"

definition redis_max_connections :: "settings \<Rightarrow> int" where
  "redis_max_connections s =
     (let per_jobs = 2 * concurrency s
      in max min_pool_connections (per_jobs + worker_loop_connections))"

definition job_lifetime_bound :: "settings \<Rightarrow> rat" where
  "job_lifetime_bound s = lifetime_bound s (job_timeout s)"

section \<open>Validation\<close>

datatype config_error =
    FieldConstraint | QueueName | BlockMs | RetryBackoff | JobBackoff | HeartbeatInterval
  | PruneIdle | Watermarks | TtlTooShort

definition check_ttl_covers :: "settings \<Rightarrow> rat \<Rightarrow> config_error + unit" where
  "check_ttl_covers s timeout =
     (let bound = lifetime_bound s timeout
      in if done_ttl_seconds s \<noteq> 0 \<and> of_int (done_ttl_seconds s) < ttl_margin * bound
         then Inl TtlTooShort else Inr ())"

definition check_settings :: "settings \<Rightarrow> config_error + settings" where
  "check_settings s =
     (if \<not> queue_name_ok (queue_name s) then Inl QueueName
      else if of_int (block_ms s) / 1000 \<ge> socket_timeout s then Inl BlockMs
      else if retry_backoff_base s > retry_backoff_cap s then Inl RetryBackoff
      else if job_backoff_base s > job_backoff_cap s then Inl JobBackoff
      else if 3 * heartbeat_interval s > visibility_timeout s then Inl HeartbeatInterval
      else if consumer_prune_idle s * 1000 \<le> of_int (block_ms s) then Inl PruneIdle
      else if low_watermark s \<ge> high_watermark s then Inl Watermarks
      else (case check_ttl_covers s (job_timeout s) of Inl e \<Rightarrow> Inl e | Inr _ \<Rightarrow> Inr s))"

text \<open>Building a \<^verbatim>\<open>Settings\<close>: the field constraints first, then the validator.\<close>

definition make_settings :: "settings \<Rightarrow> config_error + settings" where
  "make_settings s = (if field_constraints s then check_settings s else Inl FieldConstraint)"

definition keys_of :: "settings \<Rightarrow> keys" where
  "keys_of s = \<lparr>queue = queue_name s\<rparr>"

section \<open>What validation guarantees\<close>

lemma make_settings_Inr:
  "make_settings s = Inr s' \<longleftrightarrow>
     s' = s \<and> field_constraints s \<and> queue_name_ok (queue_name s) \<and>
     of_int (block_ms s) / 1000 < socket_timeout s \<and> retry_backoff_base s \<le> retry_backoff_cap s \<and>
     job_backoff_base s \<le> job_backoff_cap s \<and> 3 * heartbeat_interval s \<le> visibility_timeout s \<and>
     of_int (block_ms s) < consumer_prune_idle s * 1000 \<and> low_watermark s < high_watermark s \<and>
     (done_ttl_seconds s = 0 \<or> ttl_margin * job_lifetime_bound s \<le> of_int (done_ttl_seconds s))"
  by (auto simp: make_settings_def check_settings_def check_ttl_covers_def job_lifetime_bound_def
      not_less not_le Let_def split: if_splits sum.splits)

lemma lifetime_bound_mono:
  assumes "field_constraints s" and "t \<le> t'"
  shows "lifetime_bound s t \<le> lifetime_bound s t'"
proof -
  have "0 \<le> (of_int (max_deliveries s) :: rat)" "0 \<le> (of_int (max_attempts s) :: rat)"
    using assms(1) by (simp_all add: field_constraints_def)
  with assms(2) show ?thesis by (simp add: lifetime_bound_def mult_left_mono)
qed

lemma lifetime_bound_ge_timeout:
  assumes "field_constraints s" and "0 < t"
  shows "t + visibility_timeout s \<le> lifetime_bound s t"
proof -
  let ?d = "of_int (max_deliveries s) :: rat" and ?a = "of_int (max_attempts s) :: rat"
  have pos: "1 \<le> ?d" "1 \<le> ?a" "0 < visibility_timeout s" "0 < job_backoff_cap s"
    using assms(1) by (simp_all add: field_constraints_def)
  have p: "0 < t + visibility_timeout s" using assms(2) pos by simp
  have "1 * (t + visibility_timeout s) \<le> ?d * (t + visibility_timeout s)"
    using pos p by (intro mult_right_mono) auto
  then have 1: "t + visibility_timeout s \<le> ?d * (t + visibility_timeout s) + job_backoff_cap s"
    using pos by (simp add: add_increasing2)
  then have "1 * (?d * (t + visibility_timeout s) + job_backoff_cap s)
      \<le> ?a * (?d * (t + visibility_timeout s) + job_backoff_cap s)"
    using pos p by (intro mult_right_mono) auto
  with 1 show ?thesis by (simp add: lifetime_bound_def)
qed

end
