(* ===== verification/Json.thy ===== *)
theory Json
  imports Prelude
begin

text \<open>
  The part of Python's \<^verbatim>\<open>json\<close> module the queue uses: \<^verbatim>\<open>dumps(x, separators=(",", ":"))\<close>
  and \<^verbatim>\<open>loads\<close>. Text is a list of code points below 256 (an escape for a larger code point
  is outside the model and is refused); a float is carried as the text of its literal.
\<close>

datatype json =
    JNull
  | JBool bool
  | JInt int
  | JFloat string
  | JStr string
  | JArr "json list"
  | JObj "(string \<times> json) list"

section \<open>dumps\<close>

definition hex_char :: "nat \<Rightarrow> char" where
  "hex_char d = (if d < 10 then char_of (48 + d) else char_of (87 + d))"

definition esc_char :: "char \<Rightarrow> string" where
  "esc_char c =
     (if c = CHR 0x22 then [CHR 0x5C, CHR 0x22]
      else if c = CHR 0x5C then [CHR 0x5C, CHR 0x5C]
      else if c = CHR 0x0A then [CHR 0x5C, CHR ''n'']
      else if c = CHR 0x0D then [CHR 0x5C, CHR ''r'']
      else if c = CHR 0x09 then [CHR 0x5C, CHR ''t'']
      else if c = CHR 0x0C then [CHR 0x5C, CHR ''f'']
      else if c = CHR 0x08 then [CHR 0x5C, CHR ''b'']
      else (let n = of_char c :: nat in
        if 32 \<le> n \<and> n \<le> 126 then [c]
        else [CHR 0x5C, CHR ''u'', CHR ''0'', CHR ''0'', hex_char (n div 16), hex_char (n mod 16)]))"

definition quote :: "string \<Rightarrow> string" where
  "quote s = CHR 0x22 # concat (map esc_char s) @ [CHR 0x22]"

fun commas :: "string list \<Rightarrow> string" where
  "commas [] = []"
| "commas [x] = x"
| "commas (x # y # r) = x @ CHR '','' # commas (y # r)"

fun dumps :: "json \<Rightarrow> string" where
  "dumps JNull = ''null''"
| "dumps (JBool b) = (if b then ''true'' else ''false'')"
| "dumps (JInt i) = str_int i"
| "dumps (JFloat t) = t"
| "dumps (JStr s) = quote s"
| "dumps (JArr xs) = CHR ''['' # commas (map dumps xs) @ '']''"
| "dumps (JObj ps) = CHR ''{'' # commas (map (\<lambda>p. quote (fst p) @ CHR '':'' # dumps (snd p)) ps) @ ''}''"

section \<open>loads\<close>

definition json_ws :: "char \<Rightarrow> bool" where
  "json_ws c \<longleftrightarrow> c = CHR 0x20 \<or> c = CHR 0x09 \<or> c = CHR 0x0A \<or> c = CHR 0x0D"

definition skip_ws :: "string \<Rightarrow> string" where
  "skip_ws s = dropWhile json_ws s"

definition hex_digit :: "char \<Rightarrow> nat option" where
  "hex_digit c = (let n = of_char c :: nat in
     if 48 \<le> n \<and> n \<le> 57 then Some (n - 48)
     else if 97 \<le> n \<and> n \<le> 102 then Some (n - 87)
     else if 65 \<le> n \<and> n \<le> 70 then Some (n - 55)
     else None)"

definition simple_escape :: "char \<Rightarrow> char option" where
  "simple_escape c =
     (if c = CHR 0x22 then Some (CHR 0x22) else if c = CHR 0x5C then Some (CHR 0x5C)
      else if c = CHR ''/'' then Some (CHR ''/'') else if c = CHR ''b'' then Some (CHR 0x08)
      else if c = CHR ''f'' then Some (CHR 0x0C) else if c = CHR ''n'' then Some (CHR 0x0A)
      else if c = CHR ''r'' then Some (CHR 0x0D) else if c = CHR ''t'' then Some (CHR 0x09)
      else None)"

definition unicode_escape :: "char \<Rightarrow> char \<Rightarrow> char \<Rightarrow> char \<Rightarrow> char option" where
  "unicode_escape a b c d =
     (case (hex_digit a, hex_digit b, hex_digit c, hex_digit d) of
        (Some w, Some x, Some y, Some z) \<Rightarrow>
          (if w = 0 \<and> x = 0 then Some (char_of (16 * y + z)) else None)
      | _ \<Rightarrow> None)"

text \<open>A string body, after its opening quote.\<close>

fun parse_string :: "string \<Rightarrow> (string \<times> string) option" where
  "parse_string [] = None"
| "parse_string (c # cs) =
     (if c = CHR 0x22 then Some ([], cs)
      else if c = CHR 0x5C then
        (case cs of
           [] \<Rightarrow> None
         | e # r \<Rightarrow>
             (if e = CHR ''u'' then
                (case r of
                   a # b # x # y # r' \<Rightarrow>
                     (case unicode_escape a b x y of
                        None \<Rightarrow> None
                      | Some ch \<Rightarrow> map_option (\<lambda>p. (ch # fst p, snd p)) (parse_string r'))
                 | _ \<Rightarrow> None)
              else
                (case simple_escape e of
                   None \<Rightarrow> None
                 | Some ch \<Rightarrow> map_option (\<lambda>p. (ch # fst p, snd p)) (parse_string r))))
      else if (of_char c :: nat) < 32 then None
      else map_option (\<lambda>p. (c # fst p, snd p)) (parse_string cs))"

definition is_digit :: "char \<Rightarrow> bool" where
  "is_digit c \<longleftrightarrow> char_digit c \<noteq> None"

definition int_part :: "string \<Rightarrow> (string \<times> string) option" where
  "int_part s = (case s of
      [] \<Rightarrow> None
    | c # cs \<Rightarrow> (if c = CHR ''0'' then Some ([c], cs)
        else if is_digit c then Some (takeWhile is_digit s, dropWhile is_digit s) else None))"

definition frac_part :: "string \<Rightarrow> string \<times> string" where
  "frac_part s = (case s of
      c # d # r \<Rightarrow> (if c = CHR ''.'' \<and> is_digit d
        then (c # takeWhile is_digit (d # r), dropWhile is_digit (d # r)) else ([], s))
    | _ \<Rightarrow> ([], s))"

definition exp_part :: "string \<Rightarrow> string \<times> string" where
  "exp_part s = (case s of
      [] \<Rightarrow> ([], s)
    | c # r \<Rightarrow>
        (if c = CHR ''e'' \<or> c = CHR ''E'' then
           (let sg = takeWhile (\<lambda>x. x = CHR ''-'' \<or> x = CHR ''+'') (take 1 r);
                r' = drop (length sg) r;
                ds = takeWhile is_digit r'
            in if ds = [] then ([], s) else (c # sg @ ds, dropWhile is_digit r'))
         else ([], s)))"

definition parse_number :: "string \<Rightarrow> (json \<times> string) option" where
  "parse_number s =
     (let neg = (s \<noteq> [] \<and> hd s = CHR ''-''); s1 = (if neg then tl s else s) in
      case int_part s1 of
        None \<Rightarrow> None
      | Some (ds, s2) \<Rightarrow>
          (case frac_part s2 of (fr, s3) \<Rightarrow>
           case exp_part s3 of (ex, s4) \<Rightarrow>
             (if fr = [] \<and> ex = [] then
                map_option (\<lambda>n. (JInt (if neg then - int n else int n), s4)) (read_nat ds)
              else Some (JFloat ((if neg then ''-'' else '''') @ ds @ fr @ ex), s4))))"

text \<open>The words the decoder knows; the last three are floats to Python.\<close>

definition constants :: "(string \<times> json) list" where
  "constants = [(''null'', JNull), (''true'', JBool True), (''false'', JBool False),
     (''NaN'', JFloat ''NaN''), (''Infinity'', JFloat ''Infinity''),
     (''-Infinity'', JFloat ''-Infinity'')]"

definition parse_const :: "string \<Rightarrow> (json \<times> string) option" where
  "parse_const s = (case find (\<lambda>p. take (length (fst p)) s = fst p) constants of
     None \<Rightarrow> None | Some p \<Rightarrow> Some (snd p, drop (length (fst p)) s))"

text \<open>Building a dict from the pairs read: a repeated key keeps its place and its last value.\<close>

definition dict_put :: "(string \<times> json) list \<Rightarrow> string \<times> json \<Rightarrow> (string \<times> json) list" where
  "dict_put ps p = (if fst p \<in> fst ` set ps
     then map (\<lambda>q. if fst q = fst p then p else q) ps else ps @ [p])"

definition dict_of :: "(string \<times> json) list \<Rightarrow> (string \<times> json) list" where
  "dict_of ps = foldl dict_put [] ps"

text \<open>Each call spends one unit of fuel; the input's length is enough (see \<open>loads_dumps\<close>).\<close>

fun parse_value :: "nat \<Rightarrow> string \<Rightarrow> (json \<times> string) option"
and parse_elems :: "nat \<Rightarrow> string \<Rightarrow> (json list \<times> string) option"
and parse_members :: "nat \<Rightarrow> string \<Rightarrow> ((string \<times> json) list \<times> string) option" where
  "parse_value 0 s = None"
| "parse_value (Suc n) s =
     (case s of
        [] \<Rightarrow> None
      | c # r \<Rightarrow>
          (if c = CHR 0x22 then map_option (\<lambda>p. (JStr (fst p), snd p)) (parse_string r)
           else if c = CHR ''['' then
             (let r' = skip_ws r in
              if r' \<noteq> [] \<and> hd r' = CHR '']'' then Some (JArr [], tl r')
              else map_option (\<lambda>p. (JArr (fst p), snd p)) (parse_elems n r'))
           else if c = CHR ''{'' then
             (let r' = skip_ws r in
              if r' \<noteq> [] \<and> hd r' = CHR ''}'' then Some (JObj [], tl r')
              else map_option (\<lambda>p. (JObj (dict_of (fst p)), snd p)) (parse_members n r'))
           else (case parse_const s of Some p \<Rightarrow> Some p | None \<Rightarrow> parse_number s)))"
| "parse_elems 0 s = None"
| "parse_elems (Suc n) s =
     (case parse_value n s of
        None \<Rightarrow> None
      | Some (x, r) \<Rightarrow>
          (case skip_ws r of
             [] \<Rightarrow> None
           | c # r' \<Rightarrow>
               (if c = CHR '']'' then Some ([x], r')
                else if c = CHR '','' then
                  map_option (\<lambda>p. (x # fst p, snd p)) (parse_elems n (skip_ws r'))
                else None)))"
| "parse_members 0 s = None"
| "parse_members (Suc n) s =
     (case s of
        [] \<Rightarrow> None
      | q # s' \<Rightarrow>
          (if q \<noteq> CHR 0x22 then None
           else (case parse_string s' of
             None \<Rightarrow> None
           | Some (k, r) \<Rightarrow>
               (case skip_ws r of
                  [] \<Rightarrow> None
                | c # r1 \<Rightarrow>
                    (if c \<noteq> CHR '':'' then None
                     else (case parse_value n (skip_ws r1) of
                       None \<Rightarrow> None
                     | Some (x, r2) \<Rightarrow>
                         (case skip_ws r2 of
                            [] \<Rightarrow> None
                          | d # r3 \<Rightarrow>
                              (if d = CHR ''}'' then Some ([(k, x)], r3)
                               else if d = CHR '','' then
                                 map_option (\<lambda>p. ((k, x) # fst p, snd p))
                                   (parse_members n (skip_ws r3))
                               else None))))))))"

definition loads :: "string \<Rightarrow> json option" where
  "loads s =
     (case parse_value (Suc (length s)) (skip_ws s) of
        None \<Rightarrow> None
      | Some (x, r) \<Rightarrow> (if skip_ws r = [] then Some x else None))"

section \<open>loads undoes dumps\<close>

text \<open>A value as Python builds it: no repeated keys; floats are left out.\<close>

fun wf_json :: "json \<Rightarrow> bool" where
  "wf_json (JFloat t) = False"
| "wf_json (JArr xs) = list_all wf_json xs"
| "wf_json (JObj ps) = (distinct (map fst ps) \<and> list_all (\<lambda>p. wf_json (snd p)) ps)"
| "wf_json _ = True"

definition delim :: "string \<Rightarrow> bool" where
  "delim r \<longleftrightarrow> r = [] \<or> hd r = CHR '','' \<or> hd r = CHR '']'' \<or> hd r = CHR ''}''"

lemma hex_digit_hex_char: "d < 16 \<Longrightarrow> hex_digit (hex_char d) = Some d"
  by (auto simp: hex_digit_def hex_char_def of_char_of take_bit_eq_mod Let_def)

lemma unicode_escape_code:
  "unicode_escape CHR ''0'' CHR ''0'' (hex_char (of_char c div 16)) (hex_char (of_char c mod 16)) = Some c"
proof -
  have "(of_char c :: nat) < 256" by (rule nat_of_char_less_256)
  then have "(of_char c :: nat) div 16 < 16" by (simp add: div_less_iff_less_mult)
  then have "hex_digit (hex_char (of_char c div 16)) = Some (of_char c div 16)"
    and "hex_digit (hex_char (of_char c mod 16)) = Some (of_char c mod 16)"
    by (simp_all add: hex_digit_hex_char)
  moreover have "hex_digit CHR ''0'' = Some 0" by (simp add: hex_digit_def)
  ultimately show ?thesis by (simp add: unicode_escape_def)
qed

lemma parse_string_esc_char:
  "parse_string (esc_char c @ t) = map_option (\<lambda>p. (c # fst p, snd p)) (parse_string t)"
  by (auto simp: esc_char_def simple_escape_def unicode_escape_code Let_def)

lemma parse_string_quote [simp]:
  "parse_string (concat (map esc_char s) @ CHR 0x22 # r) = Some (s, r)"
  by (induction s) (simp_all add: parse_string_esc_char)

lemma str_nat_digits: "list_all is_digit (str_nat n)"
  unfolding list_all_iff is_digit_def using str_nat_chars char_digit_digit_char by fastforce

lemma str_nat_no_leading_zero: "n \<noteq> 0 \<Longrightarrow> hd (str_nat n) \<noteq> CHR ''0''"
proof (induction n rule: str_nat.induct)
  case (1 n)
  show ?case
  proof (cases "n < 10")
    case True
    have "char_digit CHR ''0'' = Some 0" by (simp add: char_digit_def)
    with True 1(2) char_digit_digit_char [of n] have "digit_char n \<noteq> CHR ''0''" by force
    with True show ?thesis by (subst str_nat.simps) simp
  next
    case False
    with 1 have "hd (str_nat (n div 10)) \<noteq> CHR ''0''" by simp
    with False show ?thesis by (subst str_nat.simps) simp
  qed
qed

lemma int_part_str_nat:
  assumes "r = [] \<or> \<not> is_digit (hd r)"
  shows "int_part (str_nat n @ r) = Some (str_nat n, r)"
proof (cases "n = 0")
  case True
  moreover have "str_nat 0 = ''0''" by code_simp
  ultimately have "str_nat n = ''0''" by simp
  then show ?thesis by (simp add: int_part_def)
next
  case False
  obtain c cs where s: "str_nat n = c # cs" by (cases "str_nat n") auto
  have d: "\<forall>x \<in> set (c # cs). is_digit x" using str_nat_digits [of n] s by (simp add: list_all_iff)
  have "takeWhile is_digit ((c # cs) @ r) = c # cs" and "dropWhile is_digit ((c # cs) @ r) = r"
    using d assms by (cases r; simp)+
  moreover have "c \<noteq> CHR ''0''" using str_nat_no_leading_zero [OF False] s by simp
  ultimately show ?thesis using s d by (simp add: int_part_def)
qed

lemma delim_no_number:
  assumes "delim r"
  shows "r = [] \<or> \<not> is_digit (hd r)" and "frac_part r = ([], r)" and "exp_part r = ([], r)"
  using assms
  by (auto simp: delim_def is_digit_def char_digit_def frac_part_def exp_part_def neq_Nil_conv
      split: list.splits)

lemma parse_number_str_int:
  assumes "delim r"
  shows "parse_number (str_int i @ r) = Some (JInt i, r)"
proof (cases "i < 0")
  case True
  with delim_no_number [OF assms] show ?thesis
    by (simp add: parse_number_def str_int_def int_part_str_nat)
next
  case False
  obtain c cs where s: "str_nat (nat i) = c # cs" by (cases "str_nat (nat i)") auto
  have "c \<noteq> CHR ''-''" using str_nat_chars [of c "nat i"] digit_char_plain s by auto
  with False s delim_no_number [OF assms] show ?thesis
    using int_part_str_nat [OF delim_no_number(1) [OF assms], of "nat i"] read_nat_str_nat [of "nat i"]
    by (simp add: parse_number_def str_int_def)
qed

lemma digit_first:
  assumes "is_digit c"
  shows "c \<noteq> CHR 0x22" "c \<noteq> CHR ''[''" "c \<noteq> CHR ''{''" "c \<noteq> CHR ''n''" "c \<noteq> CHR ''t''"
    "c \<noteq> CHR ''f''" "c \<noteq> CHR ''N''" "c \<noteq> CHR ''I''" "c \<noteq> CHR ''-''" "\<not> json_ws c"
    "c \<noteq> CHR '']''" "c \<noteq> CHR ''}''"
  using assms by (auto simp: is_digit_def char_digit_def json_ws_def)

lemma str_int_first:
  obtains (neg) c cs where "str_int i = CHR ''-'' # c # cs" "is_digit c"
  | (pos) c cs where "str_int i = c # cs" "is_digit c"
proof -
  have "\<exists>c cs. str_nat n = c # cs \<and> is_digit c" for n
    using str_nat_digits [of n] by (cases "str_nat n") auto
  then show thesis using neg pos by (metis str_int_def)
qed

lemma parse_const_str_int: "parse_const (str_int i @ r) = None"
  by (rule str_int_first [of i])
    (simp_all add: parse_const_def constants_def digit_first take_Cons' split: if_splits)

lemma parse_value_int:
  assumes "delim r"
  shows "parse_value (Suc n) (str_int i @ r) = Some (JInt i, r)"
  using parse_const_str_int [of i r] parse_number_str_int [OF assms, of i]
  by (rule_tac str_int_first [of i]) (simp_all add: digit_first)

lemma dumps_first:
  assumes "wf_json j"
  shows "dumps j \<noteq> [] \<and> \<not> json_ws (hd (dumps j)) \<and> hd (dumps j) \<noteq> CHR '']'' \<and> hd (dumps j) \<noteq> CHR ''}''"
proof (cases j)
  case (JInt i)
  then show ?thesis by (simp, rule_tac str_int_first [of i]) (auto simp: digit_first, simp add: json_ws_def)
qed (use assms in \<open>auto simp: json_ws_def quote_def\<close>)

lemma skip_ws_dumps:
  assumes "wf_json j"
  shows "skip_ws (dumps j @ t) = dumps j @ t"
  using dumps_first [OF assms] by (cases "dumps j") (simp_all add: skip_ws_def)

lemma skip_ws_Cons [simp]: "\<not> json_ws c \<Longrightarrow> skip_ws (c # r) = c # r"
  by (simp add: skip_ws_def)

lemma json_ws_punct [simp]:
  "\<not> json_ws CHR '','' " "\<not> json_ws CHR '']''" "\<not> json_ws CHR ''}''" "\<not> json_ws CHR '':''"
  "\<not> json_ws CHR 0x22" "\<not> json_ws CHR ''[''" "\<not> json_ws CHR ''{''"
  by (simp_all add: json_ws_def)

lemma delim_punct [simp]: "delim (CHR '','' # r)" "delim (CHR '']'' # r)" "delim (CHR ''}'' # r)" "delim []"
  by (simp_all add: delim_def)

lemma dict_put_fresh: "fst p \<notin> fst ` set ps \<Longrightarrow> dict_put ps p = ps @ [p]"
  by (simp add: dict_put_def)

lemma foldl_dict_put:
  "distinct (map fst (ps @ qs)) \<Longrightarrow> foldl dict_put ps qs = ps @ qs"
  by (induction qs arbitrary: ps) (simp_all add: dict_put_fresh)

lemma dict_of_distinct: "distinct (map fst ps) \<Longrightarrow> dict_of ps = ps"
  using foldl_dict_put [of "[]" ps] by (simp add: dict_of_def)

text \<open>What the induction hypothesis of the round trip says of one value.\<close>

definition parses :: "json \<Rightarrow> bool" where
  "parses j \<longleftrightarrow> (\<forall>r n. delim r \<longrightarrow> length (dumps j) \<le> n \<longrightarrow>
     parse_value (Suc n) (dumps j @ r) = Some (j, r))"

lemma parsesD:
  "parses j \<Longrightarrow> delim r \<Longrightarrow> Suc (length (dumps j)) \<le> m \<Longrightarrow> parse_value m (dumps j @ r) = Some (j, r)"
  by (cases m) (auto simp: parses_def)

lemma parse_elems_dumps:
  assumes "xs \<noteq> []" and "\<forall>x \<in> set xs. wf_json x \<and> parses x"
    and "length (commas (map dumps xs)) + 2 \<le> m"
  shows "parse_elems m (commas (map dumps xs) @ CHR '']'' # r) = Some (xs, r)"
  using assms
proof (induction xs arbitrary: m rule: induct_list012)
  case (2 x)
  then obtain m' where "m = Suc m'" by (cases m) auto
  with 2 show ?case by (simp add: parsesD)
next
  case (3 x y zs)
  from 3(5) obtain m' where m: "m = Suc m'" by (cases m) auto
  let ?t = "commas (map dumps (y # zs))"
  from 3(4,5) m have x: "parse_value m' (dumps x @ CHR '','' # ?t @ CHR '']'' # r)
      = Some (x, CHR '','' # ?t @ CHR '']'' # r)"
    by (intro parsesD) auto
  have ws: "skip_ws (?t @ CHR '']'' # r) = ?t @ CHR '']'' # r"
    using skip_ws_dumps [of y] 3(4) by (cases zs) simp_all
  have "parse_elems m' (?t @ CHR '']'' # r) = Some (y # zs, r)"
    using 3(2) [of m'] 3(4,5) dumps_first [of x] m by (cases "dumps x") auto
  with x ws m show ?case by simp
qed simp

lemma parse_members_dumps:
  assumes "ps \<noteq> []" and "\<forall>p \<in> set ps. wf_json (snd p) \<and> parses (snd p)"
    and "length (commas (map (\<lambda>p. quote (fst p) @ CHR '':'' # dumps (snd p)) ps)) + 2 \<le> m"
  shows "parse_members m (commas (map (\<lambda>p. quote (fst p) @ CHR '':'' # dumps (snd p)) ps)
           @ CHR ''}'' # r) = Some (ps, r)"
  using assms
proof (induction ps arbitrary: m rule: induct_list012)
  case (2 p)
  then obtain m' where "m = Suc m'" by (cases m) auto
  with 2 show ?case by (cases p) (simp add: quote_def parsesD skip_ws_dumps)
next
  case (3 p q zs)
  from 3(5) obtain m' where m: "m = Suc m'" by (cases m) auto
  let ?t = "commas (map (\<lambda>p. quote (fst p) @ CHR '':'' # dumps (snd p)) (q # zs))"
  from 3(4,5) m have x: "parse_value m' (dumps (snd p) @ CHR '','' # ?t @ CHR ''}'' # r)
      = Some (snd p, CHR '','' # ?t @ CHR ''}'' # r)"
    by (intro parsesD) auto
  have ws: "skip_ws (?t @ CHR ''}'' # r) = ?t @ CHR ''}'' # r"
    by (cases zs) (simp_all add: quote_def)
  have "parse_members m' (?t @ CHR ''}'' # r) = Some (q # zs, r)"
    using 3(2) [of m'] 3(4,5) m by (auto simp: quote_def)
  with x ws m 3(4) show ?case by (cases p) (simp add: quote_def skip_ws_dumps)
qed simp

lemma wf_json_parses: "wf_json j \<Longrightarrow> parses j"
proof (induction j)
  case (JArr xs)
  show ?case
  proof (cases "xs = []")
    case True
    then show ?thesis by (simp add: parses_def)
  next
    case False
    have xs: "\<forall>x \<in> set xs. wf_json x \<and> parses x" using JArr by (auto simp: list_all_iff)
    obtain y ys where y: "xs = y # ys" using False by (cases xs) auto
    have ws: "skip_ws (commas (map dumps xs) @ CHR '']'' # r) = commas (map dumps xs) @ CHR '']'' # r"
      and hd: "hd (commas (map dumps xs) @ CHR '']'' # r) \<noteq> CHR '']''" for r
      using dumps_first [of y] skip_ws_dumps [of y] xs y by (cases ys; simp)+
    show ?thesis using parse_elems_dumps [OF False xs] ws hd by (simp add: parses_def)
  qed
next
  case (JObj ps)
  show ?case
  proof (cases "ps = []")
    case True
    then show ?thesis by (simp add: parses_def dict_of_def)
  next
    case False
    have ps: "\<forall>p \<in> set ps. wf_json (snd p) \<and> parses (snd p)"
      using JObj by (auto simp: list_all_iff snds.simps)
    obtain y ys where y: "ps = y # ys" using False by (cases ps) auto
    let ?t = "commas (map (\<lambda>p. quote (fst p) @ CHR '':'' # dumps (snd p)) ps)"
    have ws: "skip_ws (?t @ CHR ''}'' # r) = ?t @ CHR ''}'' # r"
      and hd: "hd (?t @ CHR ''}'' # r) \<noteq> CHR ''}''" for r
      using y by (cases ys; simp add: quote_def)+
    show ?thesis using parse_members_dumps [OF False ps] ws hd JObj.prems
      by (simp add: parses_def dict_of_distinct)
  qed
next
  case (JInt i)
  then show ?case by (simp add: parses_def parse_value_int del: parse_value.simps)
qed (auto simp: parses_def quote_def parse_const_def constants_def)

lemma loads_dumps: "wf_json j \<Longrightarrow> loads (dumps j) = Some j"
  using wf_json_parses [of j] skip_ws_dumps [of j "[]"]
    parsesD [of j "[]" "Suc (length (dumps j))"]
  by (simp add: loads_def skip_ws_def del: parse_value.simps)

end
