(* ===== verification/Job_Model.thy ===== *)
theory Job_Model
  imports Json
begin

text \<open>
  \<^verbatim>\<open>src/ftq/models.py\<close>: the job schema and its encoding as stream fields. Parsing keeps the
  order in which Python evaluates the constructor's arguments, so the first problem decides
  the exception; the schema's own constraints (\<^verbatim>\<open>payload\<close> is a dict, \<^verbatim>\<open>attempt >= 0\<close>) are
  checked last, as pydantic does.
\<close>

record job =
  job_id :: string
  job_type :: string
  payload :: "(string \<times> json) list"
  attempt :: int
  idempotency_key :: string
  enqueued_at_ms :: int

datatype parse_error = KeyErr string | ValueErr string

definition to_fields :: "job \<Rightarrow> fields" where
  "to_fields j =
     [(''job_id'', job_id j), (''type'', job_type j),
      (''payload'', dumps (JObj (payload j))), (''attempt'', str_int (attempt j)),
      (''idempotency_key'', idempotency_key j)]"

text \<open>Pydantic's check of the declared field types and bounds.\<close>

definition validate_job ::
  "string \<Rightarrow> string \<Rightarrow> json \<Rightarrow> int \<Rightarrow> string \<Rightarrow> int \<Rightarrow> parse_error + job" where
  "validate_job jid ty pl att idem enq =
     (case pl of
        JObj ps \<Rightarrow>
          (if att < 0 then Inl (ValueErr ''attempt'')
           else Inr \<lparr>job_id = jid, job_type = ty, payload = ps, attempt = att,
                     idempotency_key = idem, enqueued_at_ms = enq\<rparr>)
      | _ \<Rightarrow> Inl (ValueErr ''payload''))"

definition from_fields :: "fields \<Rightarrow> parse_error + job" where
  "from_fields fs =
     (case dict_get fs ''job_id'' of None \<Rightarrow> Inl (KeyErr ''job_id'') | Some jid \<Rightarrow>
     (case dict_get fs ''type'' of None \<Rightarrow> Inl (KeyErr ''type'') | Some ty \<Rightarrow>
     (case dict_get fs ''payload'' of None \<Rightarrow> Inl (KeyErr ''payload'') | Some pt \<Rightarrow>
     (case loads pt of None \<Rightarrow> Inl (ValueErr ''json'') | Some pl \<Rightarrow>
     (case dict_get fs ''attempt'' of None \<Rightarrow> Inl (KeyErr ''attempt'') | Some att_text \<Rightarrow>
     (case read_int att_text of None \<Rightarrow> Inl (ValueErr ''int'') | Some att \<Rightarrow>
     (let idem = (case dict_get fs ''idempotency_key'' of None \<Rightarrow> '''' | Some k \<Rightarrow> k);
          enq = (case dict_get fs ''enqueued_at_ms'' of None \<Rightarrow> ''0'' | Some e \<Rightarrow> e)
      in case read_int enq of None \<Rightarrow> Inl (ValueErr ''int'') | Some ms \<Rightarrow>
         validate_job jid ty pl att idem ms)))))))"

definition wf_job :: "job \<Rightarrow> bool" where
  "wf_job j \<longleftrightarrow> wf_json (JObj (payload j)) \<and> 0 \<le> attempt j"

lemma from_fields_job_id:
  "from_fields fs = Inr j \<Longrightarrow> dict_get fs ''job_id'' = Some (job_id j)"
  by (auto simp: from_fields_def validate_job_def Let_def split: option.splits json.splits if_splits)

lemma from_fields_attempt: "from_fields fs = Inr j \<Longrightarrow> 0 \<le> attempt j"
  by (auto simp: from_fields_def validate_job_def Let_def split: option.splits json.splits if_splits)

lemma to_fields_job_id [simp]: "dict_get (to_fields j) ''job_id'' = Some (job_id j)"
  by (simp add: to_fields_def dict_get_def)

lemma from_fields_to_fields:
  assumes "wf_job j"
  shows "from_fields (to_fields j @ [(''enqueued_at_ms'', str_int t)]) = Inr (j\<lparr>enqueued_at_ms := t\<rparr>)"
proof -
  have "loads (dumps (JObj (payload j))) = Some (JObj (payload j))"
    using assms by (simp only: wf_job_def loads_dumps)
  moreover have "0 \<le> attempt j" using assms by (simp add: wf_job_def)
  ultimately show ?thesis
    by (simp add: from_fields_def to_fields_def dict_get_def validate_job_def del: dumps.simps)
qed

end
