(* ===== verification/Transitions.thy ===== *)
theory Transitions
  imports Lua_Scripts Config Job_Model
begin

text \<open>
  The Python callers of the scripts: \<^verbatim>\<open>src/ftq/transitions.py\<close>, \<^verbatim>\<open>ledger.py\<close>,
  \<^verbatim>\<open>scheduler.py\<close> and \<^verbatim>\<open>reaper.py\<close>. Each method fixes the keys and arguments of its
  script and turns the reply into the enum or value the worker sees.
\<close>

section \<open>Outcomes\<close>

datatype outcome = OK | LEASE_LOST | TERMINAL
datatype commit_outcome = DUPLICATE | COMMITTED | LATE_SUCCESS
datatype dead_reason = MAX_ATTEMPTS | MAX_DELIVERIES | MALFORMED | UNKNOWN_TYPE

fun reason_value :: "dead_reason \<Rightarrow> string" where
  "reason_value MAX_ATTEMPTS = ''max_attempts''"
| "reason_value MAX_DELIVERIES = ''max_deliveries''"
| "reason_value MALFORMED = ''malformed''"
| "reason_value UNKNOWN_TYPE = ''unknown_type''"

text \<open>\<^verbatim>\<open>Outcome(x)\<close> and \<^verbatim>\<open>Commit(int(x))\<close> raise \<^verbatim>\<open>ValueError\<close> on any other value.\<close>

definition to_outcome :: "string \<Rightarrow> ('s, outcome) script" where
  "to_outcome r =
     (if r = ''OK'' then ret OK
      else if r = ''LEASE_LOST'' then ret LEASE_LOST
      else if r = ''TERMINAL'' then ret TERMINAL
      else raise (ErrorReply ''ValueError''))"

definition to_commit :: "int \<Rightarrow> ('s, commit_outcome) script" where
  "to_commit r =
     (if r = 0 then ret DUPLICATE
      else if r = 1 then ret COMMITTED
      else if r = 2 then ret LATE_SUCCESS
      else raise (ErrorReply ''ValueError''))"

text \<open>\<^verbatim>\<open>int(x)\<close> on a float truncates towards zero.\<close>

definition py_trunc :: "rat \<Rightarrow> int" where
  "py_trunc x = (if x \<ge> 0 then \<lfloor>x\<rfloor> else \<lceil>x\<rceil>)"

section \<open>Transitions\<close>

definition commit :: "'s redis_ops \<Rightarrow> settings \<Rightarrow> string \<Rightarrow> eid \<Rightarrow> job \<Rightarrow> string
    \<Rightarrow> ('s, commit_outcome) script" where
  "commit R S worker i j result =
     (let K = keys_of S in
      call (commit_lua R (stream_key K) (done_key K (job_id j)) (results_key K) (stats_key K)
              (dead_key K) (group S) i (job_id j) result (done_ttl_seconds S) worker
              (str_int (enqueued_at_ms j))) to_commit)"

definition heartbeat :: "'s redis_ops \<Rightarrow> settings \<Rightarrow> string \<Rightarrow> eid \<Rightarrow> ('s, outcome) script" where
  "heartbeat R S worker i =
     (let K = keys_of S in
      call (heartbeat_lua R (stream_key K) (stats_key K) (group S) i worker) to_outcome)"

definition retry :: "'s redis_ops \<Rightarrow> settings \<Rightarrow> string \<Rightarrow> eid \<Rightarrow> job \<Rightarrow> rat \<Rightarrow> bool
    \<Rightarrow> ('s, outcome) script" where
  "retry R S worker i j delay_s timed_out =
     (let K = keys_of S in
      call (retry_lua R (stream_key K) (delayed_key K) (done_key K (job_id j)) (stats_key K)
              (group S) i worker (str_int (attempt j + 1)) (py_trunc (delay_s * 1000)) timed_out)
        to_outcome)"

definition dead :: "'s redis_ops \<Rightarrow> settings \<Rightarrow> string \<Rightarrow> eid \<Rightarrow> string \<Rightarrow> dead_reason \<Rightarrow> string
    \<Rightarrow> int \<Rightarrow> bool \<Rightarrow> ('s, outcome) script" where
  "dead R S worker i jid reason error attempts timed_out =
     (let K = keys_of S in
      call (dead_lua R (stream_key K) (dead_key K) (done_key K jid) (stats_key K) (group S) i
              worker jid (reason_value reason) error (str_int attempts) timed_out) to_outcome)"

section \<open>EffectLedger\<close>

definition ledger_apply :: "'s redis_ops \<Rightarrow> keys \<Rightarrow> int \<Rightarrow> string \<Rightarrow> fields \<Rightarrow> ('s, bool) script" where
  "ledger_apply R K ttl effect_key fs =
     call (ledger_lua R (ledger_key K effect_key) (effects_key K) (stats_key K) effect_key ttl
             (flat_of fs)) (\<lambda>applied. ret (applied = 1))"

section \<open>Scheduler\<close>

definition move_due :: "'s redis_ops \<Rightarrow> settings \<Rightarrow> ('s, nat) script" where
  "move_due R S =
     (let K = keys_of S in
      schedule_lua R (delayed_key K) (stream_key K) (stats_key K) (nat (scheduler_batch S)))"

section \<open>Reaper\<close>

record claimed =
  c_entry_id :: eid
  c_fields :: fields
  c_deliveries :: nat

definition is_suspect :: "claimed \<Rightarrow> settings \<Rightarrow> bool" where
  "is_suspect c S \<longleftrightarrow>
     suspect_threshold S \<le> int (c_deliveries c) \<and> int (c_deliveries c) \<le> max_deliveries S"

text \<open>\<^verbatim>\<open>_pairs\<close>: \<^verbatim>\<open>zip(strict=True)\<close> raises on a list of odd length.\<close>

fun to_claimed :: "(eid \<times> string list \<times> nat) list \<Rightarrow> claimed list option" where
  "to_claimed [] = Some []"
| "to_claimed ((i, flat, n) # rest) =
     (case (pair_up flat, to_claimed rest) of
        (Some fs, Some cs) \<Rightarrow> Some (\<lparr>c_entry_id = i, c_fields = fs, c_deliveries = n\<rparr> # cs)
      | _ \<Rightarrow> None)"

text \<open>
  \<^verbatim>\<open>Reaper.reclaim\<close>: the scan cursor kept between calls is an argument and part of the
  result, with the claimed entries and whether more of the pending list is left to scan.
\<close>

definition reclaim :: "'s redis_ops \<Rightarrow> settings \<Rightarrow> string \<Rightarrow> eid \<Rightarrow> nat \<Rightarrow> int
    \<Rightarrow> ('s, claimed list \<times> bool \<times> eid) script" where
  "reclaim R S worker cursor n suspect_slots =
     (let K = keys_of S in
      call (reclaim_lua R (stream_key K) (stats_key K) (reclaims_key K) (group S) worker
              (py_trunc (visibility_timeout S * 1000)) cursor n suspect_slots
              (suspect_threshold S) (max_deliveries S)) (\<lambda>r.
      case r of (cursor', out, deleted) \<Rightarrow>
        (case to_claimed out of
           None \<Rightarrow> raise (ErrorReply ''ValueError'')
         | Some cs \<Rightarrow> ret (cs, cursor' \<noteq> (0, 0), cursor'))))"

definition prune_consumers :: "'s redis_ops \<Rightarrow> settings \<Rightarrow> string \<Rightarrow> ('s, string list) script" where
  "prune_consumers R S worker =
     (let K = keys_of S in
      prune_consumers_lua R (stream_key K) (stats_key K) (group S)
        (py_trunc (consumer_prune_idle S * 1000)) worker)"

lemmas api_defs = commit_def heartbeat_def retry_def dead_def ledger_apply_def move_due_def
  reclaim_def prune_consumers_def to_outcome_def to_commit_def

context redis_service
begin

lemma to_outcome_doc [refines_intro]: "refines view (to_outcome r) (to_outcome r)"
  unfolding to_outcome_def by (intro refines_intro)

lemma to_commit_doc [refines_intro]: "refines view (to_commit r) (to_commit r)"
  unfolding to_commit_def by (intro refines_intro)

lemma commit_api_doc [refines_intro]: "refines view (commit R S w i j x) (commit (doc_of R) S w i j x)"
  unfolding commit_def by (intro refines_intro)

lemma heartbeat_api_doc [refines_intro]: "refines view (heartbeat R S w i) (heartbeat (doc_of R) S w i)"
  unfolding heartbeat_def by (intro refines_intro)

lemma retry_api_doc [refines_intro]: "refines view (retry R S w i j d t) (retry (doc_of R) S w i j d t)"
  unfolding retry_def by (intro refines_intro)

lemma dead_api_doc [refines_intro]:
  "refines view (dead R S w i jid rs e a t) (dead (doc_of R) S w i jid rs e a t)"
  unfolding dead_def by (intro refines_intro)

lemma ledger_api_doc [refines_intro]:
  "refines view (ledger_apply R K ttl e fs) (ledger_apply (doc_of R) K ttl e fs)"
  unfolding ledger_apply_def by (intro refines_intro)

lemma move_due_doc [refines_intro]: "refines view (move_due R S) (move_due (doc_of R) S)"
  unfolding move_due_def by (intro refines_intro)

lemma reclaim_api_doc [refines_intro]:
  "refines view (reclaim R S w c n sl) (reclaim (doc_of R) S w c n sl)"
  unfolding reclaim_def by (intro refines_intro)

lemma prune_api_doc [refines_intro]:
  "refines view (prune_consumers R S w) (prune_consumers (doc_of R) S w)"
  unfolding prune_consumers_def by (intro refines_intro)

end

end
