(* ===== verification/Queue_State.thy ===== *)
theory Queue_State
  imports Transitions
begin

text \<open>
  One queue, seen through its keys: \<open>qview\<close> reads the queue's part of the store as a record
  \<open>qstate\<close> (stream entries, consumer group, delayed set, dead-letter stream, logs, terminal
  records, markers). \<open>typed\<close> is the well-formedness of that part of the store: every key holds
  the type its role needs, the group exists, counters are numbers, records and logs of a queue
  without retention limits never expire. For every command the scripts use there is one rule
  that executes it on a well-formed store, and the updates keep \<open>typed\<close> and have a known
  effect on \<open>qview\<close>. The proofs about scripts rest on these rules only.
\<close>

named_theorems exec_simps \<open>executing a command on a well-formed store\<close>
named_theorems view_simps \<open>the effect of a store update on the queue's view\<close>
named_theorems typed_intro \<open>store updates keep well-formedness\<close>

section \<open>The queue's view of the store\<close>

record qstate =
  ents :: "(eid \<times> fields) list"
  slast :: eid
  grp :: rgroup
  dlyd :: "(string \<times> int) list"
  dlq :: "(eid \<times> fields) list"
  dlast :: eid
  reslog :: "fields list"
  efflog :: "fields list"
  fin :: "string \<Rightarrow> (string \<rightharpoonup> string)"
  led :: "string \<Rightarrow> bool"
  idem :: "string \<rightharpoonup> string"
  fullf :: bool
  cnt :: "string \<Rightarrow> int"
  qnow :: nat

abbreviation pend :: "qstate \<Rightarrow> (eid \<times> pent) list" where
  "pend q \<equiv> g_pel (grp q)"

definition the_group :: "settings \<Rightarrow> rdb \<Rightarrow> rgroup" where
  "the_group S v = (case s_groups (get_stream (stream_key (keys_of S)) v) (group S) of
     None \<Rightarrow> empty_group | Some g \<Rightarrow> g)"

definition stats_of :: "settings \<Rightarrow> rdb \<Rightarrow> string \<Rightarrow> int" where
  "stats_of S v f = (case get_hash (stats_key (keys_of S)) v f of
     None \<Rightarrow> 0 | Some x \<Rightarrow> (case read_int x of None \<Rightarrow> 0 | Some n \<Rightarrow> n))"

definition qview :: "settings \<Rightarrow> rdb \<Rightarrow> qstate" where
  "qview S v = (let K = keys_of S in
     \<lparr>ents = s_entries (get_stream (stream_key K) v),
      slast = s_last (get_stream (stream_key K) v),
      grp = the_group S v,
      dlyd = get_zset (delayed_key K) v,
      dlq = s_entries (get_stream (dead_key K) v),
      dlast = s_last (get_stream (dead_key K) v),
      reslog = map snd (s_entries (get_stream (results_key K) v)),
      efflog = map snd (s_entries (get_stream (effects_key K) v)),
      fin = (\<lambda>j. get_hash (done_key K j) v),
      led = (\<lambda>x. strs v (ledger_key K x) \<noteq> None),
      idem = (\<lambda>x. strs v (idem_key K x)),
      fullf = (strs v (full_key K) \<noteq> None),
      cnt = stats_of S v,
      qnow = ms_of v\<rparr>)"

definition numeric :: "(string \<rightharpoonup> string) \<Rightarrow> bool" where
  "numeric h \<longleftrightarrow> (\<forall>f x. h f = Some x \<longrightarrow> read_int x \<noteq> None)"

text \<open>A terminal record of a dead job names its dead-letter entry.\<close>

definition record_ok :: "(string \<rightharpoonup> string) \<Rightarrow> bool" where
  "record_ok h \<longleftrightarrow> (\<forall>d. h ''dead_entry_id'' = Some d \<longrightarrow> eid_of d \<noteq> None) \<and>
     (h ''state'' = Some ''DEAD'' \<longrightarrow> h ''dead_entry_id'' \<noteq> None)"

definition typed :: "settings \<Rightarrow> rdb \<Rightarrow> bool" where
  "typed S v \<longleftrightarrow> (let K = keys_of S in
     stream_ok (stream_key K) v \<and> stream_ok (dead_key K) v \<and> stream_ok (results_key K) v \<and>
     stream_ok (effects_key K) v \<and> zset_ok (delayed_key K) v \<and> str_ok (full_key K) v \<and>
     hash_ok (stats_key K) v \<and> hash_ok (reclaims_key K) v \<and>
     (\<forall>j. hash_ok (done_key K j) v) \<and> (\<forall>x. str_ok (idem_key K x) v) \<and>
     (\<forall>x. str_ok (ledger_key K x) v) \<and>
     streams v (stream_key K) \<noteq> None \<and>
     s_groups (get_stream (stream_key K) v) (group S) \<noteq> None \<and>
     numeric (get_hash (stats_key K) v) \<and> numeric (get_hash (reclaims_key K) v) \<and>
     (\<forall>j. record_ok (get_hash (done_key K j) v)) \<and>
     expiry v (stream_key K) = None \<and> expiry v (dead_key K) = None \<and>
     expiry v (results_key K) = None \<and> expiry v (effects_key K) = None \<and>
     expiry v (delayed_key K) = None \<and> expiry v (full_key K) = None \<and>
     expiry v (stats_key K) = None \<and> expiry v (reclaims_key K) = None \<and>
     (done_ttl_seconds S = 0 \<longrightarrow>
        (\<forall>j. expiry v (done_key K j) = None) \<and> (\<forall>x. expiry v (ledger_key K x) = None)))"

section \<open>Store updates\<close>

definition upd_stream :: "settings \<Rightarrow> (rstream \<Rightarrow> rstream) \<Rightarrow> rdb \<Rightarrow> rdb" where
  "upd_stream S f v =
     put_stream (stream_key (keys_of S)) (f (get_stream (stream_key (keys_of S)) v)) v"

definition set_group :: "settings \<Rightarrow> rgroup \<Rightarrow> rdb \<Rightarrow> rdb" where
  "set_group S g v = upd_stream S (\<lambda>s. s\<lparr>s_groups := (s_groups s)(group S \<mapsto> g)\<rparr>) v"

definition u_del :: "settings \<Rightarrow> eid \<Rightarrow> rdb \<Rightarrow> rdb" where
  "u_del S i v = upd_stream S (\<lambda>s. s\<lparr>s_entries := filter (\<lambda>p. fst p \<noteq> i) (s_entries s)\<rparr>) v"

definition u_add :: "settings \<Rightarrow> fields \<Rightarrow> rdb \<Rightarrow> rdb" where
  "u_add S ps v = upd_stream S (\<lambda>s. let i = next_eid (s_last s) (ms_of v) in
     s\<lparr>s_entries := s_entries s @ [(i, ps)], s_last := i\<rparr>) v"

definition u_ack :: "settings \<Rightarrow> eid \<Rightarrow> rdb \<Rightarrow> rdb" where
  "u_ack S i v = set_group S
     ((the_group S v)\<lparr>g_pel := filter (\<lambda>p. fst p \<noteq> i) (g_pel (the_group S v))\<rparr>) v"

definition u_log :: "key \<Rightarrow> fields \<Rightarrow> rdb \<Rightarrow> rdb" where
  "u_log k ps v = (let s = get_stream k v; i = next_eid (s_last s) (ms_of v) in
     put_stream k (s\<lparr>s_entries := s_entries s @ [(i, ps)], s_last := i\<rparr>) v)"

definition u_undead :: "settings \<Rightarrow> eid \<Rightarrow> rdb \<Rightarrow> rdb" where
  "u_undead S i v = (let k = dead_key (keys_of S) in
     case streams v k of None \<Rightarrow> v
     | Some s \<Rightarrow> put_stream k (s\<lparr>s_entries := filter (\<lambda>p. fst p \<noteq> i) (s_entries s)\<rparr>) v)"

definition u_hash :: "key \<Rightarrow> (string \<rightharpoonup> string) \<Rightarrow> rdb \<Rightarrow> rdb" where
  "u_hash k h v = v\<lparr>hashes := (hashes v)(k \<mapsto> h)\<rparr>"

definition u_count :: "settings \<Rightarrow> string \<Rightarrow> int \<Rightarrow> rdb \<Rightarrow> rdb" where
  "u_count S f n v = u_hash (stats_key (keys_of S))
     ((get_hash (stats_key (keys_of S)) v)(f \<mapsto> str_int (stats_of S v f + n))) v"

definition u_reclaims :: "settings \<Rightarrow> string \<Rightarrow> rdb \<Rightarrow> rdb" where
  "u_reclaims S f v = (let k = reclaims_key (keys_of S) in
     u_hash k ((get_hash k v)(f \<mapsto>
       str_int ((case get_hash k v f of None \<Rightarrow> 0 | Some x \<Rightarrow> the (read_int x)) + 1))) v)"

definition u_done :: "settings \<Rightarrow> string \<Rightarrow> fields \<Rightarrow> rdb \<Rightarrow> rdb" where
  "u_done S j ps v = u_hash (done_key (keys_of S) j)
     (get_hash (done_key (keys_of S) j) v ++ map_of (rev ps)) v"

definition u_undone :: "settings \<Rightarrow> string \<Rightarrow> rdb \<Rightarrow> rdb" where
  "u_undone S j v = drop_key (done_key (keys_of S) j) v"

definition u_expire :: "key \<Rightarrow> nat \<Rightarrow> rdb \<Rightarrow> rdb" where
  "u_expire k t v = v\<lparr>expiry := (expiry v)(k \<mapsto> clock v + t * 1000000)\<rparr>"

definition u_zset :: "settings \<Rightarrow> (string \<times> int) list \<Rightarrow> rdb \<Rightarrow> rdb" where
  "u_zset S z v = put_zset (delayed_key (keys_of S)) z v"

definition u_full :: "settings \<Rightarrow> bool \<Rightarrow> rdb \<Rightarrow> rdb" where
  "u_full S b v = (let k = full_key (keys_of S) in
     if b then (drop_key k v)\<lparr>strs := (strs v)(k \<mapsto> ''1'')\<rparr> else drop_key k v)"

definition u_mark :: "key \<Rightarrow> string \<Rightarrow> nat option \<Rightarrow> rdb \<Rightarrow> rdb" where
  "u_mark k x ttl v = v\<lparr>strs := (strs v)(k \<mapsto> x),
     expiry := (expiry v)(k := map_option (\<lambda>t. clock v + t * 1000000) ttl)\<rparr>"

lemmas upd_defs = upd_stream_def set_group_def u_del_def u_add_def u_ack_def u_log_def
  u_undead_def u_hash_def u_count_def u_reclaims_def u_done_def u_undone_def u_expire_def
  u_zset_def u_full_def u_mark_def put_stream_def put_zset_def drop_key_def

lemmas ok_defs = stream_ok_def hash_ok_def zset_ok_def str_ok_def

lemmas get_defs = get_stream_def get_hash_def get_zset_def the_group_def

section \<open>Updates keep well-formedness\<close>

lemma typed_set_group [typed_intro]: "typed S v \<Longrightarrow> typed S (set_group S g v)"
  by (simp add: typed_def upd_defs ok_defs get_defs Let_def)

lemma typed_u_ack [typed_intro]: "typed S v \<Longrightarrow> typed S (u_ack S i v)"
  by (simp add: u_ack_def typed_set_group)

lemma typed_u_del [typed_intro]: "typed S v \<Longrightarrow> typed S (u_del S i v)"
  by (simp add: typed_def upd_defs ok_defs get_defs Let_def)

lemma typed_u_add [typed_intro]: "typed S v \<Longrightarrow> typed S (u_add S ps v)"
  by (simp add: typed_def upd_defs ok_defs get_defs Let_def)

lemma typed_u_log [typed_intro]:
  assumes "typed S v"
  shows "typed S (u_log (dead_key (keys_of S)) ps v)"
    and "typed S (u_log (results_key (keys_of S)) ps v)"
    and "typed S (u_log (effects_key (keys_of S)) ps v)"
  using assms by (simp_all add: typed_def upd_defs ok_defs get_defs Let_def)

lemma typed_u_undead [typed_intro]: "typed S v \<Longrightarrow> typed S (u_undead S i v)"
  by (cases "streams v (dead_key (keys_of S))")
    (simp_all add: typed_def upd_defs ok_defs get_defs Let_def)

lemma numeric_upd [simp]: "numeric h \<Longrightarrow> numeric (h(f \<mapsto> str_int n))"
  by (simp add: numeric_def)

lemma typed_u_count [typed_intro]: "typed S v \<Longrightarrow> typed S (u_count S f n v)"
  by (simp add: typed_def u_count_def u_hash_def ok_defs get_hash_def get_stream_def Let_def
      split del: if_split)

lemma typed_u_reclaims [typed_intro]: "typed S v \<Longrightarrow> typed S (u_reclaims S f v)"
  by (simp add: typed_def u_reclaims_def u_hash_def ok_defs get_hash_def get_stream_def Let_def
      split del: if_split)

lemma get_hash_u_hash [simp]: "get_hash k' (u_hash k h v) = (if k' = k then h else get_hash k' v)"
  by (simp add: get_hash_def u_hash_def)

lemma get_stream_u_hash [simp]: "get_stream k' (u_hash k h v) = get_stream k' v"
  by (simp add: get_stream_def u_hash_def)

lemma typed_u_done [typed_intro]:
  assumes t: "typed S v" and r: "record_ok (get_hash (done_key (keys_of S) j) v ++ map_of (rev ps))"
  shows "typed S (u_done S j ps v)"
proof -
  let ?k = "done_key (keys_of S) j" and ?h = "get_hash (done_key (keys_of S) j) v ++ map_of (rev ps)"
  have u: "strs (u_hash ?k ?h v) = strs v" "zsets (u_hash ?k ?h v) = zsets v"
    "streams (u_hash ?k ?h v) = streams v" "expiry (u_hash ?k ?h v) = expiry v"
    "hashes (u_hash ?k ?h v) = (hashes v)(?k \<mapsto> ?h)" by (simp_all add: u_hash_def)
  from r have "\<forall>j'. record_ok (get_hash (done_key (keys_of S) j') (u_hash ?k ?h v))"
    using t by (simp add: typed_def Let_def)
  then show ?thesis
    using t unfolding u_done_def typed_def ok_defs Let_def
    by (simp only: u) simp
qed

lemma record_ok_empty [simp]: "record_ok Map.empty"
  by (simp add: record_ok_def)

lemma typed_u_undone [typed_intro]: "typed S v \<Longrightarrow> typed S (u_undone S j v)"
  by (simp add: typed_def upd_defs ok_defs get_hash_def get_stream_def Let_def)

lemma typed_u_expire [typed_intro]:
  "typed S v \<Longrightarrow> done_ttl_seconds S \<noteq> 0 \<Longrightarrow> typed S (u_expire (done_key (keys_of S) j) t v)"
  by (simp add: typed_def upd_defs ok_defs get_hash_def get_stream_def Let_def)

lemma typed_u_zset [typed_intro]: "typed S v \<Longrightarrow> typed S (u_zset S z v)"
  by (simp add: typed_def upd_defs ok_defs get_hash_def get_stream_def Let_def)

lemma typed_u_full [typed_intro]: "typed S v \<Longrightarrow> typed S (u_full S b v)"
  by (simp add: typed_def upd_defs ok_defs get_hash_def get_stream_def Let_def)

lemma typed_u_mark_idem [typed_intro]: "typed S v \<Longrightarrow> typed S (u_mark (idem_key (keys_of S) k) x t v)"
  by (simp add: typed_def upd_defs ok_defs get_hash_def get_stream_def Let_def)

lemma typed_u_mark_ledger [typed_intro]:
  "typed S v \<Longrightarrow> (done_ttl_seconds S = 0 \<longrightarrow> t = None) \<Longrightarrow>
   typed S (u_mark (ledger_key (keys_of S) k) x t v)"
  by (simp add: typed_def upd_defs ok_defs get_hash_def get_stream_def Let_def)

section \<open>The effect of updates on the view\<close>

lemmas vdefs = qview_def upd_defs get_defs stats_of_def fun_eq_iff Let_def ms_of_def

lemma qview_set_group [view_simps]: "qview S (set_group S g v) = (qview S v)\<lparr>grp := g\<rparr>"
  by (simp add: vdefs)

lemma qview_u_ack [view_simps]:
  "qview S (u_ack S i v) =
   (qview S v)\<lparr>grp := (grp (qview S v))\<lparr>g_pel := filter (\<lambda>p. fst p \<noteq> i) (pend (qview S v))\<rparr>\<rparr>"
  by (simp add: u_ack_def qview_set_group) (simp add: qview_def Let_def)

lemma qview_u_del [view_simps]:
  "qview S (u_del S i v) = (qview S v)\<lparr>ents := filter (\<lambda>p. fst p \<noteq> i) (ents (qview S v))\<rparr>"
  by (simp add: vdefs)

lemma qview_u_add [view_simps]:
  "qview S (u_add S ps v) = (let q = qview S v; i = next_eid (slast q) (qnow q) in
     q\<lparr>ents := ents q @ [(i, ps)], slast := i\<rparr>)"
  by (simp add: vdefs)

lemma qview_u_log_dead [view_simps]:
  "qview S (u_log (dead_key (keys_of S)) ps v) = (let q = qview S v; i = next_eid (dlast q) (qnow q) in
     q\<lparr>dlq := dlq q @ [(i, ps)], dlast := i\<rparr>)"
  by (simp add: vdefs)

lemma qview_u_log_results [view_simps]:
  "qview S (u_log (results_key (keys_of S)) ps v) =
   (qview S v)\<lparr>reslog := reslog (qview S v) @ [ps]\<rparr>"
  by (simp add: vdefs)

lemma qview_u_log_effects [view_simps]:
  "qview S (u_log (effects_key (keys_of S)) ps v) =
   (qview S v)\<lparr>efflog := efflog (qview S v) @ [ps]\<rparr>"
  by (simp add: vdefs)

lemma qview_u_undead [view_simps]:
  "qview S (u_undead S i v) = (qview S v)\<lparr>dlq := filter (\<lambda>p. fst p \<noteq> i) (dlq (qview S v))\<rparr>"
  by (cases "streams v (dead_key (keys_of S))") (simp_all add: vdefs empty_stream_def)

lemma qview_u_count [view_simps]:
  "qview S (u_count S f n v) = (qview S v)\<lparr>cnt := (cnt (qview S v))(f := cnt (qview S v) f + n)\<rparr>"
  by (simp add: vdefs)

lemma qview_u_reclaims [view_simps]: "qview S (u_reclaims S f v) = qview S v"
  by (simp add: vdefs)

lemma qview_u_done [view_simps]:
  "qview S (u_done S j ps v) =
   (qview S v)\<lparr>fin := (fin (qview S v))(j := fin (qview S v) j ++ map_of (rev ps))\<rparr>"
  by (auto simp: vdefs fun_eq_iff)

lemma qview_u_undone [view_simps]:
  "qview S (u_undone S j v) = (qview S v)\<lparr>fin := (fin (qview S v))(j := Map.empty)\<rparr>"
  by (auto simp: vdefs fun_eq_iff)

lemma qview_u_expire [view_simps]: "qview S (u_expire k t v) = qview S v"
  by (simp add: vdefs)

lemma qview_u_zset [view_simps]: "qview S (u_zset S z v) = (qview S v)\<lparr>dlyd := z\<rparr>"
  by (simp add: vdefs)

lemma qview_u_full [view_simps]: "qview S (u_full S b v) = (qview S v)\<lparr>fullf := b\<rparr>"
  by (auto simp: vdefs fun_eq_iff)

lemma qview_u_mark_idem [view_simps]:
  "qview S (u_mark (idem_key (keys_of S) k) x t v) = (qview S v)\<lparr>idem := (idem (qview S v))(k \<mapsto> x)\<rparr>"
  by (auto simp: vdefs fun_eq_iff)

lemma qview_u_mark_ledger [view_simps]:
  "qview S (u_mark (ledger_key (keys_of S) k) x t v) = (qview S v)\<lparr>led := (led (qview S v))(k := True)\<rparr>"
  by (auto simp: vdefs fun_eq_iff)

lemma ms_of_upd [view_simps]:
  "ms_of (set_group S g v) = ms_of v" "ms_of (u_del S i v) = ms_of v" "ms_of (u_add S ps v) = ms_of v"
  "ms_of (u_ack S i v) = ms_of v" "ms_of (u_log k ps v) = ms_of v" "ms_of (u_undead S i v) = ms_of v"
  "ms_of (u_hash k h v) = ms_of v" "ms_of (u_count S f n v) = ms_of v"
  "ms_of (u_reclaims S f v) = ms_of v" "ms_of (u_done S j ps v) = ms_of v"
  "ms_of (u_undone S j v) = ms_of v" "ms_of (u_expire k t v) = ms_of v"
  "ms_of (u_zset S z v) = ms_of v" "ms_of (u_full S b v) = ms_of v" "ms_of (u_mark k x ttl v) = ms_of v"
  by (auto simp: ms_of_def upd_defs Let_def split: option.split)

section \<open>Executing commands on a well-formed store\<close>

lemma doc_of_ops [simp]:
  "GET (doc_of R) = d_get" "EXISTS (doc_of R) = d_exists" "DEL (doc_of R) = d_del"
  "SET (doc_of R) = d_set" "SET_NX (doc_of R) = d_set_nx" "EXPIRE (doc_of R) = d_expire"
  "HGET (doc_of R) = d_hget" "HGETALL (doc_of R) = d_hgetall" "HSET (doc_of R) = d_hset"
  "HINCRBY (doc_of R) = d_hincrby" "TIME (doc_of R) = d_time" "ZADD (doc_of R) = d_zadd"
  "ZCARD (doc_of R) = d_zcard" "ZREM (doc_of R) = d_zrem" "ZRANGE_DUE (doc_of R) = d_zrange_due"
  "XADD (doc_of R) = d_xadd" "XLEN (doc_of R) = d_xlen" "XDEL (doc_of R) = d_xdel"
  "XRANGE (doc_of R) = d_xrange" "XREVRANGE1 (doc_of R) = d_xrevrange1"
  "XGROUP_CREATE (doc_of R) = d_xgroup_create" "XREADGROUP (doc_of R) = d_xreadgroup"
  "XACK (doc_of R) = d_xack" "XPENDING (doc_of R) = d_xpending"
  "XPENDING_CONSUMER (doc_of R) = d_xpending_consumer"
  "XPENDING_SUMMARY (doc_of R) = d_xpending_summary"
  "XCLAIM_JUSTID (doc_of R) = d_xclaim_justid" "XAUTOCLAIM (doc_of R) = d_xautoclaim"
  "XINFO_CONSUMERS (doc_of R) = d_xinfo_consumers" "DELCONSUMER (doc_of R) = d_delconsumer"
  "TICK (doc_of R) = d_tick"
  by (simp_all add: doc_of_def doc_redis_def)

lemma now_ms_doc_exec [exec_simps]: "now_ms (doc_of R) v = (Inr (ms_of v), v)"
proof -
  have c: "1000 * (clock v div 1000000 * 1000) + clock v mod 1000000 = clock v" by simp
  have "(1000 * a + b) div 1000 = a + b div 1000" for a b :: nat by simp
  from this [of "clock v div 1000000 * 1000" "clock v mod 1000000"]
  have "clock v div 1000000 * 1000 + clock v mod 1000000 div 1000 = clock v div 1000"
    unfolding c by (rule sym)
  then show ?thesis by (simp add: now_ms_def call_apply d_time_def ms_of_def)
qed

lemma ms_of_qnow: "ms_of v = qnow (qview S v)"
  by (simp add: qview_def Let_def)

lemma typedD:
  assumes "typed S v"
  shows "stream_ok (stream_key (keys_of S)) v" "stream_ok (dead_key (keys_of S)) v"
    "stream_ok (results_key (keys_of S)) v" "stream_ok (effects_key (keys_of S)) v"
    "zset_ok (delayed_key (keys_of S)) v" "str_ok (full_key (keys_of S)) v"
    "hash_ok (stats_key (keys_of S)) v" "hash_ok (reclaims_key (keys_of S)) v"
    "hash_ok (done_key (keys_of S) j) v" "str_ok (idem_key (keys_of S) x) v"
    "str_ok (ledger_key (keys_of S) y) v"
    "numeric (get_hash (stats_key (keys_of S)) v)" "numeric (get_hash (reclaims_key (keys_of S)) v)"
    "record_ok (get_hash (done_key (keys_of S) j) v)"
  using assms by (simp_all add: typed_def Let_def)

lemma typed_group:
  assumes "typed S v"
  obtains s where "streams v (stream_key (keys_of S)) = Some s"
    and "stream_ok (stream_key (keys_of S)) v"
    and "s_groups s (group S) = Some (the_group S v)"
    and "get_stream (stream_key (keys_of S)) v = s"
  using assms by (fastforce simp: typed_def get_defs Let_def)

lemma exec_hget [exec_simps]:
  "typed S v \<Longrightarrow> d_hget (done_key (keys_of S) j) f v = (Inr (fin (qview S v) j f), v)"
  by (simp add: d_hget_def typedD qview_def Let_def)

lemma exec_xack [exec_simps]:
  "typed S v \<Longrightarrow> d_xack (stream_key (keys_of S)) (group S) i v = (Inr (), u_ack S i v)"
  by (erule typed_group)
    (simp add: d_xack_def typedD u_ack_def set_group_def upd_stream_def put_group_def)

lemma exec_xdel [exec_simps]:
  "typed S v \<Longrightarrow> d_xdel (stream_key (keys_of S)) i v = (Inr (), u_del S i v)"
  by (erule typed_group) (simp add: d_xdel_def typedD u_del_def upd_stream_def)

lemma exec_xdel_dead [exec_simps]:
  "typed S v \<Longrightarrow> d_xdel (dead_key (keys_of S)) i v = (Inr (), u_undead S i v)"
  by (auto simp: d_xdel_def typedD u_undead_def split: option.split)

lemma exec_hincrby [exec_simps]:
  "typed S v \<Longrightarrow> d_hincrby (stats_key (keys_of S)) f n v = (Inr (stats_of S v f + n), u_count S f n v)"
  using typedD(7,12) [of S v]
  by (auto simp: d_hincrby_def u_count_def u_hash_def stats_of_def numeric_def split: option.split)

lemma exec_hincrby_reclaims [exec_simps]:
  "typed S v \<Longrightarrow> d_hincrby (reclaims_key (keys_of S)) f 1 v =
     (Inr ((case get_hash (reclaims_key (keys_of S)) v f of None \<Rightarrow> 0 | Some x \<Rightarrow> the (read_int x)) + 1),
      u_reclaims S f v)"
  using typedD(8,13) [of S v]
  by (auto simp: d_hincrby_def u_reclaims_def u_hash_def numeric_def Let_def split: option.split)

lemma exec_hset [exec_simps]:
  "typed S v \<Longrightarrow> d_hset (done_key (keys_of S) j) ps v = (Inr (), u_done S j ps v)"
  by (simp add: d_hset_def typedD u_done_def u_hash_def)

lemma exec_del_done [exec_simps]: "d_del (done_key (keys_of S) j) v = (Inr (), u_undone S j v)"
  by (simp add: d_del_def u_undone_def)

lemma exec_expire_done [exec_simps]:
  "d_expire (done_key (keys_of S) j) t (u_done S j ps v) =
   (Inr (), u_expire (done_key (keys_of S) j) t (u_done S j ps v))"
  by (simp add: d_expire_def u_expire_def u_done_def u_hash_def)

lemma exec_xadd [exec_simps]:
  "typed S v \<Longrightarrow> pair_up flat = Some ps \<Longrightarrow> ps \<noteq> [] \<Longrightarrow>
   d_xadd (stream_key (keys_of S)) flat v =
     (Inr (next_eid (slast (qview S v)) (qnow (qview S v))), u_add S ps v)"
  by (simp add: d_xadd_def typedD u_add_def upd_stream_def qview_def Let_def)

lemma exec_xadd_dead [exec_simps]:
  "typed S v \<Longrightarrow> pair_up flat = Some ps \<Longrightarrow> ps \<noteq> [] \<Longrightarrow>
   d_xadd (dead_key (keys_of S)) flat v =
     (Inr (next_eid (dlast (qview S v)) (qnow (qview S v))), u_log (dead_key (keys_of S)) ps v)"
  by (simp add: d_xadd_def typedD u_log_def qview_def Let_def)

lemma exec_xadd_results [exec_simps]:
  "typed S v \<Longrightarrow> pair_up flat = Some ps \<Longrightarrow> ps \<noteq> [] \<Longrightarrow>
   d_xadd (results_key (keys_of S)) flat v =
     (Inr (next_eid (s_last (get_stream (results_key (keys_of S)) v)) (ms_of v)),
      u_log (results_key (keys_of S)) ps v)"
  by (simp add: d_xadd_def typedD u_log_def Let_def)

lemma exec_xadd_effects [exec_simps]:
  "typed S v \<Longrightarrow> pair_up flat = Some ps \<Longrightarrow> ps \<noteq> [] \<Longrightarrow>
   d_xadd (effects_key (keys_of S)) flat v =
     (Inr (next_eid (s_last (get_stream (effects_key (keys_of S)) v)) (ms_of v)),
      u_log (effects_key (keys_of S)) ps v)"
  by (simp add: d_xadd_def typedD u_log_def Let_def)

lemma exec_zadd [exec_simps]:
  "typed S v \<Longrightarrow> d_zadd (delayed_key (keys_of S)) sc m v = (Inr (), u_zset S (zins m sc (dlyd (qview S v))) v)"
  by (simp add: d_zadd_def typedD u_zset_def qview_def Let_def)

lemma exec_zrem [exec_simps]:
  "typed S v \<Longrightarrow> d_zrem (delayed_key (keys_of S)) m v =
     (Inr (), u_zset S (filter (\<lambda>p. fst p \<noteq> m) (dlyd (qview S v))) v)"
  by (simp add: d_zrem_def typedD u_zset_def qview_def Let_def)

lemma exec_zcard [exec_simps]:
  "typed S v \<Longrightarrow> d_zcard (delayed_key (keys_of S)) v = (Inr (length (dlyd (qview S v))), v)"
  by (simp add: d_zcard_def typedD qview_def Let_def)

lemma exec_zrange_due [exec_simps]:
  "typed S v \<Longrightarrow> d_zrange_due (delayed_key (keys_of S)) hi n v =
     (Inr (take n (map fst (filter (\<lambda>p. snd p \<le> hi) (dlyd (qview S v))))), v)"
  by (simp add: d_zrange_due_def typedD qview_def Let_def)

lemma exec_xlen [exec_simps]:
  "typed S v \<Longrightarrow> d_xlen (stream_key (keys_of S)) v = (Inr (length (ents (qview S v))), v)"
  by (simp add: d_xlen_def typedD qview_def Let_def)

lemma exec_xrange_one [exec_simps]:
  "typed S v \<Longrightarrow> d_xrange (stream_key (keys_of S)) (Incl i) (Some i) None v =
     (Inr (filter (\<lambda>p. fst p = i) (ents (qview S v))), v)"
  by (auto simp: d_xrange_def typedD qview_def Let_def take_opt_def below_def intro: filter_cong)

lemma exec_xrange_dead_one [exec_simps]:
  "typed S v \<Longrightarrow> d_xrange (dead_key (keys_of S)) (Incl i) (Some i) None v =
     (Inr (filter (\<lambda>p. fst p = i) (dlq (qview S v))), v)"
  by (auto simp: d_xrange_def typedD qview_def Let_def take_opt_def below_def intro: filter_cong)

lemma exec_xpending [exec_simps]:
  "typed S v \<Longrightarrow> d_xpending (stream_key (keys_of S)) (group S) i v =
     (Inr (map_option (\<lambda>p. (p_owner p, int (qnow (qview S v)) - p_time p, p_count p))
        (map_of (pend (qview S v)) i)), v)"
  by (erule typed_group) (simp add: d_xpending_def with_group_def typedD qview_def Let_def)

lemma exec_exists_full [exec_simps]:
  "typed S v \<Longrightarrow> d_exists (full_key (keys_of S)) v = (Inr (if fullf (qview S v) then 1 else 0), v)"
  using typedD(6) [of S v] by (auto simp: d_exists_def str_ok_def qview_def Let_def)

lemma exec_del_full [exec_simps]: "d_del (full_key (keys_of S)) v = (Inr (), u_full S False v)"
  by (simp add: d_del_def u_full_def)

lemma exec_set_full [exec_simps]: "d_set (full_key (keys_of S)) ''1'' v = (Inr (), u_full S True v)"
  by (simp add: d_set_def u_full_def Let_def)

lemma exec_get_idem [exec_simps]:
  "typed S v \<Longrightarrow> d_get (idem_key (keys_of S) k) v = (Inr (idem (qview S v) k), v)"
  by (simp add: d_get_def typedD qview_def Let_def)

lemma exec_set_nx_idem [exec_simps]:
  "typed S v \<Longrightarrow> d_set_nx (idem_key (keys_of S) k) x t v =
     (if idem (qview S v) k = None then (Inr True, u_mark (idem_key (keys_of S) k) x t v) else (Inr False, v))"
  by (simp add: d_set_nx_def typedD qview_def Let_def u_mark_def)

lemma exec_set_nx_ledger [exec_simps]:
  "typed S v \<Longrightarrow> d_set_nx (ledger_key (keys_of S) k) x t v =
     (if led (qview S v) k then (Inr False, v) else (Inr True, u_mark (ledger_key (keys_of S) k) x t v))"
  by (simp add: d_set_nx_def typedD qview_def Let_def u_mark_def)

text \<open>Group commands read the queue's entries and group and replace the group.\<close>

lemma exec_with_group:
  assumes "typed S v"
  shows "with_group (stream_key (keys_of S)) (group S) f v =
    f (get_stream (stream_key (keys_of S)) v) (grp (qview S v)) v"
  using assms by (elim typed_group) (simp add: with_group_def qview_def Let_def)

lemma entries_of_view: "s_entries (get_stream (stream_key (keys_of S)) v) = ents (qview S v)"
  by (simp add: qview_def Let_def)

lemma put_group_view: "put_group (stream_key (keys_of S)) (group S)
    (get_stream (stream_key (keys_of S)) v) g v = set_group S g v"
  by (simp add: set_group_def upd_stream_def put_group_def)

lemmas group_simps = exec_with_group entries_of_view put_group_view Let_def

definition read_group :: "string \<Rightarrow> nat \<Rightarrow> qstate \<Rightarrow> (eid \<times> fields) list \<times> rgroup" where
  "read_group c n q =
     (let g = grp q; new = take n (filter (\<lambda>p. g_last g < fst p) (ents q)) in
      (new, g\<lparr>g_last := (if new = [] then g_last g else fst (last new)),
              g_pel := g_pel g @ map (\<lambda>p. (fst p, \<lparr>p_owner = c, p_time = int (qnow q), p_count = 1\<rparr>)) new,
              g_cons := touch c (int (qnow q)) (g_cons g)\<rparr>))"

lemma exec_xreadgroup [exec_simps]:
  "typed S v \<Longrightarrow> d_xreadgroup (stream_key (keys_of S)) (group S) c n v =
     (Inr (fst (read_group c n (qview S v))), set_group S (snd (read_group c n (qview S v))) v)"
  by (simp add: group_simps d_xreadgroup_def read_group_def ms_of_qnow [of _ S])

definition claim_group :: "string \<Rightarrow> eid \<Rightarrow> int option \<Rightarrow> nat option \<Rightarrow> qstate \<Rightarrow> rgroup" where
  "claim_group c i idle rc q = (let g = grp q; t = int (qnow q); cs = touch c t (g_cons g) in
     case map_of (g_pel g) i of
       None \<Rightarrow> g\<lparr>g_cons := cs\<rparr>
     | Some p \<Rightarrow>
         (if i \<in> fst ` set (ents q) then
            g\<lparr>g_pel := set_pent i \<lparr>p_owner = c, p_time = t - (case idle of None \<Rightarrow> 0 | Some d \<Rightarrow> d),
                p_count = (case rc of None \<Rightarrow> p_count p | Some n \<Rightarrow> n)\<rparr> (g_pel g), g_cons := cs\<rparr>
          else g\<lparr>g_pel := filter (\<lambda>r. fst r \<noteq> i) (g_pel g), g_cons := cs\<rparr>))"

lemma exec_xclaim_justid [exec_simps]:
  "typed S v \<Longrightarrow> d_xclaim_justid (stream_key (keys_of S)) (group S) c i idle rc v =
     (Inr (), set_group S (claim_group c i idle rc (qview S v)) v)"
  by (simp add: group_simps d_xclaim_justid_def claim_group_def ms_of_qnow [of _ S] split: option.split)

definition auto_group ::
  "string \<Rightarrow> int \<Rightarrow> eid \<Rightarrow> nat \<Rightarrow> qstate \<Rightarrow> (eid \<times> (eid \<times> fields) list \<times> eid list) \<times> rgroup" where
  "auto_group c mi cur n q =
     (let g = grp q; t = int (qnow q) in
      case autoclaim c t mi (ents q) (10 * n) n (filter (\<lambda>p. cur \<le> fst p) (g_pel g)) of
        (out, cl, del, rest) \<Rightarrow>
          ((case rest of [] \<Rightarrow> (0, 0) | p # _ \<Rightarrow> fst p, cl, del),
           g\<lparr>g_pel := filter (\<lambda>p. fst p < cur) (g_pel g) @ out, g_cons := touch c t (g_cons g)\<rparr>))"

lemma exec_xautoclaim [exec_simps]:
  "typed S v \<Longrightarrow> d_xautoclaim (stream_key (keys_of S)) (group S) c mi cur n v =
     (Inr (fst (auto_group c mi cur n (qview S v))), set_group S (snd (auto_group c mi cur n (qview S v))) v)"
  by (simp add: group_simps d_xautoclaim_def auto_group_def ms_of_qnow [of _ S] split: prod.split)

lemma exec_xinfo_consumers [exec_simps]:
  "typed S v \<Longrightarrow> d_xinfo_consumers (stream_key (keys_of S)) (group S) v =
     (Inr (map (\<lambda>p. (fst p, int (qnow (qview S v)) - snd p)) (g_cons (grp (qview S v)))), v)"
  by (simp add: group_simps d_xinfo_consumers_def ms_of_qnow [of _ S])

lemma exec_xpending_consumer [exec_simps]:
  "typed S v \<Longrightarrow> d_xpending_consumer (stream_key (keys_of S)) (group S) c v =
     (Inr (map_option fst (find (\<lambda>p. p_owner (snd p) = c) (pend (qview S v)))), v)"
  by (simp add: group_simps d_xpending_consumer_def)

lemma exec_delconsumer [exec_simps]:
  "typed S v \<Longrightarrow> d_delconsumer (stream_key (keys_of S)) (group S) c v =
     (Inr (), set_group S ((grp (qview S v))\<lparr>g_pel := filter (\<lambda>p. p_owner (snd p) \<noteq> c) (pend (qview S v)),
        g_cons := filter (\<lambda>p. fst p \<noteq> c) (g_cons (grp (qview S v)))\<rparr>) v)"
  by (simp add: group_simps d_delconsumer_def)

lemma exec_xpending_summary [exec_simps]:
  "typed S v \<Longrightarrow> d_xpending_summary (stream_key (keys_of S)) (group S) v =
     (Inr (length (pend (qview S v))), v)"
  by (simp add: group_simps d_xpending_summary_def)

end
