(* ===== verification/Queue_Spec.thy ===== *)
theory Queue_Spec
  imports Queue_State
begin

text \<open>
  What each transition promises, as a total function on the queue's view: no commands, no
  keys, no error replies. \<open>implements\<close> is the refinement relation: on every well-formed store
  whose view meets the precondition the script succeeds, keeps the store well formed, replies
  what the specification says and changes the view exactly as the specification does.
\<close>

definition implements ::
  "settings \<Rightarrow> (qstate \<Rightarrow> bool) \<Rightarrow> (rdb, 'a) script \<Rightarrow> (qstate \<Rightarrow> 'a \<times> qstate) \<Rightarrow> bool" where
  "implements S P m ab \<longleftrightarrow> (\<forall>v. typed S v \<longrightarrow> P (qview S v) \<longrightarrow>
     (\<exists>v'. m v = (Inr (fst (ab (qview S v))), v') \<and> typed S v' \<and> qview S v' = snd (ab (qview S v))))"

lemma implementsI:
  assumes "\<And>v q. typed S v \<Longrightarrow> q = qview S v \<Longrightarrow> P q \<Longrightarrow>
     \<exists>v'. m v = (Inr (fst (ab q)), v') \<and> typed S v' \<and> qview S v' = snd (ab q)"
  shows "implements S P m ab"
  using assms by (simp add: implements_def)

lemma implementsD:
  assumes "implements S P m ab" and "typed S v" and "P (qview S v)"
  obtains v' where "m v = (Inr (fst (ab (qview S v))), v')" and "typed S v'"
    and "qview S v' = snd (ab (qview S v))"
  using assms unfolding implements_def by blast

abbreviation always :: "qstate \<Rightarrow> bool" where
  "always q \<equiv> True"

section \<open>Specifications\<close>

definition q_count :: "string \<Rightarrow> int \<Rightarrow> qstate \<Rightarrow> qstate" where
  "q_count f n q = q\<lparr>cnt := (cnt q)(f := cnt q f + n)\<rparr>"

definition q_drop :: "eid \<Rightarrow> qstate \<Rightarrow> qstate" where
  "q_drop i q = q\<lparr>grp := (grp q)\<lparr>g_pel := filter (\<lambda>p. fst p \<noteq> i) (pend q)\<rparr>,
     ents := filter (\<lambda>p. fst p \<noteq> i) (ents q)\<rparr>"

definition q_add :: "fields \<Rightarrow> qstate \<Rightarrow> qstate" where
  "q_add ps q = (let i = next_eid (slast q) (qnow q) in q\<lparr>ents := ents q @ [(i, ps)], slast := i\<rparr>)"

definition state_of :: "qstate \<Rightarrow> string \<Rightarrow> string option" where
  "state_of q j = fin q j ''state''"

definition dead_id :: "qstate \<Rightarrow> string \<Rightarrow> eid" where
  "dead_id q j = the (eid_of (the (fin q j ''dead_entry_id'')))"

definition owns :: "qstate \<Rightarrow> string \<Rightarrow> eid \<Rightarrow> bool" where
  "owns q w i \<longleftrightarrow> (\<exists>p. map_of (pend q) i = Some p \<and> p_owner p = w)"

definition undead :: "string \<Rightarrow> qstate \<Rightarrow> qstate" where
  "undead j q = q\<lparr>dlq := filter (\<lambda>p. fst p \<noteq> dead_id q j) (dlq q), fin := (fin q)(j := Map.empty)\<rparr>"

definition succeed :: "string \<Rightarrow> string \<Rightarrow> string \<Rightarrow> string \<Rightarrow> qstate \<Rightarrow> qstate" where
  "succeed w j enq result q = (let t = str_nat (qnow q) in
     q\<lparr>fin := (fin q)(j := fin q j ++ map_of (rev
          [(''state'', ''SUCCEEDED''), (''result'', result), (''finished_at_ms'', t), (''worker_id'', w)])),
       reslog := reslog q @ [[(''job_id'', j), (''worker_id'', w),
          (''enqueued_at_ms'', enq), (''finished_at_ms'', t)]]\<rparr>)"

definition q_commit :: "string \<Rightarrow> eid \<Rightarrow> string \<Rightarrow> string \<Rightarrow> string \<Rightarrow> qstate \<Rightarrow> commit_outcome \<times> qstate" where
  "q_commit w i j enq result q =
     (if state_of q j = Some ''SUCCEEDED'' then
        (DUPLICATE, q_count ''duplicates_suppressed'' 1 (q_drop i q))
      else
        (let late = (state_of q j = Some ''DEAD'');
             q1 = (if late then q_count ''late_successes'' 1 (undead j q) else q)
         in (if late then LATE_SUCCESS else COMMITTED,
             q_count ''processed'' 1 (q_drop i (succeed w j enq result q1)))))"

definition q_heartbeat :: "string \<Rightarrow> eid \<Rightarrow> qstate \<Rightarrow> outcome \<times> qstate" where
  "q_heartbeat w i q =
     (if owns q w i
      then (OK, q_count ''heartbeats'' 1 (q\<lparr>grp := claim_group w i None None q\<rparr>))
      else (LEASE_LOST, q_count ''lease_lost'' 1 q))"

text \<open>A failure report by the owner of a live job; refused and redundant ones change nothing else.\<close>

definition q_owned :: "string \<Rightarrow> eid \<Rightarrow> string \<Rightarrow> (qstate \<Rightarrow> qstate) \<Rightarrow> qstate \<Rightarrow> outcome \<times> qstate" where
  "q_owned w i j f q =
     (if \<not> owns q w i then (LEASE_LOST, q_count ''lease_lost'' 1 q)
      else if state_of q j \<noteq> None then
        (TERMINAL, q_count ''duplicates_suppressed'' 1 (q_drop i q))
      else (OK, f q))"

definition count_timeout :: "bool \<Rightarrow> qstate \<Rightarrow> qstate" where
  "count_timeout b q = (if b then q_count ''timeouts'' 1 q else q)"

definition delay_entry :: "(string list \<Rightarrow> string) \<Rightarrow> eid \<Rightarrow> string \<Rightarrow> int \<Rightarrow> qstate \<Rightarrow> qstate" where
  "delay_entry enc i a d q = q\<lparr>dlyd := zins (enc (set_attempt a (flat_of (the (map_of (ents q) i)))))
     (int (qnow q) + d) (dlyd q)\<rparr>"

definition q_retry :: "(string list \<Rightarrow> string) \<Rightarrow> string \<Rightarrow> eid \<Rightarrow> string \<Rightarrow> string \<Rightarrow> int \<Rightarrow> bool
    \<Rightarrow> qstate \<Rightarrow> outcome \<times> qstate" where
  "q_retry enc w i j a d b = q_owned w i j
     (\<lambda>q. count_timeout b (q_count ''retried'' 1 (q_drop i (delay_entry enc i a d q))))"

definition dlq_meta :: "string \<Rightarrow> string \<Rightarrow> string \<Rightarrow> string \<Rightarrow> string \<Rightarrow> eid \<Rightarrow> qstate \<Rightarrow> fields" where
  "dlq_meta w j reason error attempts i q =
     [(''dlq_job_id'', j), (''dlq_reason'', reason), (''dlq_error'', error),
      (''dlq_attempts'', attempts), (''dlq_deliveries'', str_nat (p_count (the (map_of (pend q) i)))),
      (''dlq_dead_at_ms'', str_nat (qnow q)), (''dlq_worker_id'', w),
      (''dlq_source_entry_id'', eid_str i)]"

definition bury :: "string \<Rightarrow> string \<Rightarrow> string \<Rightarrow> string \<Rightarrow> string \<Rightarrow> eid \<Rightarrow> qstate \<Rightarrow> qstate" where
  "bury w j reason error attempts i q =
     (let di = next_eid (dlast q) (qnow q) in
      q\<lparr>dlq := dlq q @ [(di, (case map_of (ents q) i of None \<Rightarrow> [] | Some fs \<Rightarrow> fs)
                              @ dlq_meta w j reason error attempts i q)],
        dlast := di,
        fin := (fin q)(j := fin q j ++ map_of (rev
           [(''state'', ''DEAD''), (''dead_entry_id'', eid_str di), (''reason'', reason),
            (''error'', error), (''finished_at_ms'', str_nat (qnow q)), (''worker_id'', w)]))\<rparr>)"

definition q_dead :: "string \<Rightarrow> eid \<Rightarrow> string \<Rightarrow> string \<Rightarrow> string \<Rightarrow> string \<Rightarrow> bool
    \<Rightarrow> qstate \<Rightarrow> outcome \<times> qstate" where
  "q_dead w i j reason error attempts b = q_owned w i j
     (\<lambda>q. count_timeout b (q_count ''dead'' 1 (q_drop i (bury w j reason error attempts i q))))"

definition q_ledger :: "string \<Rightarrow> fields \<Rightarrow> qstate \<Rightarrow> bool \<times> qstate" where
  "q_ledger k fs q =
     (if led q k then (False, q_count ''effects_suppressed'' 1 q)
      else (True, q_count ''effects_applied'' 1
             (q\<lparr>led := (led q)(k := True), efflog := efflog q @ [(''key'', k) # fs]\<rparr>)))"

section \<open>The scripts implement their specifications\<close>

lemmas spec_simps = exec_simps view_simps typed_intro call_apply ms_of_qnow [symmetric]

lemma record_ok_succeeded [simp]:
  "record_ok h \<Longrightarrow> record_ok (h(''state'' \<mapsto> ''SUCCEEDED'', ''result'' \<mapsto> r, ''finished_at_ms'' \<mapsto> t,
     ''worker_id'' \<mapsto> w))"
  by (simp add: record_ok_def)

lemma record_ok_fin: "typed S v \<Longrightarrow> record_ok (fin (qview S v) j)"
  by (simp add: typedD qview_def Let_def)

lemma fin_hash: "get_hash (done_key (keys_of S) j) v = fin (qview S v) j"
  by (simp add: qview_def Let_def)

lemmas commit_simps = commit_def commit_lua_def to_commit_def q_commit_def succeed_def undead_def
  dead_id_def state_of_def q_count_def q_drop_def as_eid_def fin_hash Let_def spec_simps

lemma implements_commit:
  "implements S always (commit (doc_of R) S w i j result)
     (q_commit w i (job_id j) (str_int (enqueued_at_ms j)) result)"
proof (rule implementsI)
  fix v q
  assume t: "typed S v" and q: "q = qview S v"
  let ?K = "keys_of S" and ?j = "job_id j"
  note r = record_ok_fin [OF t, of ?j]
  show "\<exists>v'. commit (doc_of R) S w i j result v =
       (Inr (fst (q_commit w i ?j (str_int (enqueued_at_ms j)) result q)), v') \<and>
       typed S v' \<and> qview S v' = snd (q_commit w i ?j (str_int (enqueued_at_ms j)) result q)"
  proof (cases "state_of q ?j = Some ''SUCCEEDED''")
    case True
    then show ?thesis using t unfolding q
      by (simp add: commit_simps)
  next
    case nS: False
    show ?thesis
    proof (cases "state_of q ?j = Some ''DEAD''")
      case True
      then obtain d where "fin q ?j ''dead_entry_id'' = Some d" "eid_of d \<noteq> None"
        using r unfolding q record_ok_def state_of_def by blast
      then show ?thesis using t r True nS unfolding q
        by (auto simp: commit_simps)
    next
      case False
      then show ?thesis using t r nS unfolding q
        by (simp add: commit_simps)
    qed
  qed
qed


lemma pair_up_flat_append [simp]: "pair_up (flat_of ps @ ys) = map_option ((@) ps) (pair_up ys)"
  by (induction ps rule: flat_of.induct) (auto simp: option.map_comp comp_def option.map_ident)

lemma filter_fst_Some:
  assumes "map_of xs i = Some y"
  obtains rest where "filter (\<lambda>p. fst p = i) xs = (i, y) # rest"
proof -
  have "\<exists>rest. filter (\<lambda>p. fst p = i) xs = (i, y) # rest"
    using assms by (induction xs) (auto split: if_splits)
  then show thesis using that by blast
qed

lemma filter_fst_None: "map_of xs i = None \<Longrightarrow> filter (\<lambda>p. fst p = i) xs = []"
  by (force simp: map_of_eq_None_iff filter_empty_conv)

definition pel_ok :: "qstate \<Rightarrow> bool" where
  "pel_ok q \<longleftrightarrow> fst ` set (pend q) \<subseteq> fst ` set (ents q)"

lemma pel_okD:
  assumes "pel_ok q" and "owns q w i"
  shows "\<exists>fs. map_of (ents q) i = Some fs"
proof -
  from assms(2) have "i \<in> fst ` set (pend q)"
    by (force simp: owns_def dest: map_of_SomeD)
  with assms(1) have "map_of (ents q) i \<noteq> None" by (auto simp: pel_ok_def map_of_eq_None_iff)
  then show ?thesis by simp
qed

lemmas q_defs = state_of_def q_count_def q_drop_def count_timeout_def

lemma implements_heartbeat:
  "implements S always (heartbeat (doc_of R) S w i) (q_heartbeat w i)"
proof (rule implementsI)
  fix v q
  assume t: "typed S v" and q: "q = qview S v"
  show "\<exists>v'. heartbeat (doc_of R) S w i v = (Inr (fst (q_heartbeat w i q)), v') \<and>
       typed S v' \<and> qview S v' = snd (q_heartbeat w i q)"
    using t unfolding q
    by (cases "map_of (pend (qview S v)) i")
      (auto simp: heartbeat_def heartbeat_lua_def to_outcome_def spec_simps q_heartbeat_def
        q_count_def owns_def Let_def)
qed

lemma exec_drop_entry [exec_simps]:
  assumes "typed S v"
  shows "drop_entry (doc_of R) (stream_key (keys_of S)) (group S) i (stats_key (keys_of S)) v =
    (Inr ''TERMINAL'', u_count S ''duplicates_suppressed'' 1 (u_del S i (u_ack S i v)))"
  using assms by (simp add: drop_entry_def spec_simps)

lemma implements_retry:
  "implements S pel_ok (retry (doc_of R) S w i j d b)
     (q_retry (cjson_encode R) w i (job_id j) (str_int (attempt j + 1)) (py_trunc (d * 1000)) b)"
    (is "implements S pel_ok ?m ?ab")
proof (rule implementsI)
  fix v q
  assume t: "typed S v" and q: "q = qview S v" and ok: "pel_ok q"
  show "\<exists>v'. ?m v = (Inr (fst (?ab q)), v') \<and> typed S v' \<and> qview S v' = snd (?ab q)"
  proof (cases "owns q w i")
    case True
    with ok obtain fs where fs: "map_of (ents q) i = Some fs" using pel_okD by blast
    from fs obtain rest where "filter (\<lambda>p. fst p = i) (ents q) = (i, fs) # rest"
      by (rule filter_fst_Some)
    with True fs t show ?thesis unfolding q
      by (auto simp: retry_def retry_lua_def to_outcome_def spec_simps exec_drop_entry q_retry_def q_owned_def
          q_defs owns_def Let_def delay_entry_def)
  next
    case False
    with t show ?thesis unfolding q
      by (cases "map_of (pend (qview S v)) i")
        (auto simp: retry_def retry_lua_def to_outcome_def spec_simps exec_drop_entry q_retry_def q_owned_def
          q_defs owns_def Let_def)
  qed
qed

lemma record_ok_dead [simp]:
  "record_ok h \<Longrightarrow> record_ok (h(''state'' \<mapsto> ''DEAD'', ''dead_entry_id'' \<mapsto> eid_str d, ''reason'' \<mapsto> r,
     ''error'' \<mapsto> e, ''finished_at_ms'' \<mapsto> t, ''worker_id'' \<mapsto> w))"
  by (simp add: record_ok_def)

lemma implements_dead:
  "implements S always (dead (doc_of R) S w i jid reason error attempts b)
     (q_dead w i jid (reason_value reason) error (str_int attempts) b)"
    (is "implements S always ?m ?ab")
proof (rule implementsI)
  fix v q
  assume t: "typed S v" and q: "q = qview S v"
  note r = record_ok_fin [OF t, of jid]
  show "\<exists>v'. ?m v = (Inr (fst (?ab q)), v') \<and> typed S v' \<and> qview S v' = snd (?ab q)"
  proof (cases "owns q w i")
    case True
    obtain e where "filter (\<lambda>p. fst p = i) (ents q) = e"
      "(case e of [] \<Rightarrow> [] | x # _ \<Rightarrow> flat_of (snd x)) =
       flat_of (case map_of (ents q) i of None \<Rightarrow> [] | Some fs \<Rightarrow> fs)"
      by (cases "map_of (ents q) i") (auto simp: filter_fst_None elim: filter_fst_Some)
    with True t r show ?thesis unfolding q
      by (auto simp: dead_def dead_lua_def to_outcome_def spec_simps exec_drop_entry q_dead_def q_owned_def q_defs
          owns_def Let_def bury_def dlq_meta_def fin_hash)
  next
    case False
    with t show ?thesis unfolding q
      by (cases "map_of (pend (qview S v)) i")
        (auto simp: dead_def dead_lua_def to_outcome_def spec_simps exec_drop_entry q_dead_def q_owned_def q_defs
          owns_def Let_def)
  qed
qed

lemma implements_ledger:
  "implements S always (ledger_apply (doc_of R) (keys_of S) (done_ttl_seconds S) k fs) (q_ledger k fs)"
proof (rule implementsI)
  fix v q
  assume t: "typed S v" and q: "q = qview S v"
  show "\<exists>v'. ledger_apply (doc_of R) (keys_of S) (done_ttl_seconds S) k fs v =
       (Inr (fst (q_ledger k fs q)), v') \<and> typed S v' \<and> qview S v' = snd (q_ledger k fs q)"
    using t unfolding q
    by (auto simp: ledger_apply_def ledger_lua_def spec_simps q_ledger_def q_count_def)
qed

section \<open>Enqueue, schedule, requeue\<close>

definition q_depth :: "qstate \<Rightarrow> nat" where
  "q_depth q = length (ents q) + length (dlyd q)"

text \<open>The hysteresis: full from the high watermark on, until the depth is below the low one.\<close>

definition now_full :: "settings \<Rightarrow> qstate \<Rightarrow> bool" where
  "now_full S q =
     (if fullf q then \<not> int (q_depth q) < low_watermark S else int (q_depth q) \<ge> high_watermark S)"

definition q_enqueue :: "settings \<Rightarrow> string option \<Rightarrow> string \<Rightarrow> string \<Rightarrow> fields \<Rightarrow> qstate
    \<Rightarrow> (string \<times> int \<times> int) \<times> qstate" where
  "q_enqueue S idk j count_as fs q =
     (case (case idk of None \<Rightarrow> None | Some k \<Rightarrow> idem q k) of
        Some orig \<Rightarrow> ((orig, 0, - 1), q)
      | None \<Rightarrow>
          (let q1 = q\<lparr>fullf := now_full S q\<rparr> in
           if now_full S q then
             (('''', - 1, int (q_depth q)), if count_as \<noteq> ''none'' then q_count count_as 1 q1 else q1)
           else
             ((j, 1, int (q_depth q) + 1),
              q_add (fs @ [(''enqueued_at_ms'', str_nat (qnow q))])
                (case idk of None \<Rightarrow> q1 | Some k \<Rightarrow> q1\<lparr>idem := (idem q1)(k \<mapsto> j)\<rparr>))))"

definition enqueue_call :: "'s redis_ops \<Rightarrow> settings \<Rightarrow> string option \<Rightarrow> string \<Rightarrow> string \<Rightarrow> string list
    \<Rightarrow> ('s, string \<times> int \<times> int) script" where
  "enqueue_call R S idk j count_as flat =
     (let K = keys_of S in
      enqueue_lua R (stream_key K) (delayed_key K) (full_key K) (stats_key K)
        (map_option (idem_key K) idk) j (nat (idempotency_ttl_seconds S)) (high_watermark S)
        (low_watermark S) count_as flat)"

lemma fullf_same: "fullf q = b \<Longrightarrow> q\<lparr>fullf := b\<rparr> = q"
  by (rule qstate.equality) simp_all

lemma implements_enqueue:
  "implements S always (enqueue_call (doc_of R) S idk j count_as (flat_of fs)) (q_enqueue S idk j count_as fs)"
    (is "implements S always ?m ?ab")
proof (rule implementsI)
  fix v q
  assume t: "typed S v" and q: "q = qview S v"
  show "\<exists>v'. ?m v = (Inr (fst (?ab q)), v') \<and> typed S v' \<and> qview S v' = snd (?ab q)"
    using t unfolding q
    by (cases idk; cases "fullf (qview S v)")
      (auto simp: enqueue_call_def enqueue_lua_def spec_simps q_enqueue_def now_full_def q_depth_def
        q_count_def q_add_def fullf_same Let_def split: option.split)
qed

definition strip_fields :: "fields \<Rightarrow> fields" where
  "strip_fields fs = map (\<lambda>(n, v). (n, if n = ''attempt'' then ''0'' else v))
     (filter (\<lambda>p. take 4 (fst p) \<noteq> ''dlq_'') fs)"

lemma strip_dlq_flat [simp]: "strip_dlq (flat_of fs) = flat_of (strip_fields fs)"
  by (induction fs rule: flat_of.induct) (auto simp: strip_fields_def)

definition bump_fields :: "string \<Rightarrow> fields \<Rightarrow> fields" where
  "bump_fields a fs = map (\<lambda>(n, v). (n, if n = ''attempt'' then a else v)) fs"

lemma set_attempt_flat [simp]: "set_attempt a (flat_of fs) = flat_of (bump_fields a fs)"
  by (induction fs rule: flat_of.induct) (auto simp: bump_fields_def)

text \<open>Every dead-letter entry still holds something of the original entry.\<close>

definition dlq_ok :: "qstate \<Rightarrow> bool" where
  "dlq_ok q \<longleftrightarrow> (\<forall>e \<in> set (dlq q). strip_fields (snd e) \<noteq> [])"

definition q_requeue :: "string \<Rightarrow> qstate \<Rightarrow> bool \<times> qstate" where
  "q_requeue j q =
     (if state_of q j \<noteq> Some ''DEAD'' then (False, q)
      else case map_of (dlq q) (dead_id q j) of
             None \<Rightarrow> (False, q)
           | Some fs \<Rightarrow> (True, q_count ''requeued'' 1 (undead j (q_add (strip_fields fs) q))))"

definition requeue :: "'s redis_ops \<Rightarrow> keys \<Rightarrow> string \<Rightarrow> ('s, bool) script" where
  "requeue R K j =
     call (requeue_lua R (dead_key K) (stream_key K) (done_key K j) (stats_key K) j)
       (\<lambda>requeued. ret (requeued = 1))"

lemma dead_id_eq [simp]: "dead_id (q_add ps q) j = dead_id q j" "dead_id (q_count f n q) j = dead_id q j"
  "dead_id (q\<lparr>ents := es\<rparr>) j = dead_id q j" "dead_id (q\<lparr>slast := i\<rparr>) j = dead_id q j"
  by (simp_all add: dead_id_def q_add_def q_count_def Let_def)

lemma dead_id_of:
  assumes "typed S v" and "state_of (qview S v) j = Some ''DEAD''"
  obtains d where "fin (qview S v) j ''dead_entry_id'' = Some d"
    and "eid_of d = Some (dead_id (qview S v) j)"
proof -
  obtain d where d: "fin (qview S v) j ''dead_entry_id'' = Some d" "eid_of d \<noteq> None"
    using record_ok_fin [OF assms(1), of j] assms(2) unfolding record_ok_def state_of_def by auto
  then have "eid_of d = Some (dead_id (qview S v) j)" by (auto simp: dead_id_def)
  with d(1) show thesis by (rule that)
qed

lemma implements_requeue:
  "implements S dlq_ok (requeue (doc_of R) (keys_of S) j) (q_requeue j)" (is "implements S dlq_ok ?m ?ab")
proof (rule implementsI)
  fix v q
  assume t: "typed S v" and q: "q = qview S v" and ok: "dlq_ok q"
  show "\<exists>v'. ?m v = (Inr (fst (?ab q)), v') \<and> typed S v' \<and> qview S v' = snd (?ab q)"
  proof (cases "state_of q j = Some ''DEAD''")
    case False
    then show ?thesis using t unfolding q
      by (auto simp: requeue_def requeue_lua_def spec_simps q_requeue_def state_of_def)
  next
    case True
    with t obtain d where d: "fin q j ''dead_entry_id'' = Some d" "eid_of d = Some (dead_id q j)"
      unfolding q by (rule dead_id_of)
    show ?thesis
    proof (cases "map_of (dlq q) (dead_id q j)")
      case None
      with d True t show ?thesis unfolding q
        by (simp add: requeue_def requeue_lua_def spec_simps q_requeue_def state_of_def as_eid_def
            filter_fst_None)
    next
      case (Some fs)
      then obtain rest where "filter (\<lambda>p. fst p = dead_id q j) (dlq q) = (dead_id q j, fs) # rest"
        by (rule filter_fst_Some)
      moreover have "strip_fields fs \<noteq> []"
        using ok map_of_SomeD [OF Some] by (auto simp: dlq_ok_def)
      ultimately show ?thesis using d True t Some unfolding q
        by (simp add: requeue_def requeue_lua_def spec_simps q_requeue_def state_of_def as_eid_def
            q_defs undead_def q_add_def Let_def)
    qed
  qed
qed

text \<open>Every member of the delayed set is an encoded, non-empty field list.\<close>

definition delayed_ok :: "(string \<Rightarrow> string list option) \<Rightarrow> qstate \<Rightarrow> bool" where
  "delayed_ok dec q \<longleftrightarrow> (\<forall>m \<in> fst ` set (dlyd q). \<exists>ps. ps \<noteq> [] \<and> dec m = Some (flat_of ps))"

definition member_fields :: "(string \<Rightarrow> string list option) \<Rightarrow> string \<Rightarrow> fields" where
  "member_fields dec m = the (pair_up (the (dec m)))"

definition q_move :: "(string \<Rightarrow> string list option) \<Rightarrow> string \<Rightarrow> qstate \<Rightarrow> qstate" where
  "q_move dec m q = q_add (member_fields dec m) (q\<lparr>dlyd := filter (\<lambda>p. fst p \<noteq> m) (dlyd q)\<rparr>)"

definition due_members :: "nat \<Rightarrow> qstate \<Rightarrow> string list" where
  "due_members n q = take n (map fst (filter (\<lambda>p. snd p \<le> int (qnow q)) (dlyd q)))"

definition q_schedule :: "(string \<Rightarrow> string list option) \<Rightarrow> nat \<Rightarrow> qstate \<Rightarrow> nat \<times> qstate" where
  "q_schedule dec n q = (let due = due_members n q; q' = fold (q_move dec) due q in
     (length due, if due = [] then q' else q_count ''scheduled'' (int (length due)) q'))"

lemma exec_moves:
  assumes "typed S v" and "\<forall>m \<in> set ms. \<exists>ps. ps \<noteq> [] \<and> cjson_decode R m = Some (flat_of ps)"
  shows "\<exists>v'. fold_script (\<lambda>_ member.
       call (d_zrem (delayed_key (keys_of S)) member) (\<lambda>_.
       case cjson_decode R member of
         None \<Rightarrow> raise (ErrorReply ''cjson'')
       | Some fs \<Rightarrow> call (d_xadd (stream_key (keys_of S)) fs) (\<lambda>_. ret ()))) () ms v = (Inr (), v') \<and>
     typed S v' \<and> qview S v' = fold (q_move (cjson_decode R)) ms (qview S v)"
  using assms
proof (induction ms arbitrary: v)
  case Nil
  then show ?case by simp
next
  case (Cons m ms)
  then obtain ps where ps: "ps \<noteq> []" "cjson_decode R m = Some (flat_of ps)" by auto
  let ?v = "u_add S ps (u_zset S (filter (\<lambda>p. fst p \<noteq> m) (dlyd (qview S v))) v)"
  have t: "typed S ?v" using Cons.prems(1) by (simp add: typed_intro)
  have q: "qview S ?v = q_move (cjson_decode R) m (qview S v)"
    using ps by (simp add: view_simps q_move_def q_add_def member_fields_def Let_def)
  show ?case
    using Cons.IH [OF t] Cons.prems ps
    by (simp add: spec_simps q [symmetric])
qed

lemma implements_schedule:
  "implements S (delayed_ok (cjson_decode R)) (move_due (doc_of R) S)
     (q_schedule (cjson_decode R) (nat (scheduler_batch S)))" (is "implements S ?P ?m ?ab")
proof (rule implementsI)
  fix v q
  assume t: "typed S v" and q: "q = qview S v" and ok: "?P q"
  let ?due = "due_members (nat (scheduler_batch S)) q"
  have "set ?due \<subseteq> fst ` set (dlyd q)"
    by (fastforce simp: due_members_def dest: in_set_takeD)
  with ok have "\<forall>m \<in> set ?due. \<exists>ps. ps \<noteq> [] \<and> cjson_decode R m = Some (flat_of ps)"
    by (auto simp: delayed_ok_def)
  from exec_moves [OF t this] q t
  show "\<exists>v'. ?m v = (Inr (fst (?ab q)), v') \<and> typed S v' \<and> qview S v' = snd (?ab q)"
    unfolding move_due_def schedule_lua_def doc_of_ops doc_of_cjson Let_def
    by (auto simp: spec_simps q_schedule_def q_count_def due_members_def Let_def)
qed

section \<open>Delivery: reading, reclaiming, pruning\<close>

definition q_read :: "string \<Rightarrow> nat \<Rightarrow> qstate \<Rightarrow> (eid \<times> fields) list \<times> qstate" where
  "q_read w n q = (fst (read_group w n q), q\<lparr>grp := snd (read_group w n q)\<rparr>)"

definition fetch :: "'s redis_ops \<Rightarrow> settings \<Rightarrow> string \<Rightarrow> nat \<Rightarrow> ('s, (eid \<times> fields) list) script" where
  "fetch R S w n = XREADGROUP R (stream_key (keys_of S)) (group S) w n"

lemma implements_fetch: "implements S always (fetch (doc_of R) S w n) (q_read w n)"
  by (rule implementsI) (simp add: fetch_def spec_simps q_read_def)

definition suspect_count :: "settings \<Rightarrow> nat \<Rightarrow> bool" where
  "suspect_count S n \<longleftrightarrow> suspect_threshold S \<le> int n \<and> int n \<le> max_deliveries S"

definition count_of :: "qstate \<Rightarrow> eid \<Rightarrow> nat" where
  "count_of q i = p_count (the (map_of (pend q) i))"

text \<open>One claimed entry: a suspect with no slot left is put back with its old count.\<close>

fun q_reclaims :: "settings \<Rightarrow> string \<Rightarrow> int \<times> claimed list \<Rightarrow> (eid \<times> fields) list \<Rightarrow> qstate
    \<Rightarrow> (int \<times> claimed list) \<times> qstate" where
  "q_reclaims S w acc [] q = (acc, q)"
| "q_reclaims S w (slots, out) ((i, fs) # es) q =
     (let n = count_of q i in
      if suspect_count S n \<and> slots = 0 then
        q_reclaims S w (slots, out) es
          (q\<lparr>grp := claim_group w i (Some (py_trunc (visibility_timeout S * 1000))) (Some (n - 1)) q\<rparr>)
      else
        q_reclaims S w (if suspect_count S n then slots - 1 else slots,
          out @ [\<lparr>c_entry_id = i, c_fields = fs, c_deliveries = n\<rparr>]) es q)"

definition q_reclaim :: "settings \<Rightarrow> string \<Rightarrow> eid \<Rightarrow> nat \<Rightarrow> int \<Rightarrow> qstate
    \<Rightarrow> (claimed list \<times> bool \<times> eid) \<times> qstate" where
  "q_reclaim S w cur n slots q =
     (case auto_group w (py_trunc (visibility_timeout S * 1000)) cur n q of
        ((cur', cl, del), g) \<Rightarrow>
          (case q_reclaims S w (slots, []) cl (q\<lparr>grp := g\<rparr>) of
             ((_, out), q2) \<Rightarrow>
               ((out, cur' \<noteq> (0, 0), cur'),
                if out = [] then q2 else q_count ''reclaimed'' (int (length out)) q2)))"

lemma autoclaim_claimed:
  assumes "autoclaim c t mi es a n pel = (out, cl, del, rest)"
  shows "fst ` set cl \<subseteq> fst ` set out \<and> (\<forall>e \<in> set cl. map_of es (fst e) = Some (snd e))"
  using assms
proof (induction c t mi es a n pel arbitrary: out cl del rest rule: autoclaim.induct)
  case (4 c t mi es a n i p pel)
  obtain o1 c1 d1 r1 where 1: "autoclaim c t mi es a n pel = (o1, c1, d1, r1)" by (metis prod_cases4)
  obtain o2 c2 d2 r2 where 2: "autoclaim c t mi es a (Suc n) pel = (o2, c2, d2, r2)" by (metis prod_cases4)
  show ?case
  proof (cases "map_of es i")
    case None
    with "4.prems" "4.IH"(1) 1 show ?thesis by auto
  next
    case (Some fs)
    show ?thesis
    proof (cases "t - p_time p < mi")
      case True
      with Some "4.prems" 2 have "out = (i, p) # o2" "cl = c2" by simp_all
      with "4.IH"(2) [OF Some True 2] show ?thesis by (simp add: subset_insertI2 insert_mono)
    next
      case False
      with Some "4.prems" 1 have "cl = (i, fs) # c1"
        "out = (i, \<lparr>p_owner = c, p_time = t, p_count = Suc (p_count p)\<rparr>) # o1" by simp_all
      with "4.IH"(3) [OF Some False 1] Some show ?thesis by (simp add: subset_insertI2 insert_mono)
    qed
  qed
qed auto

lemma autoclaim_subset:
  assumes "autoclaim c t mi es a n pel = (out, cl, del, rest)"
  shows "fst ` set out \<subseteq> fst ` set pel"
  using assms
proof (induction c t mi es a n pel arbitrary: out cl del rest rule: autoclaim.induct)
  case (4 c t mi es a n i p pel)
  obtain o1 c1 d1 r1 where 1: "autoclaim c t mi es a n pel = (o1, c1, d1, r1)" by (metis prod_cases4)
  obtain o2 c2 d2 r2 where 2: "autoclaim c t mi es a (Suc n) pel = (o2, c2, d2, r2)" by (metis prod_cases4)
  show ?case
  proof (cases "map_of es i")
    case None
    with "4.prems" "4.IH"(1) 1 show ?thesis by auto
  next
    case (Some fs)
    show ?thesis
    proof (cases "t - p_time p < mi")
      case True
      with Some "4.prems" 2 have "out = (i, p) # o2" "cl = c2" by simp_all
      with "4.IH"(2) [OF Some True 2] show ?thesis by (simp add: subset_insertI2 insert_mono)
    next
      case False
      with Some "4.prems" 1 have "cl = (i, fs) # c1"
        "out = (i, \<lparr>p_owner = c, p_time = t, p_count = Suc (p_count p)\<rparr>) # o1" by simp_all
      with "4.IH"(3) [OF Some False 1] Some show ?thesis by (simp add: subset_insertI2 insert_mono)
    qed
  qed
qed auto

lemma autoclaim_keeps:
  assumes "autoclaim c t mi es a n pel = (out, cl, del, rest)" and "fst ` set pel \<subseteq> fst ` set es"
  shows "map fst out = map fst pel \<and> del = []"
  using assms
proof (induction c t mi es a n pel arbitrary: out cl del rest rule: autoclaim.induct)
  case (4 c t mi es a n i p pel)
  then have "map_of es i \<noteq> None" by (auto simp: map_of_eq_None_iff)
  then obtain fs where "map_of es i = Some fs" by auto
  with 4 show ?case by (fastforce split: prod.splits if_splits)
qed auto

definition raw_claim :: "claimed \<Rightarrow> eid \<times> string list \<times> nat" where
  "raw_claim c = (c_entry_id c, flat_of (c_fields c), c_deliveries c)"

lemma to_claimed_raw [simp]: "to_claimed (map raw_claim cs) = Some cs"
  by (induction cs) (auto simp: raw_claim_def)

definition claimable :: "(eid \<times> fields) list \<Rightarrow> qstate \<Rightarrow> bool" where
  "claimable cl q \<longleftrightarrow> fst ` set cl \<subseteq> fst ` set (pend q) \<and> fst ` set cl \<subseteq> fst ` set (ents q)"

lemma set_pent_fst [simp]: "map fst (set_pent i p pel) = map fst pel"
  by (induction pel) (auto simp: set_pent_def)

lemma set_pent_ids [simp]: "fst ` set (set_pent i p pel) = fst ` set pel"
  by (metis set_pent_fst list.set_map)

lemma claim_group_ids:
  assumes "i \<in> fst ` set (ents q)"
  shows "map fst (g_pel (claim_group c i idle rc q)) = map fst (pend q)"
  using assms by (auto simp: claim_group_def Let_def split: option.split)

lemma exec_reclaims:
  assumes "typed S v" and "claimable cl (qview S v)"
  shows "\<exists>v'. fold_script (reclaim_one (doc_of R) (stream_key (keys_of S)) (reclaims_key (keys_of S))
            (group S) w (py_trunc (visibility_timeout S * 1000)) (suspect_threshold S) (max_deliveries S))
            (slots, map raw_claim out) cl v =
          (Inr (let r = fst (q_reclaims S w (slots, out) cl (qview S v)) in (fst r, map raw_claim (snd r))), v') \<and>
        typed S v' \<and> qview S v' = snd (q_reclaims S w (slots, out) cl (qview S v))"
  using assms
proof (induction cl arbitrary: v slots out)
  case Nil
  then show ?case by simp
next
  case (Cons e cl)
  obtain i fs where e: "e = (i, fs)" by (cases e)
  from Cons.prems(2) e have "i \<in> fst ` set (pend (qview S v))" and ie: "i \<in> fst ` set (ents (qview S v))"
    by (auto simp: claimable_def)
  then obtain p where p: "map_of (pend (qview S v)) i = Some p"
    by (metis map_of_eq_None_iff not_None_eq)
  note t = Cons.prems(1)
  let ?mi = "py_trunc (visibility_timeout S * 1000)"
  show ?case
  proof (cases "suspect_count S (p_count p) \<and> slots = 0")
    case True
    let ?v = "set_group S (claim_group w i (Some ?mi) (Some (p_count p - 1)) (qview S v)) v"
    have "typed S ?v" using t by (simp add: typed_intro)
    moreover have "claimable cl (qview S ?v)"
      using Cons.prems(2) claim_group_ids [OF ie] unfolding claimable_def e
      by (simp add: view_simps) (metis (no_types, lifting) image_set)
    ultimately show ?thesis
      using Cons.IH [of ?v slots out] True t p e
      by (simp add: reclaim_one_def spec_simps suspect_count_def count_of_def Let_def)
  next
    case False
    let ?v = "u_reclaims S (str_nat (p_count p)) v"
    have "typed S ?v" "claimable cl (qview S ?v)"
      using t Cons.prems(2) by (auto simp: typed_intro view_simps claimable_def)
    then show ?thesis
      using Cons.IH [of ?v "if suspect_count S (p_count p) then slots - 1 else slots"
          "out @ [\<lparr>c_entry_id = i, c_fields = fs, c_deliveries = p_count p\<rparr>]"] False t p e
      by (auto simp: reclaim_one_def spec_simps suspect_count_def count_of_def raw_claim_def Let_def)
  qed
qed

lemma auto_group_claimable:
  assumes "auto_group w mi cur n q = ((cur', cl, del), g)"
  shows "claimable cl (q\<lparr>grp := g\<rparr>)"
proof -
  obtain out rest where a: "autoclaim w (int (qnow q)) mi (ents q) (10 * n) n
      (filter (\<lambda>p. cur \<le> fst p) (pend q)) = (out, cl, del, rest)"
    and g: "g_pel g = filter (\<lambda>p. fst p < cur) (pend q) @ out"
    using assms by (auto simp: auto_group_def Let_def split: prod.splits)
  from autoclaim_claimed [OF a] have "fst ` set cl \<subseteq> fst ` set out"
    and "\<forall>e \<in> set cl. map_of (ents q) (fst e) = Some (snd e)" by auto
  moreover from this(2) have "fst ` set cl \<subseteq> fst ` set (ents q)"
    using weak_map_of_SomeI map_of_eq_None_iff by (metis image_subsetI option.distinct(1))
  ultimately show ?thesis using g by (auto simp: claimable_def image_Un)
qed

lemma implements_reclaim:
  "implements S always (reclaim (doc_of R) S w cur n slots) (q_reclaim S w cur n slots)"
    (is "implements S always ?m ?ab")
proof (rule implementsI)
  fix v q
  assume t: "typed S v" and q: "q = qview S v"
  let ?mi = "py_trunc (visibility_timeout S * 1000)"
  obtain cur' cl del g where a: "auto_group w ?mi cur n q = ((cur', cl, del), g)" by (metis prod.collapse)
  let ?v = "set_group S g v"
  have t': "typed S ?v" using t by (rule typed_set_group)
  have v': "qview S ?v = q\<lparr>grp := g\<rparr>" by (simp add: q view_simps)
  have c: "claimable cl (qview S ?v)" using auto_group_claimable [OF a] by (simp add: v')
  obtain sl out q2 where r: "q_reclaims S w (slots, []) cl (q\<lparr>grp := g\<rparr>) = ((sl, out), q2)"
    by (metis prod.collapse)
  obtain v2 where v2: "fold_script (reclaim_one (doc_of R) (stream_key (keys_of S))
      (reclaims_key (keys_of S)) (group S) w ?mi (suspect_threshold S) (max_deliveries S))
      (slots, []) cl ?v = (Inr (sl, map raw_claim out), v2)" "typed S v2" "qview S v2 = q2"
    using exec_reclaims [OF t' c, of R w slots "[]"] by (auto simp: v' r Let_def)
  from a v2 t r show "\<exists>v'. ?m v = (Inr (fst (?ab q)), v') \<and> typed S v' \<and> qview S v' = snd (?ab q)"
    unfolding q
    by (auto simp: reclaim_def reclaim_lua_def spec_simps q_reclaim_def q_count_def Let_def)
qed

text \<open>Only consumers with nothing pending are pruned, so the pending list stays.\<close>

definition prunable :: "int \<Rightarrow> string \<Rightarrow> qstate \<Rightarrow> string \<times> int \<Rightarrow> bool" where
  "prunable mi self q c \<longleftrightarrow> fst c \<noteq> self \<and> int (qnow q) - snd c \<ge> mi \<and>
     (\<forall>p \<in> set (pend q). p_owner (snd p) \<noteq> fst c)"

definition q_prune :: "int \<Rightarrow> string \<Rightarrow> qstate \<Rightarrow> string list \<times> qstate" where
  "q_prune mi self q =
     (let names = map fst (filter (prunable mi self q) (g_cons (grp q)));
          q' = q\<lparr>grp := (grp q)\<lparr>g_cons := filter (\<lambda>c. fst c \<notin> set names) (g_cons (grp q))\<rparr>\<rparr>
      in (names, if names = [] then q' else q_count ''consumers_pruned'' (int (length names)) q'))"

definition without_consumer :: "string \<Rightarrow> qstate \<Rightarrow> rgroup" where
  "without_consumer c q = (grp q)\<lparr>g_cons := filter (\<lambda>p. fst p \<noteq> c) (g_cons (grp q))\<rparr>"

lemma exec_prune_one:
  assumes t: "typed S v" and q: "q = qview S v"
  shows "prune_one (doc_of R) (stream_key (keys_of S)) (group S) mi self acc
      (fst c, int (qnow q) - snd c) v =
    (if prunable mi self q c then (Inr (acc @ [fst c]), set_group S (without_consumer (fst c) q) v)
     else (Inr acc, v))"
proof (cases "\<exists>p \<in> set (pend q). p_owner (snd p) = fst c")
  case True
  then have "find (\<lambda>p. p_owner (snd p) = fst c) (pend q) \<noteq> None" by (simp only: find_None_iff) blast
  with True t show ?thesis unfolding q
    by (auto simp: prune_one_def call_apply exec_simps prunable_def)
next
  case False
  then have "find (\<lambda>p. p_owner (snd p) = fst c) (pend q) = None"
    and "filter (\<lambda>p. p_owner (snd p) \<noteq> fst c) (pend q) = pend q"
    by (auto simp: find_None_iff intro!: filter_True)
  with False t show ?thesis unfolding q
    by (auto simp: prune_one_def call_apply exec_simps prunable_def without_consumer_def)
qed

lemma prunable_without [simp]:
  "prunable mi self (q\<lparr>grp := without_consumer c q\<rparr>) = prunable mi self q"
  by (simp add: prunable_def without_consumer_def fun_eq_iff)

lemma exec_prunes:
  assumes "typed S v"
  shows "\<exists>v'. fold_script (prune_one (doc_of R) (stream_key (keys_of S)) (group S) mi self) acc
            (map (\<lambda>p. (fst p, int (qnow (qview S v)) - snd p)) cs) v =
          (Inr (acc @ map fst (filter (prunable mi self (qview S v)) cs)), v') \<and> typed S v' \<and>
        qview S v' = (let q = qview S v in q\<lparr>grp := (grp q)\<lparr>g_cons := filter (\<lambda>c. fst c \<notin>
           set (map fst (filter (prunable mi self q) cs))) (g_cons (grp q))\<rparr>\<rparr>)"
  using assms
proof (induction cs arbitrary: v acc)
  case Nil
  then show ?case by (simp add: Let_def)
next
  case (Cons c cs)
  note t = Cons.prems
  let ?q = "qview S v" and ?v = "set_group S (without_consumer (fst c) (qview S v)) v"
  have v': "qview S ?v = ?q\<lparr>grp := without_consumer (fst c) ?q\<rparr>" by (simp add: view_simps)
  have t': "typed S ?v" using t by (rule typed_set_group)
  show ?case
  proof (cases "prunable mi self ?q c")
    case True
    from Cons.IH [OF t', of "acc @ [fst c]"] True show ?thesis
      by (simp add: call_apply exec_prune_one [OF t refl] v' Let_def)
        (simp add: without_consumer_def filter_filter conj_commute)
  next
    case False
    with Cons.IH [OF t, of acc] show ?thesis
      by (simp add: call_apply exec_prune_one [OF t refl] Let_def)
  qed
qed

lemma implements_prune:
  "implements S always (prune_consumers (doc_of R) S w)
     (q_prune (py_trunc (consumer_prune_idle S * 1000)) w)" (is "implements S always ?m ?ab")
proof (rule implementsI)
  fix v q
  assume t: "typed S v" and q: "q = qview S v"
  define mi where "mi = py_trunc (consumer_prune_idle S * 1000)"
  define N where "N = map fst (filter (prunable mi w (qview S v)) (g_cons (grp (qview S v))))"
  show "\<exists>v'. ?m v = (Inr (fst (?ab q)), v') \<and> typed S v' \<and> qview S v' = snd (?ab q)"
    using exec_prunes [OF t, of R mi w "[]" "g_cons (grp (qview S v))", folded N_def]
      t unfolding q prune_consumers_def q_prune_def mi_def [symmetric] N_def [symmetric] Let_def
    by (auto simp: prune_consumers_lua_def call_apply exec_simps view_simps typed_intro q_count_def)
qed

end
