(* ===== verification/Registry.thy ===== *)
theory Registry
  imports Config
begin

text \<open>
  \<^verbatim>\<open>src/ftq/registry.py\<close>: the registry of handlers. A handler function is user code; the
  registry only looks at its module and qualified name. A registry is the dict of specs in
  insertion order.
\<close>

section \<open>Specs\<close>

datatype pool = ThreadPool | ProcessPool

record handler_fn =
  fn_module :: string
  fn_qualname :: string

datatype handler_spec =
    AsyncSpec (spec_fn: handler_fn) (heartbeats: bool) (spec_timeout: "rat option")
  | SyncSpec (spec_fn: handler_fn) (spec_pool: pool) (heartbeats: bool) (spec_timeout: "rat option")

datatype run_kind_value = RunAsync | RunThread | RunProcess

fun run_kind :: "handler_spec \<Rightarrow> run_kind_value" where
  "run_kind (AsyncSpec _ _ _) = RunAsync"
| "run_kind (SyncSpec _ ThreadPool _ _) = RunThread"
| "run_kind (SyncSpec _ ProcessPool _ _) = RunProcess"

type_synonym registry = "(string \<times> handler_spec) list"

datatype registry_error = BadTimeout | NotModuleLevel | AlreadyRegistered

section \<open>Operations\<close>

definition check_timeout :: "rat option \<Rightarrow> registry_error + unit" where
  "check_timeout t = (case t of None \<Rightarrow> Inr () | Some x \<Rightarrow> if x > 0 then Inr () else Inl BadTimeout)"

definition add_spec :: "registry \<Rightarrow> string \<Rightarrow> handler_spec \<Rightarrow> registry_error + registry" where
  "add_spec reg ty spec =
     (if map_of reg ty \<noteq> None then Inl AlreadyRegistered else Inr (reg @ [(ty, spec)]))"

definition register :: "registry \<Rightarrow> string \<Rightarrow> bool \<Rightarrow> rat option \<Rightarrow> handler_fn
    \<Rightarrow> registry_error + registry" where
  "register reg ty hb t fn =
     (case check_timeout t of Inl e \<Rightarrow> Inl e | Inr _ \<Rightarrow> add_spec reg ty (AsyncSpec fn hb t))"

definition register_sync :: "registry \<Rightarrow> string \<Rightarrow> pool \<Rightarrow> bool \<Rightarrow> rat option \<Rightarrow> handler_fn
    \<Rightarrow> registry_error + registry" where
  "register_sync reg ty p hb t fn =
     (case check_timeout t of
        Inl e \<Rightarrow> Inl e
      | Inr _ \<Rightarrow>
          (if p = ProcessPool \<and> CHR 0x3C \<in> set (fn_qualname fn) then Inl NotModuleLevel
           else add_spec reg ty (SyncSpec fn p hb t)))"

definition lookup_spec :: "registry \<Rightarrow> string \<Rightarrow> handler_spec option" where
  "lookup_spec reg ty = map_of reg ty"

definition handler_types :: "registry \<Rightarrow> string list" where
  "handler_types reg = sort (map fst reg)"

section \<open>Well-formed registries\<close>

definition spec_ok :: "handler_spec \<Rightarrow> bool" where
  "spec_ok spec \<longleftrightarrow> (\<forall>t. spec_timeout spec = Some t \<longrightarrow> t > 0) \<and>
     (run_kind spec = RunProcess \<longrightarrow> CHR 0x3C \<notin> set (fn_qualname (spec_fn spec)))"

definition registry_ok :: "registry \<Rightarrow> bool" where
  "registry_ok reg \<longleftrightarrow> distinct (map fst reg) \<and> (\<forall>e \<in> set reg. spec_ok (snd e))"

lemma add_spec_ok:
  assumes "registry_ok reg" and "spec_ok spec" and "add_spec reg ty spec = Inr reg'"
  shows "registry_ok reg' \<and>
    lookup_spec reg' = (lookup_spec reg)(ty \<mapsto> spec) \<and> lookup_spec reg ty = None"
proof -
  from assms(3) have new: "map_of reg ty = None" and reg': "reg' = reg @ [(ty, spec)]"
    by (auto simp: add_spec_def split: if_splits)
  from new have "ty \<notin> fst ` set reg" by (simp add: map_of_eq_None_iff)
  then have "registry_ok reg'" using assms(1,2) unfolding reg' registry_ok_def by auto
  moreover have "map_of reg' = (map_of reg)(ty \<mapsto> spec)"
    using new unfolding reg' by (auto simp: fun_eq_iff map_of_append map_add_def split: option.split)
  ultimately show ?thesis using new by (simp add: lookup_spec_def fun_eq_iff)
qed

lemma register_step:
  assumes "registry_ok reg" and "register reg ty hb t fn = Inr reg'"
  shows "registry_ok reg' \<and> lookup_spec reg' = (lookup_spec reg)(ty \<mapsto> AsyncSpec fn hb t)
    \<and> lookup_spec reg ty = None"
proof -
  from assms(2) have "spec_ok (AsyncSpec fn hb t)" and "add_spec reg ty (AsyncSpec fn hb t) = Inr reg'"
    by (auto simp: register_def check_timeout_def spec_ok_def split: sum.splits option.splits if_splits)
  with add_spec_ok assms(1) show ?thesis by blast
qed

lemma register_sync_step:
  assumes "registry_ok reg" and "register_sync reg ty p hb t fn = Inr reg'"
  shows "registry_ok reg' \<and> lookup_spec reg' = (lookup_spec reg)(ty \<mapsto> SyncSpec fn p hb t)
    \<and> lookup_spec reg ty = None"
proof -
  from assms(2) have "spec_ok (SyncSpec fn p hb t)" and "add_spec reg ty (SyncSpec fn p hb t) = Inr reg'"
    by (cases p; auto simp: register_sync_def check_timeout_def spec_ok_def
        split: sum.splits option.splits if_splits)+
  with add_spec_ok assms(1) show ?thesis by blast
qed

end
