(* ===== verification/Backoff.thy ===== *)
theory Backoff
  imports Prelude
begin

text \<open>
  \<^verbatim>\<open>src/ftq/backoff.py\<close>: exponential backoff with full jitter. The random generator is a
  parameter: \<open>u\<close> is what \<^verbatim>\<open>random.Random.random()\<close> returned, and \<^verbatim>\<open>uniform(a, b)\<close> is
  \<open>a + (b - a) * u\<close>, as Python's library defines it.
\<close>

definition max_exponent :: int where
  "max_exponent = 62"

definition backoff_bound :: "int \<Rightarrow> rat \<Rightarrow> rat \<Rightarrow> string + rat" where
  "backoff_bound attempt base cap =
     (if attempt < 0 then Inl ''attempt must be >= 0''
      else Inr (min cap (base * 2 ^ nat (min attempt max_exponent))))"

definition uniform :: "rat \<Rightarrow> rat \<Rightarrow> rat \<Rightarrow> rat" where
  "uniform u a b = a + (b - a) * u"

definition full_jitter_delay :: "int \<Rightarrow> rat \<Rightarrow> rat \<Rightarrow> rat \<Rightarrow> string + rat" where
  "full_jitter_delay attempt base cap u =
     (case backoff_bound attempt base cap of
        Inl e \<Rightarrow> Inl e
      | Inr bound \<Rightarrow> Inr (uniform u 0 bound))"

lemma backoff_bound_mono:
  assumes "0 \<le> i" "i \<le> j" "0 < base"
    and "backoff_bound i base cap = Inr b" "backoff_bound j base cap = Inr b'"
  shows "b \<le> b'"
proof -
  have "nat (min i max_exponent) \<le> nat (min j max_exponent)" using assms by (simp add: nat_mono)
  then have "base * 2 ^ nat (min i max_exponent) \<le> base * 2 ^ nat (min j max_exponent)"
    using assms(3) by (simp add: power_increasing)
  then have "min cap (base * 2 ^ nat (min i max_exponent))
      \<le> min cap (base * 2 ^ nat (min j max_exponent))" by (rule min.mono [OF order_refl])
  with assms show ?thesis by (auto simp: backoff_bound_def)
qed

lemma full_jitter_delay_range:
  assumes "0 \<le> attempt" "0 < base" "0 < cap" "0 \<le> u" "u \<le> 1"
  shows "\<exists>d. full_jitter_delay attempt base cap u = Inr d \<and> 0 \<le> d \<and> d \<le> cap \<and>
           d \<le> base * 2 ^ nat (min attempt max_exponent)"
proof -
  let ?m = "min cap (base * 2 ^ nat (min attempt max_exponent))"
  have "0 \<le> ?m" using assms by simp
  with assms(4,5) have "0 \<le> ?m * u" and "?m * u \<le> ?m * 1"
    by (blast intro: mult_left_mono mult_nonneg_nonneg)+
  moreover have "?m * 1 \<le> cap" and "?m * 1 \<le> base * 2 ^ nat (min attempt max_exponent)"
    by simp_all
  ultimately have "0 \<le> ?m * u" "?m * u \<le> cap"
    "?m * u \<le> base * 2 ^ nat (min attempt max_exponent)"
    by (blast intro: order_trans)+
  with assms(1) show ?thesis
    by (simp add: full_jitter_delay_def backoff_bound_def uniform_def)
qed

end
