(* ===== verification/Worker.thy ===== *)
theory Worker
  imports Queue_Spec Registry Backoff
begin

text \<open>
  \<^verbatim>\<open>src/ftq/worker.py\<close>, what one job's task does: \<^verbatim>\<open>_process\<close> decides from the entry whether to
  run the handler at all, and moves the entry to its next state when the run has ended
  (\<^verbatim>\<open>_fail\<close>, \<^verbatim>\<open>_to_dlq\<close>, the commit). The handler is user code: its run ends in a value of
  \<open>handler_end\<close>, any value is possible. The jitter draw \<open>u\<close> and the class and text \<open>exc_text\<close> of the
  exceptions the JSON and pydantic libraries raise are parameters. A transition that fails
  is swallowed and logged by the worker, so it is the value \<open>Left\<close> here.
\<close>

section \<open>Texts\<close>

definition max_error_chars :: nat where
  "max_error_chars = 2000"

text \<open>An exception, as far as the worker looks at it: its class name and its text.\<close>

datatype py_exc = PyExc (exc_class: string) (exc_message: string)

definition error_text :: "py_exc \<Rightarrow> string" where
  "error_text x = take max_error_chars (exc_class x @ '': '' @ exc_message x)"

definition quote_char :: char where
  "quote_char = CHR 0x27"

definition hex_digit :: "nat \<Rightarrow> char" where
  "hex_digit n = ''0123456789abcdef'' ! n"

text \<open>Python's \<^verbatim>\<open>repr\<close> of a string of printable and control characters.\<close>

definition repr_char :: "char \<Rightarrow> char \<Rightarrow> string" where
  "repr_char quo c =
     (if c = quo \<or> c = CHR 0x5C then [CHR 0x5C, c]
      else if c = CHR 0x0A then [CHR 0x5C, CHR ''n'']
      else if c = CHR 0x0D then [CHR 0x5C, CHR ''r'']
      else if c = CHR 0x09 then [CHR 0x5C, CHR ''t'']
      else if of_char c < (32 :: nat) \<or> of_char c = (127 :: nat)
      then [CHR 0x5C, CHR ''x'', hex_digit (of_char c div 16), hex_digit (of_char c mod 16)]
      else [c])"

definition py_repr :: "string \<Rightarrow> string" where
  "py_repr s =
     (let quo = (if quote_char \<in> set s \<and> CHR 0x22 \<notin> set s then CHR 0x22 else quote_char)
      in [quo] @ concat (map (repr_char quo) s) @ [quo])"

definition deliveries_error :: "settings \<Rightarrow> nat \<Rightarrow> string" where
  "deliveries_error S n = ''delivered '' @ str_nat n @ '' times (max_deliveries=''
     @ str_int (max_deliveries S) @ '')''"

definition no_handler_error :: "string \<Rightarrow> string" where
  "no_handler_error ty = ''no handler registered for type '' @ py_repr ty"

section \<open>Settling an entry\<close>

text \<open>\<open>TimedOut\<close> is the worker's own \<^verbatim>\<open>HandlerTimeout\<close>, \<open>Raised\<close> any other exception.\<close>

datatype handler_end = Returned string | Raised py_exc | TimedOut py_exc

datatype settled = Committed commit_outcome | Moved outcome | Left redis_error

definition guarded :: "('s, 'a) script \<Rightarrow> ('a \<Rightarrow> settled) \<Rightarrow> ('s, settled) script" where
  "guarded m f = (\<lambda>s. case m s of
     (Inl e, s') \<Rightarrow> (Inr (Left e), s') | (Inr x, s') \<Rightarrow> (Inr (f x), s'))"

definition to_dlq :: "'s redis_ops \<Rightarrow> settings \<Rightarrow> string \<Rightarrow> eid \<Rightarrow> string \<Rightarrow> dead_reason \<Rightarrow> string
    \<Rightarrow> int \<Rightarrow> bool \<Rightarrow> ('s, settled) script" where
  "to_dlq R S w i jid reason error attempts timed_out =
     guarded (dead R S w i jid reason error attempts timed_out) Moved"

definition fail :: "'s redis_ops \<Rightarrow> settings \<Rightarrow> string \<Rightarrow> rat \<Rightarrow> eid \<Rightarrow> job \<Rightarrow> py_exc \<Rightarrow> bool
    \<Rightarrow> ('s, settled) script" where
  "fail R S w u i j exc timed_out =
     (let error = error_text exc; attempts = attempt j + 1 in
      if attempts \<ge> max_attempts S then
        to_dlq R S w i (job_id j) MAX_ATTEMPTS error attempts timed_out
      else
        (case full_jitter_delay (attempt j) (job_backoff_base S) (job_backoff_cap S) u of
           Inl e \<Rightarrow> ret (Left (ErrorReply e))
         | Inr delay \<Rightarrow> guarded (retry R S w i j delay timed_out) Moved))"

section \<open>\_process\<close>

text \<open>Before the run: entries that must not run go to the dead-letter queue.\<close>

datatype triage = Bury string dead_reason string int | Run job handler_spec

definition entry_job_id :: "eid \<Rightarrow> fields \<Rightarrow> string" where
  "entry_job_id i fs =
     (case dict_get fs ''job_id'' of
        Some j \<Rightarrow> (if j = [] then ''entry:'' @ eid_str i else j)
      | None \<Rightarrow> ''entry:'' @ eid_str i)"

definition triage :: "settings \<Rightarrow> registry \<Rightarrow> (parse_error \<Rightarrow> py_exc) \<Rightarrow> eid \<Rightarrow> fields \<Rightarrow> nat \<Rightarrow> triage" where
  "triage S reg exc_text i fs deliveries =
     (case from_fields fs of
        Inl e \<Rightarrow> Bury (entry_job_id i fs) MALFORMED (error_text (exc_text e)) 0
      | Inr j \<Rightarrow>
          (if int deliveries > max_deliveries S then
             Bury (job_id j) MAX_DELIVERIES (deliveries_error S deliveries) (attempt j + 1)
           else (case lookup_spec reg (job_type j) of
                   None \<Rightarrow> Bury (job_id j) UNKNOWN_TYPE (no_handler_error (job_type j)) (attempt j)
                 | Some spec \<Rightarrow> Run j spec)))"

text \<open>After the run.\<close>

definition finish :: "'s redis_ops \<Rightarrow> settings \<Rightarrow> string \<Rightarrow> rat \<Rightarrow> eid \<Rightarrow> job \<Rightarrow> handler_end
    \<Rightarrow> ('s, settled) script" where
  "finish R S w u i j he =
     (case he of
        Returned result_json \<Rightarrow> guarded (commit R S w i j result_json) Committed
      | Raised exc \<Rightarrow> fail R S w u i j exc False
      | TimedOut exc \<Rightarrow> fail R S w u i j exc True)"

definition process :: "'s redis_ops \<Rightarrow> settings \<Rightarrow> registry \<Rightarrow> (parse_error \<Rightarrow> py_exc) \<Rightarrow> string \<Rightarrow> rat
    \<Rightarrow> eid \<Rightarrow> fields \<Rightarrow> nat \<Rightarrow> handler_end \<Rightarrow> ('s, settled) script" where
  "process R S reg exc_text w u i fs deliveries he =
     (case triage S reg exc_text i fs deliveries of
        Bury jid reason error attempts \<Rightarrow> to_dlq R S w i jid reason error attempts False
      | Run j spec \<Rightarrow> finish R S w u i j he)"

section \<open>Refinement\<close>

lemma refines_guarded [refines_intro]:
  assumes "refines view m d"
  shows "refines view (guarded m f) (guarded d f)"
proof -
  have "fst (guarded m f s) = fst (guarded d f (view s)) \<and>
        view (snd (guarded m f s)) = snd (guarded d f (view s))" for s
  proof (cases "m s")
    case (Pair r s')
    with assms have "d (view s) = (r, view s')" by (rule refinesD)
    with Pair show ?thesis by (cases r) (auto simp: guarded_def)
  qed
  then show ?thesis by (simp add: refines_def)
qed

context redis_service
begin

lemma process_doc [refines_intro]:
  "refines view (process R S reg xt w u i fs n he) (process (doc_of R) S reg xt w u i fs n he)"
proof -
  have f: "refines view (fail R S w u i j x b) (fail (doc_of R) S w u i j x b)" for j x b
    unfolding fail_def to_dlq_def Let_def
    by (cases "full_jitter_delay (attempt j) (job_backoff_base S) (job_backoff_cap S) u")
      (auto intro!: refines_intro)
  show ?thesis
    unfolding process_def to_dlq_def finish_def
    by (auto intro!: refines_intro f split: triage.split handler_end.split)
qed

lemma enqueue_call_doc [refines_intro]:
  "refines view (enqueue_call R S k j c fl) (enqueue_call (doc_of R) S k j c fl)"
  unfolding enqueue_call_def by (intro refines_intro)

lemma requeue_api_doc [refines_intro]: "refines view (requeue R K j) (requeue (doc_of R) K j)"
  unfolding requeue_def by (intro refines_intro)

lemma fetch_doc [refines_intro]: "refines view (fetch R S w n) (fetch (doc_of R) S w n)"
  unfolding fetch_def by (intro refines_intro)

end

section \<open>What a task does to the queue\<close>

text \<open>
  The specification of \<^verbatim>\<open>_process\<close>: a commit, a retry or a burial of the entry's own job,
  refused unless the worker owns the entry (the commit excepted, which is first-wins).
\<close>

definition q_process :: "(string list \<Rightarrow> string) \<Rightarrow> settings \<Rightarrow> registry \<Rightarrow> (parse_error \<Rightarrow> py_exc) \<Rightarrow> string
    \<Rightarrow> rat \<Rightarrow> eid \<Rightarrow> fields \<Rightarrow> nat \<Rightarrow> handler_end \<Rightarrow> qstate \<Rightarrow> settled \<times> qstate" where
  "q_process enc S reg exc_text w u i fs n he q =
     (let moved = (\<lambda>p. (Moved (fst p), snd p));
          failed = (\<lambda>j x b.
            if attempt j + 1 \<ge> max_attempts S then
              moved (q_dead w i (job_id j) (reason_value MAX_ATTEMPTS) (error_text x)
                (str_int (attempt j + 1)) b q)
            else (case full_jitter_delay (attempt j) (job_backoff_base S) (job_backoff_cap S) u of
                    Inl e \<Rightarrow> (Left (ErrorReply e), q)
                  | Inr d \<Rightarrow> moved (q_retry enc w i (job_id j) (str_int (attempt j + 1))
                      (py_trunc (d * 1000)) b q)))
      in case triage S reg exc_text i fs n of
           Bury jid reason error attempts \<Rightarrow>
             moved (q_dead w i jid (reason_value reason) error (str_int attempts) False q)
         | Run j spec \<Rightarrow>
             (case he of
                Returned res \<Rightarrow>
                  (let p = q_commit w i (job_id j) (str_int (enqueued_at_ms j)) res q
                   in (Committed (fst p), snd p))
              | Raised x \<Rightarrow> failed j x False
              | TimedOut x \<Rightarrow> failed j x True))"

lemma implements_guarded:
  assumes "implements S P m ab"
  shows "implements S P (guarded m f) (\<lambda>q. (f (fst (ab q)), snd (ab q)))"
proof (rule implementsI)
  fix v q
  assume "typed S v" and q: "q = qview S v" and "P q"
  with assms obtain v' where "m v = (Inr (fst (ab q)), v')" "typed S v'" "qview S v' = snd (ab q)"
    unfolding implements_def by blast
  then show "\<exists>v'. guarded m f v = (Inr (fst (f (fst (ab q)), snd (ab q))), v') \<and> typed S v' \<and>
      qview S v' = snd (f (fst (ab q)), snd (ab q))"
    by (simp add: guarded_def)
qed

lemma implements_mono:
  "implements S P m ab \<Longrightarrow> (\<And>q. Q q \<Longrightarrow> P q) \<Longrightarrow> implements S Q m ab"
  by (simp add: implements_def)

lemma implements_ret: "implements S P (ret x) (\<lambda>q. (x, q))"
  by (simp add: implements_def)

lemma implements_process:
  "implements S pel_ok (process (doc_of R) S reg xt w u i fs n he)
     (q_process (cjson_encode R) S reg xt w u i fs n he)"
proof -
  note dlq = implements_mono [OF implements_guarded [OF implements_dead], where Q = pel_ok]
  have f: "implements S pel_ok (fail (doc_of R) S w u i j x b) (\<lambda>q.
       if attempt j + 1 \<ge> max_attempts S then
         (let p = q_dead w i (job_id j) (reason_value MAX_ATTEMPTS) (error_text x)
            (str_int (attempt j + 1)) b q in (Moved (fst p), snd p))
       else (case full_jitter_delay (attempt j) (job_backoff_base S) (job_backoff_cap S) u of
               Inl e \<Rightarrow> (Left (ErrorReply e), q)
             | Inr d \<Rightarrow> (let p = q_retry (cjson_encode R) w i (job_id j) (str_int (attempt j + 1))
                 (py_trunc (d * 1000)) b q in (Moved (fst p), snd p))))" for j x b
    unfolding fail_def to_dlq_def Let_def
    by (cases "full_jitter_delay (attempt j) (job_backoff_base S) (job_backoff_cap S) u")
      (auto simp del: reason_value.simps intro: dlq implements_guarded [OF implements_retry] implements_ret)
  show ?thesis
    unfolding process_def q_process_def to_dlq_def finish_def Let_def
    by (auto simp del: reason_value.simps intro!: dlq implements_mono [OF implements_guarded [OF implements_commit], where Q = pel_ok]
        f [unfolded Let_def] split: triage.split handler_end.split)
qed

end
