(* ===== verification/Retention.thy ===== *)
theory Retention
  imports Worker
begin

text \<open>
  How long terminal records and ledger markers live. With \<^verbatim>\<open>done_ttl_seconds\<close> set they carry an
  expiry time; nothing a script does can make that time come before the retention period is over.
  A script invariant (\<open>keeps\<close>) with structural rules, one rule per command, carries this through
  every script and every caller.
\<close>

named_theorems keeps_intro \<open>structural rules for invariants of scripts\<close>

definition keeps :: "('s \<Rightarrow> bool) \<Rightarrow> ('s, 'a) script \<Rightarrow> bool" where
  "keeps I m \<longleftrightarrow> (\<forall>s. I s \<longrightarrow> I (snd (m s)))"

lemma keepsD: "keeps I m \<Longrightarrow> m s = (r, s') \<Longrightarrow> I s \<Longrightarrow> I s'"
  unfolding keeps_def by (metis snd_conv)

lemma keeps_ret [keeps_intro]: "keeps I (ret x)"
  by (simp add: keeps_def)

lemma keeps_raise [keeps_intro]: "keeps I (raise e)"
  by (simp add: keeps_def)

lemma keeps_call [keeps_intro]: "keeps I m \<Longrightarrow> (\<And>x. keeps I (k x)) \<Longrightarrow> keeps I (call m k)"
  by (auto simp: keeps_def call_def split: prod.split sum.split)

lemma keeps_if [keeps_intro]: "(b \<Longrightarrow> keeps I m) \<Longrightarrow> (\<not> b \<Longrightarrow> keeps I m') \<Longrightarrow> keeps I (if b then m else m')"
  by simp

lemma keeps_case_option [keeps_intro]:
  "(p = None \<Longrightarrow> keeps I m) \<Longrightarrow> (\<And>x. p = Some x \<Longrightarrow> keeps I (k x)) \<Longrightarrow>
   keeps I (case p of None \<Rightarrow> m | Some x \<Rightarrow> k x)"
  by (cases p) auto

lemma keeps_case_list [keeps_intro]:
  "keeps I m \<Longrightarrow> (\<And>x xs. keeps I (k x xs)) \<Longrightarrow> keeps I (case p of [] \<Rightarrow> m | x # xs \<Rightarrow> k x xs)"
  by (cases p) auto

lemma keeps_case_prod [keeps_intro]: "(\<And>x y. keeps I (k x y)) \<Longrightarrow> keeps I (case p of (x, y) \<Rightarrow> k x y)"
  by (cases p) auto

lemma keeps_Let [keeps_intro]: "keeps I (k t) \<Longrightarrow> keeps I (let x = t in k x)"
  by simp

lemma keeps_fold_script [keeps_intro]: "(\<And>acc x. keeps I (f acc x)) \<Longrightarrow> keeps I (fold_script f acc xs)"
  by (induction xs arbitrary: acc) (auto intro: keeps_intro)

lemma keeps_guarded [keeps_intro]: "keeps I m \<Longrightarrow> keeps I (guarded m f)"
  by (auto simp: keeps_def guarded_def split: prod.split sum.split)

section \<open>Expiry times under the scripts\<close>

text \<open>At clock \<open>c\<close>, no terminal record and no ledger marker expires before \<open>h\<close>.\<close>

definition retained_keys :: "keys \<Rightarrow> key set" where
  "retained_keys K = range (done_key K) \<union> range (ledger_key K)"

definition kept :: "keys \<Rightarrow> nat \<Rightarrow> nat \<Rightarrow> rdb \<Rightarrow> bool" where
  "kept K h c v \<longleftrightarrow> clock v = c \<and> (\<forall>k e. expiry v k = Some e \<longrightarrow> k \<in> retained_keys K \<longrightarrow> h \<le> e)"

lemma idem_not_retained [simp]: "idem_key K x \<notin> retained_keys K"
  by (auto simp: retained_keys_def)

lemma keptI: "kept K h c v \<Longrightarrow> clock v' = clock v \<Longrightarrow> expiry v' = expiry v \<Longrightarrow> kept K h c v'"
  by (simp add: kept_def)

lemma same_times [simp]:
  "clock (put_stream k s v) = clock v" "expiry (put_stream k s v) = expiry v"
  "clock (put_group k g s gr v) = clock v" "expiry (put_group k g s gr v) = expiry v"
  "clock (put_zset k z v) = clock v" "expiry (put_zset k z v) = expiry v"
  "clock (drop_key k v) = clock v" "expiry (drop_key k v) = (expiry v)(k := None)"
  by (simp_all add: put_stream_def put_group_def put_zset_def drop_key_def)

lemma kept_drop: "kept K h c v \<Longrightarrow> kept K h c (drop_key k v)"
  by (simp add: kept_def)

lemma kept_reads [keeps_intro]:
  "keeps (kept K h c) (GET (doc_of R) k)" "keeps (kept K h c) (EXISTS (doc_of R) k)"
  "keeps (kept K h c) (HGET (doc_of R) k x)" "keeps (kept K h c) (HGETALL (doc_of R) k)"
  "keeps (kept K h c) (TIME (doc_of R))" "keeps (kept K h c) (ZCARD (doc_of R) k)"
  "keeps (kept K h c) (ZRANGE_DUE (doc_of R) k d n)" "keeps (kept K h c) (XLEN (doc_of R) k)"
  "keeps (kept K h c) (XRANGE (doc_of R) k lo hi num)" "keeps (kept K h c) (XREVRANGE1 (doc_of R) k)"
  by (auto simp: keeps_def doc_of_def doc_redis_def d_get_def d_exists_def d_hget_def d_hgetall_def d_time_def
      d_zcard_def d_zrange_due_def d_xlen_def d_xrange_def d_xrevrange1_def)

lemma kept_writes [keeps_intro]:
  "keeps (kept K h c) (DEL (doc_of R) k)" "keeps (kept K h c) (SET (doc_of R) k x)"
  "keeps (kept K h c) (HSET (doc_of R) k ps)" "keeps (kept K h c) (HINCRBY (doc_of R) k x d)"
  "keeps (kept K h c) (ZADD (doc_of R) k d x)" "keeps (kept K h c) (ZREM (doc_of R) k x)"
  "keeps (kept K h c) (XADD (doc_of R) k xs)" "keeps (kept K h c) (XDEL (doc_of R) k i)"
  by (auto simp: keeps_def doc_of_def doc_redis_def d_del_def d_set_def d_hset_def d_hincrby_def d_zadd_def
      d_zrem_def d_xadd_def d_xdel_def Let_def kept_def split: option.splits if_splits)

lemma kept_with_group:
  assumes "\<And>s gr v. clock (snd (f s gr v)) = clock v \<and> expiry (snd (f s gr v)) = expiry v"
  shows "keeps (kept K h c) (with_group k g f)"
  unfolding keeps_def with_group_def using assms keptI by (auto split: option.split)

lemma kept_groups [keeps_intro]:
  "keeps (kept K h c) (XGROUP_CREATE (doc_of R) k g)" "keeps (kept K h c) (XREADGROUP (doc_of R) k g x n)"
  "keeps (kept K h c) (XACK (doc_of R) k g i)" "keeps (kept K h c) (XPENDING (doc_of R) k g i)"
  "keeps (kept K h c) (XPENDING_CONSUMER (doc_of R) k g x)" "keeps (kept K h c) (XPENDING_SUMMARY (doc_of R) k g)"
  "keeps (kept K h c) (XCLAIM_JUSTID (doc_of R) k g x i idle rc)"
  "keeps (kept K h c) (XAUTOCLAIM (doc_of R) k g x d i n)"
  "keeps (kept K h c) (XINFO_CONSUMERS (doc_of R) k g)" "keeps (kept K h c) (DELCONSUMER (doc_of R) k g x)"
proof -
  note defs = doc_of_def doc_redis_def d_xgroup_create_def d_xreadgroup_def d_xack_def d_xpending_def
    d_xpending_consumer_def d_xpending_summary_def d_xclaim_justid_def d_xautoclaim_def d_xinfo_consumers_def
    d_delconsumer_def
  show "keeps (kept K h c) (XGROUP_CREATE (doc_of R) k g)" "keeps (kept K h c) (XACK (doc_of R) k g i)"
    by (auto simp: keeps_def defs Let_def kept_def split: option.splits if_splits)
  show "keeps (kept K h c) (XREADGROUP (doc_of R) k g x n)" "keeps (kept K h c) (XPENDING (doc_of R) k g i)"
    "keeps (kept K h c) (XPENDING_CONSUMER (doc_of R) k g x)"
    "keeps (kept K h c) (XPENDING_SUMMARY (doc_of R) k g)"
    "keeps (kept K h c) (XCLAIM_JUSTID (doc_of R) k g x i idle rc)"
    "keeps (kept K h c) (XAUTOCLAIM (doc_of R) k g x d i n)"
    "keeps (kept K h c) (XINFO_CONSUMERS (doc_of R) k g)" "keeps (kept K h c) (DELCONSUMER (doc_of R) k g x)"
    unfolding defs by (auto simp: Let_def intro!: kept_with_group split: option.split prod.split)
qed

lemma kept_expiry [keeps_intro]:
  "k \<notin> retained_keys K \<or> h \<le> c + n * 1000000 \<Longrightarrow> keeps (kept K h c) (EXPIRE (doc_of R) k n)"
  "keeps (kept K h c) (SET_NX (doc_of R) k x None)"
  "k \<notin> retained_keys K \<or> h \<le> c + n * 1000000 \<Longrightarrow> keeps (kept K h c) (SET_NX (doc_of R) k x (Some n))"
  by (auto simp: keeps_def doc_of_def doc_redis_def d_expire_def d_set_nx_def kept_def)

section \<open>Scripts and callers\<close>

lemma kept_helpers [keeps_intro]:
  "keeps (kept K h c) (now_ms (doc_of R))" "keeps (kept K h c) (as_eid t)"
  "keeps (kept K h c) (drop_entry (doc_of R) k g i k')" "keeps (kept K h c) (to_outcome r)"
  "keeps (kept K h c) (to_commit r')"
  unfolding now_ms_def as_eid_def drop_entry_def to_outcome_def to_commit_def by (intro keeps_intro)+

lemma kept_calls [keeps_intro]:
  "keeps (kept K h c) (heartbeat (doc_of R) S w i)"
  "keeps (kept K h c) (retry (doc_of R) S w i j d b)"
  "keeps (kept K h c) (dead (doc_of R) S w i jid rs e a b)"
  "keeps (kept K h c) (move_due (doc_of R) S)"
  "keeps (kept K h c) (prune_consumers (doc_of R) S w)"
  "keeps (kept K h c) (requeue (doc_of R) K' jid)"
  "keeps (kept K h c) (fetch (doc_of R) S w n)"
  unfolding heartbeat_def retry_def dead_def move_due_def prune_consumers_def requeue_def
    fetch_def script_defs
  by (intro keeps_intro)+

lemma kept_reclaim [keeps_intro]: "keeps (kept K h c) (reclaim (doc_of R) S w cur n sl)"
  unfolding reclaim_def reclaim_lua_def reclaim_one_def by (intro keeps_intro)

lemma kept_enqueue [keeps_intro]: "keeps (kept (keys_of S) h c) (enqueue_call (doc_of R) S idk j cn fl)"
  unfolding enqueue_call_def enqueue_lua_def
  by (intro keeps_intro) auto

lemma kept_commit [keeps_intro]:
  "(0 < done_ttl_seconds S \<Longrightarrow> h \<le> c + nat (done_ttl_seconds S) * 1000000) \<Longrightarrow>
   keeps (kept K h c) (commit (doc_of R) S w i j x)"
  unfolding commit_def commit_lua_def by (intro keeps_intro) auto

lemma kept_ledger [keeps_intro]:
  "(0 < ttl \<Longrightarrow> h \<le> c + nat ttl * 1000000) \<Longrightarrow> keeps (kept K h c) (ledger_apply (doc_of R) K' ttl k fs)"
  unfolding ledger_apply_def ledger_lua_def by (intro keeps_intro) auto

lemma kept_process [keeps_intro]:
  assumes "0 < done_ttl_seconds S \<Longrightarrow> h \<le> c + nat (done_ttl_seconds S) * 1000000"
  shows "keeps (kept K h c) (process (doc_of R) S reg xt w u i fs n he)"
  unfolding process_def to_dlq_def finish_def fail_def Let_def
  by (auto intro!: keeps_intro assms split: triage.split handler_end.split sum.split)

section \<open>Time\<close>

lemma tick_clock: "d_tick d v = (r, v') \<Longrightarrow> clock v' = clock v + d"
  by (auto simp: d_tick_def Let_def dest: arg_cong [where f = clock])

lemma kept_tick:
  assumes "kept K h c v" and "d_tick d v = (r, v')"
  shows "kept K h (c + d) v'"
proof -
  have "expiry v k = Some e" if "expiry v' k = Some e" for k e
    using that assms(2) by (auto simp: d_tick_def Let_def split: if_splits)
  with assms show ?thesis by (auto simp: kept_def d_tick_def Let_def)
qed

lemma typed_kept: "typed S v \<Longrightarrow> done_ttl_seconds S = 0 \<Longrightarrow> kept (keys_of S) h (clock v) v"
  by (auto simp: typed_def Let_def kept_def retained_keys_def)

text \<open>
  As long as no retained key expires, the passage of time only moves the clock and drops
  idempotency markers whose time has come.
\<close>

lemma exec_tick:
  assumes t: "typed S v" and k: "kept (keys_of S) h c v" and d: "c + d < h"
  shows "\<exists>v' m n. d_tick d v = (Inr (), v') \<and> typed S v' \<and>
     qview S v' = (qview S v)\<lparr>idem := m, qnow := n\<rparr> \<and> m \<subseteq>\<^sub>m idem (qview S v) \<and> qnow (qview S v) \<le> n"
proof -
  let ?v = "snd (d_tick d v)" and ?K = "keys_of S"
  have ex: "expiry v (stream_key ?K) = None" "expiry v (dead_key ?K) = None"
    "expiry v (results_key ?K) = None" "expiry v (effects_key ?K) = None"
    "expiry v (delayed_key ?K) = None" "expiry v (full_key ?K) = None"
    "expiry v (stats_key ?K) = None" "expiry v (reclaims_key ?K) = None"
    using t by (simp_all add: typed_def Let_def)
  have gone: "strs ?v k = strs v k" "hashes ?v k = hashes v k" "zsets ?v k = zsets v k"
    "streams ?v k = streams v k" "expiry ?v k = expiry v k" if "expiry v k = None" for k
    using that by (simp_all add: d_tick_def Let_def)
  have stays: "strs ?v k = strs v k" "hashes ?v k = hashes v k" "zsets ?v k = zsets v k"
    "streams ?v k = streams v k" "expiry ?v k = expiry v k" if "k \<in> retained_keys ?K" for k
  proof -
    have "clock v + d < e" if "expiry v k = Some e" for e
      using k d that \<open>k \<in> retained_keys ?K\<close> unfolding kept_def by fastforce
    then show "strs ?v k = strs v k" "hashes ?v k = hashes v k" "zsets ?v k = zsets v k"
      "streams ?v k = streams v k" "expiry ?v k = expiry v k"
      by (auto simp: d_tick_def Let_def split: option.split)
  qed
  have ret: "done_key ?K j \<in> retained_keys ?K" "ledger_key ?K x \<in> retained_keys ?K" for j x
    by (simp_all add: retained_keys_def)
  have le: "strs ?v k = None \<or> strs ?v k = strs v k" "hashes ?v k = None \<or> hashes ?v k = hashes v k"
    "zsets ?v k = None \<or> zsets ?v k = zsets v k" "streams ?v k = None \<or> streams ?v k = streams v k" for k
    by (auto simp: d_tick_def Let_def)
  have "str_ok (idem_key ?K x) ?v" for x
    using typedD(10) [OF t, of x] le(2-4) [of "idem_key ?K x"] by (auto simp: str_ok_def)
  then have "typed S ?v"
    using t by (simp add: typed_def Let_def ok_defs get_stream_def get_hash_def gone ex stays ret)
  moreover have "qview S ?v = (qview S v)\<lparr>idem := (\<lambda>x. strs ?v (idem_key ?K x)), qnow := ms_of ?v\<rparr>"
    by (simp add: qview_def Let_def get_defs stats_of_def gone ex stays ret fun_eq_iff)
  moreover have "(\<lambda>x. strs ?v (idem_key ?K x)) \<subseteq>\<^sub>m idem (qview S v)"
    using le(1) by (force simp: map_le_def qview_def Let_def dom_def)
  moreover have "qnow (qview S v) \<le> ms_of ?v"
    by (simp add: qview_def Let_def ms_of_def d_tick_def div_le_mono)
  moreover have "d_tick d v = (Inr (), ?v)" by (simp add: d_tick_def Let_def)
  ultimately show ?thesis by blast
qed

end
