(* ===== verification/Queue_Invariant.thy ===== *)
theory Queue_Invariant
  imports Retention
begin

text \<open>
  The invariants of a queue, on its view, and that every specified transition keeps them.
  One predicate per concern: delivery (an entry is pending iff it was delivered), the delayed
  set, the results and effects logs, the dead-letter queue against the terminal records,
  acceptance (no accepted job is lost), depth and counters.
\<close>

named_theorems inv_defs \<open>definitions of the invariants\<close>

section \<open>The invariants\<close>

text \<open>
  A window over the entry ids \<open>es\<close>: ids grow, none is above the stream's last id \<open>l\<close>, and the
  pending ids \<open>ps\<close> are exactly the entries up to the group's position \<open>g\<close>.
\<close>

definition window :: "'a::linorder list \<Rightarrow> 'a \<Rightarrow> 'a \<Rightarrow> 'a list \<Rightarrow> bool" where
  "window es l g ps \<longleftrightarrow> sorted_wrt (<) es \<and> (\<forall>i \<in> set es. i \<le> l) \<and> g \<le> l \<and>
     distinct ps \<and> set ps = {i \<in> set es. i \<le> g}"

definition delivery_inv :: "qstate \<Rightarrow> bool" where
  "delivery_inv q \<longleftrightarrow> window (map fst (ents q)) (slast q) (g_last (grp q)) (map fst (pend q))"

definition entries_inv :: "qstate \<Rightarrow> bool" where
  "entries_inv q \<longleftrightarrow> (\<forall>e \<in> set (ents q). strip_fields (snd e) \<noteq> [])"

definition delayed_inv :: "(string \<Rightarrow> string list option) \<Rightarrow> qstate \<Rightarrow> bool" where
  "delayed_inv dec q \<longleftrightarrow> distinct (map fst (dlyd q)) \<and>
     (\<forall>m \<in> fst ` set (dlyd q). \<exists>ps. strip_fields ps \<noteq> [] \<and> dec m = Some (flat_of ps))"

definition states_inv :: "qstate \<Rightarrow> bool" where
  "states_inv q \<longleftrightarrow> (\<forall>j. state_of q j \<in> {None, Some ''SUCCEEDED'', Some ''DEAD''})"

definition results_for :: "qstate \<Rightarrow> string \<Rightarrow> fields list" where
  "results_for q j = filter (\<lambda>fs. dict_get fs ''job_id'' = Some j) (reslog q)"

definition results_inv :: "qstate \<Rightarrow> bool" where
  "results_inv q \<longleftrightarrow> (\<forall>j. length (results_for q j) = (if state_of q j = Some ''SUCCEEDED'' then 1 else 0))"

definition effect_key_of :: "fields \<Rightarrow> string" where
  "effect_key_of fs = snd (hd fs)"

definition effects_inv :: "qstate \<Rightarrow> bool" where
  "effects_inv q \<longleftrightarrow> distinct (map effect_key_of (efflog q)) \<and>
     (\<forall>k. led q k \<longleftrightarrow> k \<in> effect_key_of ` set (efflog q))"

definition dlq_job :: "fields \<Rightarrow> string option" where
  "dlq_job fs = dict_get fs ''dlq_job_id''"

definition dlq_inv :: "qstate \<Rightarrow> bool" where
  "dlq_inv q \<longleftrightarrow>
     sorted_wrt (<) (map fst (dlq q)) \<and> distinct (map fst (dlq q)) \<and>
     (\<forall>i \<in> fst ` set (dlq q). i \<le> dlast q) \<and> dlq_ok q \<and>
     (\<forall>j. state_of q j = Some ''DEAD'' \<longrightarrow> (\<exists>fs. map_of (dlq q) (dead_id q j) = Some fs \<and> dlq_job fs = Some j)) \<and>
     (\<forall>e \<in> set (dlq q). \<exists>j. dlq_job (snd e) = Some j \<and> state_of q j = Some ''DEAD'' \<and> dead_id q j = fst e)"

definition holds_job :: "string \<Rightarrow> fields \<Rightarrow> bool" where
  "holds_job j fs \<longleftrightarrow> dict_get fs ''job_id'' = Some j"

definition accounted :: "(string \<Rightarrow> string list option) \<Rightarrow> qstate \<Rightarrow> string \<Rightarrow> bool" where
  "accounted dec q j \<longleftrightarrow> state_of q j \<noteq> None \<or> (\<exists>e \<in> set (ents q). holds_job j (snd e)) \<or>
     (\<exists>m \<in> fst ` set (dlyd q). holds_job j (member_fields dec m))"

text \<open>
  Job ids are never empty and never look like the stand-in \<^verbatim>\<open>entry:...\<close> that a malformed entry
  is buried under. A dead-letter entry of a job still names the job.
\<close>

definition real_id :: "string \<Rightarrow> bool" where
  "real_id j \<longleftrightarrow> j \<noteq> [] \<and> take 6 j \<noteq> ''entry:''"

definition accept_inv :: "(string \<Rightarrow> string list option) \<Rightarrow> string set \<Rightarrow> qstate \<Rightarrow> bool" where
  "accept_inv dec acc q \<longleftrightarrow> (\<forall>j \<in> acc. accounted dec q j) \<and>
     (\<forall>e \<in> set (dlq q). \<forall>j. real_id j \<longrightarrow> dlq_job (snd e) = Some j \<longrightarrow> holds_job j (snd e)) \<and>
     (\<forall>k j. idem q k = Some j \<longrightarrow> j \<in> acc) \<and> (\<forall>j \<in> acc. real_id j)"

definition depth_inv :: "settings \<Rightarrow> nat \<Rightarrow> qstate \<Rightarrow> bool" where
  "depth_inv S extra q \<longleftrightarrow> int (q_depth q) \<le> high_watermark S + int extra"

definition counts_inv :: "qstate \<Rightarrow> bool" where
  "counts_inv q \<longleftrightarrow> cnt q ''processed'' = int (length (reslog q)) \<and>
     cnt q ''effects_applied'' = int (length (efflog q)) \<and>
     cnt q ''dead'' = int (length (dlq q)) + cnt q ''late_successes'' + cnt q ''requeued'' \<and>
     cnt q ''scheduled'' + int (length (dlyd q)) \<le> cnt q ''retried''"

lemmas inv_unfold [inv_defs] = delivery_inv_def entries_inv_def delayed_inv_def states_inv_def
  results_for_def results_inv_def effects_inv_def dlq_inv_def accounted_def accept_inv_def
  depth_inv_def counts_inv_def q_depth_def dlq_ok_def

section \<open>Entry ids\<close>

lemma next_eid_gt: "l < next_eid l ms"
  by (cases l) (auto simp: next_eid_def less_prod_def)

lemma next_eid_fresh: "i \<le> l \<Longrightarrow> i \<noteq> next_eid l ms"
  using next_eid_gt [of l ms] by auto

section \<open>Counters\<close>

definition idle_counter :: "string \<Rightarrow> bool" where
  "idle_counter f \<longleftrightarrow> f \<notin> {''processed'', ''effects_applied'', ''dead'', ''late_successes'', ''requeued'',
     ''scheduled'', ''retried''}"

lemma q_count_frame [simp]:
  "delivery_inv (q_count f n q) = delivery_inv q" "entries_inv (q_count f n q) = entries_inv q"
  "delayed_inv dec (q_count f n q) = delayed_inv dec q" "states_inv (q_count f n q) = states_inv q"
  "results_inv (q_count f n q) = results_inv q" "effects_inv (q_count f n q) = effects_inv q"
  "dlq_inv (q_count f n q) = dlq_inv q" "accept_inv dec acc (q_count f n q) = accept_inv dec acc q"
  "depth_inv S x (q_count f n q) = depth_inv S x q" "state_of (q_count f n q) j = state_of q j"
  "idle_counter f \<Longrightarrow> counts_inv (q_count f n q) = counts_inv q"
  by (auto simp: inv_defs q_count_def state_of_def dead_id_def idle_counter_def)

section \<open>Delivery\<close>

lemma window_filter: "window es l g ps \<Longrightarrow> window (filter P es) l g (filter P ps)"
  by (auto simp: window_def sorted_wrt_filter)

lemma sorted_wrt_snoc: "sorted_wrt (<) (xs @ [x]) \<longleftrightarrow> sorted_wrt (<) xs \<and> (\<forall>y \<in> set xs. y < x)"
  by (auto simp: sorted_wrt_append)

lemma window_add: "window es l g ps \<Longrightarrow> l < i \<Longrightarrow> window (es @ [i]) i g ps"
  by (fastforce simp: window_def sorted_wrt_snoc)

lemma window_perm: "window es l g ps \<Longrightarrow> set ps' = set ps \<Longrightarrow> distinct ps' \<Longrightarrow> window es l g ps'"
  by (simp add: window_def)

lemma sorted_take_last:
  fixes xs :: "'a::linorder list"
  assumes "sorted_wrt (<) xs" and "take n xs \<noteq> []" and "x \<in> set xs"
  shows "x \<le> last (take n xs) \<longleftrightarrow> x \<in> set (take n xs)"
proof -
  have s: "sorted_wrt (<) (take n xs @ drop n xs)" using assms(1) by simp
  have last: "last (take n xs) \<in> set (take n xs)" using assms(2) by (rule last_in_set)
  have "y \<le> last (take n xs)" if "y \<in> set (take n xs)" for y
  proof -
    have "sorted_wrt (<) (butlast (take n xs) @ [last (take n xs)])"
      using assms(1,2) by (simp add: sorted_wrt_take)
    moreover have "y \<in> set (butlast (take n xs) @ [last (take n xs)])" using that assms(2) by simp
    ultimately show ?thesis by (auto simp: sorted_wrt_snoc)
  qed
  moreover have "last (take n xs) < x" if "x \<notin> set (take n xs)"
  proof -
    from that assms(3) have "x \<in> set (drop n xs)" by (metis UnE append_take_drop_id set_append)
    with s last show ?thesis unfolding sorted_wrt_append by blast
  qed
  ultimately show ?thesis by (meson leD)
qed

lemma window_read:
  fixes es :: "'a::linorder list"
  assumes "window es l g ps" and new: "new = take n (filter (\<lambda>i. g < i) es)"
  shows "window es l (if new = [] then g else last new) (ps @ new)"
proof (cases "new = []")
  case True
  with assms show ?thesis by simp
next
  case False
  let ?xs = "filter (\<lambda>i. g < i) es"
  have srt: "sorted_wrt (<) ?xs" using assms(1) by (simp add: window_def sorted_wrt_filter)
  have sub: "set new \<subseteq> set es" "\<forall>i \<in> set new. g < i" using new by (auto dest: in_set_takeD)
  have dn: "distinct new" using srt new by (simp add: strict_sorted_iff distinct_take)
  have "last new \<in> set new" using False by (rule last_in_set)
  with sub assms(1) have l: "last new \<le> l" "g < last new" by (auto simp: window_def)
  have "i \<le> last new \<longleftrightarrow> i \<le> g \<or> i \<in> set new" if "i \<in> set es" for i
  proof (cases "i \<le> g")
    case True
    with l(2) show ?thesis by auto
  next
    case gt: False
    with that have "i \<in> set ?xs" by auto
    from sorted_take_last [OF srt _ this, of n] False new gt show ?thesis by simp
  qed
  with sub(1) have "{i \<in> set es. i \<le> last new} = {i \<in> set es. i \<le> g} \<union> set new" by blast
  moreover have "set ps \<inter> set new = {}" using assms(1) sub(2) by (fastforce simp: window_def)
  ultimately show ?thesis using assms(1) False l(1) dn by (simp add: window_def)
qed

lemma map_fst_filter: "map fst (filter (\<lambda>p. P (fst p)) xs) = filter P (map fst xs)"
  by (induction xs) auto

lemma delivery_pel_ok: "delivery_inv q \<Longrightarrow> pel_ok q"
  by (auto simp: delivery_inv_def window_def pel_ok_def)

lemma delivery_drop: "delivery_inv q \<Longrightarrow> delivery_inv (q_drop i q)"
  by (simp add: delivery_inv_def q_drop_def map_fst_filter [of "\<lambda>k. k \<noteq> i"] window_filter)

lemma delivery_add: "delivery_inv q \<Longrightarrow> delivery_inv (q_add ps q)"
  by (simp add: delivery_inv_def q_add_def Let_def window_add next_eid_gt)

lemma delivery_read: "delivery_inv q \<Longrightarrow> delivery_inv (snd (q_read w n q))"
  unfolding delivery_inv_def
  by (drule window_read [OF _ refl, of _ _ _ _ n])
    (auto simp: q_read_def read_group_def Let_def comp_def last_map take_map
      map_fst_filter [of "\<lambda>k. g_last (grp q) < k", symmetric] split: if_splits)

text \<open>Claims, heartbeats and pruning keep the pending ids and the group's position.\<close>

definition same_delivery :: "qstate \<Rightarrow> rgroup \<Rightarrow> bool" where
  "same_delivery q g \<longleftrightarrow> set (map fst (g_pel g)) = set (map fst (pend q)) \<and>
     distinct (map fst (g_pel g)) \<and> g_last g = g_last (grp q)"

lemma delivery_grp: "delivery_inv q \<Longrightarrow> same_delivery q g \<Longrightarrow> delivery_inv (q\<lparr>grp := g\<rparr>)"
  unfolding delivery_inv_def same_delivery_def by (simp add: window_perm)

lemma same_delivery_claim:
  assumes "delivery_inv q"
  shows "same_delivery q (claim_group w i idle rc q)"
proof -
  have d: "distinct (map fst (pend q))" using assms by (simp add: delivery_inv_def window_def)
  show ?thesis
  proof (cases "i \<in> fst ` set (ents q)")
    case True
    with claim_group_ids d show ?thesis
      by (simp add: same_delivery_def claim_group_def Let_def split: option.split)
  next
    case False
    with assms have "map_of (pend q) i = None"
      by (auto simp: delivery_inv_def window_def map_of_eq_None_iff)
    with d show ?thesis by (simp add: same_delivery_def claim_group_def Let_def)
  qed
qed

lemma same_delivery_trans:
  "same_delivery q g \<Longrightarrow> same_delivery (q\<lparr>grp := g\<rparr>) g' \<Longrightarrow> same_delivery q g'"
  by (simp add: same_delivery_def)

lemma same_delivery_refl: "delivery_inv q \<Longrightarrow> same_delivery q (grp q)"
  by (simp add: same_delivery_def delivery_inv_def window_def)

lemma same_delivery_auto:
  assumes "delivery_inv q" and "auto_group w mi cur n q = ((cur', cl, del), g)"
  shows "same_delivery q g" and "del = []" and "\<forall>e \<in> set cl. map_of (ents q) (fst e) = Some (snd e)"
proof -
  obtain out rest where a: "autoclaim w (int (qnow q)) mi (ents q) (10 * n) n
      (filter (\<lambda>p. cur \<le> fst p) (pend q)) = (out, cl, del, rest)"
    and g: "g_pel g = filter (\<lambda>p. fst p < cur) (pend q) @ out" "g_last g = g_last (grp q)"
    using assms(2) by (auto simp: auto_group_def Let_def split: prod.splits)
  have "fst ` set (pend q) \<subseteq> fst ` set (ents q)"
    using delivery_pel_ok [OF assms(1)] by (simp add: pel_ok_def)
  then have "fst ` set (filter (\<lambda>p. cur \<le> fst p) (pend q)) \<subseteq> fst ` set (ents q)" by auto
  from autoclaim_keeps [OF a this] have ids: "map fst out = filter (\<lambda>k. cur \<le> k) (map fst (pend q))"
    and "del = []" by (simp_all add: map_fst_filter [of "\<lambda>k. cur \<le> k"])
  have "distinct (map fst (pend q))" using assms(1) by (simp add: delivery_inv_def window_def)
  then have "distinct (filter (\<lambda>k. k < cur) (map fst (pend q)) @ map fst out)"
    and "set (filter (\<lambda>k. k < cur) (map fst (pend q)) @ map fst out) = set (map fst (pend q))"
    unfolding ids by (auto simp del: set_map)
  then show "same_delivery q g"
    by (simp add: same_delivery_def g map_fst_filter [of "\<lambda>k. k < cur"] del: set_map set_append)
  show "del = []" by fact
  show "\<forall>e \<in> set cl. map_of (ents q) (fst e) = Some (snd e)" using autoclaim_claimed [OF a] by blast
qed

definition claims_of :: "qstate \<Rightarrow> claimed list \<Rightarrow> bool" where
  "claims_of q cs \<longleftrightarrow> (\<forall>c \<in> set cs. map_of (ents q) (c_entry_id c) = Some (c_fields c))"

lemma q_reclaims_frame:
  assumes "delivery_inv q" and "\<forall>e \<in> set cl. map_of (ents q) (fst e) = Some (snd e)" and "claims_of q out"
    and "q_reclaims S w (slots, out) cl q = ((sl, out'), q')"
  shows "q' = q\<lparr>grp := grp q'\<rparr> \<and> same_delivery q (grp q') \<and> claims_of q out'"
  using assms
proof (induction S w "(slots, out)" cl q arbitrary: slots out rule: q_reclaims.induct)
  case (1 S w q)
  then show ?case by (simp add: same_delivery_refl)
next
  case (2 S w slots out i fs es q)
  let ?n = "count_of q i"
  show ?case
  proof (cases "suspect_count S ?n \<and> slots = 0")
    case True
    let ?g = "claim_group w i (Some (py_trunc (visibility_timeout S * 1000))) (Some (?n - 1)) q"
    have sd: "same_delivery q ?g" using "2.prems"(1) by (rule same_delivery_claim)
    have "delivery_inv (q\<lparr>grp := ?g\<rparr>)" using "2.prems"(1) sd by (rule delivery_grp)
    moreover have "claims_of (q\<lparr>grp := ?g\<rparr>) xs = claims_of q xs" for xs by (simp add: claims_of_def)
    ultimately have "q' = q\<lparr>grp := ?g\<rparr>\<lparr>grp := grp q'\<rparr> \<and> same_delivery (q\<lparr>grp := ?g\<rparr>) (grp q') \<and> claims_of q out'"
      using "2.hyps"(1) [OF refl True] "2.prems" True by (simp add: Let_def)
    with same_delivery_trans [OF sd] show ?thesis by simp
  next
    case False
    have "claims_of q (out @ [\<lparr>c_entry_id = i, c_fields = fs, c_deliveries = ?n\<rparr>])"
      using "2.prems"(2,3) by (auto simp: claims_of_def)
    with "2.hyps"(2) [OF refl False] "2.prems" False show ?thesis by (simp add: Let_def split: if_splits)
  qed
qed

lemma q_reclaim_frame:
  assumes "delivery_inv q"
  shows "\<exists>g. snd (q_reclaim S w cur n slots q) = q\<lparr>grp := g\<rparr> \<or>
      (\<exists>k. snd (q_reclaim S w cur n slots q) = q_count ''reclaimed'' k (q\<lparr>grp := g\<rparr>))"
    (is "\<exists>g. ?P g") and "same_delivery q (grp (snd (q_reclaim S w cur n slots q)))"
    and "claims_of q (fst (fst (q_reclaim S w cur n slots q)))"
proof -
  obtain cur' cl del g where a: "auto_group w (py_trunc (visibility_timeout S * 1000)) cur n q = ((cur', cl, del), g)"
    by (metis prod.collapse)
  obtain sl out q2 where r: "q_reclaims S w (slots, []) cl (q\<lparr>grp := g\<rparr>) = ((sl, out), q2)"
    by (metis prod.collapse)
  note sd = same_delivery_auto [OF assms a]
  have "\<forall>e \<in> set cl. map_of (ents (q\<lparr>grp := g\<rparr>)) (fst e) = Some (snd e)" using sd(3) by simp
  moreover have "claims_of (q\<lparr>grp := g\<rparr>) []" by (simp add: claims_of_def)
  ultimately have f: "q2 = q\<lparr>grp := grp q2\<rparr>" "same_delivery q (grp q2)" "claims_of q out"
    using q_reclaims_frame [OF delivery_grp [OF assms sd(1)] _ _ r] same_delivery_trans [OF sd(1)]
    by (auto simp: claims_of_def)
  have s: "snd (q_reclaim S w cur n slots q) = (if out = [] then q2 else q_count ''reclaimed'' (int (length out)) q2)"
    and o: "fst (fst (q_reclaim S w cur n slots q)) = out" by (simp_all add: q_reclaim_def a r)
  from f(1) have "?P (grp q2)" unfolding s by metis
  then show "\<exists>g. ?P g" ..
  show "same_delivery q (grp (snd (q_reclaim S w cur n slots q)))" using f(2) by (simp add: s q_count_def)
  show "claims_of q (fst (fst (q_reclaim S w cur n slots q)))" using f(3) by (simp add: o)
qed

lemma same_delivery_prune:
  "delivery_inv q \<Longrightarrow> same_delivery q (grp (snd (q_prune mi w q)))"
  by (simp add: same_delivery_def q_prune_def q_count_def Let_def delivery_inv_def window_def)

section \<open>Frame rules\<close>

lemma grp_frame [simp]:
  "entries_inv (q\<lparr>grp := g\<rparr>) = entries_inv q" "delayed_inv dec (q\<lparr>grp := g\<rparr>) = delayed_inv dec q"
  "states_inv (q\<lparr>grp := g\<rparr>) = states_inv q" "results_inv (q\<lparr>grp := g\<rparr>) = results_inv q"
  "effects_inv (q\<lparr>grp := g\<rparr>) = effects_inv q" "dlq_inv (q\<lparr>grp := g\<rparr>) = dlq_inv q"
  "accept_inv dec acc (q\<lparr>grp := g\<rparr>) = accept_inv dec acc q"
  "depth_inv S x (q\<lparr>grp := g\<rparr>) = depth_inv S x q" "counts_inv (q\<lparr>grp := g\<rparr>) = counts_inv q"
  by (auto simp: inv_defs state_of_def dead_id_def)

text \<open>The logs, records and the dead-letter queue do not depend on entries and delays.\<close>

lemma ents_frame [simp]:
  "states_inv (q_drop i q) = states_inv q" "results_inv (q_drop i q) = results_inv q"
  "effects_inv (q_drop i q) = effects_inv q" "dlq_inv (q_drop i q) = dlq_inv q"
  "counts_inv (q_drop i q) = counts_inv q" "delayed_inv dec (q_drop i q) = delayed_inv dec q"
  "states_inv (q_add ps q) = states_inv q" "results_inv (q_add ps q) = results_inv q"
  "effects_inv (q_add ps q) = effects_inv q" "dlq_inv (q_add ps q) = dlq_inv q"
  "counts_inv (q_add ps q) = counts_inv q" "delayed_inv dec (q_add ps q) = delayed_inv dec q"
  "state_of (q_drop i q) j = state_of q j" "state_of (q_add ps q) j = state_of q j"
  by (auto simp: inv_defs state_of_def dead_id_def q_drop_def q_add_def Let_def)

lemma entries_drop [simp]: "entries_inv q \<Longrightarrow> entries_inv (q_drop i q)"
  by (auto simp: entries_inv_def q_drop_def)

lemma entries_add [simp]: "entries_inv q \<Longrightarrow> strip_fields ps \<noteq> [] \<Longrightarrow> entries_inv (q_add ps q)"
  by (auto simp: entries_inv_def q_add_def Let_def)

section \<open>Terminal records\<close>

lemma state_of_undead [simp]: "state_of (undead j q) k = (if k = j then None else state_of q k)"
  by (simp add: state_of_def undead_def)

lemma state_of_succeed [simp]:
  "state_of (succeed w j enq r q) k = (if k = j then Some ''SUCCEEDED'' else state_of q k)"
  by (simp add: state_of_def succeed_def Let_def)

lemma state_of_bury [simp]:
  "state_of (bury w j rs e a i q) k = (if k = j then Some ''DEAD'' else state_of q k)"
  by (simp add: state_of_def bury_def Let_def)

lemma dead_id_other [simp]:
  "k \<noteq> j \<Longrightarrow> dead_id (undead j q) k = dead_id q k"
  "k \<noteq> j \<Longrightarrow> dead_id (succeed w j enq r q) k = dead_id q k"
  "k \<noteq> j \<Longrightarrow> dead_id (bury w j rs e a i q) k = dead_id q k"
  by (simp_all add: dead_id_def undead_def succeed_def bury_def Let_def)

lemma dead_id_bury [simp]:
  "dead_id (bury w j rs e a i q) j = next_eid (dlast q) (qnow q)"
  by (simp add: dead_id_def bury_def Let_def)

lemma length_filter_neq:
  assumes "distinct (map fst xs)" and "map_of xs a = Some y"
  shows "Suc (length (filter (\<lambda>p. fst p \<noteq> a) xs)) = length xs"
  using assms
proof (induction xs)
  case (Cons x xs)
  show ?case
  proof (cases "fst x = a")
    case True
    then have "a \<notin> fst ` set xs" using Cons.prems(1) by auto
    then have "filter (\<lambda>p. fst p \<noteq> a) xs = xs" by (auto intro: filter_True)
    with True show ?thesis by simp
  next
    case False
    with Cons show ?thesis by (auto split: if_splits)
  qed
qed simp

lemma states_ops:
  "states_inv q \<Longrightarrow> states_inv (undead j q)" "states_inv q \<Longrightarrow> states_inv (succeed w j enq r q)"
  "states_inv q \<Longrightarrow> states_inv (bury w j rs e a i q)"
  by (auto simp: states_inv_def)

lemma results_undead: "results_inv q \<Longrightarrow> state_of q j = Some ''DEAD'' \<Longrightarrow> results_inv (undead j q)"
  by (auto simp: results_inv_def results_for_def undead_def state_of_def)

lemma results_for_succeed:
  "results_for (succeed w j enq r q) k =
   results_for q k @ (if k = j then [[(''job_id'', j), (''worker_id'', w), (''enqueued_at_ms'', enq),
      (''finished_at_ms'', str_nat (qnow q))]] else [])"
  by (auto simp: results_for_def succeed_def Let_def dict_get_Cons)

lemma results_succeed:
  "results_inv q \<Longrightarrow> state_of q j \<noteq> Some ''SUCCEEDED'' \<Longrightarrow> results_inv (succeed w j enq r q)"
  by (simp add: results_inv_def results_for_succeed)

lemma results_bury:
  assumes "results_inv q" and "state_of q j = None"
  shows "results_inv (bury w j rs e a i q)"
proof -
  have "results_for (bury w j rs e a i q) k = results_for q k" for k
    by (simp add: results_for_def bury_def Let_def)
  with assms show ?thesis by (simp add: results_inv_def)
qed

lemma effects_ops:
  "effects_inv (undead j q) = effects_inv q" "effects_inv (succeed w j enq r q) = effects_inv q"
  "effects_inv (bury w j rs e a i q) = effects_inv q"
  by (simp_all add: effects_inv_def undead_def succeed_def bury_def Let_def)

section \<open>The dead-letter queue\<close>

lemma dlq_invD:
  assumes "dlq_inv q" and "state_of q j = Some ''DEAD''"
  obtains fs where "map_of (dlq q) (dead_id q j) = Some fs" and "dlq_job fs = Some j"
  using assms unfolding dlq_inv_def by blast

lemma dlq_undead:
  assumes i: "dlq_inv q" and d: "state_of q j = Some ''DEAD''"
  shows "dlq_inv (undead j q)" and "Suc (length (dlq (undead j q))) = length (dlq q)"
proof -
  obtain fs where fs: "map_of (dlq q) (dead_id q j) = Some fs" "dlq_job fs = Some j"
    using dlq_invD [OF i d] .
  have u: "dlq (undead j q) = filter (\<lambda>p. fst p \<noteq> dead_id q j) (dlq q)" "dlast (undead j q) = dlast q"
    by (simp_all add: undead_def)
  show "Suc (length (dlq (undead j q))) = length (dlq q)"
    using i fs(1) unfolding u dlq_inv_def by (simp add: length_filter_neq)
  have "\<exists>fs. map_of (dlq (undead j q)) (dead_id (undead j q) k) = Some fs \<and> dlq_job fs = Some k"
    if "state_of (undead j q) k = Some ''DEAD''" for k
  proof -
    from that have k: "k \<noteq> j" "state_of q k = Some ''DEAD''" by (auto split: if_splits)
    from dlq_invD [OF i k(2)] obtain fs' where fs': "map_of (dlq q) (dead_id q k) = Some fs'" "dlq_job fs' = Some k" .
    with fs k(1) have "dead_id q k \<noteq> dead_id q j" by auto
    with fs' k(1) show ?thesis unfolding u by (simp add: map_of_filter_neq)
  qed
  moreover have "\<exists>k. dlq_job (snd e) = Some k \<and> state_of (undead j q) k = Some ''DEAD'' \<and> dead_id (undead j q) k = fst e"
    if "e \<in> set (dlq (undead j q))" for e
  proof -
    from that i obtain k where k: "dlq_job (snd e) = Some k" "state_of q k = Some ''DEAD''" "dead_id q k = fst e"
      "fst e \<noteq> dead_id q j" unfolding u dlq_inv_def by auto
    then have "k \<noteq> j" by auto
    with k show ?thesis by auto
  qed
  moreover have "distinct (map fst (dlq (undead j q)))" "sorted_wrt (<) (map fst (dlq (undead j q)))"
    using i unfolding u dlq_inv_def
    by (simp_all add: map_fst_filter [of "\<lambda>k. k \<noteq> dead_id q j"] sorted_wrt_filter)
  moreover have "\<forall>k \<in> fst ` set (dlq (undead j q)). k \<le> dlast (undead j q)" "dlq_ok (undead j q)"
    using i unfolding u dlq_inv_def dlq_ok_def by auto
  ultimately show "dlq_inv (undead j q)" unfolding dlq_inv_def by blast
qed

lemma dlq_succeed:
  assumes i: "dlq_inv q" and d: "state_of q j \<noteq> Some ''DEAD''"
  shows "dlq_inv (succeed w j enq r q)"
proof -
  let ?q = "succeed w j enq r q"
  have u: "dlq ?q = dlq q" "dlast ?q = dlast q" "dlq_ok ?q = dlq_ok q"
    by (simp_all add: succeed_def dlq_ok_def Let_def)
  have "\<exists>k. dlq_job (snd e) = Some k \<and> state_of ?q k = Some ''DEAD'' \<and> dead_id ?q k = fst e"
    if e: "e \<in> set (dlq ?q)" for e
  proof -
    from e i obtain k where k: "dlq_job (snd e) = Some k" "state_of q k = Some ''DEAD''" "dead_id q k = fst e"
      unfolding u dlq_inv_def by blast
    with d have "k \<noteq> j" by auto
    with k show ?thesis by auto
  qed
  moreover have "\<exists>fs. map_of (dlq ?q) (dead_id ?q k) = Some fs \<and> dlq_job fs = Some k"
    if k: "state_of ?q k = Some ''DEAD''" for k
    using dlq_invD [OF i, of k] k by (auto simp: u split: if_splits)
  ultimately show ?thesis using i u unfolding dlq_inv_def by auto
qed

lemma strip_fields_append [simp]: "strip_fields (xs @ ys) = strip_fields xs @ strip_fields ys"
  by (simp add: strip_fields_def)

lemma strip_dlq_meta [simp]: "strip_fields (dlq_meta w j rs e a i q) = []"
  by (simp add: strip_fields_def dlq_meta_def)

lemma dlq_job_meta [simp]: "dlq_job (fs @ dlq_meta w j rs e a i q) = Some j"
  by (simp add: dlq_job_def dlq_meta_def dict_get_Cons)

lemma holds_job_meta [simp]: "holds_job k (fs @ dlq_meta w j rs e a i q) = holds_job k fs"
  by (simp add: holds_job_def dlq_meta_def dict_get_Cons)

lemma dlq_of_bury:
  "map_of (ents q) i = Some fs \<Longrightarrow> dlq (bury w j rs e a i q) =
     dlq q @ [(next_eid (dlast q) (qnow q), fs @ dlq_meta w j rs e a i q)]"
  by (simp add: bury_def Let_def)

lemma dlq_bury:
  assumes i: "dlq_inv q" and s: "state_of q j = None" and ei: "entries_inv q" and fs: "map_of (ents q) i = Some fs"
  shows "dlq_inv (bury w j rs e a i q)"
proof -
  let ?q = "bury w j rs e a i q" and ?d = "next_eid (dlast q) (qnow q)"
  let ?fs = "fs @ dlq_meta w j rs e a i q"
  have u: "dlq ?q = dlq q @ [(?d, ?fs)]" "dlast ?q = ?d"
    using fs by (simp_all add: dlq_of_bury) (simp add: bury_def Let_def)
  have le: "\<forall>k \<in> fst ` set (dlq q). k \<le> dlast q" and dis: "distinct (map fst (dlq q))"
    using i by (simp_all add: dlq_inv_def)
  have new: "?d \<notin> fst ` set (dlq q)" using le next_eid_fresh by blast
  have lt: "k \<le> ?d" if "k \<le> dlast q" for k
    using that next_eid_gt by (metis order_le_less_trans order_less_imp_le)
  have "strip_fields fs \<noteq> []" using ei map_of_SomeD [OF fs] by (auto simp: entries_inv_def)
  with i have ok: "dlq_ok ?q" unfolding dlq_inv_def dlq_ok_def u by auto
  have "\<exists>fs. map_of (dlq ?q) (dead_id ?q k) = Some fs \<and> dlq_job fs = Some k"
    if k: "state_of ?q k = Some ''DEAD''" for k
  proof (cases "k = j")
    case True
    have "map_of (dlq ?q) ?d = Some ?fs" using new unfolding u by (simp add: map_of_append map_add_def map_of_eq_None_iff [THEN iffD2])
    with True show ?thesis by (intro exI [of _ ?fs]) simp
  next
    case False
    with k have "state_of q k = Some ''DEAD''" by simp
    from dlq_invD [OF i this] obtain fs' where f: "map_of (dlq q) (dead_id q k) = Some fs'" "dlq_job fs' = Some k" .
    then have "dead_id q k \<noteq> ?d" using new by (metis image_eqI fst_conv map_of_SomeD)
    with f False show ?thesis unfolding u by (simp add: map_of_append map_add_def)
  qed
  moreover have "\<exists>k. dlq_job (snd x) = Some k \<and> state_of ?q k = Some ''DEAD'' \<and> dead_id ?q k = fst x"
    if x: "x \<in> set (dlq ?q)" for x
  proof (cases "x = (?d, ?fs)")
    case True
    then show ?thesis by (intro exI [of _ j]) simp
  next
    case False
    with x i obtain k where k: "dlq_job (snd x) = Some k" "state_of q k = Some ''DEAD''" "dead_id q k = fst x"
      unfolding u dlq_inv_def by auto
    with s have "k \<noteq> j" by auto
    with k show ?thesis by auto
  qed
  moreover have "distinct (map fst (dlq ?q))" using dis new by (simp add: u)
  moreover have "sorted_wrt (<) (map fst (dlq ?q))"
  proof -
    have "\<forall>k \<in> set (map fst (dlq q)). k < ?d" using le next_eid_gt by (metis order_le_less_trans set_map)
    moreover have "sorted_wrt (<) (map fst (dlq q))" using i by (simp add: dlq_inv_def)
    ultimately show ?thesis unfolding u map_append list.map fst_conv sorted_wrt_snoc by blast
  qed
  moreover have "\<forall>k \<in> fst ` set (dlq ?q). k \<le> dlast ?q" using le lt by (auto simp: u)
  ultimately show ?thesis using ok unfolding dlq_inv_def by blast
qed

section \<open>Acceptance\<close>

lemma accountedI:
  "state_of q j \<noteq> None \<Longrightarrow> accounted dec q j"
  "e \<in> set (ents q) \<Longrightarrow> holds_job j (snd e) \<Longrightarrow> accounted dec q j"
  "m \<in> fst ` set (dlyd q) \<Longrightarrow> holds_job j (member_fields dec m) \<Longrightarrow> accounted dec q j"
  by (auto simp: accounted_def)

text \<open>The records survive, entries and delays may only go where the job is accounted for.\<close>

lemma accept_step:
  assumes "accept_inv dec acc q" and "acc \<subseteq> acc'"
    and new: "\<And>j. j \<in> acc' - acc \<Longrightarrow> accounted dec q' j"
    and st: "\<And>j. state_of q j \<noteq> None \<Longrightarrow> j \<in> acc \<Longrightarrow> accounted dec q' j"
    and en: "\<And>e j. e \<in> set (ents q) \<Longrightarrow> holds_job j (snd e) \<Longrightarrow> j \<in> acc \<Longrightarrow> accounted dec q' j"
    and dl: "\<And>m j. m \<in> fst ` set (dlyd q) \<Longrightarrow> holds_job j (member_fields dec m) \<Longrightarrow> j \<in> acc \<Longrightarrow> accounted dec q' j"
    and dq: "\<And>e j. e \<in> set (dlq q') \<Longrightarrow> real_id j \<Longrightarrow> dlq_job (snd e) = Some j \<Longrightarrow> holds_job j (snd e)"
    and im: "\<And>k j. idem q' k = Some j \<Longrightarrow> j \<in> acc'"
    and rl: "\<And>j. j \<in> acc' \<Longrightarrow> real_id j"
  shows "accept_inv dec acc' q'"
proof -
  have "accounted dec q' j" if "j \<in> acc'" for j
  proof (cases "j \<in> acc")
    case True
    with assms(1) have "accounted dec q j" by (simp add: accept_inv_def)
    with st en dl True show ?thesis unfolding accounted_def [of dec q] by blast
  next
    case False
    with that new show ?thesis by blast
  qed
  with dq im rl show ?thesis unfolding accept_inv_def by blast
qed

text \<open>
  Dropping an entry is safe when the job it holds is terminal or waits elsewhere; the rest
  of a transition (records, dead letters) is part of the state the drop starts from.
\<close>

lemma accept_drop:
  assumes "accept_inv dec acc q"
    and "\<And>fs j. map_of (ents q) i = Some fs \<Longrightarrow> holds_job j fs \<Longrightarrow> j \<in> acc \<Longrightarrow>
      state_of q j \<noteq> None \<or> (\<exists>m \<in> fst ` set (dlyd q). holds_job j (member_fields dec m))"
    and "distinct (map fst (ents q))"
  shows "accept_inv dec acc (q_drop i q)"
proof (rule accept_step [OF assms(1) subset_refl])
  fix e j
  assume e: "e \<in> set (ents q)" "holds_job j (snd e)" "j \<in> acc"
  show "accounted dec (q_drop i q) j"
  proof (cases "fst e = i")
    case True
    then have "map_of (ents q) i = Some (snd e)" using e(1) assms(3) by (metis map_of_is_SomeI prod.collapse)
    from assms(2) [OF this e(2,3)] show ?thesis by (simp add: accounted_def) (auto simp: q_drop_def)
  next
    case False
    with e show ?thesis by (intro accountedI(2) [of e]) (auto simp: q_drop_def)
  qed
next
  fix j
  assume "state_of q j \<noteq> None"
  then show "accounted dec (q_drop i q) j" by (intro accountedI(1)) simp
next
  fix m j
  assume "m \<in> fst ` set (dlyd q)" "holds_job j (member_fields dec m)"
  then show "accounted dec (q_drop i q) j" by (intro accountedI(3) [of m]) (auto simp: q_drop_def)
next
  fix e j
  assume "e \<in> set (dlq (q_drop i q))" "real_id j" "dlq_job (snd e) = Some j"
  with assms(1) show "holds_job j (snd e)" by (auto simp: accept_inv_def q_drop_def)
next
  fix k j
  assume "idem (q_drop i q) k = Some j"
  with assms(1) show "j \<in> acc" by (auto simp: accept_inv_def q_drop_def)
next
  fix j
  assume "j \<in> acc"
  with assms(1) show "real_id j" by (simp add: accept_inv_def)
qed simp

lemma accept_succeed: "accept_inv dec acc q \<Longrightarrow> accept_inv dec acc (succeed w j enq r q)"
  by (rule accept_step [OF _ subset_refl])
    (auto simp: accounted_def accept_inv_def succeed_def state_of_def Let_def)

lemma accept_bury:
  assumes "accept_inv dec acc q" and "map_of (ents q) i = Some fs" and "real_id j \<Longrightarrow> holds_job j fs"
  shows "accept_inv dec acc (bury w j rs e a i q)"
proof (rule accept_step [OF assms(1) subset_refl])
  fix x k
  assume "x \<in> set (dlq (bury w j rs e a i q))" "real_id k" "dlq_job (snd x) = Some k"
  with assms show "holds_job k (snd x)" by (auto simp: dlq_of_bury accept_inv_def)
qed (use assms(1) in \<open>auto simp: accounted_def accept_inv_def bury_def state_of_def Let_def\<close>)

section \<open>Consequences\<close>

lemma dlq_count:
  assumes i: "dlq_inv q"
  shows "length (filter (\<lambda>e. dlq_job (snd e) = Some j) (dlq q)) = (if state_of q j = Some ''DEAD'' then 1 else 0)"
proof -
  let ?P = "\<lambda>e. dlq_job (snd e) = Some j"
  have id: "state_of q j = Some ''DEAD'' \<and> fst e = dead_id q j" if "e \<in> set (dlq q)" "?P e" for e
    using i that by (auto simp: dlq_inv_def)
  show ?thesis
  proof (cases "state_of q j = Some ''DEAD''")
    case True
    then obtain fs where fs: "map_of (dlq q) (dead_id q j) = Some fs" "dlq_job fs = Some j"
      using dlq_invD [OF i] by blast
    have "?P e \<longleftrightarrow> fst e = dead_id q j" if e: "e \<in> set (dlq q)" for e
    proof
      assume "fst e = dead_id q j"
      then have "map_of (dlq q) (dead_id q j) = Some (snd e)"
        using e i by (metis dlq_inv_def map_of_is_SomeI prod.collapse)
      with fs show "?P e" by simp
    qed (use id e in blast)
    then have "filter ?P (dlq q) = filter (\<lambda>e. fst e = dead_id q j) (dlq q)"
      by (rule filter_cong [OF refl])
    moreover have "length (filter (\<lambda>e. fst e = dead_id q j) (dlq q)) + length (filter (\<lambda>e. fst e \<noteq> dead_id q j) (dlq q))
        = length (dlq q)" by (rule sum_length_filter_compl)
    moreover have "Suc (length (filter (\<lambda>e. fst e \<noteq> dead_id q j) (dlq q))) = length (dlq q)"
      using i length_filter_neq [OF _ fs(1)] by (simp add: dlq_inv_def)
    ultimately show ?thesis using True by simp
  next
    case False
    then have "filter ?P (dlq q) = []" using id by (auto simp: filter_empty_conv)
    with False show ?thesis by simp
  qed
qed

lemma delivery_covers:
  assumes "delivery_inv q" and "e \<in> set (ents q)"
  shows "fst e \<in> fst ` set (pend q) \<or> e \<in> set (fst (q_read w (length (ents q)) q))"
proof (cases "fst e \<le> g_last (grp q)")
  case True
  with assms have "fst e \<in> set (map fst (pend q))" by (simp add: delivery_inv_def window_def)
  then show ?thesis by simp
next
  case False
  with assms(2) have "e \<in> set (filter (\<lambda>p. g_last (grp q) < fst p) (ents q))" by simp
  then show ?thesis by (simp add: q_read_def read_group_def Let_def)
qed

end
