(* ===== verification/Queue_Steps.thy ===== *)
theory Queue_Steps
  imports Queue_Invariant
begin

text \<open>
  Every specified transition keeps the queue's invariant, whoever performs it and in
  whatever order: commits, failure reports, heartbeats, ledger calls, reads, reclaims,
  pruning, enqueues, requeues, the scheduler, the passage of time. The last part follows the
  entries a worker holds: an entry id is never reused, so what a task read is still what the
  entry holds, if the entry is still there.
\<close>

section \<open>Transitions keep the invariant\<close>

definition base_inv :: "(string \<Rightarrow> string list option) \<Rightarrow> settings \<Rightarrow> string set \<Rightarrow> nat \<Rightarrow> qstate \<Rightarrow> bool" where
  "base_inv dec S acc x q \<longleftrightarrow> delivery_inv q \<and> entries_inv q \<and> delayed_inv dec q \<and> states_inv q \<and>
     results_inv q \<and> effects_inv q \<and> dlq_inv q \<and> accept_inv dec acc q \<and> depth_inv S x q"

definition queue_inv :: "(string \<Rightarrow> string list option) \<Rightarrow> settings \<Rightarrow> string set \<Rightarrow> nat \<Rightarrow> qstate \<Rightarrow> bool" where
  "queue_inv dec S acc x q \<longleftrightarrow> base_inv dec S acc x q \<and> counts_inv q"

lemma base_count [simp]: "base_inv dec S acc x (q_count f n q) = base_inv dec S acc x q"
  by (simp add: base_inv_def)

lemma queue_count [simp]: "idle_counter f \<Longrightarrow> queue_inv dec S acc x (q_count f n q) = queue_inv dec S acc x q"
  by (simp add: queue_inv_def)

lemma queue_grp: "queue_inv dec S acc x q \<Longrightarrow> same_delivery q g \<Longrightarrow> queue_inv dec S acc x (q\<lparr>grp := g\<rparr>)"
  by (simp add: queue_inv_def base_inv_def delivery_grp)

lemma idle_counters [simp]:
  "idle_counter ''duplicates_suppressed''" "idle_counter ''lease_lost''" "idle_counter ''heartbeats''"
  "idle_counter ''timeouts''" "idle_counter ''reclaimed''" "idle_counter ''consumers_pruned''"
  "idle_counter ''effects_suppressed''" "idle_counter ''rejected''" "idle_counter ''blocked''"
  by (simp_all add: idle_counter_def)

lemma delivery_distinct: "delivery_inv q \<Longrightarrow> distinct (map fst (ents q))"
  by (simp add: delivery_inv_def window_def strict_sorted_iff)

lemma depth_drop: "depth_inv S x q \<Longrightarrow> depth_inv S x (q_drop i q)"
proof -
  assume "depth_inv S x q"
  moreover have "q_depth (q_drop i q) \<le> q_depth q" by (simp add: q_depth_def q_drop_def)
  ultimately show ?thesis by (simp add: depth_inv_def)
qed

text \<open>What an entry holds is what the transition settles.\<close>

definition settles :: "fields \<Rightarrow> string \<Rightarrow> bool" where
  "settles fs j \<longleftrightarrow> (real_id j \<longrightarrow> holds_job j fs) \<and> (\<forall>k. real_id k \<longrightarrow> holds_job k fs \<longrightarrow> k = j)"

definition entry_settles :: "eid \<Rightarrow> string \<Rightarrow> qstate \<Rightarrow> bool" where
  "entry_settles i j q \<longleftrightarrow> (\<forall>fs. map_of (ents q) i = Some fs \<longrightarrow> settles fs j)"

lemma queue_drop:
  assumes "queue_inv dec S acc x q" and "entry_settles i j q" and "state_of q j \<noteq> None"
  shows "queue_inv dec S acc x (q_drop i q)"
proof -
  have a: "accept_inv dec acc q" and d: "distinct (map fst (ents q))"
    using assms(1) delivery_distinct by (simp_all add: queue_inv_def base_inv_def)
  have "accept_inv dec acc (q_drop i q)"
  proof (rule accept_drop [OF a _ d])
    fix fs k
    assume fs: "map_of (ents q) i = Some fs" and k: "holds_job k fs" "k \<in> acc"
    from k a have "real_id k" by (simp add: accept_inv_def)
    with fs k assms(2) have "k = j" unfolding entry_settles_def settles_def by blast
    with assms(3) show "state_of q k \<noteq> None \<or> (\<exists>m \<in> fst ` set (dlyd q). holds_job k (member_fields dec m))"
      by simp
  qed
  with assms(1) show ?thesis
    by (simp add: queue_inv_def base_inv_def delivery_drop depth_drop)
qed

lemma accept_late:
  assumes "accept_inv dec acc q"
  shows "accept_inv dec acc (succeed w j enq r (undead j q))"
  by (rule accept_step [OF assms subset_refl])
    (use assms in \<open>auto simp: accounted_def accept_inv_def succeed_def undead_def state_of_def Let_def\<close>)

lemma succeed_frame [simp]:
  "delivery_inv (succeed w j enq r q) = delivery_inv q" "entries_inv (succeed w j enq r q) = entries_inv q"
  "delayed_inv dec (succeed w j enq r q) = delayed_inv dec q"
  "depth_inv S x (succeed w j enq r q) = depth_inv S x q"
  "delivery_inv (undead j q) = delivery_inv q" "entries_inv (undead j q) = entries_inv q"
  "delayed_inv dec (undead j q) = delayed_inv dec q" "depth_inv S x (undead j q) = depth_inv S x q"
  "delivery_inv (bury w j rs e a i q) = delivery_inv q" "entries_inv (bury w j rs e a i q) = entries_inv q"
  "delayed_inv dec (bury w j rs e a i q) = delayed_inv dec q"
  "depth_inv S x (bury w j rs e a i q) = depth_inv S x q"
  "entry_settles i j (succeed w j' enq r q) = entry_settles i j q"
  "entry_settles i j (undead j' q) = entry_settles i j q"
  "entry_settles i j (q_count f n q) = entry_settles i j q"
  "entry_settles i j (bury w j' rs e a i' q) = entry_settles i j q"
  by (simp_all add: inv_defs entry_settles_def succeed_def undead_def bury_def q_count_def Let_def)

lemma queue_succeed:
  assumes q: "queue_inv dec S acc x q" and s: "state_of q j \<noteq> Some ''SUCCEEDED''"
  defines "q1 \<equiv> (if state_of q j = Some ''DEAD'' then q_count ''late_successes'' 1 (undead j q) else q)"
  shows "queue_inv dec S acc x (q_count ''processed'' 1 (succeed w j enq r q1))"
proof (cases "state_of q j = Some ''DEAD''")
  case True
  then have q1: "q1 = q_count ''late_successes'' 1 (undead j q)" by (simp add: q1_def)
  have "succeed w j enq r q1 = q_count ''late_successes'' 1 (succeed w j enq r (undead j q))"
    by (simp add: q1 succeed_def q_count_def Let_def)
  moreover have "base_inv dec S acc x (succeed w j enq r (undead j q))"
    using q True
    by (auto simp: queue_inv_def base_inv_def effects_ops
        intro: states_ops results_succeed results_undead dlq_succeed dlq_undead accept_late)
  moreover have "counts_inv (q_count ''processed'' 1 (q_count ''late_successes'' 1 (succeed w j enq r (undead j q))))"
    using q True dlq_undead(2) [of q j]
    by (simp add: queue_inv_def base_inv_def counts_inv_def q_count_def succeed_def undead_def Let_def)
  ultimately show ?thesis by (simp add: queue_inv_def)
next
  case False
  then have q1: "q1 = q" by (simp add: q1_def)
  have "base_inv dec S acc x (succeed w j enq r q)"
    using q s False
    by (auto simp: queue_inv_def base_inv_def effects_ops
        intro: states_ops results_succeed dlq_succeed accept_succeed)
  moreover have "counts_inv (q_count ''processed'' 1 (succeed w j enq r q))"
    using q by (simp add: queue_inv_def counts_inv_def q_count_def succeed_def Let_def)
  ultimately show ?thesis by (simp add: queue_inv_def q1)
qed

lemma q_count_drop: "q_count f n (q_drop i q) = q_drop i (q_count f n q)"
  by (simp add: q_count_def q_drop_def)

lemma queue_commit:
  assumes "queue_inv dec S acc x q" and "entry_settles i j q"
  shows "queue_inv dec S acc x (snd (q_commit w i j enq r q))"
proof (cases "state_of q j = Some ''SUCCEEDED''")
  case True
  with assms show ?thesis by (simp add: q_commit_def queue_drop)
next
  case False
  from queue_succeed [OF assms(1) False] assms(2) show ?thesis
    by (auto simp: q_commit_def q_count_drop False Let_def intro!: queue_drop)
qed

lemma queue_timeout [simp]: "queue_inv dec S acc x (count_timeout b q) = queue_inv dec S acc x q"
  by (simp add: count_timeout_def)

text \<open>Failure reports: refused or redundant ones only count, an accepted one is the given step.\<close>

lemma queue_owned:
  assumes "queue_inv dec S acc x q" and "entry_settles i j q"
    and "owns q w i \<Longrightarrow> state_of q j = None \<Longrightarrow> queue_inv dec S acc x (f q)"
  shows "queue_inv dec S acc x (snd (q_owned w i j f q))"
  using assms by (simp add: q_owned_def queue_drop)

lemma owned_entry:
  assumes "queue_inv dec S acc x q" and "owns q w i"
  obtains fs where "map_of (ents q) i = Some fs"
proof -
  from assms(1) have "pel_ok q" by (simp add: queue_inv_def base_inv_def delivery_pel_ok)
  from pel_okD [OF this assms(2)] that show thesis by blast
qed

lemma queue_bury:
  assumes q: "queue_inv dec S acc x q" and es: "entry_settles i j q" and fs: "map_of (ents q) i = Some fs"
    and st: "state_of q j = None"
  shows "queue_inv dec S acc x (q_count ''dead'' 1 (bury w j rs e a i q))"
proof -
  from es fs have "real_id j \<Longrightarrow> holds_job j fs" unfolding entry_settles_def settles_def by blast
  moreover have inv: "accept_inv dec acc q" "states_inv q" "results_inv q" "dlq_inv q" "entries_inv q"
    using q by (simp_all add: queue_inv_def base_inv_def)
  ultimately have "accept_inv dec acc (bury w j rs e a i q)" by (intro accept_bury [OF _ fs])
  moreover have "dlq_inv (bury w j rs e a i q)" using dlq_bury [OF inv(4) st inv(5) fs] .
  ultimately have "base_inv dec S acc x (bury w j rs e a i q)"
    using q inv st by (simp add: queue_inv_def base_inv_def effects_ops states_ops results_bury)
  moreover have "counts_inv (q_count ''dead'' 1 (bury w j rs e a i q))"
    using q by (simp add: queue_inv_def counts_inv_def q_count_def bury_def Let_def)
  ultimately show ?thesis by (simp add: queue_inv_def)
qed

lemma queue_dead:
  assumes "queue_inv dec S acc x q" and "entry_settles i j q"
  shows "queue_inv dec S acc x (snd (q_dead w i j rs e a b q))"
  unfolding q_dead_def
proof (rule queue_owned [OF assms])
  assume "owns q w i" and st: "state_of q j = None"
  then obtain fs where "map_of (ents q) i = Some fs" using owned_entry assms(1) by blast
  from queue_bury [OF assms this st] assms(2)
  show "queue_inv dec S acc x (count_timeout b (q_count ''dead'' 1 (q_drop i (bury w j rs e a i q))))"
    by (auto simp: q_count_drop intro!: queue_drop)
qed

lemma zins_set: "set (zins m sc z) = insert (m, sc) {p \<in> set z. fst p \<noteq> m}"
  by (auto simp: zins_def set_insort_key)

lemma zins_ids: "fst ` set (zins m sc z) = insert m (fst ` set z)"
  by (auto simp: zins_set)

lemma zins_length: "length (zins m sc z) \<le> Suc (length z)"
  by (simp add: zins_def)

lemma distinct_insort_fst:
  "distinct (map fst z) \<Longrightarrow> fst p \<notin> fst ` set z \<Longrightarrow> distinct (map fst (insort_key f p z))"
  by (induction z) (auto simp: set_insort_key)

lemma zins_distinct: "distinct (map fst z) \<Longrightarrow> distinct (map fst (zins m sc z))"
  unfolding zins_def
  by (rule distinct_insort_fst) (auto simp: map_fst_filter [of "\<lambda>k. k \<noteq> m"])

definition codec :: "(string list \<Rightarrow> string) \<Rightarrow> (string \<Rightarrow> string list option) \<Rightarrow> bool" where
  "codec enc dec \<longleftrightarrow> (\<forall>xs. xs \<noteq> [] \<longrightarrow> dec (enc xs) = Some xs)"

lemma member_fields_enc [simp]:
  "codec enc dec \<Longrightarrow> ps \<noteq> [] \<Longrightarrow> member_fields dec (enc (flat_of ps)) = ps"
  by (simp add: member_fields_def codec_def)

lemma holds_job_bump [simp]: "holds_job j (bump_fields a fs) = holds_job j fs"
proof -
  have "map_of (map (\<lambda>(n, v). (n, if n = ''attempt'' then a else v)) xs) ''job_id'' = map_of xs ''job_id''" for xs
    by (induction xs) auto
  from this [of "rev fs"] show ?thesis by (simp add: holds_job_def dict_get_def bump_fields_def rev_map)
qed

lemma strip_bump_Nil [simp]: "strip_fields (bump_fields a fs) = [] \<longleftrightarrow> strip_fields fs = []"
  by (auto simp: strip_fields_def bump_fields_def filter_empty_conv)

lemma strip_fields_Nil: "strip_fields fs \<noteq> [] \<Longrightarrow> fs \<noteq> []"
  by (auto simp: strip_fields_def)

lemma delay_entry_at:
  "map_of (ents q) i = Some fs \<Longrightarrow> delay_entry enc i a d q =
     q\<lparr>dlyd := zins (enc (flat_of (bump_fields a fs))) (int (qnow q) + d) (dlyd q)\<rparr>"
  by (simp add: delay_entry_def)

lemma dlyd_frame [simp]:
  "delivery_inv (q\<lparr>dlyd := z\<rparr>) = delivery_inv q" "entries_inv (q\<lparr>dlyd := z\<rparr>) = entries_inv q"
  "states_inv (q\<lparr>dlyd := z\<rparr>) = states_inv q" "results_inv (q\<lparr>dlyd := z\<rparr>) = results_inv q"
  "effects_inv (q\<lparr>dlyd := z\<rparr>) = effects_inv q" "dlq_inv (q\<lparr>dlyd := z\<rparr>) = dlq_inv q"
  "state_of (q\<lparr>dlyd := z\<rparr>) j = state_of q j"
  by (auto simp: inv_defs state_of_def dead_id_def)

lemma queue_delay:
  assumes q: "queue_inv dec S acc x q" and fs: "map_of (ents q) i = Some fs" and c: "codec enc dec"
  shows "queue_inv dec S acc x (q_count ''retried'' 1 (q_drop i (delay_entry enc i a d q)))"
proof -
  let ?ps = "bump_fields a fs" and ?m = "enc (flat_of (bump_fields a fs))"
  let ?q = "q\<lparr>dlyd := zins ?m (int (qnow q) + d) (dlyd q)\<rparr>"
  have inv: "delivery_inv q" "entries_inv q" "delayed_inv dec q" "accept_inv dec acc q" "depth_inv S x q"
    using q by (simp_all add: queue_inv_def base_inv_def)
  have ne: "strip_fields ?ps \<noteq> []" using inv(2) map_of_SomeD [OF fs] by (auto simp: entries_inv_def)
  have dec: "dec ?m = Some (flat_of ?ps)" using c strip_fields_Nil [OF ne] by (simp add: codec_def)
  have dist: "distinct (map fst (ents q))" using inv(1) by (rule delivery_distinct)
  have "delayed_inv dec ?q"
  proof -
    have "\<exists>ps. strip_fields ps \<noteq> [] \<and> dec ?m = Some (flat_of ps)" using ne dec by blast
    with inv(3) show ?thesis by (simp add: delayed_inv_def zins_ids zins_distinct)
  qed
  moreover have "accept_inv dec acc ?q"
    by (rule accept_step [OF inv(4) subset_refl])
      (use inv(4) in \<open>auto simp: accounted_def accept_inv_def state_of_def zins_ids\<close>)
  then have "accept_inv dec acc (q_drop i ?q)"
  proof (rule accept_drop)
    fix fs' j
    assume "map_of (ents ?q) i = Some fs'" and h: "holds_job j fs'"
    with fs have "holds_job j (member_fields dec ?m)" using strip_fields_Nil [OF ne] c by simp
    then show "state_of ?q j \<noteq> None \<or> (\<exists>m \<in> fst ` set (dlyd ?q). holds_job j (member_fields dec m))"
      by (auto simp: zins_ids)
  qed (use dist in simp)
  moreover have "Suc (length (filter (\<lambda>p. fst p \<noteq> i) (ents q))) = length (ents q)"
    using length_filter_neq [OF dist fs] .
  then have "depth_inv S x (q_drop i ?q)"
    using inv(5) zins_length [of ?m "int (qnow q) + d" "dlyd q"]
    by (simp add: depth_inv_def q_depth_def q_drop_def)
  moreover have "counts_inv (q_count ''retried'' 1 ?q)"
    using q zins_length [of ?m "int (qnow q) + d" "dlyd q"]
    by (simp add: queue_inv_def counts_inv_def q_count_def)
  ultimately have "base_inv dec S acc x (q_drop i ?q)" "counts_inv (q_count ''retried'' 1 (q_drop i ?q))"
    using q inv by (simp_all add: queue_inv_def base_inv_def delivery_drop q_count_drop)
  then show ?thesis unfolding delay_entry_at [OF fs] queue_inv_def by simp
qed

lemma queue_retry:
  assumes "queue_inv dec S acc x q" and "entry_settles i j q" and "codec enc dec"
  shows "queue_inv dec S acc x (snd (q_retry enc w i j a d b q))"
  unfolding q_retry_def
proof (rule queue_owned [OF assms(1,2)])
  assume "owns q w i"
  then obtain fs where "map_of (ents q) i = Some fs" using owned_entry assms(1) by blast
  from queue_delay [OF assms(1) this assms(3)]
  show "queue_inv dec S acc x (count_timeout b (q_count ''retried'' 1 (q_drop i (delay_entry enc i a d q))))"
    by simp
qed

lemma queue_heartbeat:
  assumes "queue_inv dec S acc x q"
  shows "queue_inv dec S acc x (snd (q_heartbeat w i q))"
proof -
  have "delivery_inv q" using assms by (simp add: queue_inv_def base_inv_def)
  with assms show ?thesis by (simp add: q_heartbeat_def queue_grp same_delivery_claim)
qed

lemma queue_ledger:
  assumes "queue_inv dec S acc x q"
  shows "queue_inv dec S acc x (snd (q_ledger k fs q))"
proof (cases "led q k")
  case True
  with assms show ?thesis by (simp add: q_ledger_def)
next
  case False
  let ?q = "q\<lparr>led := (led q)(k := True), efflog := efflog q @ [(''key'', k) # fs]\<rparr>"
  have "delivery_inv ?q = delivery_inv q" "entries_inv ?q = entries_inv q" "delayed_inv dec ?q = delayed_inv dec q"
    "states_inv ?q = states_inv q" "results_inv ?q = results_inv q" "dlq_inv ?q = dlq_inv q"
    "accept_inv dec acc ?q = accept_inv dec acc q" "depth_inv S x ?q = depth_inv S x q"
    by (auto simp: inv_defs state_of_def dead_id_def)
  moreover have "effects_inv ?q"
    using assms False by (auto simp: queue_inv_def base_inv_def effects_inv_def effect_key_of_def)
  moreover have "counts_inv (q_count ''effects_applied'' 1 ?q)"
    using assms by (simp add: queue_inv_def counts_inv_def q_count_def)
  ultimately show ?thesis using assms False by (simp add: q_ledger_def queue_inv_def base_inv_def)
qed

lemma queue_prune:
  assumes "queue_inv dec S acc x q"
  shows "queue_inv dec S acc x (snd (q_prune mi w q))"
proof -
  have sd: "same_delivery q (grp (snd (q_prune mi w q)))"
    using assms by (simp add: queue_inv_def base_inv_def same_delivery_prune)
  have "snd (q_prune mi w q) = q\<lparr>grp := grp (snd (q_prune mi w q))\<rparr> \<or>
      (\<exists>k. snd (q_prune mi w q) = q_count ''consumers_pruned'' k (q\<lparr>grp := grp (snd (q_prune mi w q))\<rparr>))"
    by (auto simp: q_prune_def q_count_def Let_def)
  then show ?thesis
  proof (elim disjE exE)
    assume e: "snd (q_prune mi w q) = q\<lparr>grp := grp (snd (q_prune mi w q))\<rparr>"
    show ?thesis by (subst e) (rule queue_grp [OF assms sd])
  next
    fix k
    assume e: "snd (q_prune mi w q) = q_count ''consumers_pruned'' k (q\<lparr>grp := grp (snd (q_prune mi w q))\<rparr>)"
    show ?thesis by (subst e) (simp add: queue_grp [OF assms sd])
  qed
qed

lemma queue_reclaim:
  assumes "queue_inv dec S acc x q"
  shows "queue_inv dec S acc x (snd (q_reclaim S w cur n slots q))"
proof -
  let ?q = "snd (q_reclaim S w cur n slots q)"
  have d: "delivery_inv q" using assms by (simp add: queue_inv_def base_inv_def)
  obtain g where g: "?q = q\<lparr>grp := g\<rparr> \<or> (\<exists>k. ?q = q_count ''reclaimed'' k (q\<lparr>grp := g\<rparr>))"
    using q_reclaim_frame(1) [OF d] by blast
  then have "grp ?q = g" by (auto simp: q_count_def)
  with q_reclaim_frame(2) [OF d] have "same_delivery q g" by metis
  then have "queue_inv dec S acc x (q\<lparr>grp := g\<rparr>)" by (rule queue_grp [OF assms])
  with g show ?thesis by auto
qed

lemma queue_read:
  assumes "queue_inv dec S acc x q"
  shows "queue_inv dec S acc x (snd (q_read w n q))"
proof -
  have "delivery_inv (snd (q_read w n q))"
    using assms by (simp add: queue_inv_def base_inv_def delivery_read)
  then show ?thesis using assms by (simp add: queue_inv_def base_inv_def q_read_def)
qed

text \<open>Adding an entry: the depth grows by one, and the job it holds may become accepted.\<close>

lemma accept_add:
  assumes "accept_inv dec acc q" and "\<And>j. j \<in> acc' - acc \<Longrightarrow> holds_job j ps" and "acc \<subseteq> acc'"
    and "\<And>j. j \<in> acc' \<Longrightarrow> real_id j"
  shows "accept_inv dec acc' (q_add ps q)"
  by (rule accept_step [OF assms(1,3)])
    (use assms in \<open>auto simp: accounted_def accept_inv_def q_add_def state_of_def Let_def\<close>)

lemma depth_add: "depth_inv S x q \<Longrightarrow> depth_inv S (Suc x) (q_add ps q)"
  by (simp add: depth_inv_def q_depth_def q_add_def Let_def)

lemma queue_add:
  assumes "queue_inv dec S acc x q" and "strip_fields ps \<noteq> []"
  shows "queue_inv dec S acc (Suc x) (q_add ps q)"
proof -
  have a: "accept_inv dec acc q" using assms(1) by (simp add: queue_inv_def base_inv_def)
  have "accept_inv dec acc (q_add ps q)" by (rule accept_add [OF a]) (use a in \<open>auto simp: accept_inv_def\<close>)
  with assms show ?thesis by (simp add: queue_inv_def base_inv_def delivery_add depth_add)
qed

lemma idem_fullf_frame [simp]:
  "delivery_inv (q\<lparr>fullf := b\<rparr>) = delivery_inv q" "entries_inv (q\<lparr>fullf := b\<rparr>) = entries_inv q"
  "delayed_inv dec (q\<lparr>fullf := b\<rparr>) = delayed_inv dec q" "states_inv (q\<lparr>fullf := b\<rparr>) = states_inv q"
  "results_inv (q\<lparr>fullf := b\<rparr>) = results_inv q" "effects_inv (q\<lparr>fullf := b\<rparr>) = effects_inv q"
  "dlq_inv (q\<lparr>fullf := b\<rparr>) = dlq_inv q" "accept_inv dec acc (q\<lparr>fullf := b\<rparr>) = accept_inv dec acc q"
  "depth_inv S x (q\<lparr>fullf := b\<rparr>) = depth_inv S x q" "counts_inv (q\<lparr>fullf := b\<rparr>) = counts_inv q"
  "delivery_inv (q\<lparr>idem := m\<rparr>) = delivery_inv q" "entries_inv (q\<lparr>idem := m\<rparr>) = entries_inv q"
  "delayed_inv dec (q\<lparr>idem := m\<rparr>) = delayed_inv dec q" "states_inv (q\<lparr>idem := m\<rparr>) = states_inv q"
  "results_inv (q\<lparr>idem := m\<rparr>) = results_inv q" "effects_inv (q\<lparr>idem := m\<rparr>) = effects_inv q"
  "dlq_inv (q\<lparr>idem := m\<rparr>) = dlq_inv q" "depth_inv S x (q\<lparr>idem := m\<rparr>) = depth_inv S x q"
  "counts_inv (q\<lparr>idem := m\<rparr>) = counts_inv q" "q_depth (q\<lparr>fullf := b\<rparr>) = q_depth q"
  "q_depth (q\<lparr>idem := m\<rparr>) = q_depth q"
  by (auto simp: inv_defs state_of_def dead_id_def)

lemma queue_fullf [simp]: "queue_inv dec S acc x (q\<lparr>fullf := b\<rparr>) = queue_inv dec S acc x q"
  by (simp add: queue_inv_def base_inv_def)

lemma queue_tick:
  assumes "queue_inv dec S acc x q" and "m \<subseteq>\<^sub>m idem q"
  shows "queue_inv dec S acc x (q\<lparr>idem := m, qnow := n\<rparr>)"
proof -
  let ?q = "q\<lparr>idem := m, qnow := n\<rparr>"
  have "delivery_inv ?q = delivery_inv q" "entries_inv ?q = entries_inv q" "delayed_inv dec ?q = delayed_inv dec q"
    "states_inv ?q = states_inv q" "results_inv ?q = results_inv q" "dlq_inv ?q = dlq_inv q"
    "effects_inv ?q = effects_inv q" "depth_inv S x ?q = depth_inv S x q" "counts_inv ?q = counts_inv q"
    by (auto simp: inv_defs state_of_def dead_id_def)
  moreover have "\<forall>k j. m k = Some j \<longrightarrow> j \<in> acc"
    using assms by (metis accept_inv_def base_inv_def domI map_le_def queue_inv_def)
  then have "accept_inv dec acc ?q"
    using assms(1) by (simp add: queue_inv_def base_inv_def accept_inv_def accounted_def state_of_def)
  ultimately show ?thesis using assms(1) by (simp add: queue_inv_def base_inv_def)
qed

section \<open>Enqueue, requeue, schedule\<close>

lemma accept_idem:
  "accept_inv dec acc q \<Longrightarrow> accept_inv dec (insert j acc) q \<Longrightarrow> accept_inv dec (insert j acc) (q\<lparr>idem := (idem q)(k \<mapsto> j)\<rparr>)"
  by (auto simp: accept_inv_def accounted_def state_of_def)

lemma queue_admit:
  assumes q: "queue_inv dec S acc x q" and ps: "strip_fields ps \<noteq> []" "holds_job j ps" "real_id j"
    and d: "int (q_depth q) < high_watermark S"
  shows "queue_inv dec S (insert j acc) x (q_add ps (case idk of None \<Rightarrow> q | Some k \<Rightarrow> q\<lparr>idem := (idem q)(k \<mapsto> j)\<rparr>))"
proof -
  let ?q = "case idk of None \<Rightarrow> q | Some k \<Rightarrow> q\<lparr>idem := (idem q)(k \<mapsto> j)\<rparr>"
  have comm: "q_add ps ?q = (case idk of None \<Rightarrow> q_add ps q | Some k \<Rightarrow> (q_add ps q)\<lparr>idem := (idem (q_add ps q))(k \<mapsto> j)\<rparr>)"
    by (simp add: q_add_def Let_def split: option.split)
  have a: "accept_inv dec acc q" using q by (simp add: queue_inv_def base_inv_def)
  then have rl: "\<And>j. j \<in> acc \<Longrightarrow> real_id j" by (simp add: accept_inv_def)
  have "accept_inv dec acc (q_add ps q)" "accept_inv dec (insert j acc) (q_add ps q)"
    using ps rl by (auto intro: accept_add [OF a])
  then have "accept_inv dec (insert j acc) (q_add ps ?q)"
    unfolding comm by (auto split: option.split intro: accept_idem)
  moreover have "depth_inv S x (q_add ps ?q)"
    using d by (simp add: depth_inv_def q_depth_def q_add_def Let_def split: option.split)
  moreover have "delivery_inv (q_add ps ?q) \<and> entries_inv (q_add ps ?q) \<and> counts_inv (q_add ps ?q) \<and>
      delayed_inv dec (q_add ps ?q) \<and> states_inv (q_add ps ?q) \<and> results_inv (q_add ps ?q) \<and>
      effects_inv (q_add ps ?q) \<and> dlq_inv (q_add ps ?q)"
    using q ps(1) by (simp add: queue_inv_def base_inv_def delivery_add split: option.split)
  ultimately show ?thesis by (simp add: queue_inv_def base_inv_def)
qed

text \<open>The reply of an enqueue says which job is accepted: its own, the original, or none.\<close>

definition admitted :: "string \<times> int \<times> int \<Rightarrow> string set" where
  "admitted r = (if fst (snd r) = - 1 then {} else {fst r})"

lemma not_full_depth:
  "low_watermark S < high_watermark S \<Longrightarrow> \<not> now_full S q \<Longrightarrow> int (q_depth q) < high_watermark S"
  by (auto simp: now_full_def split: if_splits)

lemma queue_enqueue:
  assumes q: "queue_inv dec S acc x q" and w: "low_watermark S < high_watermark S"
    and fs: "strip_fields fs \<noteq> []" "holds_job j fs" "real_id j"
    and c: "idle_counter count_as"
  shows "queue_inv dec S (acc \<union> admitted (fst (q_enqueue S idk j count_as fs q))) x
    (snd (q_enqueue S idk j count_as fs q))"
proof (cases "case idk of None \<Rightarrow> None | Some k \<Rightarrow> idem q k")
  case (Some orig)
  then have "orig \<in> acc" using q
    by (auto simp: queue_inv_def base_inv_def accept_inv_def split: option.splits)
  with Some q show ?thesis by (simp add: q_enqueue_def admitted_def insert_absorb)
next
  case None
  show ?thesis
  proof (cases "now_full S q")
    case True
    with None q c show ?thesis by (simp add: q_enqueue_def admitted_def Let_def)
  next
    case False
    let ?q = "q\<lparr>fullf := now_full S q\<rparr>" and ?ps = "fs @ [(''enqueued_at_ms'', str_nat (qnow q))]"
    have "queue_inv dec S acc x ?q" using q by simp
    moreover have "strip_fields ?ps \<noteq> []" "holds_job j ?ps"
      using fs by (simp_all add: holds_job_def)
    moreover have "int (q_depth ?q) < high_watermark S" using not_full_depth [OF w False] by simp
    ultimately have "queue_inv dec S (insert j acc) x
        (q_add ?ps (case idk of None \<Rightarrow> ?q | Some k \<Rightarrow> ?q\<lparr>idem := (idem ?q)(k \<mapsto> j)\<rparr>))"
      using fs(3) by (intro queue_admit)
    with None show ?thesis unfolding q_enqueue_def admitted_def Let_def by (simp only: False) simp
  qed
qed

lemma holds_job_strip [simp]: "holds_job j (strip_fields fs) = holds_job j fs"
proof -
  have "map_of (map (\<lambda>(n, v). (n, if n = ''attempt'' then ''0'' else v))
      (filter (\<lambda>p. take 4 (fst p) \<noteq> ''dlq_'') xs)) ''job_id'' = map_of xs ''job_id''" for xs
    by (induction xs) auto
  from this [of "rev fs"] show ?thesis
    by (simp add: holds_job_def dict_get_def strip_fields_def rev_map rev_filter)
qed

lemma strip_fields_none [simp]: "strip_fields (strip_fields fs) = [] \<longleftrightarrow> strip_fields fs = []"
  by (auto simp: strip_fields_def filter_empty_conv)

lemma undead_add: "undead j (q_add ps q) = q_add ps (undead j q)"
  by (simp add: undead_def q_add_def dead_id_def Let_def)

lemma accept_requeue:
  assumes "accept_inv dec acc q" and "map_of (dlq q) (dead_id q j) = Some fs" and "dlq_job fs = Some j"
  shows "accept_inv dec acc (q_add (strip_fields fs) (undead j q))"
proof -
  have h: "holds_job j fs" if "j \<in> acc"
    using assms that map_of_SomeD [OF assms(2)] by (force simp: accept_inv_def)
  show ?thesis
  proof (rule accept_step [OF assms(1) subset_refl])
    fix k
    assume k: "state_of q k \<noteq> None" "k \<in> acc"
    show "accounted dec (q_add (strip_fields fs) (undead j q)) k"
    proof (cases "k = j")
      case True
      with k h show ?thesis
        by (intro accountedI(2) [of "(next_eid (slast q) (qnow q), strip_fields fs)"])
          (auto simp: q_add_def undead_def Let_def)
    next
      case False
      with k show ?thesis by (intro accountedI(1)) simp
    qed
  next
    fix k
    assume "k \<in> acc"
    with assms(1) show "real_id k" by (simp add: accept_inv_def)
  qed (use assms(1) in \<open>auto simp: accounted_def accept_inv_def q_add_def undead_def Let_def\<close>)
qed

lemma queue_requeue:
  assumes q: "queue_inv dec S acc x q"
  shows "queue_inv dec S acc (x + (if fst (q_requeue j q) then 1 else 0)) (snd (q_requeue j q))"
proof (cases "state_of q j = Some ''DEAD''")
  case True
  have inv: "dlq_inv q" "accept_inv dec acc q" "results_inv q"
    using q by (simp_all add: queue_inv_def base_inv_def)
  from inv(1) have ok: "dlq_ok q" by (simp add: dlq_inv_def)
  obtain fs where fs: "map_of (dlq q) (dead_id q j) = Some fs" "dlq_job fs = Some j"
    using dlq_invD [OF inv(1) True] .
  have ne: "strip_fields fs \<noteq> []" using ok map_of_SomeD [OF fs(1)] by (auto simp: dlq_ok_def)
  let ?q = "q_add (strip_fields fs) (undead j q)"
  have "base_inv dec S acc (Suc x) ?q"
    using q ne accept_requeue [OF inv(2) fs] dlq_undead(1) [OF inv(1) True] results_undead [OF inv(3) True]
    by (simp add: queue_inv_def base_inv_def delivery_add depth_add effects_ops states_ops)
  moreover have "counts_inv (q_count ''requeued'' 1 ?q)"
    using q dlq_undead(2) [OF inv(1) True]
    by (simp add: queue_inv_def counts_inv_def q_count_def q_add_def undead_def Let_def)
  ultimately show ?thesis using True fs(1) by (simp add: q_requeue_def undead_add queue_inv_def)
next
  case False
  with q show ?thesis by (simp add: q_requeue_def)
qed

lemma delayed_member:
  assumes "delayed_inv dec q" and "m \<in> fst ` set (dlyd q)"
  shows "strip_fields (member_fields dec m) \<noteq> []"
  using assms by (force simp: delayed_inv_def member_fields_def)

lemma base_move:
  assumes b: "base_inv dec S acc x q" and m: "m \<in> fst ` set (dlyd q)"
  shows "base_inv dec S acc x (q_move dec m q)" and "Suc (length (dlyd (q_move dec m q))) = length (dlyd q)"
proof -
  let ?q = "q\<lparr>dlyd := filter (\<lambda>p. fst p \<noteq> m) (dlyd q)\<rparr>" and ?ps = "member_fields dec m"
  have inv: "delayed_inv dec q" "accept_inv dec acc q" "depth_inv S x q"
    using b by (simp_all add: base_inv_def)
  obtain y where y: "map_of (dlyd q) m = Some y" using m by (metis map_of_eq_None_iff not_None_eq)
  have len: "Suc (length (filter (\<lambda>p. fst p \<noteq> m) (dlyd q))) = length (dlyd q)"
    using inv(1) length_filter_neq [OF _ y] by (simp add: delayed_inv_def)
  then show "Suc (length (dlyd (q_move dec m q))) = length (dlyd q)"
    by (simp add: q_move_def q_add_def Let_def)
  have "delayed_inv dec ?q"
    using inv(1) by (auto simp: delayed_inv_def map_fst_filter [of "\<lambda>k. k \<noteq> m"])
  moreover have "accept_inv dec acc (q_add ?ps ?q)"
  proof (rule accept_step [OF inv(2) subset_refl])
    fix m' j
    assume m': "m' \<in> fst ` set (dlyd q)" "holds_job j (member_fields dec m')"
    show "accounted dec (q_add ?ps ?q) j"
    proof (cases "m' = m")
      case True
      with m' show ?thesis
        by (intro accountedI(2) [of "(next_eid (slast q) (qnow q), ?ps)"]) (auto simp: q_add_def Let_def)
    next
      case False
      with m' show ?thesis by (intro accountedI(3) [of m']) (auto simp: q_add_def Let_def)
    qed
  next
    fix k
    assume "k \<in> acc"
    with inv(2) show "real_id k" by (simp add: accept_inv_def)
  qed (use inv(2) in \<open>auto simp: accounted_def accept_inv_def q_add_def state_of_def Let_def\<close>)
  moreover have "depth_inv S x (q_add ?ps ?q)"
    using inv(3) len by (simp add: depth_inv_def q_depth_def q_add_def Let_def)
  ultimately show "base_inv dec S acc x (q_move dec m q)"
    using b delayed_member [OF inv(1) m] by (simp add: base_inv_def q_move_def delivery_add)
qed

lemma moves_frame:
  "cnt (fold (q_move dec) ms q) = cnt q \<and> reslog (fold (q_move dec) ms q) = reslog q \<and>
   efflog (fold (q_move dec) ms q) = efflog q \<and> dlq (fold (q_move dec) ms q) = dlq q"
  by (induction ms arbitrary: q) (simp_all add: q_move_def q_add_def Let_def)

lemma base_moves:
  assumes "base_inv dec S acc x q" and "distinct ms" and "set ms \<subseteq> fst ` set (dlyd q)"
  shows "base_inv dec S acc x (fold (q_move dec) ms q) \<and>
    length (dlyd (fold (q_move dec) ms q)) + length ms = length (dlyd q)"
  using assms
proof (induction ms arbitrary: q)
  case (Cons m ms)
  let ?q = "q_move dec m q"
  have "fst ` set (dlyd ?q) = fst ` set (dlyd q) - {m}" by (auto simp: q_move_def q_add_def Let_def)
  with Cons.prems have "set ms \<subseteq> fst ` set (dlyd ?q)" "m \<in> fst ` set (dlyd q)" "distinct ms" by auto
  then show ?case
    using Cons.IH [of ?q] base_move [OF Cons.prems(1), of m] by simp
qed simp

lemma queue_schedule:
  assumes q: "queue_inv dec S acc x q"
  shows "queue_inv dec S acc x (snd (q_schedule dec n q))"
proof -
  let ?due = "due_members n q"
  have sub: "set ?due \<subseteq> fst ` set (dlyd q)" by (fastforce simp: due_members_def dest: in_set_takeD)
  have "distinct (map fst (filter (\<lambda>p. snd p \<le> int (qnow q)) (dlyd q)))"
    using q by (simp add: queue_inv_def base_inv_def delayed_inv_def distinct_map_filter)
  then have "distinct ?due" by (simp add: due_members_def distinct_take)
  with q sub have m: "base_inv dec S acc x (fold (q_move dec) ?due q)"
    "length (dlyd (fold (q_move dec) ?due q)) + length ?due = length (dlyd q)"
    using base_moves by (auto simp: queue_inv_def)
  have "counts_inv (q_count ''scheduled'' (int (length ?due)) (fold (q_move dec) ?due q))"
    using q m(2) by (simp add: queue_inv_def counts_inv_def q_count_def moves_frame)
  moreover have "counts_inv (fold (q_move dec) ?due q)" if "?due = []"
    using q that by (simp add: queue_inv_def)
  ultimately show ?thesis using m(1) by (auto simp: q_schedule_def queue_inv_def Let_def)
qed

section \<open>What a task settles\<close>

lemma settles_job: "from_fields fs = Inr j \<Longrightarrow> settles fs (job_id j)"
  by (auto simp: settles_def holds_job_def dest: from_fields_job_id)

lemma settles_entry: "settles fs (entry_job_id i fs)"
  by (auto simp: settles_def holds_job_def entry_job_id_def real_id_def split: option.split)

definition task_ok :: "qstate \<Rightarrow> eid \<Rightarrow> fields \<Rightarrow> bool" where
  "task_ok q i fs \<longleftrightarrow> i \<le> slast q \<and> (\<forall>fs'. map_of (ents q) i = Some fs' \<longrightarrow> fs' = fs)"

lemma task_settles: "task_ok q i fs \<Longrightarrow> settles fs j \<Longrightarrow> entry_settles i j q"
  by (auto simp: task_ok_def entry_settles_def)

lemma queue_process:
  assumes q: "queue_inv dec S acc x q" and t: "task_ok q i fs" and c: "codec enc dec"
  shows "queue_inv dec S acc x (snd (q_process enc S reg xt w u i fs n he q))"
proof (cases "triage S reg xt i fs n")
  case (Bury jid reason error attempts)
  have "settles fs jid"
    using Bury by (auto simp: triage_def settles_entry settles_job split: sum.splits if_splits option.splits)
  from queue_dead [OF q task_settles [OF t this]] Bury show ?thesis by (simp add: q_process_def Let_def)
next
  case (Run j spec)
  then have "from_fields fs = Inr j" by (auto simp: triage_def split: sum.splits if_splits option.splits)
  then have es: "entry_settles i (job_id j) q" using task_settles [OF t] settles_job by blast
  note steps = queue_commit [OF q es] queue_dead [OF q es] queue_retry [OF q es c]
  show ?thesis using q Run
    by (cases "full_jitter_delay (attempt j) (job_backoff_base S) (job_backoff_cap S) u")
      (simp_all add: q_process_def steps Let_def split: handler_end.split)
qed

section \<open>Entry ids are not reused\<close>

definition grows :: "qstate \<Rightarrow> qstate \<Rightarrow> bool" where
  "grows q q' \<longleftrightarrow> slast q \<le> slast q' \<and>
     (\<forall>i fs. i \<le> slast q \<longrightarrow> map_of (ents q') i = Some fs \<longrightarrow> map_of (ents q) i = Some fs)"

lemma grows_task: "grows q q' \<Longrightarrow> task_ok q i fs \<Longrightarrow> task_ok q' i fs"
  unfolding grows_def task_ok_def by (metis order_trans)

lemma grows_same: "ents q' = ents q \<Longrightarrow> slast q' = slast q \<Longrightarrow> grows q q'"
  by (simp add: grows_def)

lemma grows_trans: "grows q q' \<Longrightarrow> grows q' q'' \<Longrightarrow> grows q q''"
  unfolding grows_def by (metis order_trans)

lemma grows_drop: "grows q (q_drop i q)"
  by (simp add: grows_def q_drop_def map_of_filter_neq)

lemma grows_add: "grows q (q_add ps q)"
  unfolding grows_def
proof (intro conjI allI impI)
  let ?i = "next_eid (slast q) (qnow q)"
  have "slast (q_add ps q) = ?i" by (simp add: q_add_def Let_def)
  then show "slast q \<le> slast (q_add ps q)" using next_eid_gt less_imp_le by metis
  fix i fs
  assume i: "i \<le> slast q" and m: "map_of (ents (q_add ps q)) i = Some fs"
  have "i \<noteq> ?i" using next_eid_fresh [OF i] .
  moreover have "ents (q_add ps q) = ents q @ [(?i, ps)]" by (simp add: q_add_def Let_def)
  ultimately show "map_of (ents q) i = Some fs"
    using m by (cases "map_of (ents q) i") (simp_all add: map_of_append map_add_def)
qed

lemma grows_count: "grows q q' \<Longrightarrow> grows q (q_count f n q')"
  by (simp add: grows_def q_count_def)

lemma grows_timeout: "grows q q' \<Longrightarrow> grows q (count_timeout b q')"
  by (simp add: count_timeout_def grows_count)

lemma grows_via: "grows q q' \<Longrightarrow> ents q0 = ents q \<Longrightarrow> slast q0 = slast q \<Longrightarrow> grows q0 q'"
  by (simp add: grows_def)

lemma grows_commit: "grows q (snd (q_commit w i j enq r q))"
proof -
  have "grows q (q_drop i (succeed w j enq r q'))" if "ents q' = ents q" "slast q' = slast q" for q'
    by (rule grows_via [OF grows_drop]) (simp_all add: succeed_def that Let_def)
  moreover have "ents (q_count f n (undead j q)) = ents q" "slast (q_count f n (undead j q)) = slast q" for f n
    by (simp_all add: undead_def q_count_def)
  ultimately show ?thesis by (simp add: q_commit_def grows_count grows_drop Let_def)
qed

lemma grows_owned:
  assumes "grows q (f q)"
  shows "grows q (snd (q_owned w i j f q))"
  using assms by (auto simp: q_owned_def intro: grows_count grows_drop grows_same)

lemma grows_dead: "grows q (snd (q_dead w i j rs e a b q))"
proof -
  have "grows q (q_drop i (bury w j rs e a i q))"
    by (rule grows_via [OF grows_drop]) (simp_all add: bury_def Let_def)
  then show ?thesis unfolding q_dead_def by (intro grows_owned grows_timeout grows_count)
qed

lemma grows_retry: "grows q (snd (q_retry enc w i j a d b q))"
proof -
  have "grows q (q_drop i (delay_entry enc i a d q))"
    by (rule grows_via [OF grows_drop]) (simp_all add: delay_entry_def)
  then show ?thesis unfolding q_retry_def by (intro grows_owned grows_timeout grows_count)
qed

lemma grows_process: "grows q (snd (q_process enc S reg xt w u i fs n he q))"
  by (cases "triage S reg xt i fs n"; cases he)
    (auto simp: q_process_def Let_def grows_commit grows_dead grows_retry grows_same split: sum.split)

lemma grows_enqueue: "grows q (snd (q_enqueue S idk j c fs q))"
proof -
  have "grows q (q_add ps (case idk of None \<Rightarrow> q\<lparr>fullf := b\<rparr> | Some k \<Rightarrow> q\<lparr>fullf := b, idem := m k\<rparr>))" for ps b m
    by (rule grows_via [OF grows_add]) (simp_all split: option.split)
  then show ?thesis
    by (auto simp: q_enqueue_def Let_def intro!: grows_count intro: grows_same split: option.split)
qed

lemma grows_schedule: "grows q (snd (q_schedule dec n q))"
proof -
  have "grows q (q_move dec m q)" for q m
    unfolding q_move_def by (rule grows_via [OF grows_add]) simp_all
  then have "grows q (fold (q_move dec) ms q)" for ms
    by (induction ms arbitrary: q) (auto intro: grows_trans grows_same)
  from this [of "due_members n q"] show ?thesis
    by (auto simp: q_schedule_def Let_def intro: grows_count grows_same)
qed

lemma grows_requeue: "grows q (snd (q_requeue j q))"
proof -
  have "grows q (undead j (q_add ps q))" for ps
    unfolding undead_add by (rule grows_via [OF grows_add]) (simp_all add: undead_def)
  then show ?thesis by (auto simp: q_requeue_def intro: grows_count grows_same split: option.split)
qed

lemma grows_others:
  "grows q (snd (q_heartbeat w i q))" "grows q (snd (q_ledger k fs q))" "grows q (snd (q_prune mi w q))"
  by (rule grows_same; simp add: q_heartbeat_def q_ledger_def q_prune_def q_count_def Let_def)+

section \<open>Success is final\<close>

definition keeps_success :: "qstate \<Rightarrow> qstate \<Rightarrow> bool" where
  "keeps_success q q' \<longleftrightarrow> (\<forall>j. state_of q j = Some ''SUCCEEDED'' \<longrightarrow> fin q' j = fin q j)"

lemma keeps_fin: "fin q' = fin q \<Longrightarrow> keeps_success q q'"
  by (simp add: keeps_success_def)

lemma keeps_fin_upd:
  "fin q' = (fin q)(j := h) \<Longrightarrow> state_of q j \<noteq> Some ''SUCCEEDED'' \<Longrightarrow> keeps_success q q'"
  by (auto simp: keeps_success_def)

lemma keeps_commit: "keeps_success q (snd (q_commit w i j enq r q))"
proof (cases "state_of q j = Some ''SUCCEEDED''")
  case True
  then show ?thesis by (intro keeps_fin) (simp add: q_commit_def q_count_def q_drop_def)
next
  case False
  then show ?thesis
    by (intro keeps_fin_upd [of _ q j "fin (snd (q_commit w i j enq r q)) j"])
      (auto simp: q_commit_def q_count_def q_drop_def succeed_def undead_def Let_def)
qed

lemma keeps_owned:
  assumes "state_of q j = None \<Longrightarrow> keeps_success q (f q)"
  shows "keeps_success q (snd (q_owned w i j f q))"
  using assms by (auto simp: q_owned_def q_count_def q_drop_def intro: keeps_fin)

lemma keeps_dead: "keeps_success q (snd (q_dead w i j rs e a b q))"
  unfolding q_dead_def
  by (intro keeps_owned keeps_fin_upd [of _ q j "fin (bury w j rs e a i q) j"])
    (auto simp: q_defs bury_def Let_def)

lemma keeps_retry: "keeps_success q (snd (q_retry enc w i j a d b q))"
  unfolding q_retry_def by (intro keeps_owned keeps_fin) (simp add: q_defs delay_entry_def)

lemma keeps_process: "keeps_success q (snd (q_process enc S reg xt w u i fs n he q))"
  by (cases "triage S reg xt i fs n"; cases he)
    (auto simp: q_process_def Let_def keeps_commit keeps_dead keeps_retry keeps_fin split: sum.split)

lemma keeps_requeue: "keeps_success q (snd (q_requeue j q))"
proof (cases "state_of q j = Some ''DEAD''")
  case True
  then show ?thesis
    by (intro keeps_fin_upd [of _ q j "fin (snd (q_requeue j q)) j"])
      (auto simp: q_requeue_def undead_def q_add_def q_count_def Let_def split: option.split)
qed (simp add: q_requeue_def keeps_fin)

lemma keeps_moves: "fin (fold (q_move dec) ms q) = fin q"
  by (induction ms arbitrary: q) (simp_all add: q_move_def q_add_def Let_def)

lemma keeps_others:
  "keeps_success q (snd (q_enqueue S idk j c fs q))" "keeps_success q (snd (q_schedule dec n q))"
  "keeps_success q (snd (q_read w n q))" "keeps_success q (snd (q_heartbeat w i q))"
  "keeps_success q (snd (q_ledger k fs q))" "keeps_success q (snd (q_prune mi w q))"
  "keeps_success q (q_add ps q)"
  by (rule keeps_fin; simp add: q_enqueue_def q_schedule_def q_read_def q_heartbeat_def q_ledger_def
      q_prune_def q_add_def q_count_def keeps_moves Let_def split: option.split)+

lemma keeps_reclaim: "delivery_inv q \<Longrightarrow> keeps_success q (snd (q_reclaim S w cur n slots q))"
  using q_reclaim_frame(1) [of q S w cur n slots] by (auto simp: q_count_def intro!: keeps_fin)

end
