(* ===== verification/Protocol.thy ===== *)
theory Protocol
  imports Queue_Steps
begin

text \<open>
  The whole system: one server, any number of producers, workers and operators. A step is one
  script call or stream command of one of them, or the loss of a task (a crash, an abandoned
  job). Every call may also be made again after its reply was lost. Nothing is assumed about
  who makes which step when. The ghost fields record which job ids an enqueue has admitted and
  how many entries entered the queue past the watermark check.
\<close>

section \<open>The system\<close>

record task =
  t_worker :: string
  t_entry :: eid
  t_fields :: fields
  t_deliveries :: nat

record 's sys =
  server :: 's
  tasks :: "task list"
  ids :: "string set"
  extra :: nat

definition ensure_group :: "'s redis_ops \<Rightarrow> settings \<Rightarrow> ('s, unit) script" where
  "ensure_group R S = (\<lambda>s. case XGROUP_CREATE R (stream_key (keys_of S)) (group S) s of
     (Inl BusyGroup, s') \<Rightarrow> (Inr (), s') | p \<Rightarrow> p)"

definition read_tasks :: "string \<Rightarrow> redis_error + (eid \<times> fields) list \<Rightarrow> task list" where
  "read_tasks w r = (case r of Inl _ \<Rightarrow> []
     | Inr es \<Rightarrow> map (\<lambda>e. \<lparr>t_worker = w, t_entry = fst e, t_fields = snd e, t_deliveries = 1\<rparr>) es)"

definition claim_tasks :: "string \<Rightarrow> redis_error + (claimed list \<times> bool \<times> eid) \<Rightarrow> task list" where
  "claim_tasks w r = (case r of Inl _ \<Rightarrow> []
     | Inr p \<Rightarrow> map (\<lambda>c. \<lparr>t_worker = w, t_entry = c_entry_id c, t_fields = c_fields c,
                           t_deliveries = c_deliveries c\<rparr>) (fst p))"

definition admitted_by :: "redis_error + string \<times> int \<times> int \<Rightarrow> string set" where
  "admitted_by r = (case r of Inl _ \<Rightarrow> {} | Inr x \<Rightarrow> admitted x)"

inductive step :: "'s redis_ops \<Rightarrow> settings \<Rightarrow> registry \<Rightarrow> (parse_error \<Rightarrow> py_exc) \<Rightarrow> 's sys \<Rightarrow> 's sys \<Rightarrow> bool"
  for R S reg xt where
  enqueue: "enqueue_call R S idk (job_id j) c (flat_of (to_fields j)) (server z) = (r, s') \<Longrightarrow>
    real_id (job_id j) \<Longrightarrow> c \<in> {''none'', ''rejected'', ''blocked''} \<Longrightarrow>
    step R S reg xt z (z\<lparr>server := s', ids := ids z \<union> admitted_by r\<rparr>)"
| foreign: "XADD R (stream_key (keys_of S)) (flat_of ps) (server z) = (r, s') \<Longrightarrow> strip_fields ps \<noteq> [] \<Longrightarrow>
    step R S reg xt z (z\<lparr>server := s', extra := Suc (extra z)\<rparr>)"
| read: "fetch R S w n (server z) = (r, s') \<Longrightarrow>
    step R S reg xt z (z\<lparr>server := s', tasks := tasks z @ (if lost then [] else read_tasks w r)\<rparr>)"
| reclaim: "reclaim R S w cur n slots (server z) = (r, s') \<Longrightarrow>
    step R S reg xt z (z\<lparr>server := s', tasks := tasks z @ (if lost then [] else claim_tasks w r)\<rparr>)"
| settle: "t \<in> set (tasks z) \<Longrightarrow>
    process R S reg xt (t_worker t) u (t_entry t) (t_fields t) (t_deliveries t) he (server z) = (r, s') \<Longrightarrow>
    step R S reg xt z (z\<lparr>server := s', tasks := (if lost then tasks z else remove1 t (tasks z))\<rparr>)"
| crash: "step R S reg xt z (z\<lparr>tasks := filter P (tasks z)\<rparr>)"
| beat: "heartbeat R S w i (server z) = (r, s') \<Longrightarrow> step R S reg xt z (z\<lparr>server := s'\<rparr>)"
| effect: "ledger_apply R (keys_of S) (done_ttl_seconds S) k fs (server z) = (r, s') \<Longrightarrow>
    step R S reg xt z (z\<lparr>server := s'\<rparr>)"
| schedule: "move_due R S (server z) = (r, s') \<Longrightarrow> step R S reg xt z (z\<lparr>server := s'\<rparr>)"
| prune: "prune_consumers R S w (server z) = (r, s') \<Longrightarrow> step R S reg xt z (z\<lparr>server := s'\<rparr>)"
| requeue: "requeue R (keys_of S) jid (server z) = (r, s') \<Longrightarrow>
    step R S reg xt z (z\<lparr>server := s', extra := extra z + (if r = Inr True then 1 else 0)\<rparr>)"
| join: "ensure_group R S (server z) = (r, s') \<Longrightarrow> step R S reg xt z (z\<lparr>server := s'\<rparr>)"
| tick: "TICK R d (server z) = (r, s') \<Longrightarrow> step R S reg xt z (z\<lparr>server := s'\<rparr>)"

inductive_cases stepE: "step R S reg xt z z'"

definition start :: "'s redis_ops \<Rightarrow> settings \<Rightarrow> 's \<Rightarrow> 's sys" where
  "start R S s0 = \<lparr>server = snd (ensure_group R S s0), tasks = [], ids = {}, extra = 0\<rparr>"

definition empty_queue :: "nat \<Rightarrow> qstate" where
  "empty_queue n = \<lparr>ents = [], slast = (0, 0), grp = empty_group, dlyd = [], dlq = [], dlast = (0, 0),
     reslog = [], efflog = [], fin = (\<lambda>_. Map.empty), led = (\<lambda>_. False), idem = Map.empty, fullf = False,
     cnt = (\<lambda>_. 0), qnow = n\<rparr>"

definition reaches :: "'s redis_ops \<Rightarrow> settings \<Rightarrow> registry \<Rightarrow> (parse_error \<Rightarrow> py_exc) \<Rightarrow> 's sys \<Rightarrow> 's sys \<Rightarrow> bool" where
  "reaches R S reg xt = (step R S reg xt)\<^sup>*\<^sup>*"

section \<open>Invariants of a transition system\<close>

locale invariant_system =
  fixes move :: "'c \<Rightarrow> 'c \<Rightarrow> bool" and inv :: "'c \<Rightarrow> bool"
  assumes move_inv: "inv c \<Longrightarrow> move c c' \<Longrightarrow> inv c'"
begin

lemma run_inv: "move\<^sup>*\<^sup>* c c' \<Longrightarrow> inv c \<Longrightarrow> inv c'"
  by (induction rule: rtranclp_induct) (auto intro: move_inv)

end

section \<open>A queue on a documented server\<close>

definition sys_inv :: "'s redis_ops \<Rightarrow> ('s \<Rightarrow> rdb) \<Rightarrow> settings \<Rightarrow> 's sys \<Rightarrow> bool" where
  "sys_inv R view S z \<longleftrightarrow> typed S (view (server z)) \<and>
     queue_inv (cjson_decode R) S (ids z) (extra z) (qview S (view (server z))) \<and>
     (\<forall>t \<in> set (tasks z). task_ok (qview S (view (server z))) (t_entry t) (t_fields t))"

lemma implements_ensure_group: "implements S always (ensure_group (doc_of R) S) (\<lambda>q. ((), q))"
proof (rule implementsI)
  fix v q
  assume t: "typed S v" and q: "q = qview S v"
  from t have "ensure_group (doc_of R) S v = (Inr (), v)"
    by (elim typed_group) (simp add: ensure_group_def d_xgroup_create_def Let_def)
  with t q show "\<exists>v'. ensure_group (doc_of R) S v = (Inr (fst ((), q)), v') \<and> typed S v' \<and> qview S v' = snd ((), q)"
    by simp
qed

locale queue_service = redis_service R view for R :: "'s redis_ops" and view +
  fixes S :: settings
  assumes valid: "make_settings S = Inr S"
begin

lemma watermarks: "low_watermark S < high_watermark S"
  using valid by (simp add: make_settings_Inr)

lemma cjson_codec: "codec (cjson_encode R) (cjson_decode R)"
  by (simp add: codec_def cjson_roundtrip)

lemma run_spec:
  assumes "implements S P d ab" and "refines view m d" and "typed S (view s)" and "P (qview S (view s))"
    and "m s = (r, s')"
  shows "r = Inr (fst (ab (qview S (view s))))" and "typed S (view s')"
    and "qview S (view s') = snd (ab (qview S (view s)))"
proof -
  from refinesD [OF assms(2,5)] have "d (view s) = (r, view s')" .
  with implementsD [OF assms(1,3,4)] show "r = Inr (fst (ab (qview S (view s))))" "typed S (view s')"
    "qview S (view s') = snd (ab (qview S (view s)))" by auto
qed

abbreviation q_of :: "'s sys \<Rightarrow> qstate" where
  "q_of z \<equiv> qview S (view (server z))"

lemma sys_invD:
  assumes "sys_inv R view S z"
  shows "typed S (view (server z))" and "queue_inv (cjson_decode R) S (ids z) (extra z) (q_of z)"
    and "t \<in> set (tasks z) \<Longrightarrow> task_ok (q_of z) (t_entry t) (t_fields t)"
    and "delivery_inv (q_of z)" and "pel_ok (q_of z)" and "dlq_ok (q_of z)"
    and "delayed_ok (cjson_decode R) (q_of z)"
proof -
  show "typed S (view (server z))" and q: "queue_inv (cjson_decode R) S (ids z) (extra z) (q_of z)"
    and "t \<in> set (tasks z) \<Longrightarrow> task_ok (q_of z) (t_entry t) (t_fields t)"
    using assms by (simp_all add: sys_inv_def)
  from q have "delayed_inv (cjson_decode R) (q_of z)" by (simp add: queue_inv_def base_inv_def)
  then show "delayed_ok (cjson_decode R) (q_of z)"
    using strip_fields_Nil unfolding delayed_inv_def delayed_ok_def by blast
  from q show d: "delivery_inv (q_of z)" and "dlq_ok (q_of z)"
    by (simp_all add: queue_inv_def base_inv_def dlq_inv_def)
  from d show "pel_ok (q_of z)" by (rule delivery_pel_ok)
qed

lemma spec_step:
  assumes z: "sys_inv R view S z" and i: "implements S P d ab" and m: "refines view m d"
    and p: "P (q_of z)" and run: "m (server z) = (r, s')" and z': "server z' = s'"
    and keep: "queue_inv (cjson_decode R) S (ids z') (extra z') (snd (ab (q_of z)))"
    and grow: "grows (q_of z) (snd (ab (q_of z)))"
    and new: "\<And>t. t \<in> set (tasks z') \<Longrightarrow>
      t \<in> set (tasks z) \<or> task_ok (snd (ab (q_of z))) (t_entry t) (t_fields t)"
  shows "sys_inv R view S z'"
proof -
  note spec = run_spec [OF i m sys_invD(1) [OF z] p run]
  have "task_ok (q_of z') (t_entry t) (t_fields t)" if "t \<in> set (tasks z')" for t
    using new [OF that] sys_invD(3) [OF z] grows_task [OF grow] unfolding z' spec(3) by blast
  with spec keep show ?thesis by (simp add: sys_inv_def z')
qed

lemma no_new: "t \<in> set (tasks z) \<Longrightarrow> t \<in> set (tasks z) \<or> b"
  by simp

lemma strip_to_fields [simp]: "strip_fields (to_fields j) \<noteq> []" "holds_job (job_id j) (to_fields j)"
  by (simp_all add: strip_fields_def to_fields_def holds_job_def dict_get_Cons)

lemma enqueue_inv:
  assumes z: "sys_inv R view S z" and "enqueue_call R S idk (job_id j) c (flat_of (to_fields j)) (server z) = (r, s')"
    and "real_id (job_id j)" and "c \<in> {''none'', ''rejected'', ''blocked''}"
  shows "sys_inv R view S (z\<lparr>server := s', ids := ids z \<union> admitted_by r\<rparr>)"
proof (rule spec_step [OF z implements_enqueue enqueue_call_doc _ assms(2)])
  note spec = run_spec [OF implements_enqueue enqueue_call_doc sys_invD(1) [OF z] _ assms(2)]
  have c: "idle_counter c" using assms(4) by (auto simp: idle_counter_def)
  show "queue_inv (cjson_decode R) S (ids (z\<lparr>server := s', ids := ids z \<union> admitted_by r\<rparr>))
      (extra (z\<lparr>server := s', ids := ids z \<union> admitted_by r\<rparr>))
      (snd (q_enqueue S idk (job_id j) c (to_fields j) (q_of z)))"
    using queue_enqueue [OF sys_invD(2) [OF z] watermarks _ _ assms(3) c] spec(1)
    by (simp add: admitted_by_def)
qed (simp_all add: grows_enqueue)

lemma read_inv:
  assumes z: "sys_inv R view S z" and run: "fetch R S w n (server z) = (r, s')"
  shows "sys_inv R view S (z\<lparr>server := s', tasks := tasks z @ (if lost then [] else read_tasks w r)\<rparr>)"
proof (rule spec_step [OF z implements_fetch fetch_doc _ run])
  let ?q = "snd (q_read w n (q_of z))"
  have new: "task_ok ?q i fs" if "(i, fs) \<in> set (fst (q_read w n (q_of z)))" for i fs
  proof -
    from that have e: "(i, fs) \<in> set (ents (q_of z))"
      by (auto simp: q_read_def read_group_def Let_def dest: in_set_takeD)
    have "map_of (ents (q_of z)) i = Some fs" and "i \<le> slast (q_of z)"
      using e sys_invD(4) [OF z] delivery_distinct
      by (force simp: delivery_inv_def window_def)+
    then show ?thesis by (simp add: task_ok_def q_read_def)
  qed
  fix t
  assume "t \<in> set (tasks (z\<lparr>server := s', tasks := tasks z @ (if lost then [] else read_tasks w r)\<rparr>))"
  then show "t \<in> set (tasks z) \<or> task_ok ?q (t_entry t) (t_fields t)"
    using new run_spec(1) [OF implements_fetch fetch_doc sys_invD(1) [OF z] _ run]
    by (auto simp: read_tasks_def split: if_splits)
next
  show "grows (q_of z) (snd (q_read w n (q_of z)))" by (rule grows_same) (simp_all add: q_read_def)
qed (simp_all add: queue_read [OF sys_invD(2) [OF z]])

lemma reclaim_inv:
  assumes z: "sys_inv R view S z" and run: "reclaim R S w cur n slots (server z) = (r, s')"
  shows "sys_inv R view S (z\<lparr>server := s', tasks := tasks z @ (if lost then [] else claim_tasks w r)\<rparr>)"
proof (rule spec_step [OF z implements_reclaim reclaim_api_doc _ run])
  let ?p = "q_reclaim S w cur n slots (q_of z)"
  note fr = q_reclaim_frame [OF sys_invD(4) [OF z], of S w cur n slots]
  have same: "ents (snd ?p) = ents (q_of z)" "slast (snd ?p) = slast (q_of z)"
    using fr(1) by (auto simp: q_count_def)
  then show "grows (q_of z) (snd ?p)" by (rule grows_same)
  have new: "task_ok (snd ?p) (c_entry_id c) (c_fields c)" if "c \<in> set (fst (fst ?p))" for c
  proof -
    from that fr(3) have m: "map_of (ents (q_of z)) (c_entry_id c) = Some (c_fields c)"
      by (simp add: claims_of_def)
    then have "c_entry_id c \<in> set (map fst (ents (q_of z)))" by (force dest: map_of_SomeD)
    with sys_invD(4) [OF z] have "c_entry_id c \<le> slast (q_of z)"
      unfolding delivery_inv_def window_def by blast
    with m show ?thesis by (simp add: task_ok_def same)
  qed
  fix t
  assume "t \<in> set (tasks (z\<lparr>server := s', tasks := tasks z @ (if lost then [] else claim_tasks w r)\<rparr>))"
  then show "t \<in> set (tasks z) \<or> task_ok (snd ?p) (t_entry t) (t_fields t)"
    using new run_spec(1) [OF implements_reclaim reclaim_api_doc sys_invD(1) [OF z] _ run]
    by (auto simp: claim_tasks_def split: if_splits)
qed (simp_all add: queue_reclaim [OF sys_invD(2) [OF z]])

lemma settle_inv:
  assumes z: "sys_inv R view S z" and t: "t \<in> set (tasks z)"
    and run: "process R S reg xt (t_worker t) u (t_entry t) (t_fields t) (t_deliveries t) he (server z) = (r, s')"
  shows "sys_inv R view S (z\<lparr>server := s', tasks := (if lost then tasks z else remove1 t (tasks z))\<rparr>)"
  by (rule spec_step [OF z implements_process process_doc sys_invD(5) [OF z] run])
    (use queue_process [OF sys_invD(2) [OF z] sys_invD(3) [OF z t] cjson_codec] in
      \<open>auto simp: grows_process split: if_splits dest: set_remove1_subset [THEN subsetD]\<close>)

lemma tick_safe:
  assumes z: "sys_inv R view S z" and run: "TICK R d (server z) = (r, s')"
    and k: "kept (keys_of S) h c (view (server z))" and h: "clock (view s') < h"
  shows "sys_inv R view S (z\<lparr>server := s'\<rparr>)"
    and "\<exists>m n. q_of (z\<lparr>server := s'\<rparr>) = (q_of z)\<lparr>idem := m, qnow := n\<rparr> \<and> m \<subseteq>\<^sub>m idem (q_of z) \<and>
      qnow (q_of z) \<le> n"
proof -
  from refinesD [OF TICK_doc run] have dt: "d_tick d (view (server z)) = (r, view s')" .
  with k h tick_clock have "c + d < h" by (fastforce simp: kept_def)
  with exec_tick [OF sys_invD(1) [OF z] k] dt obtain m n where
    t: "typed S (view s')" "qview S (view s') = (q_of z)\<lparr>idem := m, qnow := n\<rparr>" "m \<subseteq>\<^sub>m idem (q_of z)"
      "qnow (q_of z) \<le> n"
    by fastforce
  have "grows (q_of z) (qview S (view s'))" by (rule grows_same) (simp_all add: t(2))
  with t queue_tick [OF sys_invD(2) [OF z] t(3)] z grows_task show "sys_inv R view S (z\<lparr>server := s'\<rparr>)"
    unfolding sys_inv_def by (simp add: t(2))
  from t show "\<exists>m n. q_of (z\<lparr>server := s'\<rparr>) = (q_of z)\<lparr>idem := m, qnow := n\<rparr> \<and> m \<subseteq>\<^sub>m idem (q_of z) \<and>
      qnow (q_of z) \<le> n" by auto
qed

lemma ensure_group_doc: "refines view (ensure_group R S) (ensure_group (doc_of R) S)"
proof -
  have "fst (ensure_group R S s) = fst (ensure_group (doc_of R) S (view s)) \<and>
      view (snd (ensure_group R S s)) = snd (ensure_group (doc_of R) S (view s))" for s
  proof (cases "XGROUP_CREATE R (stream_key (keys_of S)) (group S) s")
    case (Pair r s')
    with refinesD [OF doc_of_refines(21)]
    have "XGROUP_CREATE (doc_of R) (stream_key (keys_of S)) (group S) (view s) = (r, view s')" .
    with Pair show ?thesis by (auto simp: ensure_group_def split: sum.split redis_error.split)
  qed
  then show ?thesis by (simp add: refines_def)
qed

lemma implements_add:
  "strip_fields ps \<noteq> [] \<Longrightarrow> implements S always (XADD (doc_of R) (stream_key (keys_of S)) (flat_of ps))
     (\<lambda>q. (next_eid (slast q) (qnow q), q_add ps q))"
  using strip_fields_Nil
  by (intro implementsI) (simp add: exec_simps view_simps typed_intro q_add_def Let_def)

lemma step_safe:
  assumes "sys_inv R view S z" and "step R S reg xt z z'"
    and "kept (keys_of S) h c (view (server z))" and "clock (view (server z')) < h"
  shows "sys_inv R view S z'"
  using assms(2)
proof cases
  case (foreign ps r s')
  show ?thesis unfolding foreign(1)
    by (rule spec_step [OF assms(1) implements_add [OF foreign(3)] doc_of_refines(16) _ foreign(2)])
      (use queue_add [OF sys_invD(2) [OF assms(1)] foreign(3)] in \<open>auto simp: grows_add\<close>)
next
  case (crash P)
  with assms(1) show ?thesis by (auto simp: sys_inv_def)
next
  case (beat w i r s')
  show ?thesis unfolding beat(1)
    by (rule spec_step [OF assms(1) implements_heartbeat heartbeat_api_doc _ beat(2)])
      (auto simp: queue_heartbeat sys_invD(2) [OF assms(1)] grows_others)
next
  case (effect k fs r s')
  show ?thesis unfolding effect(1)
    by (rule spec_step [OF assms(1) implements_ledger ledger_api_doc _ effect(2)])
      (auto simp: queue_ledger sys_invD(2) [OF assms(1)] grows_others)
next
  case (schedule r s')
  show ?thesis unfolding schedule(1)
    by (rule spec_step [OF assms(1) implements_schedule move_due_doc sys_invD(7) [OF assms(1)] schedule(2)])
      (auto simp: queue_schedule sys_invD(2) [OF assms(1)] grows_schedule)
next
  case (prune w r s')
  show ?thesis unfolding prune(1)
    by (rule spec_step [OF assms(1) implements_prune prune_api_doc _ prune(2)])
      (auto simp: queue_prune sys_invD(2) [OF assms(1)] grows_others)
next
  case (requeue jid r s')
  note spec = run_spec [OF implements_requeue requeue_api_doc sys_invD(1,6) [OF assms(1)] requeue(2)]
  show ?thesis unfolding requeue(1)
    by (rule spec_step [OF assms(1) implements_requeue requeue_api_doc sys_invD(6) [OF assms(1)] requeue(2)])
      (use queue_requeue [OF sys_invD(2) [OF assms(1)], of jid] spec(1) in \<open>auto simp: grows_requeue split: if_splits\<close>)
next
  case (join r s')
  show ?thesis unfolding join(1)
    by (rule spec_step [OF assms(1) implements_ensure_group ensure_group_doc _ join(2)])
      (auto simp: sys_invD(2) [OF assms(1)] intro: grows_same)
next
  case (tick d r s')
  with tick_safe(1) [OF assms(1) _ assms(3)] assms(4) show ?thesis by simp
qed (use assms(1) enqueue_inv read_inv reclaim_inv settle_inv in \<open>auto\<close>)

lemma start_view:
  assumes "view s0 = empty_rdb\<lparr>clock := t\<rparr>"
  shows "typed S (view (server (start R S s0)))" and "q_of (start R S s0) = empty_queue (t div 1000)"
proof -
  let ?v = "put_group (stream_key (keys_of S)) (group S) empty_stream empty_group (empty_rdb\<lparr>clock := t\<rparr>)"
  have v: "view (server (start R S s0)) = ?v"
    using ensure_group_doc assms
    by (simp add: refines_def start_def ensure_group_def d_xgroup_create_def stream_ok_def empty_rdb_def
        get_stream_def empty_stream_def Let_def)
  show "typed S (view (server (start R S s0)))"
    unfolding v by (simp add: typed_def put_group_def put_stream_def ok_defs get_stream_def
        get_hash_def empty_rdb_def empty_stream_def numeric_def Let_def)
  show "q_of (start R S s0) = empty_queue (t div 1000)"
    unfolding v by (simp add: empty_queue_def qview_def put_group_def put_stream_def get_defs
        stats_of_def empty_rdb_def empty_stream_def ms_of_def fun_eq_iff Let_def)
qed

lemma start_inv:
  assumes "view s0 = empty_rdb\<lparr>clock := t\<rparr>"
  shows "sys_inv R view S (start R S s0)"
proof -
  have "1 \<le> high_watermark S" using valid by (simp add: make_settings_Inr field_constraints_def)
  then have "queue_inv (cjson_decode R) S {} 0 (empty_queue (t div 1000))"
    by (simp add: queue_inv_def base_inv_def inv_defs window_def empty_queue_def empty_group_def state_of_def)
  with start_view [OF assms] show ?thesis by (simp add: sys_inv_def) (simp add: start_def)
qed

text \<open>
  Time. A step leaves the clock as it is or moves it forward, and no step lets a terminal record or a
  ledger marker expire before \<open>h\<close>, if \<open>h\<close> lies within the retention period that started at \<open>t\<close>.
\<close>

definition timed :: "nat \<Rightarrow> nat \<Rightarrow> 's sys \<Rightarrow> bool" where
  "timed h t z \<longleftrightarrow> t \<le> clock (view (server z)) \<and> kept (keys_of S) h (clock (view (server z))) (view (server z)) \<and>
     (0 < done_ttl_seconds S \<longrightarrow> h \<le> t + nat (done_ttl_seconds S) * 1000000)"

lemma keeps_view:
  assumes "refines view m d" and "keeps (kept (keys_of S) h (clock (view s))) d" and "m s = (r, s')"
    and "kept (keys_of S) h (clock (view s)) (view s)"
  shows "clock (view s') = clock (view s) \<and> kept (keys_of S) h (clock (view s)) (view s')"
  using keepsD [OF assms(2) refinesD [OF assms(1,3)] assms(4)] by (simp add: kept_def)

lemma step_times:
  assumes "step R S reg xt z z'" and "timed h t z"
  shows "timed h t z' \<and> clock (view (server z)) \<le> clock (view (server z'))"
proof -
  let ?c = "clock (view (server z))"
  have t: "t \<le> ?c" and k: "kept (keys_of S) h ?c (view (server z))"
    and w: "0 < done_ttl_seconds S \<Longrightarrow> h \<le> t + nat (done_ttl_seconds S) * 1000000"
    using assms(2) by (simp_all add: timed_def)
  have w': "h \<le> ?c + nat (done_ttl_seconds S) * 1000000" if "0 < done_ttl_seconds S"
    using w [OF that] t by simp
  have untimed: "timed h t z' \<and> ?c \<le> clock (view (server z'))"
    if "refines view m d" and "keeps (kept (keys_of S) h ?c) d" and "m (server z) = (r, server z')"
    for m :: "('s, 'a) script" and d :: "(rdb, 'a) script" and r
    using keeps_view [OF that k] t w by (simp add: timed_def)
  from assms(1) show ?thesis
  proof cases
    case (tick d r s')
    from refinesD [OF TICK_doc tick(2)] have dt: "d_tick d (view (server z)) = (r, view s')" .
    then have "clock (view s') = ?c + d" by (rule tick_clock)
    with kept_tick [OF k dt] t w show ?thesis by (simp add: tick(1) timed_def)
  next
    case (join r s')
    have "keeps (kept (keys_of S) h ?c) (ensure_group (doc_of R) S)"
      using kept_groups(1) unfolding keeps_def ensure_group_def
      by (auto split: prod.split sum.split redis_error.split) (metis snd_conv)+
    from untimed [OF ensure_group_doc this] join show ?thesis by simp
  next
    case (crash P)
    with assms(2) show ?thesis by (simp add: timed_def)
  next
    case (enqueue idk j c r s')
    with untimed [OF enqueue_call_doc kept_enqueue] show ?thesis by simp
  next
    case (foreign ps r s')
    with untimed [OF doc_of_refines(16) kept_writes(7)] show ?thesis by simp
  next
    case (read w n r s' lost)
    with untimed [OF fetch_doc kept_calls(7)] show ?thesis by simp
  next
    case (reclaim w cur n slots r s' lost)
    with untimed [OF reclaim_api_doc kept_reclaim] show ?thesis by simp
  next
    case (settle tk u he r s' lost)
    with untimed [OF process_doc kept_process [OF w']] show ?thesis by simp
  next
    case (beat w i r s')
    with untimed [OF heartbeat_api_doc kept_calls(1)] show ?thesis by simp
  next
    case (effect k fs r s')
    with untimed [OF ledger_api_doc kept_ledger [OF w']] show ?thesis by simp
  next
    case (schedule r s')
    with untimed [OF move_due_doc kept_calls(4)] show ?thesis by simp
  next
    case (prune w r s')
    with untimed [OF prune_api_doc kept_calls(5)] show ?thesis by simp
  next
    case (requeue jid r s')
    with untimed [OF requeue_api_doc kept_calls(6)] show ?thesis by simp
  qed
qed

end

text \<open>
  What the retention period leaves: either records never expire, or the clock has not yet passed the
  end of the period that began at \<open>t\<close>.
\<close>

definition retained :: "settings \<Rightarrow> nat \<Rightarrow> rdb \<Rightarrow> bool" where
  "retained S t v \<longleftrightarrow> 0 < done_ttl_seconds S \<longrightarrow> clock v < t + nat (done_ttl_seconds S) * 1000000"

sublocale queue_service \<subseteq> protocol: invariant_system "step R S reg xt"
    "\<lambda>z. timed h t z \<and> (clock (view (server z)) < h \<longrightarrow> sys_inv R view S z)" for reg xt h t
proof unfold_locales
  fix c c'
  assume c: "timed h t c \<and> (clock (view (server c)) < h \<longrightarrow> sys_inv R view S c)" and st: "step R S reg xt c c'"
  note times = step_times [OF st conjunct1 [OF c]]
  have "sys_inv R view S c'" if "clock (view (server c')) < h"
  proof (rule step_safe [OF _ st _ that])
    from times that c show "sys_inv R view S c" by simp
    from c show "kept (keys_of S) h (clock (view (server c))) (view (server c))" by (simp add: timed_def)
  qed
  with times show "timed h t c' \<and> (clock (view (server c')) < h \<longrightarrow> sys_inv R view S c')" by simp
qed

context queue_service
begin

definition horizon :: "nat \<Rightarrow> 's sys \<Rightarrow> nat" where
  "horizon t z = (if 0 < done_ttl_seconds S then t + nat (done_ttl_seconds S) * 1000000
     else Suc (clock (view (server z))))"

lemma horizon_retained: "retained S t (view (server z)) \<longleftrightarrow> clock (view (server z)) < horizon t z"
  by (simp add: retained_def horizon_def)

lemma start_times:
  assumes "view s0 = empty_rdb\<lparr>clock := t\<rparr>"
  shows "timed (horizon t z) t (start R S s0)" and "clock (view (server (start R S s0))) = t"
proof -
  have "kept (keys_of S) h t (view s0)" for h using assms by (simp add: kept_def empty_rdb_def)
  moreover have "keeps (kept (keys_of S) h t) (ensure_group (doc_of R) S)" for h
    using kept_groups(1) unfolding keeps_def ensure_group_def
    by (auto split: prod.split sum.split redis_error.split) (metis snd_conv)+
  ultimately have k: "kept (keys_of S) h t (view (server (start R S s0)))" for h
    using ensure_group_doc assms by (simp add: refines_def keeps_def start_def)
  then show "clock (view (server (start R S s0))) = t" by (simp add: kept_def)
  with k show "timed (horizon t z) t (start R S s0)" by (simp add: timed_def horizon_def)
qed

lemma reached_timed:
  assumes "view s0 = empty_rdb\<lparr>clock := t\<rparr>" and "reaches R S reg xt (start R S s0) y"
  shows "timed (horizon t z) t y \<and> (clock (view (server y)) < horizon t z \<longrightarrow> sys_inv R view S y)"
  using protocol.run_inv [of _ _ _ _ "horizon t z" t] start_times [OF assms(1)] start_inv [OF assms(1)] assms(2)
  unfolding reaches_def by blast

lemma reached_inv:
  assumes "view s0 = empty_rdb\<lparr>clock := t\<rparr>" and "reaches R S reg xt (start R S s0) z"
    and "retained S t (view (server z))"
  shows "sys_inv R view S z"
  using reached_timed [OF assms(1,2)] assms(3) by (simp add: horizon_retained)

end

section \<open>Without a retention limit\<close>

locale queue_forever = queue_service +
  assumes no_ttl: "done_ttl_seconds S = 0"
begin

lemma step_inv:
  assumes z: "sys_inv R view S z" and "step R S reg xt z z'"
  shows "sys_inv R view S z'"
  using step_safe [OF assms typed_kept [OF sys_invD(1) [OF z] no_ttl] lessI] .

lemma tick_inv:
  assumes z: "sys_inv R view S z" and "TICK R d (server z) = (r, s')"
  shows "sys_inv R view S (z\<lparr>server := s'\<rparr>)"
  using tick_safe(1) [OF assms typed_kept [OF sys_invD(1) [OF z] no_ttl] lessI] .

lemma always_retained: "retained S t v"
  by (simp add: retained_def no_ttl)

lemma forever_inv:
  "view s0 = empty_rdb\<lparr>clock := t\<rparr> \<Longrightarrow> reaches R S reg xt (start R S s0) z \<Longrightarrow> sys_inv R view S z"
  using reached_inv always_retained by blast

lemma forever_timed: "sys_inv R view S z \<Longrightarrow> timed h 0 z"
  by (simp add: timed_def no_ttl typed_kept sys_invD)

end

sublocale queue_forever \<subseteq> forever: invariant_system "step R S reg xt" "sys_inv R view S" for reg xt
  by unfold_locales (rule step_inv)

end
