(* ===== verification/Example_Run.thy ===== *)
theory Example_Run
  imports Protocol
begin

text \<open>
  A concrete run on the documented server with the JSON codec of \<open>Redis_Instance\<close>: a producer
  enqueues a job, a worker reads it and its handler returns. The run instantiates the
  hypotheses of the protocol's theorems.
\<close>

definition demo_settings :: settings where
  "demo_settings = default_settings\<lparr>done_ttl_seconds := 0\<rparr>"

lemma demo_settings_valid: "make_settings demo_settings = Inr demo_settings"
  by code_simp

lemma demo_settings_ttl: "done_ttl_seconds demo_settings = 0"
  by (simp add: demo_settings_def)

interpretation demo_queue: queue_forever json_redis id demo_settings
  by unfold_locales (rule demo_settings_valid, rule demo_settings_ttl)

definition demo_registry :: registry where
  "demo_registry = [(''send_email'', AsyncSpec \<lparr>fn_module = ''handlers'', fn_qualname = ''send''\<rparr> True None)]"

definition demo_job :: job where
  "demo_job = \<lparr>job_id = ''01'', job_type = ''send_email'', payload = [], attempt = 0,
     idempotency_key = '''', enqueued_at_ms = 0\<rparr>"

definition no_text :: "parse_error \<Rightarrow> py_exc" where
  "no_text e = PyExc ''ValueError'' ''error''"

definition demo_start :: "rdb sys" where
  "demo_start = start json_redis demo_settings empty_rdb"

definition demo_enqueued :: "rdb sys" where
  "demo_enqueued = (let r = enqueue_call json_redis demo_settings (Some ''k'') (job_id demo_job) ''rejected''
       (flat_of (to_fields demo_job)) (server demo_start) in
     demo_start\<lparr>server := snd r, ids := ids demo_start \<union> admitted_by (fst r)\<rparr>)"

definition demo_read :: "rdb sys" where
  "demo_read = (let r = fetch json_redis demo_settings ''w1'' 5 (server demo_enqueued) in
     demo_enqueued\<lparr>server := snd r, tasks := tasks demo_enqueued @ read_tasks ''w1'' (fst r)\<rparr>)"

definition demo_task :: task where
  "demo_task = hd (tasks demo_read)"

definition demo_done :: "rdb sys" where
  "demo_done = (let r = process json_redis demo_settings demo_registry no_text (t_worker demo_task) 0
       (t_entry demo_task) (t_fields demo_task) (t_deliveries demo_task) (Returned ''null'') (server demo_read) in
     demo_read\<lparr>server := snd r, tasks := remove1 demo_task (tasks demo_read)\<rparr>)"

text \<open>The views along the run, computed with the specifications.\<close>

lemma demo_start_view:
  "typed demo_settings (server demo_start)" "qview demo_settings (server demo_start) = empty_queue 0"
  using demo_queue.start_view [of empty_rdb 0] by (simp_all add: demo_start_def empty_rdb_def)

lemma str_nat_0: "str_nat 0 = ''0''"
  by code_simp

lemma str_int_0: "str_int 0 = ''0''"
  by code_simp

definition demo_fields :: fields where
  "demo_fields = to_fields demo_job @ [(''enqueued_at_ms'', ''0'')]"

lemma demo_enqueued_view:
  "typed demo_settings (server demo_enqueued)"
  "qview demo_settings (server demo_enqueued) =
     (empty_queue 0)\<lparr>ents := [((0, 1), demo_fields)], slast := (0, 1), idem := [''k'' \<mapsto> ''01'']\<rparr>"
  "ids demo_enqueued = {''01''}"
proof -
  obtain r s' where run: "enqueue_call json_redis demo_settings (Some ''k'') (job_id demo_job) ''rejected''
       (flat_of (to_fields demo_job)) (server demo_start) = (r, s')" by fastforce
  have q: "q_enqueue demo_settings (Some ''k'') (job_id demo_job) ''rejected'' (to_fields demo_job) (empty_queue 0) =
     ((''01'', 1, 1), (empty_queue 0)\<lparr>ents := [((0, 1), demo_fields)], slast := (0, 1), idem := [''k'' \<mapsto> ''01'']\<rparr>)"
    by (simp add: q_enqueue_def empty_queue_def now_full_def q_depth_def q_add_def next_eid_def demo_fields_def
        demo_job_def demo_settings_def default_settings_def str_nat_0 Let_def)
  note spec = demo_queue.run_spec [OF implements_enqueue json_server.enqueue_call_doc _ _ run, simplified,
      OF demo_start_view(1), unfolded demo_start_view(2) q]
  show "typed demo_settings (server demo_enqueued)"
    "qview demo_settings (server demo_enqueued) =
       (empty_queue 0)\<lparr>ents := [((0, 1), demo_fields)], slast := (0, 1), idem := [''k'' \<mapsto> ''01'']\<rparr>"
    "ids demo_enqueued = {''01''}"
    using spec run by (simp_all add: demo_enqueued_def admitted_by_def admitted_def demo_start_def start_def)
qed

definition demo_pent :: pent where
  "demo_pent = \<lparr>p_owner = ''w1'', p_time = 0, p_count = 1\<rparr>"

definition demo_group :: rgroup where
  "demo_group = \<lparr>g_last = (0, 1), g_pel = [((0, 1), demo_pent)], g_cons = [(''w1'', 0)]\<rparr>"

lemma demo_read_view:
  "typed demo_settings (server demo_read)"
  "qview demo_settings (server demo_read) = (empty_queue 0)\<lparr>ents := [((0, 1), demo_fields)], slast := (0, 1),
     grp := demo_group, idem := [''k'' \<mapsto> ''01'']\<rparr>"
  "tasks demo_read = [\<lparr>t_worker = ''w1'', t_entry = (0, 1), t_fields = demo_fields, t_deliveries = 1\<rparr>]"
  "ids demo_read = {''01''}"
proof -
  obtain r s' where run: "fetch json_redis demo_settings ''w1'' 5 (server demo_enqueued) = (r, s')" by fastforce
  have q: "q_read ''w1'' 5 ((empty_queue 0)\<lparr>ents := [((0, 1), demo_fields)], slast := (0, 1), idem := [''k'' \<mapsto> ''01'']\<rparr>) =
     ([((0, 1), demo_fields)], (empty_queue 0)\<lparr>ents := [((0, 1), demo_fields)], slast := (0, 1),
        grp := demo_group, idem := [''k'' \<mapsto> ''01'']\<rparr>)"
    by (simp add: q_read_def read_group_def empty_queue_def empty_group_def demo_group_def demo_pent_def
        touch_def less_prod_def Let_def)
  note spec = demo_queue.run_spec [OF implements_fetch json_server.fetch_doc _ _ run, simplified,
      OF demo_enqueued_view(1), unfolded demo_enqueued_view(2) q]
  show "typed demo_settings (server demo_read)"
    "qview demo_settings (server demo_read) = (empty_queue 0)\<lparr>ents := [((0, 1), demo_fields)], slast := (0, 1),
     grp := demo_group, idem := [''k'' \<mapsto> ''01'']\<rparr>"
    "tasks demo_read = [\<lparr>t_worker = ''w1'', t_entry = (0, 1), t_fields = demo_fields, t_deliveries = 1\<rparr>]"
    "ids demo_read = {''01''}"
    using spec run demo_enqueued_view(3)
    by (simp_all add: demo_read_def read_tasks_def demo_enqueued_def demo_start_def start_def Let_def)
qed

lemma demo_triage:
  "triage demo_settings demo_registry no_text (0, 1) demo_fields 1 = Run demo_job (snd (hd demo_registry))"
  by code_simp

lemma demo_done_view:
  "typed demo_settings (server demo_done)"
  "state_of (qview demo_settings (server demo_done)) ''01'' = Some ''SUCCEEDED''"
  "length (results_for (qview demo_settings (server demo_done)) ''01'') = 1"
  "ents (qview demo_settings (server demo_done)) = []"
  "tasks demo_done = []" "ids demo_done = {''01''}"
  "reslog (qview demo_settings (server demo_done)) =
     [[(''job_id'', ''01''), (''worker_id'', ''w1''), (''enqueued_at_ms'', ''0''), (''finished_at_ms'', ''0'')]]"
  "efflog (qview demo_settings (server demo_done)) = []" "dlq (qview demo_settings (server demo_done)) = []"
  "pend (qview demo_settings (server demo_done)) = []" "dlyd (qview demo_settings (server demo_done)) = []"
  "cnt (qview demo_settings (server demo_done)) ''late_successes'' = 0"
proof -
  have task: "demo_task = \<lparr>t_worker = ''w1'', t_entry = (0, 1), t_fields = demo_fields, t_deliveries = 1\<rparr>"
    by (simp add: demo_task_def demo_read_view)
  obtain r s' where run: "process json_redis demo_settings demo_registry no_text ''w1'' 0 (0, 1) demo_fields 1
      (Returned ''null'') (server demo_read) = (r, s')" by fastforce
  have "pel_ok (qview demo_settings (server demo_read))"
    by (simp add: demo_read_view pel_ok_def demo_group_def empty_queue_def)
  note spec = demo_queue.run_spec [OF implements_process json_server.process_doc _ _ run, unfolded id_apply,
      OF demo_read_view(1) this]
  let ?q = "qview demo_settings (server demo_read)"
  have p: "snd (q_process (cjson_encode json_redis) demo_settings demo_registry no_text ''w1'' 0 (0, 1) demo_fields 1
      (Returned ''null'') ?q) = snd (q_commit ''w1'' (0, 1) ''01'' (str_int 0) ''null'' ?q)"
    unfolding q_process_def demo_triage by (simp add: demo_job_def Let_def)
  have d: "server demo_done = s'" using run by (simp add: demo_done_def task)
  show "typed demo_settings (server demo_done)" using spec(2) by (simp add: d)
  show "state_of (qview demo_settings (server demo_done)) ''01'' = Some ''SUCCEEDED''"
    "length (results_for (qview demo_settings (server demo_done)) ''01'') = 1"
    "ents (qview demo_settings (server demo_done)) = []"
    "reslog (qview demo_settings (server demo_done)) =
       [[(''job_id'', ''01''), (''worker_id'', ''w1''), (''enqueued_at_ms'', ''0''), (''finished_at_ms'', ''0'')]]"
    "efflog (qview demo_settings (server demo_done)) = []" "dlq (qview demo_settings (server demo_done)) = []"
    "pend (qview demo_settings (server demo_done)) = []" "dlyd (qview demo_settings (server demo_done)) = []"
    "cnt (qview demo_settings (server demo_done)) ''late_successes'' = 0"
    using spec(3) [unfolded p]
    by (simp_all add: d demo_read_view(2) q_commit_def state_of_def empty_queue_def demo_job_def demo_group_def
        q_count_def q_drop_def succeed_def results_for_def dict_get_Cons str_nat_0 str_int_0 Let_def)
  show "tasks demo_done = []" "ids demo_done = {''01''}"
    by (simp_all add: demo_done_def task demo_read_view Let_def)
qed

text \<open>The run is a run of the protocol.\<close>

lemma demo_steps:
  "step json_redis demo_settings reg no_text demo_start demo_enqueued"
  "step json_redis demo_settings reg no_text demo_enqueued demo_read"
proof -
  show "step json_redis demo_settings reg no_text demo_start demo_enqueued"
    unfolding demo_enqueued_def Let_def
    by (rule step.enqueue [OF prod.collapse [symmetric]]) (auto simp: demo_job_def real_id_def)
  show "step json_redis demo_settings reg no_text demo_enqueued demo_read"
    using step.read [OF prod.collapse [symmetric], where R = json_redis and S = demo_settings and w = "''w1''"
        and n = 5 and z = demo_enqueued and reg = reg and xt = no_text and lost = False]
    by (simp add: demo_read_def Let_def)
qed

lemma demo_settled:
  "step json_redis demo_settings reg no_text demo_read
     (let r = process json_redis demo_settings reg no_text (t_worker demo_task) 0
       (t_entry demo_task) (t_fields demo_task) (t_deliveries demo_task) he (server demo_read) in
     demo_read\<lparr>server := snd r, tasks := remove1 demo_task (tasks demo_read)\<rparr>)"
proof -
  have "demo_task \<in> set (tasks demo_read)" by (simp add: demo_task_def demo_read_view)
  from step.settle [OF this prod.collapse [symmetric], where R = json_redis and S = demo_settings
      and reg = reg and xt = no_text and u = 0 and he = he and lost = False]
  show ?thesis by (simp add: Let_def)
qed

lemma demo_start_ok: "id empty_rdb = empty_rdb\<lparr>clock := 0\<rparr>"
  by (simp add: empty_rdb_def)

lemma demo_read_reached:
  "reaches json_redis demo_settings reg no_text (start json_redis demo_settings empty_rdb) demo_read"
  using demo_steps [of reg] unfolding reaches_def demo_start_def [symmetric]
  by (meson converse_rtranclp_into_rtranclp rtranclp.rtrancl_refl)

lemma demo_reaches_start:
  "reaches json_redis demo_settings demo_registry no_text (start json_redis demo_settings empty_rdb) demo_done"
  using demo_read_reached demo_settled [of demo_registry "Returned ''null''"]
  unfolding reaches_def demo_done_def by (rule rtranclp.rtrancl_into_rtrancl)

section \<open>A worker without the handler\<close>

text \<open>The same run against an empty registry: the job is buried with the reason unknown_type.\<close>

definition demo_buried :: "rdb sys" where
  "demo_buried = (let r = process json_redis demo_settings [] no_text (t_worker demo_task) 0
       (t_entry demo_task) (t_fields demo_task) (t_deliveries demo_task) (Returned ''null'') (server demo_read) in
     demo_read\<lparr>server := snd r, tasks := remove1 demo_task (tasks demo_read)\<rparr>)"

lemma demo_buried_reached:
  "reaches json_redis demo_settings [] no_text (start json_redis demo_settings empty_rdb) demo_buried"
  using demo_read_reached demo_settled [of "[]" "Returned ''null''"]
  unfolding reaches_def demo_buried_def by (rule rtranclp.rtrancl_into_rtrancl)

lemma demo_unknown:
  "case triage demo_settings [] no_text (0, 1) demo_fields 1 of
     Bury j reason error attempts \<Rightarrow> j = ''01'' \<and> reason = UNKNOWN_TYPE \<and> attempts = 0 | _ \<Rightarrow> False"
  by code_simp

lemma demo_buried_view:
  "typed demo_settings (server demo_buried)"
  "state_of (qview demo_settings (server demo_buried)) ''01'' = Some ''DEAD''"
  "length (dlq (qview demo_settings (server demo_buried))) = 1"
proof -
  have task: "demo_task = \<lparr>t_worker = ''w1'', t_entry = (0, 1), t_fields = demo_fields, t_deliveries = 1\<rparr>"
    by (simp add: demo_task_def demo_read_view)
  obtain r s' where run: "process json_redis demo_settings [] no_text ''w1'' 0 (0, 1) demo_fields 1
      (Returned ''null'') (server demo_read) = (r, s')" by fastforce
  have "pel_ok (qview demo_settings (server demo_read))"
    by (simp add: demo_read_view pel_ok_def demo_group_def empty_queue_def)
  note spec = demo_queue.run_spec [OF implements_process json_server.process_doc _ _ run, unfolded id_apply,
      OF demo_read_view(1) this]
  obtain error where "triage demo_settings [] no_text (0, 1) demo_fields 1 = Bury ''01'' UNKNOWN_TYPE error 0"
    using demo_unknown by (auto split: triage.splits)
  then have p: "snd (q_process (cjson_encode json_redis) demo_settings [] no_text ''w1'' 0 (0, 1) demo_fields 1
      (Returned ''null'') q) = snd (q_dead ''w1'' (0, 1) ''01'' (reason_value UNKNOWN_TYPE) error (str_int 0) False q)" for q
    unfolding q_process_def by (simp add: Let_def)
  have d: "server demo_buried = s'" using run by (simp add: demo_buried_def task)
  show "typed demo_settings (server demo_buried)" using spec(2) by (simp add: d)
  show "state_of (qview demo_settings (server demo_buried)) ''01'' = Some ''DEAD''"
    "length (dlq (qview demo_settings (server demo_buried))) = 1"
    using spec(3) [unfolded p]
    by (simp_all add: d demo_read_view(2) q_dead_def q_owned_def owns_def bury_def count_timeout_def state_of_def
        empty_queue_def demo_group_def demo_pent_def q_count_def q_drop_def Let_def)
qed

section \<open>A queue at the brim\<close>

text \<open>With a high watermark of one, the first job fills the queue; the flag is not set yet.\<close>

definition demo_small :: settings where
  "demo_small = demo_settings\<lparr>high_watermark := 1, low_watermark := 0\<rparr>"

lemma demo_small_high: "high_watermark demo_small = 1"
  by (simp add: demo_small_def)

lemma demo_small_valid: "make_settings demo_small = Inr demo_small"
  by code_simp

interpretation demo_small_queue: queue_forever json_redis id demo_small
  by unfold_locales (rule demo_small_valid, simp add: demo_small_def demo_settings_def)

definition demo_brim :: "rdb sys" where
  "demo_brim = (let z = start json_redis demo_small empty_rdb;
       r = enqueue_call json_redis demo_small None (job_id demo_job) ''rejected'' (flat_of (to_fields demo_job)) (server z) in
     z\<lparr>server := snd r, ids := ids z \<union> admitted_by (fst r)\<rparr>)"

lemma demo_brim_reached:
  "reaches json_redis demo_small reg no_text (start json_redis demo_small empty_rdb) demo_brim"
  unfolding reaches_def demo_brim_def Let_def
  by (rule r_into_rtranclp, rule step.enqueue [OF prod.collapse [symmetric]]) (auto simp: demo_job_def real_id_def)

lemma demo_brim_view:
  "qview demo_small (server demo_brim) = (empty_queue 0)\<lparr>ents := [((0, 1), demo_fields)], slast := (0, 1)\<rparr>"
proof -
  let ?z = "start json_redis demo_small empty_rdb"
  have start: "typed demo_small (server ?z)" "qview demo_small (server ?z) = empty_queue 0"
    using demo_small_queue.start_view [of empty_rdb 0] by (simp_all add: empty_rdb_def)
  obtain r s' where run: "enqueue_call json_redis demo_small None (job_id demo_job) ''rejected''
       (flat_of (to_fields demo_job)) (server ?z) = (r, s')" by fastforce
  have "q_enqueue demo_small None (job_id demo_job) ''rejected'' (to_fields demo_job) (empty_queue 0) =
     ((''01'', 1, 1), (empty_queue 0)\<lparr>ents := [((0, 1), demo_fields)], slast := (0, 1)\<rparr>)"
    by (simp add: q_enqueue_def empty_queue_def now_full_def q_depth_def q_add_def next_eid_def demo_fields_def
        demo_job_def demo_small_def str_nat_0 Let_def)
  with demo_small_queue.run_spec(3) [OF implements_enqueue json_server.enqueue_call_doc _ _ run, simplified, OF start(1)]
  show ?thesis by (simp add: start(2) run demo_brim_def Let_def)
qed

section \<open>A day with the default settings\<close>

lemma default_settings_valid: "make_settings default_settings = Inr default_settings"
  by code_simp

interpretation default_queue: queue_service json_redis id default_settings
  by unfold_locales (rule default_settings_valid)

definition demo_waiting :: "rdb sys" where
  "demo_waiting = (let z = start json_redis default_settings empty_rdb;
       r = enqueue_call json_redis default_settings None (job_id demo_job) ''rejected'' (flat_of (to_fields demo_job)) (server z) in
     z\<lparr>server := snd r, ids := ids z \<union> admitted_by (fst r)\<rparr>)"

definition demo_day :: "rdb sys" where
  "demo_day = demo_waiting\<lparr>server := snd (TICK json_redis 86400000000 (server demo_waiting))\<rparr>"

lemma demo_day_reached:
  "reaches json_redis default_settings reg no_text (start json_redis default_settings empty_rdb) demo_day"
proof -
  have "step json_redis default_settings reg no_text (start json_redis default_settings empty_rdb) demo_waiting"
    unfolding demo_waiting_def Let_def
    by (rule step.enqueue [OF prod.collapse [symmetric]]) (auto simp: demo_job_def real_id_def)
  moreover have "step json_redis default_settings reg no_text demo_waiting demo_day"
    unfolding demo_day_def by (rule step.tick [OF prod.collapse [symmetric]])
  ultimately show ?thesis unfolding reaches_def by simp
qed

lemma demo_day_view:
  "retained default_settings 0 (server demo_day)" "ids demo_day = {''01''}"
proof -
  let ?z = "start json_redis default_settings empty_rdb"
  obtain r s where run: "enqueue_call json_redis default_settings None (job_id demo_job) ''rejected''
      (flat_of (to_fields demo_job)) (server ?z) = (r, s)" by fastforce
  note st = default_queue.start_view [of empty_rdb 0, simplified]
  have c0: "clock (server ?z) = 0" and k: "kept (keys_of default_settings) 0 0 (server ?z)"
    using default_queue.start_times [of empty_rdb 0] by (simp_all add: empty_rdb_def kept_def)
  have "clock s = 0"
    using default_queue.keeps_view [OF json_server.enqueue_call_doc kept_enqueue run] c0 k by simp
  moreover have "server demo_waiting = s" by (simp add: demo_waiting_def Let_def run)
  moreover have "TICK json_redis d = d_tick d" for d by (simp add: json_redis_def doc_redis_def)
  ultimately have "clock (server demo_day) = 86400000000"
    by (simp add: demo_day_def d_tick_def Let_def)
  then show "retained default_settings 0 (server demo_day)"
    by (simp add: retained_def default_settings_def)
  have "r = Inr (fst (q_enqueue default_settings None (job_id demo_job) ''rejected'' (to_fields demo_job) (empty_queue 0)))"
    using default_queue.run_spec(1) [OF implements_enqueue json_server.enqueue_call_doc _ _ run] st
    by (simp add: empty_rdb_def)
  then have "admitted_by r = {''01''}"
    by (simp add: admitted_by_def q_enqueue_def empty_queue_def admitted_def now_full_def q_depth_def default_settings_def
        demo_job_def Let_def)
  then show "ids demo_day = {''01''}"
    by (simp add: demo_day_def demo_waiting_def Let_def run) (simp add: start_def)
qed

end
