(* ===== verification/Client.thy ===== *)
theory Client
  imports Protocol
begin

text \<open>
  \<^verbatim>\<open>src/ftq/client.py\<close>: the producer. \<^verbatim>\<open>enqueue_many\<close> is a loop that re-sends what the queue
  refused until everything is admitted, the mode is \<^verbatim>\<open>reject\<close>, or the deadline has passed. One
  element of the list \<open>rounds\<close> is one iteration: what other clients do to the server before
  each call, and the loop time when the deadline is checked. Job ids (\<^verbatim>\<open>new_job_id\<close>) are
  arguments.
\<close>

section \<open>Jobs, counters, results\<close>

record new_job =
  nj_type :: string
  nj_payload :: "(string \<times> json) list"
  nj_key :: "string option"

record producer_counters =
  pc_accepted :: nat
  pc_duplicates :: nat
  pc_rejected :: nat
  pc_blocked :: nat
  pc_blocked_seconds :: rat

definition no_counters :: producer_counters where
  "no_counters = \<lparr>pc_accepted = 0, pc_duplicates = 0, pc_rejected = 0, pc_blocked = 0, pc_blocked_seconds = 0\<rparr>"

record call_args =
  ca_key :: "string option"
  ca_job_id :: string
  ca_fields :: fields

datatype enqueue_result = Ids "string list" | QueueFull int "string option list" | ClientError redis_error

text \<open>\<^verbatim>\<open>_args\<close>: an empty idempotency key counts as none.\<close>

definition client_args :: "string \<Rightarrow> new_job \<Rightarrow> call_args" where
  "client_args jid n =
     (let key = (case nj_key n of None \<Rightarrow> [] | Some k \<Rightarrow> k);
          j = \<lparr>job_id = jid, job_type = nj_type n, payload = nj_payload n, attempt = 0,
               idempotency_key = key, enqueued_at_ms = 0\<rparr>
      in \<lparr>ca_key = (if key = [] then None else Some key), ca_job_id = jid, ca_fields = to_fields j\<rparr>)"

section \<open>One round trip\<close>

text \<open>
  The calls of a pipeline run one after the other, each atomic, other clients in between
  (\<open>others\<close> counts the calls still to come). A pipeline with a failed call has run them all
  and raises the first error.
\<close>

fun send_all :: "'s redis_ops \<Rightarrow> settings \<Rightarrow> string \<Rightarrow> (nat \<Rightarrow> 's \<Rightarrow> 's) \<Rightarrow> call_args list \<Rightarrow> 's
    \<Rightarrow> (redis_error + string \<times> int \<times> int) list \<times> 's" where
  "send_all R S count_as others [] s = ([], s)"
| "send_all R S count_as others (a # as) s =
     (case enqueue_call R S (ca_key a) (ca_job_id a) count_as (flat_of (ca_fields a))
         (others (length as) s) of
        (r, s1) \<Rightarrow> (case send_all R S count_as others as s1 of (rs, s2) \<Rightarrow> (r # rs, s2)))"

fun raise_first :: "(redis_error + 'a) list \<Rightarrow> redis_error + 'a list" where
  "raise_first [] = Inr []"
| "raise_first (Inl e # _) = Inl e"
| "raise_first (Inr x # rs) = (case raise_first rs of Inl e \<Rightarrow> Inl e | Inr xs \<Rightarrow> Inr (x # xs))"

definition send :: "'s redis_ops \<Rightarrow> settings \<Rightarrow> string \<Rightarrow> (nat \<Rightarrow> 's \<Rightarrow> 's) \<Rightarrow> call_args list
    \<Rightarrow> ('s, (string \<times> int \<times> int) list) script" where
  "send R S count_as others calls s =
     (case send_all R S count_as others calls s of (rs, s') \<Rightarrow> (raise_first rs, s'))"

section \<open>The loop\<close>

record attempt_state =
  pending_calls :: "(nat \<times> call_args) list"
  accepted_ids :: "string option list"
  full_depth :: int
  counters :: producer_counters

definition status_added :: int where
  "status_added = 1"

definition status_full :: int where
  "status_full = - 1"

text \<open>What one reply does: a refusal only gives the depth, anything else settles the job.\<close>

definition note_reply :: "(nat \<times> call_args) \<times> (string \<times> int \<times> int) \<Rightarrow> attempt_state \<Rightarrow> attempt_state" where
  "note_reply x c =
     (case x of ((i, _), (jid, status, depth)) \<Rightarrow>
        if status = status_full then c\<lparr>full_depth := depth\<rparr>
        else c\<lparr>accepted_ids := (accepted_ids c)[i := Some jid],
               pending_calls := filter (\<lambda>p. fst p \<noteq> i) (pending_calls c),
               counters := (if status = status_added
                  then (counters c)\<lparr>pc_accepted := Suc (pc_accepted (counters c))\<rparr>
                  else (counters c)\<lparr>pc_duplicates := Suc (pc_duplicates (counters c))\<rparr>)\<rparr>)"

definition note_replies :: "(string \<times> int \<times> int) list \<Rightarrow> attempt_state \<Rightarrow> attempt_state" where
  "note_replies rs c = fold note_reply (zip (pending_calls c) rs) (c\<lparr>full_depth := 0\<rparr>)"

definition count_blocked :: "attempt_state \<Rightarrow> attempt_state" where
  "count_blocked c = c\<lparr>counters := (counters c)\<lparr>pc_blocked := pc_blocked (counters c) + length (pending_calls c)\<rparr>\<rparr>"

definition count_rejected :: "attempt_state \<Rightarrow> attempt_state" where
  "count_rejected c = c\<lparr>counters := (counters c)\<lparr>pc_rejected := pc_rejected (counters c) + length (pending_calls c)\<rparr>\<rparr>"

definition count_waiting :: "rat \<Rightarrow> attempt_state \<Rightarrow> attempt_state" where
  "count_waiting d c = c\<lparr>counters := (counters c)\<lparr>pc_blocked_seconds := pc_blocked_seconds (counters c) + d\<rparr>\<rparr>"

definition is_block :: "settings \<Rightarrow> bool" where
  "is_block S \<longleftrightarrow> mode S = Block"

definition count_as_of :: "settings \<Rightarrow> bool \<Rightarrow> string" where
  "count_as_of S waited = (if waited then ''none'' else if is_block S then ''blocked'' else ''rejected'')"

text \<open>Giving up: the job counts as rejected, in block mode also in the queue's own counter.\<close>

definition give_up :: "'s redis_ops \<Rightarrow> settings \<Rightarrow> rat \<Rightarrow> attempt_state \<Rightarrow> 's
    \<Rightarrow> enqueue_result \<times> attempt_state \<times> 's" where
  "give_up R S waited_for c s =
     (let c1 = count_rejected c in
      if is_block S then
        (case HINCRBY R (stats_key (keys_of S)) ''rejected'' (int (length (pending_calls c))) s of
           (Inl e, s') \<Rightarrow> (ClientError e, count_waiting waited_for c1, s')
         | (Inr _, s') \<Rightarrow> (QueueFull (full_depth c) (accepted_ids c), count_waiting waited_for c1, s'))
      else (QueueFull (full_depth c) (accepted_ids c), c1, s))"

record 's round =
  others_do :: "nat \<Rightarrow> 's \<Rightarrow> 's"
  checked_at :: rat

fun enqueue_loop :: "'s redis_ops \<Rightarrow> settings \<Rightarrow> rat \<Rightarrow> bool \<Rightarrow> 's round list \<Rightarrow> attempt_state \<Rightarrow> 's
    \<Rightarrow> (enqueue_result \<times> attempt_state \<times> 's) option" where
  "enqueue_loop R S started waited [] c s = None"
| "enqueue_loop R S started waited (rd # rds) c s =
     (case send R S (count_as_of S waited) (others_do rd) (map snd (pending_calls c)) s of
        (Inl e, s1) \<Rightarrow> Some (ClientError e, c, s1)
      | (Inr replies, s1) \<Rightarrow>
          (let c1 = note_replies replies c in
           if pending_calls c1 = [] then
             Some (Ids (map the (filter (\<lambda>a. a \<noteq> None) (accepted_ids c1))),
                   if waited then count_waiting (checked_at rd - started) c1 else c1, s1)
           else
             (let c2 = (if \<not> waited \<and> is_block S then count_blocked c1 else c1) in
              if \<not> is_block S \<or> checked_at rd \<ge> started + block_timeout S
              then Some (give_up R S (checked_at rd - started) c2 s1)
              else enqueue_loop R S started True rds c2 s1)))"

definition enqueue_many :: "'s redis_ops \<Rightarrow> settings \<Rightarrow> producer_counters \<Rightarrow> rat \<Rightarrow> 's round list
    \<Rightarrow> (string \<times> new_job) list \<Rightarrow> 's \<Rightarrow> (enqueue_result \<times> producer_counters \<times> 's) option" where
  "enqueue_many R S pc started rounds jobs s =
     (if jobs = [] then Some (Ids [], pc, s)
      else map_option (\<lambda>(r, c, s'). (r, counters c, s'))
        (enqueue_loop R S started False rounds
           \<lparr>pending_calls = enumerate 0 (map (\<lambda>p. client_args (fst p) (snd p)) jobs),
            accepted_ids = replicate (length jobs) None, full_depth = 0, counters = pc\<rparr> s))"

text \<open>\<^verbatim>\<open>enqueue\<close>: one job, and its id.\<close>

definition enqueue_one :: "'s redis_ops \<Rightarrow> settings \<Rightarrow> producer_counters \<Rightarrow> rat \<Rightarrow> 's round list
    \<Rightarrow> string \<Rightarrow> new_job \<Rightarrow> 's \<Rightarrow> (enqueue_result \<times> producer_counters \<times> 's) option" where
  "enqueue_one R S pc started rounds jid n s = enqueue_many R S pc started rounds [(jid, n)] s"


section \<open>Every job is accounted for\<close>

definition tally :: "producer_counters \<Rightarrow> nat" where
  "tally pc = pc_accepted pc + pc_duplicates pc + pc_rejected pc"

text \<open>
  Of \<open>n\<close> jobs, exactly the ones without an id are still pending, and the counters plus the
  pending ones make up \<open>tot\<close>.
\<close>

definition loop_inv :: "nat \<Rightarrow> nat \<Rightarrow> attempt_state \<Rightarrow> bool" where
  "loop_inv n tot c \<longleftrightarrow> distinct (map fst (pending_calls c)) \<and> length (accepted_ids c) = n \<and>
     (\<forall>i < n. accepted_ids c ! i = None \<longleftrightarrow> i \<in> fst ` set (pending_calls c)) \<and>
     fst ` set (pending_calls c) \<subseteq> {..<n} \<and> tally (counters c) + length (pending_calls c) = tot"

lemma length_filter_fst:
  assumes "distinct (map fst ps)" and "i \<in> fst ` set ps"
  shows "Suc (length (filter (\<lambda>p. fst p \<noteq> i) ps)) = length ps"
  using assms
proof (induction ps)
  case (Cons p ps)
  show ?case
  proof (cases "fst p = i")
    case True
    with Cons.prems(1) have "fst q \<noteq> i" if "q \<in> set ps" for q using that by (metis distinct.simps(2) image_eqI list.set_map list.simps(9))
    then have "filter (\<lambda>p. fst p \<noteq> i) ps = ps" by (simp add: filter_id_conv)
    with True show ?thesis by simp
  qed (use Cons in auto)
qed simp

lemma note_reply_inv:
  assumes c: "loop_inv n tot c" and "fst (fst x) \<in> fst ` set (pending_calls c)"
  shows "loop_inv n tot (note_reply x c)"
    and "fst ` set (pending_calls c) - {fst (fst x)} \<subseteq> fst ` set (pending_calls (note_reply x c))"
proof -
  obtain i a jid st d where x: "x = ((i, a), (jid, st, d))" by (metis surj_pair)
  show "loop_inv n tot (note_reply x c)"
  proof (cases "st = status_full")
    case True
    with c x show ?thesis by (simp add: note_reply_def loop_inv_def)
  next
    case False
    have i: "i < n" "i \<in> fst ` set (pending_calls c)" using c assms(2) x by (auto simp: loop_inv_def)
    have l: "Suc (length (filter (\<lambda>p. fst p \<noteq> i) (pending_calls c))) = length (pending_calls c)"
      using c i by (intro length_filter_fst) (auto simp: loop_inv_def)
    have s: "fst ` set (filter (\<lambda>p. fst p \<noteq> i) (pending_calls c)) = fst ` set (pending_calls c) - {i}" by auto
    from c i l False show ?thesis
      by (auto simp: x note_reply_def loop_inv_def tally_def s nth_list_update distinct_map_filter)
  qed
  show "fst ` set (pending_calls c) - {fst (fst x)} \<subseteq> fst ` set (pending_calls (note_reply x c))"
    by (auto simp: x note_reply_def)
qed

lemma note_fold_inv:
  assumes "loop_inv n tot c" and "distinct (map (fst \<circ> fst) xs)"
    and "fst ` fst ` set xs \<subseteq> fst ` set (pending_calls c)"
  shows "loop_inv n tot (fold note_reply xs c)"
  using assms
proof (induction xs arbitrary: c)
  case (Cons x xs)
  have x: "fst (fst x) \<in> fst ` set (pending_calls c)" using Cons.prems(3) by simp
  have "fst (fst x) \<notin> fst ` fst ` set xs" using Cons.prems(2) by (simp add: image_image comp_def)
  with Cons.prems(3) have "fst ` fst ` set xs \<subseteq> fst ` set (pending_calls c) - {fst (fst x)}"
    unfolding list.set image_insert by blast
  also have "\<dots> \<subseteq> fst ` set (pending_calls (note_reply x c))"
    by (rule note_reply_inv(2) [OF Cons.prems(1) x])
  finally show ?case
    using Cons.IH [OF note_reply_inv(1) [OF Cons.prems(1) x]] Cons.prems(2) by simp
qed simp

lemma note_replies_inv:
  assumes "loop_inv n tot c"
  shows "loop_inv n tot (note_replies rs c)"
  unfolding note_replies_def
proof (rule note_fold_inv)
  show "loop_inv n tot (c\<lparr>full_depth := 0\<rparr>)" using assms by (simp add: loop_inv_def)
  have "map (fst \<circ> fst) (zip (pending_calls c) rs) = take (length rs) (map fst (pending_calls c))"
    unfolding map_map [symmetric] map_fst_zip_take by (simp add: take_map min_def)
  then show "distinct (map (fst \<circ> fst) (zip (pending_calls c) rs))"
    using assms by (simp add: loop_inv_def)
  show "fst ` fst ` set (zip (pending_calls c) rs) \<subseteq> fst ` set (pending_calls (c\<lparr>full_depth := 0\<rparr>))"
    by (simp, intro image_mono) (auto dest: set_zip_leftD)
qed

text \<open>How a call ends: every job with an id, or a refusal that says which ones got in.\<close>

definition end_ok :: "nat \<Rightarrow> nat \<Rightarrow> enqueue_result \<Rightarrow> producer_counters \<Rightarrow> bool" where
  "end_ok n tot r pc = (case r of
       Ids js \<Rightarrow> length js = n \<and> tally pc = tot
     | QueueFull _ js \<Rightarrow> length js = n \<and> None \<in> set js \<and> tally pc = tot
     | ClientError _ \<Rightarrow> tally pc \<le> tot)"

lemma loop_inv_done:
  assumes "loop_inv n tot c" and "pending_calls c = []"
  shows "length (filter (\<lambda>a. a \<noteq> None) (accepted_ids c)) = n" "tally (counters c) = tot"
proof -
  have "\<forall>a \<in> set (accepted_ids c). a \<noteq> None"
    using assms by (auto simp: loop_inv_def in_set_conv_nth)
  then have "filter (\<lambda>a. a \<noteq> None) (accepted_ids c) = accepted_ids c" by (simp add: filter_id_conv)
  then show "length (filter (\<lambda>a. a \<noteq> None) (accepted_ids c)) = n" "tally (counters c) = tot"
    using assms by (simp_all add: loop_inv_def)
qed

lemma give_up_end:
  assumes "loop_inv n tot c" and "pending_calls c \<noteq> []" and "give_up R S d c s = (r, c', s')"
  shows "end_ok n tot r (counters c')"
proof -
  obtain i where i: "i \<in> fst ` set (pending_calls c)" using assms(2) by (cases "pending_calls c") auto
  then have "i < n" "accepted_ids c ! i = None" using assms(1) by (auto simp: loop_inv_def)
  then have "None \<in> set (accepted_ids c)" using assms(1) by (metis loop_inv_def nth_mem)
  with assms show ?thesis
    by (auto simp: give_up_def end_ok_def loop_inv_def tally_def count_rejected_def count_waiting_def Let_def
        split: prod.splits sum.splits if_splits)
qed

lemma loop_inv_counts [simp]:
  "loop_inv n tot (count_blocked c) = loop_inv n tot c"
  "loop_inv n tot (count_waiting d c) = loop_inv n tot c"
  by (simp_all add: loop_inv_def count_blocked_def count_waiting_def tally_def)

lemma enqueue_loop_end:
  assumes "loop_inv n tot c" and "enqueue_loop R S started waited rds c s = Some (r, c', s')"
  shows "end_ok n tot r (counters c')"
  using assms
proof (induction R S started waited rds c s arbitrary: r c' s' rule: enqueue_loop.induct)
  case (2 R S started waited rd rds c s)
  obtain x s1 where snd': "send R S (count_as_of S waited) (others_do rd) (map snd (pending_calls c)) s = (x, s1)"
    by fastforce
  show ?case
  proof (cases x)
    case (Inl e)
    with 2 snd' show ?thesis by (auto simp: end_ok_def loop_inv_def)
  next
    case (Inr replies)
    let ?c1 = "note_replies replies c"
    let ?c2 = "if \<not> waited \<and> is_block S then count_blocked ?c1 else ?c1"
    have inv: "loop_inv n tot ?c1" "loop_inv n tot ?c2"
      using note_replies_inv [OF "2.prems"(1)] by simp_all
    show ?thesis
    proof (cases "pending_calls ?c1 = []")
      case True
      with "2.prems"(2) snd' Inr loop_inv_done [OF inv(1) True] show ?thesis
        by (auto simp: end_ok_def count_waiting_def tally_def Let_def split: if_splits)
    next
      case False
      then have ne: "pending_calls ?c2 \<noteq> []" by (simp add: count_blocked_def)
      show ?thesis
      proof (cases "\<not> is_block S \<or> checked_at rd \<ge> started + block_timeout S")
        case True
        with "2.prems"(2) snd' Inr False give_up_end [OF inv(2) ne] show ?thesis by (simp add: Let_def)
      next
        case go: False
        with "2.prems"(2) snd' Inr False "2.IH" [OF snd'[symmetric] _ refl False refl go inv(2)]
        show ?thesis by (simp add: Let_def)
      qed
    qed
  qed
qed simp


lemma enqueue_start_inv:
  "loop_inv (length jobs) (tally pc + length jobs)
     \<lparr>pending_calls = enumerate 0 (map f jobs), accepted_ids = replicate (length jobs) None,
      full_depth = d, counters = pc\<rparr>"
proof -
  have "fst ` set (enumerate 0 (map f jobs)) = {..<length jobs}"
    unfolding set_map [symmetric] map_fst_enumerate by auto
  then show ?thesis by (simp add: loop_inv_def)
qed

lemma enqueue_many_end:
  assumes "enqueue_many R S pc started rounds jobs s = Some (r, pc', s')"
  shows "end_ok (length jobs) (tally pc + length jobs) r pc'"
proof (cases "jobs = []")
  case True
  with assms show ?thesis by (auto simp: enqueue_many_def end_ok_def)
next
  case False
  with assms obtain c where e: "enqueue_loop R S started False rounds
      \<lparr>pending_calls = enumerate 0 (map (\<lambda>p. client_args (fst p) (snd p)) jobs),
       accepted_ids = replicate (length jobs) None, full_depth = 0, counters = pc\<rparr> s = Some (r, c, s')"
    and pc: "pc' = counters c" by (auto simp: enqueue_many_def)
  show ?thesis unfolding pc by (rule enqueue_loop_end [OF enqueue_start_inv e])
qed

section \<open>The loop returns\<close>

text \<open>
  The pause between two rounds is at least half the poll interval, cut at the deadline; time
  does not run backwards.
\<close>

fun paced_rounds :: "settings \<Rightarrow> rat \<Rightarrow> rat \<Rightarrow> 's round list \<Rightarrow> bool" where
  "paced_rounds S deadline u [] \<longleftrightarrow> True"
| "paced_rounds S deadline u (rd # rds) \<longleftrightarrow>
     u + min (block_poll_interval S / 2) (max 0 (deadline - u)) \<le> checked_at rd \<and>
     paced_rounds S deadline (checked_at rd) rds"

lemma enqueue_loop_returns:
  assumes "paced_rounds S (started + block_timeout S) u rds" and "rds \<noteq> []" and "0 < block_poll_interval S"
    and "started + block_timeout S \<le> u + of_nat (length rds) * (block_poll_interval S / 2)"
  shows "enqueue_loop R S started waited rds c s \<noteq> None"
  using assms
proof (induction rds arbitrary: u waited c s)
  case (Cons rd rds)
  let ?dl = "started + block_timeout S" and ?p = "block_poll_interval S / 2"
  show ?case
  proof (cases "checked_at rd \<ge> ?dl")
    case True
    then show ?thesis by (auto simp: Let_def simp del: not_None_eq split: prod.split sum.split)
  next
    case False
    have step: "u + min ?p (max 0 (?dl - u)) \<le> checked_at rd" using Cons.prems(1) by simp
    with False have p: "u + ?p \<le> checked_at rd" by (auto simp: min_def max_def split: if_splits)
    have "?dl \<le> u + (1 + of_nat (length rds)) * ?p" using Cons.prems(4) by simp
    then have l: "?dl \<le> checked_at rd + of_nat (length rds) * ?p"
      using p by (simp only: distrib_right mult_1)
    with False have "rds \<noteq> []" by auto
    with Cons.IH [of "checked_at rd"] Cons.prems(1,3) l show ?thesis
      by (auto simp: Let_def simp del: not_None_eq split: prod.split sum.split)
  qed
qed simp

lemma enqueue_many_returns:
  assumes "make_settings S = Inr S" and "started \<le> checked_at rd"
    and "paced_rounds S (started + block_timeout S) (checked_at rd) rds"
    and "block_timeout S \<le> of_nat (length rds) * (block_poll_interval S / 2)"
  shows "enqueue_many R S pc started (rd # rds) jobs s \<noteq> None"
proof -
  have p: "0 < block_poll_interval S" using assms(1) by (simp add: make_settings_Inr field_constraints_def)
  have "enqueue_loop R S started False (rd # rds) c s \<noteq> None" for c
  proof (cases "checked_at rd \<ge> started + block_timeout S")
    case True
    then show ?thesis by (auto simp: Let_def simp del: not_None_eq split: prod.split sum.split)
  next
    case False
    with assms(2,4) have "rds \<noteq> []" by auto
    moreover have "started + block_timeout S \<le> checked_at rd + of_nat (length rds) * (block_poll_interval S / 2)"
      using assms(2,4) by linarith
    ultimately show ?thesis
      using enqueue_loop_returns [OF assms(3) _ p] by (auto simp: Let_def simp del: not_None_eq split: prod.split sum.split)
  qed
  then show ?thesis
    unfolding enqueue_many_def by (simp del: enqueue_loop.simps not_None_eq add: option.map_disc_iff)
qed

section \<open>A refused job wrote nothing\<close>

lemma note_reply_pending: "set (pending_calls (note_reply x c)) \<subseteq> set (pending_calls c)"
  by (auto simp: note_reply_def split: prod.splits)

lemma note_fold_pending:
  "set (pending_calls (fold note_reply xs c)) \<subseteq> set (pending_calls c)"
proof (induction xs arbitrary: c)
  case (Cons x xs)
  from Cons [of "note_reply x c"] note_reply_pending [of x c] show ?case by auto
qed simp

lemma note_fold_settled:
  assumes "x \<in> set xs" and "fst (snd (snd x)) \<noteq> status_full"
  shows "fst (fst x) \<notin> fst ` set (pending_calls (fold note_reply xs c))"
  using assms
proof (induction xs arbitrary: c)
  case (Cons y ys)
  show ?case
  proof (cases "x = y")
    case True
    have "fst (fst x) \<notin> fst ` set (pending_calls (note_reply x c))"
      using Cons.prems(2) by (cases x) (auto simp: note_reply_def)
    with True note_fold_pending [of ys "note_reply x c"] show ?thesis by auto
  next
    case False
    with Cons show ?thesis by simp
  qed
qed simp


text \<open>
  The entries \<open>es\<close> are old ones or hold a job of \<open>calls\<close> that is no longer pending.
\<close>

definition only_settled :: "(eid \<times> fields) list \<Rightarrow> (nat \<times> call_args) list \<Rightarrow> nat set \<Rightarrow> (eid \<times> fields) list \<Rightarrow> bool" where
  "only_settled old calls pending es \<longleftrightarrow> (\<forall>e \<in> set es. e \<in> set old \<or>
     (\<exists>(k, a) \<in> set calls. k \<notin> pending \<and> dict_get (snd e) ''job_id'' = Some (ca_job_id a)))"

definition named :: "call_args \<Rightarrow> bool" where
  "named a \<longleftrightarrow> dict_get (ca_fields a) ''job_id'' = Some (ca_job_id a)"

lemma named_client_args [simp]: "named (client_args jid n)"
  by (simp add: named_def client_args_def to_fields_def dict_get_def Let_def)

text \<open>A reply other than a refusal, for the job the entry holds.\<close>

definition wrote :: "call_args list \<Rightarrow> (redis_error + string \<times> int \<times> int) list \<Rightarrow> eid \<times> fields \<Rightarrow> bool" where
  "wrote as rs e \<longleftrightarrow> (\<exists>a x. (a, Inr x) \<in> set (zip as rs) \<and> fst (snd x) \<noteq> status_full \<and>
     dict_get (snd e) ''job_id'' = Some (ca_job_id a))"

lemma wrote_Cons:
  "wrote (a # as) (r # rs) e \<longleftrightarrow> (\<exists>x. r = Inr x \<and> fst (snd x) \<noteq> status_full) \<and>
     dict_get (snd e) ''job_id'' = Some (ca_job_id a) \<or> wrote as rs e"
  unfolding wrote_def by (auto simp del: split_paired_Ex) 

lemma q_enqueue_entries:
  "set (ents (snd (q_enqueue S idk j ca fs q))) \<subseteq> set (ents q) \<union>
     (if fst (snd (fst (q_enqueue S idk j ca fs q))) = - 1 then {} else
        {e. snd e = fs @ [(''enqueued_at_ms'', str_nat (qnow q))]})"
  by (auto simp: q_enqueue_def q_add_def q_count_def Let_def split: option.splits if_splits)

context queue_service
begin

lemma send_all_writes:
  assumes "typed S (view s)" and "send_all R S ca (\<lambda>_ s. s) as s = (rs, s')" and "\<forall>a \<in> set as. named a"
  shows "typed S (view s')" and "length rs = length as"
    and "\<forall>e \<in> set (ents (qview S (view s'))). e \<in> set (ents (qview S (view s))) \<or>
      wrote as rs e"
proof -
  have "typed S (view s') \<and> length rs = length as \<and>
    (\<forall>e \<in> set (ents (qview S (view s'))). e \<in> set (ents (qview S (view s))) \<or>
      wrote as rs e)"
    using assms
  proof (induction as arbitrary: s rs)
    case Nil
    then show ?case by simp
  next
    case (Cons a as)
    obtain r s1 where r: "enqueue_call R S (ca_key a) (ca_job_id a) ca (flat_of (ca_fields a)) s = (r, s1)" by fastforce
    obtain rs1 where rs: "send_all R S ca (\<lambda>_ s. s) as s1 = (rs1, s')" "rs = r # rs1"
      using Cons.prems(2) r by (auto split: prod.splits)
    note q = run_spec [OF implements_enqueue enqueue_call_doc Cons.prems(1) _ r, simplified]
    have new: "e \<in> set (ents (qview S (view s))) \<or> (\<exists>x. r = Inr x \<and> fst (snd x) \<noteq> status_full) \<and>
        dict_get (snd e) ''job_id'' = Some (ca_job_id a)" if "e \<in> set (ents (qview S (view s1)))" for e
      using that q_enqueue_entries [of S "ca_key a" "ca_job_id a" ca "ca_fields a" "qview S (view s)"]
        q(1,3) Cons.prems(3)
      by (auto simp: status_full_def named_def split: if_splits)
    have ih: "typed S (view s')" "length rs1 = length as"
      "\<forall>e \<in> set (ents (qview S (view s'))). e \<in> set (ents (qview S (view s1))) \<or> wrote as rs1 e"
      using Cons.IH [OF q(2) rs(1)] Cons.prems(3) by auto
    have "e \<in> set (ents (qview S (view s))) \<or> wrote (a # as) rs e" if "e \<in> set (ents (qview S (view s')))" for e
      using ih(3) that new [of e] unfolding rs(2) wrote_Cons by blast
    with ih(1,2) show ?case unfolding rs(2) by simp
  qed
  then show "typed S (view s')" "length rs = length as"
    "\<forall>e \<in> set (ents (qview S (view s'))). e \<in> set (ents (qview S (view s))) \<or>
      wrote as rs e" by simp_all
qed

end

lemma raise_first_Inr: "raise_first rs = Inr xs \<Longrightarrow> rs = map Inr xs"
  by (induction rs arbitrary: xs rule: raise_first.induct) (auto split: sum.splits)

context queue_service
begin

lemma send_writes:
  assumes t: "typed S (view s)" and run: "send R S ca (\<lambda>_ s. s) (map snd ps) s = (Inr xs, s')"
    and n: "\<forall>p \<in> set ps. named (snd p)" and ps: "set ps \<subseteq> set calls"
    and old: "only_settled old calls P (ents (qview S (view s)))" and P: "P' \<subseteq> P"
    and gone: "\<And>p x. (p, x) \<in> set (zip ps xs) \<Longrightarrow> fst (snd x) \<noteq> status_full \<Longrightarrow> fst p \<notin> P'"
  shows "typed S (view s')" and "only_settled old calls P' (ents (qview S (view s')))"
proof -
  obtain rs where a: "send_all R S ca (\<lambda>_ s. s) (map snd ps) s = (rs, s')" and "raise_first rs = Inr xs"
    using run by (auto simp: send_def split: prod.splits)
  then have rs: "rs = map Inr xs" using raise_first_Inr by blast
  have n': "\<forall>a \<in> set (map snd ps). named a" using n by simp
  note w = send_all_writes [OF t a n']
  show "typed S (view s')" by (fact w(1))
  show "only_settled old calls P' (ents (qview S (view s')))"
    unfolding only_settled_def
  proof
    fix e assume "e \<in> set (ents (qview S (view s')))"
    then consider "e \<in> set (ents (qview S (view s)))" |
      a x where "(a, Inr x) \<in> set (zip (map snd ps) rs)" "fst (snd x) \<noteq> status_full"
        "dict_get (snd e) ''job_id'' = Some (ca_job_id a)"
      using w(3) unfolding wrote_def by blast
    then show "e \<in> set old \<or> (\<exists>(k, a) \<in> set calls. k \<notin> P' \<and> dict_get (snd e) ''job_id'' = Some (ca_job_id a))"
    proof cases
      case 1
      with old P show ?thesis unfolding only_settled_def by fastforce
    next
      case 2
      from 2(1) obtain p where p: "(p, x) \<in> set (zip ps xs)" "snd p = a"
        by (auto simp: rs zip_map1 zip_map2)
      have "p \<in> set calls" using set_zip_leftD [OF p(1)] ps by auto
      with gone [OF p(1) 2(2)] 2(3) p(2) show ?thesis by (cases p) auto
    qed
  qed
qed

end


definition settled_end :: "nat \<Rightarrow> (eid \<times> fields) list \<Rightarrow> (nat \<times> call_args) list \<Rightarrow> enqueue_result
    \<Rightarrow> (eid \<times> fields) list \<Rightarrow> bool" where
  "settled_end n old calls r es \<longleftrightarrow> (case r of
       Ids _ \<Rightarrow> True
     | QueueFull _ acc \<Rightarrow> only_settled old calls {i. i < n \<and> acc ! i = None} es
     | ClientError _ \<Rightarrow> False)"

context queue_service
begin

lemma give_up_settled:
  assumes "typed S (view s)" and c: "loop_inv n tot c"
    and "only_settled old calls (fst ` set (pending_calls c)) (ents (qview S (view s)))"
    and "give_up R S d c s = (r, c', s')"
  shows "settled_end n old calls r (ents (qview S (view s')))"
proof -
  obtain x s1 where h: "HINCRBY R (stats_key (keys_of S)) ''rejected'' (int (length (pending_calls c))) s = (x, s1)"
    by fastforce
  have "d_hincrby (stats_key (keys_of S)) ''rejected'' (int (length (pending_calls c))) (view s) = (x, view s1)"
    by (rule refinesD [OF HINCRBY_doc h])
  then have v: "view s1 = u_count S ''rejected'' (int (length (pending_calls c))) (view s)" and x: "\<not> isl x"
    using assms(1) by (auto simp: exec_simps)
  have e: "ents (qview S (view s1)) = ents (qview S (view s))" by (simp add: v view_simps)
  have "{i. i < n \<and> accepted_ids c ! i = None} = fst ` set (pending_calls c)"
    using c by (auto simp: loop_inv_def)
  with assms(3,4) h x e show ?thesis
    by (auto simp: give_up_def settled_end_def Let_def split: if_splits sum.splits)
qed

lemma send_all_Inr:
  assumes "typed S (view s)" and "send_all R S ca (\<lambda>_ s. s) as s = (rs, s')"
  shows "\<exists>xs. raise_first rs = Inr xs"
  using assms
proof (induction as arbitrary: s rs)
  case (Cons a as)
  obtain r s1 where r: "enqueue_call R S (ca_key a) (ca_job_id a) ca (flat_of (ca_fields a)) s = (r, s1)" by fastforce
  obtain rs1 where rs: "send_all R S ca (\<lambda>_ s. s) as s1 = (rs1, s')" "rs = r # rs1"
    using Cons.prems(2) r by (auto split: prod.splits)
  note q = run_spec [OF implements_enqueue enqueue_call_doc Cons.prems(1) _ r, simplified]
  from Cons.IH [OF q(2) rs(1)] obtain xs where "raise_first rs1 = Inr xs" by blast
  with q(1) rs(2) show ?case by simp
qed simp

lemma note_replies_settled:
  assumes "(p, x) \<in> set (zip (pending_calls c) rs)" and "fst (snd x) \<noteq> status_full"
  shows "fst p \<notin> fst ` set (pending_calls (note_replies rs c))"
  using note_fold_settled [OF assms(1)] assms(2) by (simp add: note_replies_def)

lemma note_replies_pending: "set (pending_calls (note_replies rs c)) \<subseteq> set (pending_calls c)"
  using note_fold_pending [of "zip (pending_calls c) rs" "c\<lparr>full_depth := 0\<rparr>"] by (simp add: note_replies_def)

lemma enqueue_loop_settled:
  assumes "typed S (view s)" and "\<forall>rd \<in> set rds. others_do rd = (\<lambda>_ s. s)" and "loop_inv n tot c"
    and "set (pending_calls c) \<subseteq> set calls" and "\<forall>p \<in> set calls. named (snd p)"
    and "only_settled old calls (fst ` set (pending_calls c)) (ents (qview S (view s)))"
    and "enqueue_loop R S started waited rds c s = Some (r, c', s')"
  shows "settled_end n old calls r (ents (qview S (view s')))"
  using assms
proof (induction rds arbitrary: waited c s)
  case (Cons rd rds)
  let ?ca = "count_as_of S waited"
  obtain rs s1 where a: "send_all R S ?ca (\<lambda>_ s. s) (map snd (pending_calls c)) s = (rs, s1)" by fastforce
  have named: "\<forall>p \<in> set (pending_calls c). named (snd p)" using Cons.prems(4,5) by auto
  then have nm: "\<forall>a \<in> set (map snd (pending_calls c)). named a" by simp
  obtain xs where x: "send R S ?ca (\<lambda>_ s. s) (map snd (pending_calls c)) s = (Inr xs, s1)"
    using a send_all_Inr [OF Cons.prems(1) a] by (auto simp: send_def)
  let ?c1 = "note_replies xs c"
  let ?c2 = "if \<not> waited \<and> is_block S then count_blocked ?c1 else ?c1"
  have o: "others_do rd = (\<lambda>_ s. s)" using Cons.prems(2) by simp
  have p2: "pending_calls ?c2 = pending_calls ?c1" by (simp add: count_blocked_def)
  have inv: "loop_inv n tot ?c2" using note_replies_inv [OF Cons.prems(3)] by simp
  have sub: "fst ` set (pending_calls ?c1) \<subseteq> fst ` set (pending_calls c)" "set (pending_calls ?c1) \<subseteq> set calls"
    using note_replies_pending [of xs c] Cons.prems(4) by auto
  note w = send_writes [OF Cons.prems(1) x named Cons.prems(4) Cons.prems(6) sub(1) note_replies_settled]
  show ?case
  proof (cases "pending_calls ?c1 = []")
    case True
    with Cons.prems(7) x o show ?thesis by (auto simp: settled_end_def Let_def)
  next
    case False
    show ?thesis
    proof (cases "\<not> is_block S \<or> checked_at rd \<ge> started + block_timeout S")
      case True
      with Cons.prems(7) x o False give_up_settled [OF w(1) inv] w(2) p2 show ?thesis by (simp add: Let_def)
    next
      case go: False
      have "enqueue_loop R S started True rds ?c2 s1 = Some (r, c', s')"
        using Cons.prems(7) x o False go by (simp add: Let_def)
      from Cons.IH [OF w(1) _ inv _ Cons.prems(5) _ this] Cons.prems(2) w(2) sub(2) p2
      show ?thesis by simp
    qed
  qed
qed simp

lemma refused_wrote_nothing:
  assumes "typed S (view s)" and q: "\<forall>rd \<in> set rounds. others_do rd = (\<lambda>_ s. s)" and d: "distinct (map fst jobs)"
    and run: "enqueue_many R S pc started rounds jobs s = Some (QueueFull depth acc, pc', s')"
    and i: "i < length jobs" "acc ! i = None" and e: "e \<in> set (ents (qview S (view s')))"
  shows "e \<in> set (ents (qview S (view s))) \<or> dict_get (snd e) ''job_id'' \<noteq> Some (fst (jobs ! i))"
proof -
  let ?calls = "enumerate 0 (map (\<lambda>p. client_args (fst p) (snd p)) jobs)"
  let ?c = "\<lparr>pending_calls = ?calls, accepted_ids = replicate (length jobs) None, full_depth = 0, counters = pc\<rparr>"
  obtain c' where r: "enqueue_loop R S started False rounds ?c s = Some (QueueFull depth acc, c', s')"
    using run by (auto simp: enqueue_many_def split: if_splits)
  have "settled_end (length jobs) (ents (qview S (view s))) ?calls (QueueFull depth acc) (ents (qview S (view s')))"
    by (rule enqueue_loop_settled [OF assms(1) q enqueue_start_inv _ _ _ r])
      (auto simp: only_settled_def in_set_enumerate_eq)
  with e consider "e \<in> set (ents (qview S (view s)))" | k a where "(k, a) \<in> set ?calls"
      "k \<notin> {i. i < length jobs \<and> acc ! i = None}" "dict_get (snd e) ''job_id'' = Some (ca_job_id a)"
    unfolding settled_end_def only_settled_def by (simp only: enqueue_result.case) blast
  then show ?thesis
  proof cases
    case 2
    then have "k < length jobs" "ca_job_id a = fst (jobs ! k)" "k \<noteq> i"
      using i by (auto simp: in_set_enumerate_eq client_args_def Let_def)
    with 2(3) d i(1) show ?thesis by (auto simp: distinct_conv_nth)
  qed simp
qed

end

end
