(* ===== verification/Example_Client.thy ===== *)
theory Example_Client
  imports Example_Run Client
begin

text \<open>
  Calls of the client on the queue at the brim of \<open>Example_Run\<close>: a job that is refused, and
  settings under which the producer waits.
\<close>

definition demo_jobs :: "(string \<times> new_job) list" where
  "demo_jobs = [(''02'', \<lparr>nj_type = ''send_email'', nj_payload = [], nj_key = None\<rparr>)]"

definition demo_round :: "rat \<Rightarrow> rdb round" where
  "demo_round now = \<lparr>others_do = (\<lambda>_ s. s), checked_at = now\<rparr>"

lemma demo_refused:
  "\<exists>s'. enqueue_many json_redis demo_small no_counters 0 [demo_round 0] demo_jobs (server demo_brim) =
     Some (QueueFull 1 [None], no_counters\<lparr>pc_rejected := 1\<rparr>, s')"
proof -
  let ?args = "client_args ''02'' \<lparr>nj_type = ''send_email'', nj_payload = [], nj_key = None\<rparr>"
  obtain r s1 where run: "enqueue_call json_redis demo_small (ca_key ?args) (ca_job_id ?args) ''rejected''
      (flat_of (ca_fields ?args)) (server demo_brim) = (r, s1)" by fastforce
  have t: "typed demo_small (server demo_brim)"
    using demo_small_queue.sys_invD(1) [OF demo_small_queue.forever_inv [OF demo_start_ok demo_brim_reached]] by simp
  have "ca_key ?args = None" by (simp add: client_args_def Let_def)
  then have "r = Inr ('''', - 1, 1)"
    using demo_small_queue.run_spec(1) [OF implements_enqueue json_server.enqueue_call_doc _ TrueI run, simplified, OF t]
    by (simp add: demo_brim_view q_enqueue_def now_full_def q_depth_def empty_queue_def demo_small_high Let_def)
  moreover have "mode demo_small = Reject" by (simp add: demo_small_def demo_settings_def default_settings_def)
  ultimately show ?thesis
    using run by (simp add: enqueue_many_def demo_jobs_def demo_round_def send_def note_replies_def note_reply_def
        count_as_of_def is_block_def give_up_def count_rejected_def status_full_def no_counters_def Let_def)
qed

text \<open>The same queue for a producer that waits for a twentieth of a second.\<close>

definition demo_blocking :: settings where
  "demo_blocking = demo_small\<lparr>mode := Block, block_timeout := 1 / 20\<rparr>"

lemma demo_blocking_valid: "make_settings demo_blocking = Inr demo_blocking"
  by code_simp

end
