(* ===== verification/Handler_Runs.thy ===== *)
theory Handler_Runs
  imports Worker
begin

text \<open>
  \<^verbatim>\<open>src/ftq/worker.py\<close>, one handler run: the \<^verbatim>\<open>_Run\<close> record with its clock, the waiting loop of
  \<^verbatim>\<open>_run_handler\<close>, what an ended run gives the task, and the warm-up of a process pool. The
  event loop wakes a waiting coroutine; what it finds on each wake (the loop time and the run)
  is an argument, one element per wake, so a loop that has not returned is \<open>None\<close>.
\<close>

section \<open>Number formatting\<close>

text \<open>Python's \<^verbatim>\<open>{x:g}\<close> for a positive number: six significant digits, trailing zeros dropped.\<close>

definition round_even :: "rat \<Rightarrow> int" where
  "round_even x =
     (let f = \<lfloor>x\<rfloor>; r = x - of_int f
      in if r < 1 / 2 then f else if r > 1 / 2 then f + 1 else if even f then f else f + 1)"

definition scale10 :: "rat \<Rightarrow> int \<Rightarrow> rat" where
  "scale10 x e = (if e \<ge> 0 then x * 10 ^ nat e else x / 10 ^ nat (- e))"

definition dec_exponent :: "rat \<Rightarrow> int" where
  "dec_exponent x =
     (if x \<ge> 1 then int (length (str_nat (nat \<lfloor>x\<rfloor>))) - 1
      else (case find (\<lambda>k. scale10 x (int k) \<ge> 1) [1 ..< length (str_nat (nat \<lfloor>1 / x\<rfloor>)) + 2] of
              None \<Rightarrow> 0 | Some k \<Rightarrow> - int k))"

definition strip_zeros :: "string \<Rightarrow> string" where
  "strip_zeros s = rev (dropWhile ((=) CHR ''0'') (rev s))"

definition with_point :: "string \<Rightarrow> string \<Rightarrow> string" where
  "with_point a b = (if strip_zeros b = [] then a else a @ CHR ''.'' # strip_zeros b)"

definition fmt_g :: "rat \<Rightarrow> string" where
  "fmt_g x =
     (if x = 0 then ''0'' else
      let e0 = dec_exponent x; m0 = nat (round_even (scale10 x (5 - e0)));
          carry = (m0 = 10 ^ 6);
          m = (if carry then 10 ^ 5 else m0); e = (if carry then e0 + 1 else e0);
          ds = str_nat m
      in if e < - 4 \<or> e \<ge> 6 then
           with_point (take 1 ds) (drop 1 ds) @ CHR ''e'' # (if e < 0 then CHR ''-'' else CHR ''+'')
             # (if \<bar>e\<bar> < 10 then ''0'' else []) @ str_int \<bar>e\<bar>
         else if e \<ge> 0 then with_point (take (nat e + 1) ds) (drop (nat e + 1) ds)
         else with_point ''0'' (replicate (nat (- e) - 1) CHR ''0'' @ ds))"

section \<open>Runs\<close>

text \<open>
  What a handler returns: a value \<^verbatim>\<open>json.dumps\<close> can write, or an object of some class it
  refuses. A future is waiting, holds a result or an exception, or was cancelled.
\<close>

datatype py_value = Plain json | Opaque string

datatype fut = Waiting | Ok py_value | Exc py_exc | Cancelled

record run =
  r_kind :: run_kind_value
  r_future :: fut
  r_thread :: "fut option"
  r_pool :: "nat option"
  r_started :: "rat option"
  clock_running :: bool

fun kind_text :: "run_kind_value \<Rightarrow> string" where
  "kind_text RunAsync = ''async''"
| "kind_text RunThread = ''thread''"
| "kind_text RunProcess = ''process''"

definition new_run :: "run_kind_value \<Rightarrow> rat \<Rightarrow> run" where
  "new_run k now = \<lparr>r_kind = k, r_future = Waiting,
     r_thread = (if k = RunThread then Some Waiting else None), r_pool = None,
     r_started = Some now, clock_running = True\<rparr>"

definition start_clock :: "rat \<Rightarrow> run \<Rightarrow> run" where
  "start_clock now r = r\<lparr>r_started := Some now, clock_running := True\<rparr>"

definition stop_clock :: "run \<Rightarrow> run" where
  "stop_clock r = r\<lparr>r_started := None, clock_running := False\<rparr>"

definition start_run :: "handler_spec \<Rightarrow> rat \<Rightarrow> run" where
  "start_run spec now =
     (let r = new_run (run_kind spec) now in if run_kind spec = RunProcess then stop_clock r else r)"

definition clock_ok :: "run \<Rightarrow> bool" where
  "clock_ok r \<longleftrightarrow> (clock_running r \<longleftrightarrow> r_started r \<noteq> None)"

lemma clock_ok_intros [simp]:
  "clock_ok (start_clock now r)" "clock_ok (stop_clock r)" "clock_ok (start_run spec now)"
  by (simp_all add: clock_ok_def start_clock_def stop_clock_def start_run_def new_run_def Let_def)

section \<open>The waiting loop\<close>

definition run_timeout :: "settings \<Rightarrow> handler_spec \<Rightarrow> rat" where
  "run_timeout S spec =
     (case spec_timeout spec of None \<Rightarrow> job_timeout S | Some t \<Rightarrow> if t = 0 then job_timeout S else t)"

datatype wait_end = Ended run | Overdue run rat

fun await_run :: "rat \<Rightarrow> rat \<Rightarrow> run \<Rightarrow> (rat \<times> run) list \<Rightarrow> wait_end option" where
  "await_run timeout now r wakes =
     (if r_future r \<noteq> Waiting then Some (Ended r)
      else (case r_started r of
              Some t \<Rightarrow>
                (if t + timeout - now \<le> 0 then Some (Overdue r now)
                 else (case wakes of [] \<Rightarrow> None | w # ws \<Rightarrow> await_run timeout (fst w) (snd w) ws))
            | None \<Rightarrow>
                (case wakes of [] \<Rightarrow> None | w # ws \<Rightarrow> await_run timeout (fst w) (snd w) ws)))"

declare await_run.simps [simp del]

definition timeout_error :: "rat \<Rightarrow> run \<Rightarrow> py_exc" where
  "timeout_error timeout r = PyExc ''HandlerTimeout''
     (''run exceeded its '' @ fmt_g timeout @ ''s timeout ('' @ kind_text (r_kind r) @ '' handler)'')"

text \<open>
  How the attempt ends. A result that is not JSON is a failed attempt; a run that ended
  cancelled raises through the task (\<^verbatim>\<open>CancelledError\<close> is not an \<^verbatim>\<open>Exception\<close>), which then
  settles nothing.
\<close>

definition run_end :: "rat \<Rightarrow> wait_end \<Rightarrow> handler_end option" where
  "run_end timeout e = (case e of
       Overdue r _ \<Rightarrow> Some (TimedOut (timeout_error timeout r))
     | Ended r \<Rightarrow>
         (case r_future r of
            Ok (Plain v) \<Rightarrow> Some (Returned (dumps v))
          | Ok (Opaque c) \<Rightarrow> Some (Raised (PyExc ''TypeError''
              (''Object of type '' @ c @ '' is not JSON serializable'')))
          | Exc x \<Rightarrow> Some (Raised x)
          | _ \<Rightarrow> None))"

text \<open>
  The contract of \<^verbatim>\<open>asyncio.wait\<close>: a wake finds the run ended, or its deadline as it was
  before the wait reached, or (with the clock stopped) the clock started meanwhile. A run may
  have been restarted in between: its start time then differs.
\<close>

definition wake_ok :: "rat \<Rightarrow> run \<Rightarrow> rat \<times> run \<Rightarrow> bool" where
  "wake_ok timeout r w \<longleftrightarrow> r_future (snd w) \<noteq> Waiting \<or>
     (case r_started r of Some t \<Rightarrow> t + timeout \<le> fst w | None \<Rightarrow> r_started (snd w) \<noteq> None)"

fun wakes_ok :: "rat \<Rightarrow> run \<Rightarrow> (rat \<times> run) list \<Rightarrow> bool" where
  "wakes_ok timeout r [] \<longleftrightarrow> True"
| "wakes_ok timeout r (w # ws) \<longleftrightarrow> wake_ok timeout r w \<and> wakes_ok timeout (snd w) ws"

text \<open>How often a wake finds the clock changed.\<close>

fun restarts :: "run \<Rightarrow> (rat \<times> run) list \<Rightarrow> nat" where
  "restarts r [] = 0"
| "restarts r (w # ws) = (if r_started (snd w) = r_started r then 0 else 1) + restarts (snd w) ws"

lemma overdue_deadline:
  "await_run timeout now r wakes = Some (Overdue r' t) \<Longrightarrow>
   r_future r' = Waiting \<and> (\<exists>st. r_started r' = Some st \<and> st + timeout \<le> t) \<and>
   (t, r') \<in> set ((now, r) # wakes)"
proof (induction wakes arbitrary: now r)
  case Nil
  then show ?case by (subst (asm) await_run.simps) (auto split: if_splits option.splits)
next
  case (Cons w ws)
  show ?case
    using Cons.prems Cons.IH [of "fst w" "snd w"]
    by (subst (asm) await_run.simps) (auto split: if_splits option.splits)
qed

lemma ended_future:
  "await_run timeout now r wakes = Some (Ended r') \<Longrightarrow>
   r_future r' \<noteq> Waiting \<and> r' \<in> set (r # map snd wakes)"
proof (induction wakes arbitrary: now r)
  case Nil
  then show ?case by (subst (asm) await_run.simps) (auto split: if_splits option.splits)
next
  case (Cons w ws)
  show ?case
    using Cons.prems Cons.IH [of "fst w" "snd w"]
    by (subst (asm) await_run.simps) (auto split: if_splits option.splits)
qed

lemma await_run_returns:
  "wakes_ok timeout r wakes \<Longrightarrow> restarts r wakes < length wakes \<Longrightarrow>
   await_run timeout now r wakes \<noteq> None"
proof (induction wakes arbitrary: now r)
  case (Cons w ws)
  show ?case
  proof (cases "r_future r = Waiting \<and> (\<forall>t. r_started r = Some t \<longrightarrow> now < t + timeout)")
    case False
    then show ?thesis by (subst await_run.simps) (auto split: option.splits)
  next
    case True
    then have next_wake: "await_run timeout now r (w # ws) = await_run timeout (fst w) (snd w) ws"
      by (subst await_run.simps) (auto split: option.splits)
    show ?thesis
    proof (cases "r_started (snd w) = r_started r")
      case False
      with Cons show ?thesis by (auto simp: next_wake)
    next
      case same: True
      from Cons.prems(1) same have "r_future (snd w) \<noteq> Waiting \<or>
          (\<exists>t. r_started (snd w) = Some t \<and> t + timeout \<le> fst w)"
        by (auto simp: wake_ok_def split: option.splits)
      then have "await_run timeout (fst w) (snd w) ws \<noteq> None"
        by (subst await_run.simps) (auto split: option.splits)
      then show ?thesis by (simp add: next_wake)
    qed
  qed
qed simp


section \<open>Warming up a process pool\<close>

definition pool_start_timeout :: rat where
  "pool_start_timeout = 120"

definition warm_up_hold :: rat where
  "warm_up_hold = 5 / 100"

datatype warm = Warming | Warm | StartFailed py_exc

text \<open>
  A round submits one task per child and gives the loop time when all have answered, with
  their pids, or the exception the executor raised.
\<close>

fun warm_up :: "nat \<Rightarrow> rat \<Rightarrow> rat \<Rightarrow> nat list \<Rightarrow> (rat \<times> (py_exc + nat list)) list \<Rightarrow> warm option" where
  "warm_up n started now ready rounds =
     (if length ready < n then
        (if now - started > pool_start_timeout then
           Some (StartFailed (PyExc ''BrokenProcessPool''
             (str_nat (n - length ready) @ '' of '' @ str_nat n @ '' pool children not ready after ''
                @ fmt_g pool_start_timeout @ ''s'')))
         else (case rounds of
                 [] \<Rightarrow> None
               | (now', Inl x) # _ \<Rightarrow> Some (StartFailed x)
               | (now', Inr pids) # rs \<Rightarrow> warm_up n started now' (remdups (ready @ pids)) rs))
      else Some Warm)"

declare warm_up.simps [simp del]

text \<open>Every answer of a round comes after its child's pause.\<close>

fun paced :: "rat \<Rightarrow> (rat \<times> (py_exc + nat list)) list \<Rightarrow> bool" where
  "paced now [] \<longleftrightarrow> True"
| "paced now (r # rs) \<longleftrightarrow> (isl (snd r) \<or> now + warm_up_hold \<le> fst r \<and> paced (fst r) rs)"

definition pids_of :: "(rat \<times> (py_exc + nat list)) list \<Rightarrow> nat set" where
  "pids_of rounds = (\<Union>r \<in> set rounds. case snd r of Inl _ \<Rightarrow> {} | Inr pids \<Rightarrow> set pids)"

lemma warm_up_all_answered:
  "warm_up n started now ready rounds = Some Warm \<Longrightarrow> distinct ready \<Longrightarrow>
   n \<le> card (set ready \<union> pids_of rounds)"
proof (induction rounds arbitrary: now ready)
  case Nil
  then show ?case
    by (subst (asm) warm_up.simps) (auto simp: pids_of_def distinct_card split: if_splits)
next
  case (Cons r rs)
  show ?case
  proof (cases "length ready < n")
    case False
    have "card (set ready) \<le> card (set ready \<union> pids_of (r # rs))"
      by (rule card_mono) (auto simp: pids_of_def split: sum.splits)
    with False Cons.prems(2) show ?thesis by (simp add: distinct_card)
  next
    case True
    with Cons.prems obtain now' pids where r: "r = (now', Inr pids)"
      and w: "warm_up n started now' (remdups (ready @ pids)) rs = Some Warm"
      by (subst (asm) warm_up.simps) (auto split: if_splits sum.splits prod.splits)
    have "set (remdups (ready @ pids)) \<union> pids_of rs = set ready \<union> pids_of (r # rs)"
      by (auto simp: pids_of_def r)
    with Cons.IH [OF w] show ?thesis by simp
  qed
qed

lemma warm_up_ends:
  "paced now rounds \<Longrightarrow> pool_start_timeout < now - started + of_nat (length rounds) * warm_up_hold \<Longrightarrow>
   warm_up n started now ready rounds \<noteq> None"
proof (induction rounds arbitrary: now ready)
  case Nil
  then show ?case by (subst warm_up.simps) auto
next
  case (Cons r rs)
  show ?case
  proof (cases "isl (snd r)")
    case True
    then show ?thesis by (subst warm_up.simps) (auto split: prod.splits sum.splits)
  next
    case False
    with Cons.prems have p: "paced (fst r) rs" "now + warm_up_hold \<le> fst r" by simp_all
    have "pool_start_timeout < fst r - started + of_nat (length rs) * warm_up_hold"
      using Cons.prems(2) p(2) by (simp add: algebra_simps)
    from Cons.IH [OF p(1) this] show ?thesis
      by (subst warm_up.simps) (auto split: prod.splits sum.splits)
  qed
qed

end
