(* ===== verification/Worker_Node.thy ===== *)
theory Worker_Node
  imports Handler_Runs Protocol
begin

text \<open>
  \<^verbatim>\<open>src/ftq/worker.py\<close>, the state of one worker process and what its event loop does to it: the
  fetch loop, the tasks and their runs, the process pool and its resets, orphaned runs, the
  drain. A step of \<open>node_step\<close> is what runs between two \<^verbatim>\<open>await\<close>s, or an event from outside (a
  thread returns, a pool child dies, a stop is requested, other clients change the server).
  Tasks, runs and pools are numbered; a run and its orphan carry their task's number.
\<close>

section \<open>State\<close>

text \<open>A call over the network: no reply even after the client's retries, or the server's reply.\<close>

datatype 'a net = Down | Reply "redis_error + 'a"

datatype stage = Spawned eid fields nat | Running handler_spec | Settling | Over

record worker =
  worker_id :: string
  stop_set :: bool
  in_flight :: "nat list"
  suspects :: "nat list"
  next_reap :: rat
  cursor :: eid
  stages :: "nat \<Rightarrow> stage"
  runs :: "nat \<Rightarrow> run option"
  thread_pool :: bool
  process_pool :: "nat option"
  process_modules :: "string list"
  pool_ready :: "nat \<Rightarrow> warm"
  waits_for :: "nat \<Rightarrow> nat option"
  reset_pools :: "nat list"
  process_slots :: int
  orphans :: "nat list"
  orphan_threads :: "nat list"
  tasks_made :: nat
  pools_made :: nat

definition modules_of :: "registry \<Rightarrow> string list" where
  "modules_of reg =
     sort (remdups (map (\<lambda>e. fn_module (spec_fn (snd e)))
       (filter (\<lambda>e. run_kind (snd e) = RunProcess) reg)))"

definition ttl_problem :: "settings \<Rightarrow> registry \<Rightarrow> bool" where
  "ttl_problem S reg \<longleftrightarrow> (\<exists>e \<in> set reg. case spec_timeout (snd e) of
     None \<Rightarrow> False | Some t \<Rightarrow> check_ttl_covers S t \<noteq> Inr ())"

definition init_worker :: "settings \<Rightarrow> registry \<Rightarrow> string \<Rightarrow> config_error + worker" where
  "init_worker S reg wid =
     (if ttl_problem S reg then Inl TtlTooShort
      else Inr \<lparr>worker_id = wid, stop_set = False, in_flight = [], suspects = [], next_reap = 0,
        cursor = (0, 0), stages = (\<lambda>_. Over), runs = Map.empty, thread_pool = False,
        process_pool = None, process_modules = modules_of reg, pool_ready = (\<lambda>_. Warming),
        waits_for = Map.empty, reset_pools = [], process_slots = process_pool_size S,
        orphans = [], orphan_threads = [], tasks_made = 0, pools_made = 0\<rparr>)"

definition request_stop :: "worker \<Rightarrow> worker" where
  "request_stop W = W\<lparr>stop_set := True\<rparr>"

section \<open>The fetch loop\<close>

datatype phase = AtTop | InReap int int | InRead int | Stopped | LoopFailed redis_error

definition free_slots :: "settings \<Rightarrow> worker \<Rightarrow> int" where
  "free_slots S W = concurrency S - int (length (in_flight W)) - int (length (orphans W))"

text \<open>The top of the loop, up to the reaper call or the read; with no free slot it waits.\<close>

definition fetch_top :: "settings \<Rightarrow> rat \<Rightarrow> worker \<Rightarrow> phase" where
  "fetch_top S now W =
     (if stop_set W then Stopped
      else let free = free_slots S W in
        if free \<le> 0 then AtTop
        else if now \<ge> next_reap W then InReap free (if suspects W = [] then 1 else 0)
        else InRead free)"

definition spawn :: "worker \<Rightarrow> eid \<Rightarrow> fields \<Rightarrow> nat \<Rightarrow> nat \<times> worker" where
  "spawn W i fs n = (tasks_made W, W\<lparr>in_flight := in_flight W @ [tasks_made W],
     stages := (stages W)(tasks_made W := Spawned i fs n), tasks_made := Suc (tasks_made W)\<rparr>)"

text \<open>The callbacks that run when a task is done.\<close>

definition task_done :: "nat \<Rightarrow> worker \<Rightarrow> worker" where
  "task_done t W = W\<lparr>in_flight := filter ((\<noteq>) t) (in_flight W),
     suspects := filter ((\<noteq>) t) (suspects W), stages := (stages W)(t := Over)\<rparr>"

definition reap_spawn :: "settings \<Rightarrow> claimed \<Rightarrow> worker \<Rightarrow> worker" where
  "reap_spawn S c W =
     (case spawn W (c_entry_id c) (c_fields c) (c_deliveries c) of (t, W') \<Rightarrow>
        if is_suspect c S then W'\<lparr>suspects := suspects W' @ [t]\<rparr> else W')"

definition reap_result :: "settings \<Rightarrow> rat \<Rightarrow> int \<Rightarrow> (claimed list \<times> bool \<times> eid) net \<Rightarrow> worker
    \<Rightarrow> phase \<times> worker" where
  "reap_result S now free r W =
     (case r of
        Down \<Rightarrow> (InRead free, W\<lparr>next_reap := now + reap_interval S\<rparr>)
      | Reply (Inl e) \<Rightarrow> (LoopFailed e, W)
      | Reply (Inr (cs, rest, cur)) \<Rightarrow>
          (let W1 = W\<lparr>cursor := cur, next_reap := now + (if rest then 0 else reap_interval S)\<rparr>;
               left = free - int (length cs)
           in (if left = 0 then AtTop else InRead left, fold (reap_spawn S) cs W1)))"

definition read_result :: "(eid \<times> fields) list net \<Rightarrow> worker \<Rightarrow> phase \<times> worker" where
  "read_result r W =
     (case r of
        Down \<Rightarrow> (AtTop, W)
      | Reply (Inl e) \<Rightarrow> (LoopFailed e, W)
      | Reply (Inr es) \<Rightarrow> (AtTop, fold (\<lambda>e W. snd (spawn W (fst e) (snd e) 1)) es W))"

section \<open>Runs\<close>

definition set_run :: "nat \<Rightarrow> run \<Rightarrow> worker \<Rightarrow> worker" where
  "set_run t r W = W\<lparr>runs := (runs W)(t \<mapsto> r)\<rparr>"

definition set_stage :: "nat \<Rightarrow> stage \<Rightarrow> worker \<Rightarrow> worker" where
  "set_stage t g W = W\<lparr>stages := (stages W)(t := g)\<rparr>"

text \<open>
  A task starts: an entry that must not run goes straight to its transition; a run in the
  process pool waits for a permit of the semaphore; the thread pool is made on first use.
\<close>

definition begin_run :: "rat \<Rightarrow> nat \<Rightarrow> handler_spec \<Rightarrow> worker \<Rightarrow> worker" where
  "begin_run now t spec W =
     (if run_kind spec = RunProcess \<and> process_slots W \<le> 0 then W
      else (set_run t (start_run spec now) (set_stage t (Running spec) W))
        \<lparr>process_slots := process_slots W - (if run_kind spec = RunProcess then 1 else 0),
         thread_pool := (thread_pool W \<or> run_kind spec = RunThread)\<rparr>)"

definition begin_task :: "settings \<Rightarrow> registry \<Rightarrow> (parse_error \<Rightarrow> py_exc) \<Rightarrow> rat \<Rightarrow> nat \<Rightarrow> worker \<Rightarrow> worker" where
  "begin_task S reg xt now t W =
     (case stages W t of
        Spawned i fs n \<Rightarrow>
          (case triage S reg xt i fs n of
             Bury _ _ _ _ \<Rightarrow> set_stage t Settling W
           | Run j spec \<Rightarrow> begin_run now t spec W)
      | _ \<Rightarrow> W)"

text \<open>Leaving the \<^verbatim>\<open>async with slot\<close> block.\<close>

definition leave_slot :: "handler_spec \<Rightarrow> worker \<Rightarrow> worker" where
  "leave_slot spec W =
     W\<lparr>process_slots := process_slots W + (if run_kind spec = RunProcess then 1 else 0)\<rparr>"

definition run_over :: "nat \<Rightarrow> worker \<Rightarrow> worker" where
  "run_over t W =
     (case (stages W t, runs W t) of
        (Running spec, Some r) \<Rightarrow>
          (if r_future r \<noteq> Waiting then leave_slot spec (set_stage t Settling W) else W)
      | _ \<Rightarrow> W)"

definition reset_process_pool :: "nat \<Rightarrow> worker \<Rightarrow> worker" where
  "reset_process_pool p W =
     W\<lparr>process_pool := (if process_pool W = Some p then None else process_pool W),
       reset_pools := List.insert p (reset_pools W)\<rparr>"

definition thread_running :: "worker \<Rightarrow> nat \<Rightarrow> bool" where
  "thread_running W t = (case runs W t of None \<Rightarrow> False | Some r \<Rightarrow> r_thread r = Some Waiting)"

definition threads_still_running :: "worker \<Rightarrow> nat" where
  "threads_still_running W = length (filter (thread_running W) (orphan_threads W))"

text \<open>
  \<^verbatim>\<open>run.future.cancel()\<close>: an async handler only sees the request at its next await and may
  swallow it; the future of a thread or process run is cancelled, the thread goes on.
\<close>

definition cancel_future :: "run \<Rightarrow> run" where
  "cancel_future r =
     (if r_kind r \<noteq> RunAsync \<and> r_future r = Waiting then r\<lparr>r_future := Cancelled\<rparr> else r)"

definition orphan_over :: "run \<Rightarrow> bool" where
  "orphan_over r = (case r_thread r of None \<Rightarrow> r_future r \<noteq> Waiting | Some f \<Rightarrow> f \<noteq> Waiting)"

definition stop_run :: "nat \<Rightarrow> run \<Rightarrow> bool \<Rightarrow> worker \<Rightarrow> worker" where
  "stop_run t r abandoning W =
     (let r1 = cancel_future r; W1 = set_run t r1 W in
      if r_kind r = RunProcess then
        (case r_pool r of
           Some p \<Rightarrow> if abandoning then W1 else reset_process_pool p W1
         | None \<Rightarrow> W1)
      else if orphan_over r1 then W1
      else
        (let W2 = (if r_thread r \<noteq> None
                   then W1\<lparr>orphan_threads := filter (thread_running W1) (orphan_threads W1) @ [t]\<rparr>
                   else W1)
         in W2\<lparr>orphans := List.insert t (orphans W2)\<rparr>))"

text \<open>The end of \<^verbatim>\<open>_run_handler\<close> when the deadline has passed.\<close>

definition run_times_out :: "settings \<Rightarrow> rat \<Rightarrow> nat \<Rightarrow> worker \<Rightarrow> worker" where
  "run_times_out S now t W =
     (case (stages W t, runs W t) of
        (Running spec, Some r) \<Rightarrow>
          (case r_started r of
             None \<Rightarrow> W
           | Some st \<Rightarrow>
               (if r_future r = Waiting \<and> st + run_timeout S spec - now \<le> 0
                then leave_slot spec (set_stage t Settling (stop_run t r False W)) else W))
      | _ \<Rightarrow> W)"

text \<open>A done callback of an orphan: \<^verbatim>\<open>finished\<close>.\<close>

definition orphan_finished :: "nat \<Rightarrow> worker \<Rightarrow> worker" where
  "orphan_finished t W =
     (case runs W t of
        Some r \<Rightarrow> if orphan_over r then W\<lparr>orphans := filter ((\<noteq>) t) (orphans W)\<rparr> else W
      | None \<Rightarrow> W)"

section \<open>Runs in the process pool\<close>

definition ready_processes :: "worker \<Rightarrow> nat \<times> worker" where
  "ready_processes W =
     (case process_pool W of
        Some p \<Rightarrow> (p, W)
      | None \<Rightarrow>
          (let p = pools_made W in
           (p, W\<lparr>process_pool := Some p, pool_ready := (pool_ready W)(p := Warming),
                pools_made := Suc p\<rparr>)))"

text \<open>The head of the loop in \<^verbatim>\<open>_run_in_process\<close>: the clock stops, the run waits for the pool.\<close>

definition await_pool :: "nat \<Rightarrow> run \<Rightarrow> worker \<Rightarrow> worker" where
  "await_pool t r W =
     (case ready_processes W of (p, W1) \<Rightarrow>
        (set_run t (stop_clock r) W1)\<lparr>waits_for := (waits_for W1)(t \<mapsto> p)\<rparr>)"

definition pool_answered :: "rat \<Rightarrow> nat \<Rightarrow> worker \<Rightarrow> worker" where
  "pool_answered now t W =
     (case (runs W t, waits_for W t) of
        (Some r, Some p) \<Rightarrow>
          (let W1 = W\<lparr>waits_for := (waits_for W)(t := None)\<rparr> in
           case pool_ready W p of
             Warming \<Rightarrow> W
           | Warm \<Rightarrow> set_run t (start_clock now (r\<lparr>r_pool := Some p\<rparr>)) W1
           | StartFailed x \<Rightarrow> set_run t (r\<lparr>r_future := Exc x\<rparr>) W1)
      | _ \<Rightarrow> W)"

datatype exec_end = ExecValue py_value | ExecRaised py_exc | ExecBroken string

text \<open>What \<^verbatim>\<open>run_in_executor\<close> gives, and what the loop makes of it.\<close>

definition exec_ended :: "nat \<Rightarrow> exec_end \<Rightarrow> worker \<Rightarrow> worker" where
  "exec_ended t e W =
     (case runs W t of
        None \<Rightarrow> W
      | Some r \<Rightarrow>
          (case (r_pool r, e) of
             (None, _) \<Rightarrow> W
           | (Some p, ExecValue v) \<Rightarrow> set_run t (r\<lparr>r_future := Ok v\<rparr>) W
           | (Some p, ExecRaised x) \<Rightarrow> set_run t (r\<lparr>r_future := Exc x\<rparr>) W
           | (Some p, ExecBroken msg) \<Rightarrow>
               (if p \<in> set (reset_pools W) then await_pool t r W
                else set_run t (r\<lparr>r_future := Exc (PyExc ''BrokenProcessPool'' msg)\<rparr>)
                  (W\<lparr>process_pool := (if process_pool W = Some p then None else process_pool W)\<rparr>))))"

definition in_executor :: "nat \<Rightarrow> worker \<Rightarrow> bool" where
  "in_executor t W \<longleftrightarrow> (\<exists>r. runs W t = Some r \<and> r_kind r = RunProcess \<and> r_future r = Waiting \<and>
     r_pool r \<noteq> None \<and> r_started r \<noteq> None)"

section \<open>Shutting down\<close>

text \<open>
  The tasks still pending after the grace period are cancelled: a running one stops its run,
  and all of them end without a transition.
\<close>

definition abandon :: "nat \<Rightarrow> worker \<Rightarrow> worker" where
  "abandon t W =
     task_done t (case (stages W t, runs W t) of
        (Running spec, Some r) \<Rightarrow> leave_slot spec (stop_run t r True W)
      | _ \<Rightarrow> W)"

text \<open>\<^verbatim>\<open>_drain\<close>: \<open>pending\<close> are the tasks \<^verbatim>\<open>asyncio.wait\<close> reports after the grace period.\<close>

definition drain :: "nat list \<Rightarrow> worker \<Rightarrow> bool \<times> worker" where
  "drain pending W =
     (if in_flight W = [] then (False, W)
      else if pending = [] then (False, W)
      else (True, fold abandon pending W))"

datatype shutdown_action = ShutdownThreads bool | TerminateChildren nat | ShutdownProcesses nat

definition shutdown_pools :: "bool \<Rightarrow> worker \<Rightarrow> shutdown_action list" where
  "shutdown_pools abandoned W =
     (if thread_pool W
      then [ShutdownThreads (\<not> (abandoned \<or> threads_still_running W > 0))] else []) @
     (case process_pool W of
        None \<Rightarrow> []
      | Some p \<Rightarrow> (if abandoned then [TerminateChildren p] else []) @ [ShutdownProcesses p])"


section \<open>Steps\<close>

record 's node =
  phase_of :: phase
  wk :: worker
  db :: 's

inductive node_step :: "'s redis_ops \<Rightarrow> settings \<Rightarrow> registry \<Rightarrow> (parse_error \<Rightarrow> py_exc) \<Rightarrow> 's node \<Rightarrow> 's node \<Rightarrow> bool"
  for R S reg xt where
  top: "phase_of z = AtTop \<Longrightarrow> node_step R S reg xt z (z\<lparr>phase_of := fetch_top S now (wk z)\<rparr>)"
| reap: "phase_of z = InReap free slots \<Longrightarrow>
    reclaim R S (worker_id (wk z)) (cursor (wk z)) (nat free) slots (db z) = (r, s') \<Longrightarrow>
    reap_result S now free (Reply r) (wk z) = (ph, W') \<Longrightarrow>
    node_step R S reg xt z \<lparr>phase_of = ph, wk = W', db = s'\<rparr>"
| reap_down: "phase_of z = InReap free slots \<Longrightarrow> reap_result S now free Down (wk z) = (ph, W') \<Longrightarrow>
    node_step R S reg xt z (z\<lparr>phase_of := ph, wk := W'\<rparr>)"
| read: "phase_of z = InRead free \<Longrightarrow> fetch R S (worker_id (wk z)) (nat free) (db z) = (r, s') \<Longrightarrow>
    read_result (Reply r) (wk z) = (ph, W') \<Longrightarrow>
    node_step R S reg xt z \<lparr>phase_of = ph, wk = W', db = s'\<rparr>"
| read_down: "phase_of z = InRead free \<Longrightarrow> read_result Down (wk z) = (ph, W') \<Longrightarrow>
    node_step R S reg xt z (z\<lparr>phase_of := ph, wk := W'\<rparr>)"
| begin_task: "t \<in> set (in_flight (wk z)) \<Longrightarrow>
    node_step R S reg xt z (z\<lparr>wk := begin_task S reg xt now t (wk z)\<rparr>)"
| run_over: "node_step R S reg xt z (z\<lparr>wk := run_over t (wk z)\<rparr>)"
| run_times_out: "node_step R S reg xt z (z\<lparr>wk := run_times_out S now t (wk z)\<rparr>)"
| settled: "stages (wk z) t = Settling \<Longrightarrow> node_step R S reg xt z (z\<lparr>wk := task_done t (wk z)\<rparr>)"
| async_ends: "runs (wk z) t = Some r \<Longrightarrow> r_kind r = RunAsync \<Longrightarrow> f \<noteq> Waiting \<Longrightarrow>
    node_step R S reg xt z (z\<lparr>wk := set_run t (r\<lparr>r_future := f\<rparr>) (wk z)\<rparr>)"
| thread_ends: "runs (wk z) t = Some r \<Longrightarrow> r_thread r = Some Waiting \<Longrightarrow> f \<noteq> Waiting \<Longrightarrow>
    node_step R S reg xt z (z\<lparr>wk := set_run t (r\<lparr>r_thread := Some f,
      r_future := (if r_future r = Waiting then f else r_future r)\<rparr>) (wk z)\<rparr>)"
| orphan_finished: "node_step R S reg xt z (z\<lparr>wk := orphan_finished t (wk z)\<rparr>)"
| enter_pool: "runs (wk z) t = Some r \<Longrightarrow> r_kind r = RunProcess \<Longrightarrow> r_future r = Waiting \<Longrightarrow>
    r_started r = None \<Longrightarrow> waits_for (wk z) t = None \<Longrightarrow>
    node_step R S reg xt z (z\<lparr>wk := await_pool t r (wk z)\<rparr>)"
| pool_answered: "runs (wk z) t = Some r \<Longrightarrow> r_kind r = RunProcess \<Longrightarrow> r_future r = Waiting \<Longrightarrow>
    node_step R S reg xt z (z\<lparr>wk := pool_answered now t (wk z)\<rparr>)"
| exec_ended: "in_executor t (wk z) \<Longrightarrow> node_step R S reg xt z (z\<lparr>wk := exec_ended t e (wk z)\<rparr>)"
| warmed: "pool_ready (wk z) p = Warming \<Longrightarrow>
    node_step R S reg xt z (z\<lparr>wk := (wk z)\<lparr>pool_ready := (pool_ready (wk z))(p := v)\<rparr>\<rparr>)"
| stop: "node_step R S reg xt z (z\<lparr>wk := request_stop (wk z)\<rparr>)"
| abandon: "phase_of z = Stopped \<or> phase_of z = LoopFailed err \<Longrightarrow> t \<in> set (in_flight (wk z)) \<Longrightarrow>
    node_step R S reg xt z (z\<lparr>wk := abandon t (wk z)\<rparr>)"
| elsewhere: "node_step R S reg xt z (z\<lparr>db := s'\<rparr>)"

section \<open>Invariants\<close>

text \<open>
  A slot is taken by a task in flight or by an orphaned run; between the timeout of a run and
  the end of its task both hold the same slot. What the fetch loop has decided to fill counts
  as taken.
\<close>

definition busy :: "worker \<Rightarrow> nat set" where
  "busy W = set (in_flight W) \<union> set (orphans W)"

fun budget :: "phase \<Rightarrow> int" where
  "budget (InReap free _) = free"
| "budget (InRead free) = free"
| "budget _ = 0"

fun suspect_budget :: "phase \<Rightarrow> int" where
  "suspect_budget (InReap _ slots) = slots"
| "suspect_budget _ = 0"

definition cap_inv :: "settings \<Rightarrow> phase \<Rightarrow> worker \<Rightarrow> bool" where
  "cap_inv S ph W \<longleftrightarrow> distinct (in_flight W) \<and> distinct (orphans W) \<and>
     (\<forall>t \<in> busy W. t < tasks_made W) \<and> 0 \<le> budget ph \<and>
     int (card (busy W)) + budget ph \<le> concurrency S"

definition suspect_inv :: "phase \<Rightarrow> worker \<Rightarrow> bool" where
  "suspect_inv ph W \<longleftrightarrow> set (suspects W) \<subseteq> set (in_flight W) \<and> distinct (suspects W) \<and>
     0 \<le> suspect_budget ph \<and> int (length (suspects W)) + suspect_budget ph \<le> 1"

definition holders :: "worker \<Rightarrow> nat set" where
  "holders W = {t. \<exists>spec. stages W t = Running spec \<and> run_kind spec = RunProcess}"

definition slot_inv :: "settings \<Rightarrow> worker \<Rightarrow> bool" where
  "slot_inv S W \<longleftrightarrow> finite (holders W) \<and> process_slots W = process_pool_size S - int (card (holders W)) \<and>
     0 \<le> process_slots W"

text \<open>
  A task with something left to do is in flight; a running one has a run of its handler's
  kind; a thread that still runs is an orphan or its task still waits for it.
\<close>

definition task_inv :: "worker \<Rightarrow> nat \<Rightarrow> bool" where
  "task_inv W t \<longleftrightarrow>
     (stages W t \<noteq> Over \<longrightarrow> t \<in> set (in_flight W)) \<and>
     (\<forall>spec. stages W t = Running spec \<longrightarrow> (\<exists>r. runs W t = Some r \<and> r_kind r = run_kind spec)) \<and>
     (tasks_made W \<le> t \<longrightarrow> runs W t = None) \<and>
     (\<forall>r. runs W t = Some r \<longrightarrow> r_thread r = Some Waiting \<longrightarrow>
        r_kind r = RunThread \<and>
        (t \<in> set (orphans W) \<or> r_future r = Waiting \<and> (\<exists>spec. stages W t = Running spec)))"

definition stage_inv :: "worker \<Rightarrow> bool" where
  "stage_inv W \<longleftrightarrow> (\<forall>t. task_inv W t)"

definition pool_inv :: "worker \<Rightarrow> bool" where
  "pool_inv W \<longleftrightarrow>
     (\<forall>p. process_pool W = Some p \<longrightarrow> p < pools_made W) \<and>
     (\<forall>t p. waits_for W t = Some p \<longrightarrow> p < pools_made W) \<and>
     (\<forall>t r. runs W t = Some r \<and> r_kind r = RunProcess \<and> r_started r \<noteq> None \<longrightarrow>
        (\<exists>p. r_pool r = Some p \<and> p < pools_made W \<and> pool_ready W p = Warm))"

definition worker_inv :: "settings \<Rightarrow> phase \<Rightarrow> worker \<Rightarrow> bool" where
  "worker_inv S ph W \<longleftrightarrow> cap_inv S ph W \<and> suspect_inv ph W \<and> slot_inv S W \<and> stage_inv W \<and> pool_inv W"

lemmas op_defs = set_run_def set_stage_def begin_run_def begin_task_def leave_slot_def run_over_def
  reset_process_pool_def stop_run_def run_times_out_def orphan_finished_def task_done_def

lemma busy_finite [simp]: "finite (busy W)"
  by (simp add: busy_def)

lemma cap_same:
  assumes "cap_inv S ph W" and "in_flight W' = in_flight W" and "orphans W' = orphans W"
    and "tasks_made W' = tasks_made W"
  shows "cap_inv S ph W'"
  using assms by (simp add: cap_inv_def busy_def)

lemma suspect_same:
  assumes "suspect_inv ph W" and "in_flight W' = in_flight W" and "suspects W' = suspects W"
  shows "suspect_inv ph W'"
  using assms by (simp add: suspect_inv_def)

lemma slot_same:
  assumes "slot_inv S W" and "stages W' = stages W" and "process_slots W' = process_slots W"
  shows "slot_inv S W'"
  using assms by (simp add: slot_inv_def holders_def)

lemma pool_same:
  assumes "pool_inv W" and "runs W' = runs W" and "process_pool W' = process_pool W"
    and "waits_for W' = waits_for W" and "pool_ready W' = pool_ready W" and "pools_made W' = pools_made W"
  shows "pool_inv W'"
  using assms unfolding pool_inv_def by metis

lemma cap_shrinks:
  assumes "cap_inv S ph W" and "distinct (in_flight W')" "distinct (orphans W')"
    and "busy W' \<subseteq> busy W" and "tasks_made W' = tasks_made W"
  shows "cap_inv S ph W'"
proof -
  have "card (busy W') \<le> card (busy W)" using assms(4) by (simp add: card_mono)
  with assms show ?thesis unfolding cap_inv_def by auto
qed


lemma worker_invI:
  assumes "cap_inv S ph W" "suspect_inv ph W" "slot_inv S W" "stage_inv W" "pool_inv W"
  shows "worker_inv S ph W"
  using assms by (simp add: worker_inv_def)

lemma worker_invD:
  assumes "worker_inv S ph W"
  shows "cap_inv S ph W" "suspect_inv ph W" "slot_inv S W" "stage_inv W" "pool_inv W"
  using assms by (simp_all add: worker_inv_def)

lemma holders_stage:
  "holders (set_stage t g W) =
     (if \<exists>spec. g = Running spec \<and> run_kind spec = RunProcess then insert t (holders W) else holders W - {t})"
  by (auto simp: holders_def set_stage_def)

lemma holders_same: "stages W' = stages W \<Longrightarrow> holders W' = holders W"
  by (simp add: holders_def)

text \<open>An operation that concerns one task leaves the others as they are.\<close>

lemma stage_step:
  assumes W: "stage_inv W" and t: "task_inv W' t"
    and other: "\<And>u. u \<noteq> t \<Longrightarrow> stages W' u = stages W u" "\<And>u. u \<noteq> t \<Longrightarrow> runs W' u = runs W u"
      "\<And>u. u \<noteq> t \<Longrightarrow> u \<in> set (in_flight W) \<Longrightarrow> u \<in> set (in_flight W')"
      "\<And>u. u \<noteq> t \<Longrightarrow> u \<in> set (orphans W) \<Longrightarrow> u \<in> set (orphans W')"
      "tasks_made W \<le> tasks_made W'"
  shows "stage_inv W'"
proof -
  have "task_inv W' u" if "u \<noteq> t" for u
  proof -
    from W have "task_inv W u" by (simp add: stage_inv_def)
    then show ?thesis
      unfolding task_inv_def other(1,2) [OF that] using other(3,4) [OF that] other(5) by auto
  qed
  with t show ?thesis unfolding stage_inv_def by metis
qed

lemma stage_same:
  assumes "stage_inv W" and "in_flight W' = in_flight W" "stages W' = stages W" "runs W' = runs W"
    "orphans W' = orphans W" "tasks_made W' = tasks_made W"
  shows "stage_inv W'"
  using assms unfolding stage_inv_def task_inv_def by metis

lemma stage_invD:
  assumes "stage_inv W"
  shows "stages W t \<noteq> Over \<Longrightarrow> t \<in> set (in_flight W)"
    and "runs W t = Some r \<Longrightarrow> t < tasks_made W"
    and "runs W t = Some r \<Longrightarrow> r_thread r = Some Waiting \<Longrightarrow>
      r_kind r = RunThread \<and>
      (t \<in> set (orphans W) \<or> r_future r = Waiting \<and> (\<exists>spec. stages W t = Running spec))"
    and "stages W t = Running spec \<Longrightarrow> \<exists>r. runs W t = Some r \<and> r_kind r = run_kind spec"
  using assms unfolding stage_inv_def task_inv_def by (metis not_less option.distinct(1))+

lemma spawn_inv:
  assumes W: "cap_inv S ph W" "suspect_inv ph W" "slot_inv S W" "stage_inv W" "pool_inv W"
    and ph': "0 \<le> budget ph'" "budget ph' + 1 \<le> budget ph"
      "0 \<le> suspect_budget ph'" "suspect_budget ph' \<le> suspect_budget ph"
  shows "worker_inv S ph' (snd (spawn W i fs n))"
proof (rule worker_invI)
  let ?W = "snd (spawn W i fs n)" and ?t = "tasks_made W"
  have t: "?t \<notin> busy W" using W(1) by (auto simp: cap_inv_def)
  then have "busy ?W = insert ?t (busy W)" by (auto simp: spawn_def busy_def)
  with t W(1) ph' show "cap_inv S ph' ?W"
    by (auto simp: cap_inv_def spawn_def busy_def intro: less_SucI)
  show "suspect_inv ph' ?W" using W(2) ph' by (auto simp: suspect_inv_def spawn_def)
  have "stages W ?t = Over" using W(4) t by (auto simp: stage_inv_def task_inv_def busy_def)
  then have "holders ?W = holders W" by (auto simp: holders_def spawn_def)
  with W(3) show "slot_inv S ?W" by (simp add: slot_inv_def) (simp add: spawn_def)
  show "stage_inv ?W"
  proof (rule stage_step [OF W(4)])
    show "task_inv ?W ?t" using W(4) by (auto simp: stage_inv_def task_inv_def spawn_def)
  qed (auto simp: spawn_def)
  show "pool_inv ?W" using W(5) by (rule pool_same) (simp_all add: spawn_def)
qed

lemma slot_leave:
  assumes "slot_inv S W" and "stages W t = Running spec" and "\<forall>spec. g \<noteq> Running spec"
    and "stages W' = (stages W)(t := g)"
    and "process_slots W' = process_slots W + (if run_kind spec = RunProcess then 1 else 0)"
  shows "slot_inv S W'"
proof -
  have h: "holders W' = holders W - {t}" using assms(3,4) by (auto simp: holders_def)
  show ?thesis
  proof (cases "run_kind spec = RunProcess")
    case True
    with assms(2) have "t \<in> holders W" by (auto simp: holders_def)
    with assms(1) have "int (card (holders W - {t})) = int (card (holders W)) - 1"
      using card_Suc_Diff1 [of "holders W" t] by (simp add: slot_inv_def)
    with assms True show ?thesis by (simp add: slot_inv_def h)
  next
    case False
    with assms(2) have "t \<notin> holders W" by (auto simp: holders_def)
    with assms False show ?thesis by (simp add: slot_inv_def h)
  qed
qed

lemma stop_run_frame:
  "in_flight (stop_run t r ab W) = in_flight W" "suspects (stop_run t r ab W) = suspects W"
  "stages (stop_run t r ab W) = stages W" "process_slots (stop_run t r ab W) = process_slots W"
  "tasks_made (stop_run t r ab W) = tasks_made W" "waits_for (stop_run t r ab W) = waits_for W"
  "pool_ready (stop_run t r ab W) = pool_ready W" "pools_made (stop_run t r ab W) = pools_made W"
  "runs (stop_run t r ab W) = (runs W)(t \<mapsto> cancel_future r)"
  by (auto simp: stop_run_def set_run_def reset_process_pool_def Let_def split: option.split)

lemma stop_run_orphans:
  "set (orphans (stop_run t r ab W)) = set (orphans W) \<union>
     (if r_kind r \<noteq> RunProcess \<and> \<not> orphan_over (cancel_future r) then {t} else {})"
  by (auto simp: stop_run_def set_run_def reset_process_pool_def Let_def split: option.split)

lemma stop_run_distinct: "distinct (orphans W) \<Longrightarrow> distinct (orphans (stop_run t r ab W))"
  by (auto simp: stop_run_def set_run_def reset_process_pool_def Let_def split: option.split)

lemma stop_run_pool: "process_pool (stop_run t r ab W) \<in> {process_pool W, None}"
  by (auto simp: stop_run_def set_run_def reset_process_pool_def Let_def split: option.split)

lemma cancel_future_frame [simp]:
  "r_kind (cancel_future r) = r_kind r" "r_thread (cancel_future r) = r_thread r"
  "r_pool (cancel_future r) = r_pool r" "r_started (cancel_future r) = r_started r"
  by (simp_all add: cancel_future_def)

lemma stop_run_cap:
  assumes "cap_inv S ph W" and "t \<in> set (in_flight W)"
  shows "cap_inv S ph (stop_run t r ab W)"
proof (rule cap_shrinks [OF assms(1)])
  show "distinct (in_flight (stop_run t r ab W))" "distinct (orphans (stop_run t r ab W))"
    using assms(1) by (simp_all add: cap_inv_def stop_run_frame stop_run_distinct)
  show "busy (stop_run t r ab W) \<subseteq> busy W"
    using assms(2) by (auto simp: busy_def stop_run_frame stop_run_orphans split: if_splits)
qed (simp add: stop_run_frame)

lemma pool_shrinks:
  assumes "pool_inv W" and "process_pool W' \<in> {process_pool W, None}"
    and "waits_for W' = waits_for W" and "pool_ready W' = pool_ready W" and "pools_made W' = pools_made W"
    and "\<And>t r. runs W' t = Some r \<Longrightarrow> r_kind r = RunProcess \<Longrightarrow> r_started r \<noteq> None \<Longrightarrow>
      (\<exists>r0. runs W t = Some r0 \<and> r_kind r0 = RunProcess \<and> r_started r0 \<noteq> None \<and> r_pool r0 = r_pool r)"
  shows "pool_inv W'"
proof -
  have "\<exists>p. r_pool r = Some p \<and> p < pools_made W' \<and> pool_ready W' p = Warm"
    if r: "runs W' t = Some r" "r_kind r = RunProcess" "r_started r \<noteq> None" for t r
  proof -
    from assms(6) [OF r] obtain r0 where "runs W t = Some r0" "r_kind r0 = RunProcess" "r_started r0 \<noteq> None"
      "r_pool r0 = r_pool r" by blast
    with assms(1) show ?thesis unfolding pool_inv_def assms(4,5) by metis
  qed
  moreover have "\<forall>p. process_pool W' = Some p \<longrightarrow> p < pools_made W'"
    using assms(1,2,5) by (auto simp: pool_inv_def)
  ultimately show ?thesis using assms(1) unfolding pool_inv_def assms(3,5) by blast
qed

lemma stop_run_pool_inv:
  assumes "pool_inv W" and "runs W t = Some r"
  shows "pool_inv (stop_run t r ab W)"
  by (rule pool_shrinks [OF assms(1) stop_run_pool])
    (use assms(2) in \<open>auto simp: stop_run_frame split: if_splits\<close>)

text \<open>The task of a stopped run moves on; its thread, if still alive, is an orphan.\<close>

lemma stop_run_stage:
  assumes W: "stage_inv W" and r: "runs W t = Some r" and g: "\<forall>spec. g \<noteq> Running spec"
    and t: "t \<in> set (in_flight W)"
  shows "stage_inv (set_stage t g (stop_run t r ab W))"
proof (rule stage_step [OF W])
  have "r_kind r \<noteq> RunProcess \<and> \<not> orphan_over (cancel_future r)" if "r_thread r = Some Waiting"
    using stage_invD(3) [OF W r that] that by (auto simp: orphan_over_def)
  with stage_invD(2,3) [OF W r] g t show "task_inv (set_stage t g (stop_run t r ab W)) t"
    by (auto simp: task_inv_def set_stage_def stop_run_frame stop_run_orphans)
qed (auto simp: set_stage_def stop_run_frame stop_run_orphans)

lemma leave_slot_frame [simp]:
  "in_flight (leave_slot spec W) = in_flight W" "suspects (leave_slot spec W) = suspects W"
  "stages (leave_slot spec W) = stages W" "orphans (leave_slot spec W) = orphans W"
  "tasks_made (leave_slot spec W) = tasks_made W" "waits_for (leave_slot spec W) = waits_for W"
  "pool_ready (leave_slot spec W) = pool_ready W" "pools_made (leave_slot spec W) = pools_made W"
  "runs (leave_slot spec W) = runs W" "process_pool (leave_slot spec W) = process_pool W"
  by (simp_all add: leave_slot_def)

lemma set_stage_frame [simp]:
  "in_flight (set_stage t g W) = in_flight W" "suspects (set_stage t g W) = suspects W"
  "stages (set_stage t g W) = (stages W)(t := g)" "orphans (set_stage t g W) = orphans W"
  "tasks_made (set_stage t g W) = tasks_made W" "waits_for (set_stage t g W) = waits_for W"
  "pool_ready (set_stage t g W) = pool_ready W" "pools_made (set_stage t g W) = pools_made W"
  "runs (set_stage t g W) = runs W" "process_pool (set_stage t g W) = process_pool W"
  "process_slots (set_stage t g W) = process_slots W"
  by (simp_all add: set_stage_def)

lemma timeout_inv:
  assumes W: "worker_inv S ph W" and t: "stages W t = Running spec" "runs W t = Some r"
  shows "worker_inv S ph (leave_slot spec (set_stage t Settling (stop_run t r ab W)))"
proof (rule worker_invI)
  note D = worker_invD [OF W]
  have f: "t \<in> set (in_flight W)" using stage_invD(1) [OF D(4)] t(1) by simp
  show "cap_inv S ph (leave_slot spec (set_stage t Settling (stop_run t r ab W)))"
    by (rule cap_same [OF stop_run_cap [OF D(1) f]]) simp_all
  show "suspect_inv ph (leave_slot spec (set_stage t Settling (stop_run t r ab W)))"
    by (rule suspect_same [OF D(2)]) (simp_all add: stop_run_frame)
  show "slot_inv S (leave_slot spec (set_stage t Settling (stop_run t r ab W)))"
    by (rule slot_leave [OF D(3) t(1), where g = Settling]) (simp_all add: stop_run_frame leave_slot_def)
  show "stage_inv (leave_slot spec (set_stage t Settling (stop_run t r ab W)))"
    by (rule stage_same [OF stop_run_stage [OF D(4) t(2) _ f]]) simp_all
  show "pool_inv (leave_slot spec (set_stage t Settling (stop_run t r ab W)))"
    by (rule pool_same [OF stop_run_pool_inv [OF D(5) t(2)]]) simp_all
qed


lemma begin_run_inv:
  assumes W: "worker_inv S ph W" and t: "stages W t = Spawned i fs n"
  shows "worker_inv S ph (begin_run now t spec W)"
proof (cases "run_kind spec = RunProcess \<and> process_slots W \<le> 0")
  case True
  with W show ?thesis by (simp add: begin_run_def)
next
  case False
  note D = worker_invD [OF W]
  let ?W = "begin_run now t spec W"
  have f: "t \<in> set (in_flight W)" using stage_invD(1) [OF D(4)] t by simp
  have b: "in_flight ?W = in_flight W" "orphans ?W = orphans W" "tasks_made ?W = tasks_made W"
    "suspects ?W = suspects W" "stages ?W = (stages W)(t := Running spec)"
    "runs ?W = (runs W)(t \<mapsto> start_run spec now)" "process_pool ?W = process_pool W"
    "waits_for ?W = waits_for W" "pool_ready ?W = pool_ready W" "pools_made ?W = pools_made W"
    "process_slots ?W = process_slots W - (if run_kind spec = RunProcess then 1 else 0)"
    using False by (auto simp: begin_run_def set_run_def)
  show ?thesis
  proof (rule worker_invI)
    show "cap_inv S ph ?W" "suspect_inv ph ?W"
      by (rule cap_same [OF D(1)] suspect_same [OF D(2)]; simp add: b)+
    have "t \<notin> holders W" using t by (simp add: holders_def)
    moreover have "holders ?W = (if run_kind spec = RunProcess then insert t (holders W) else holders W)"
      using t by (auto simp: holders_def b)
    ultimately show "slot_inv S ?W" using D(3) False by (auto simp: slot_inv_def b)
    have "t < tasks_made W" using f D(1) by (auto simp: cap_inv_def busy_def)
    then show "stage_inv ?W"
      using f by (intro stage_step [OF D(4), where t = t])
        (auto simp: b task_inv_def start_run_def new_run_def stop_clock_def Let_def split: if_splits)
    show "pool_inv ?W"
      by (rule pool_shrinks [OF D(5)])
        (auto simp: b start_run_def new_run_def stop_clock_def Let_def split: if_splits)
  qed
qed

lemma settling_inv:
  assumes W: "worker_inv S ph W" and t: "stages W t = Spawned i fs n"
  shows "worker_inv S ph (set_stage t Settling W)"
proof (rule worker_invI)
  note D = worker_invD [OF W]
  show "cap_inv S ph (set_stage t Settling W)" "suspect_inv ph (set_stage t Settling W)"
    by (rule cap_same [OF D(1)] suspect_same [OF D(2)]; simp)+
  have "holders (set_stage t Settling W) = holders W" using t by (auto simp: holders_def)
  with D(3) show "slot_inv S (set_stage t Settling W)" by (simp add: slot_inv_def)
  have "task_inv W t" using D(4) by (simp add: stage_inv_def)
  with t have "task_inv (set_stage t Settling W) t" by (auto simp: task_inv_def)
  then show "stage_inv (set_stage t Settling W)" by (rule stage_step [OF D(4)]) auto
  show "pool_inv (set_stage t Settling W)" by (rule pool_same [OF D(5)]) simp_all
qed

lemma begin_task_inv:
  "worker_inv S ph W \<Longrightarrow> worker_inv S ph (begin_task S reg xt now t W)"
  by (auto simp: begin_task_def begin_run_inv settling_inv split: stage.split triage.split)

lemma run_over_inv:
  assumes W: "worker_inv S ph W"
  shows "worker_inv S ph (run_over t W)"
proof (cases "\<exists>spec r. stages W t = Running spec \<and> runs W t = Some r \<and> r_future r \<noteq> Waiting")
  case False
  then have "run_over t W = W" by (auto simp: run_over_def split: stage.split option.split)
  with W show ?thesis by simp
next
  case True
  then obtain spec r where t: "stages W t = Running spec" "runs W t = Some r" "r_future r \<noteq> Waiting" by blast
  let ?W = "leave_slot spec (set_stage t Settling W)"
  note D = worker_invD [OF W]
  have "worker_inv S ph ?W"
  proof (rule worker_invI)
    show "cap_inv S ph ?W" "suspect_inv ph ?W"
      by (rule cap_same [OF D(1)] suspect_same [OF D(2)]; simp)+
    show "slot_inv S ?W"
      by (rule slot_leave [OF D(3) t(1), where g = Settling]) (simp_all add: leave_slot_def)
    show "pool_inv ?W" by (rule pool_same [OF D(5)]) simp_all
    have "task_inv ?W t" using D(4) t by (auto simp: stage_inv_def task_inv_def)
    then show "stage_inv ?W" by (rule stage_step [OF D(4)]) auto
  qed
  with t show ?thesis by (simp add: run_over_def)
qed

lemma run_times_out_inv:
  assumes W: "worker_inv S ph W"
  shows "worker_inv S ph (run_times_out S now t W)"
  using timeout_inv [OF W] W
  by (auto simp: run_times_out_def split: stage.split option.split)

text \<open>A task that has nothing running ends.\<close>

lemma task_done_inv:
  assumes W: "worker_inv S ph W" and t: "\<forall>spec. stages W t \<noteq> Running spec"
  shows "worker_inv S ph (task_done t W)"
proof (rule worker_invI)
  note D = worker_invD [OF W]
  have d: "in_flight (task_done t W) = filter ((\<noteq>) t) (in_flight W)"
    "suspects (task_done t W) = filter ((\<noteq>) t) (suspects W)" "stages (task_done t W) = (stages W)(t := Over)"
    "orphans (task_done t W) = orphans W" "runs (task_done t W) = runs W" "tasks_made (task_done t W) = tasks_made W"
    by (simp_all add: task_done_def)
  show "cap_inv S ph (task_done t W)"
    by (rule cap_shrinks [OF D(1)]) (use D(1) in \<open>auto simp: d cap_inv_def busy_def\<close>)
  have "int (length (filter ((\<noteq>) t) (suspects W))) + suspect_budget ph \<le> 1"
    using D(2) length_filter_le [of "(\<noteq>) t" "suspects W"] unfolding suspect_inv_def by linarith
  with D(2) show "suspect_inv ph (task_done t W)" by (auto simp: suspect_inv_def d)
  have "holders (task_done t W) = holders W" using t by (auto simp: holders_def d)
  with D(3) show "slot_inv S (task_done t W)" by (simp add: slot_inv_def) (simp add: task_done_def)
  have "task_inv (task_done t W) t" using D(4) t by (auto simp: stage_inv_def task_inv_def d)
  then show "stage_inv (task_done t W)" by (rule stage_step [OF D(4)]) (auto simp: d)
  show "pool_inv (task_done t W)" by (rule pool_same [OF D(5)]) (simp_all add: task_done_def)
qed

lemma abandon_inv:
  assumes W: "worker_inv S ph W"
  shows "worker_inv S ph (abandon t W)"
proof (cases "\<exists>spec. stages W t = Running spec")
  case True
  then obtain spec r where t: "stages W t = Running spec" "runs W t = Some r"
    using stage_invD(4) [OF worker_invD(4) [OF W]] by metis
  let ?V = "leave_slot spec (set_stage t Settling (stop_run t r True W))"
  have "task_done t ?V = abandon t W"
    by (simp add: abandon_def t task_done_def leave_slot_def set_stage_def)
  moreover have "worker_inv S ph (task_done t ?V)"
    by (rule task_done_inv [OF timeout_inv [OF W t]]) simp
  ultimately show ?thesis by simp
next
  case False
  then have "abandon t W = task_done t W" by (auto simp: abandon_def split: stage.split)
  with task_done_inv [OF W] False show ?thesis by simp
qed

lemma orphan_finished_inv:
  assumes W: "worker_inv S ph W"
  shows "worker_inv S ph (orphan_finished t W)"
proof (cases "\<exists>r. runs W t = Some r \<and> orphan_over r")
  case False
  then have "orphan_finished t W = W" by (auto simp: orphan_finished_def split: option.split)
  with W show ?thesis by simp
next
  case True
  then obtain r where r: "runs W t = Some r" "orphan_over r" by blast
  let ?W = "W\<lparr>orphans := filter ((\<noteq>) t) (orphans W)\<rparr>"
  note D = worker_invD [OF W]
  have "worker_inv S ph ?W"
  proof (rule worker_invI)
    show "cap_inv S ph ?W"
      by (rule cap_shrinks [OF D(1)]) (use D(1) in \<open>auto simp: cap_inv_def busy_def\<close>)
    show "suspect_inv ph ?W" "slot_inv S ?W"
      by (rule suspect_same [OF D(2)] slot_same [OF D(3)]; simp)+
    have "task_inv W t" using D(4) by (simp add: stage_inv_def)
    then have "task_inv ?W t" using r by (auto simp: task_inv_def orphan_over_def)
    then show "stage_inv ?W" by (rule stage_step [OF D(4)]) auto
    show "pool_inv ?W" by (rule pool_same [OF D(5)]) simp_all
  qed
  with r show ?thesis by (simp add: orphan_finished_def)
qed

text \<open>A run changes: its kind stays, its thread does not come back to life.\<close>

lemma set_run_inv:
  assumes W: "worker_inv S ph W" and r: "runs W t = Some r" and "r_kind r' = r_kind r"
    and th: "r_thread r' = Some Waiting \<Longrightarrow> r_thread r = Some Waiting \<and> r_future r' = r_future r"
    and pl: "r_kind r = RunProcess \<Longrightarrow> r_started r' \<noteq> None \<Longrightarrow> r_started r \<noteq> None \<and> r_pool r' = r_pool r"
  shows "worker_inv S ph (set_run t r' W)"
proof (rule worker_invI)
  note D = worker_invD [OF W]
  show "cap_inv S ph (set_run t r' W)" "suspect_inv ph (set_run t r' W)" "slot_inv S (set_run t r' W)"
    by (rule cap_same [OF D(1)] suspect_same [OF D(2)] slot_same [OF D(3)]; simp add: set_run_def)+
  have "task_inv W t" using D(4) by (simp add: stage_inv_def)
  then have "task_inv (set_run t r' W) t" using r th assms(3) by (auto simp: task_inv_def set_run_def)
  then show "stage_inv (set_run t r' W)" by (rule stage_step [OF D(4)]) (auto simp: set_run_def)
  show "pool_inv (set_run t r' W)"
    by (rule pool_shrinks [OF D(5)]) (use r pl assms(3) in \<open>auto simp: set_run_def split: if_splits\<close>)
qed


lemma pool_grows:
  assumes "pool_inv W" and "\<And>p. process_pool W' = Some p \<Longrightarrow> p < pools_made W'"
    and "\<And>t p. waits_for W' t = Some p \<Longrightarrow> p < pools_made W'"
    and "pools_made W \<le> pools_made W'"
    and "\<And>p. p < pools_made W \<Longrightarrow> pool_ready W p = Warm \<Longrightarrow> pool_ready W' p = Warm"
    and "\<And>t r. runs W' t = Some r \<Longrightarrow> r_kind r = RunProcess \<Longrightarrow> r_started r \<noteq> None \<Longrightarrow>
      (\<exists>p. r_pool r = Some p \<and> p < pools_made W \<and> pool_ready W p = Warm)"
  shows "pool_inv W'"
proof -
  have "\<exists>p. r_pool r = Some p \<and> p < pools_made W' \<and> pool_ready W' p = Warm"
    if "runs W' t = Some r" "r_kind r = RunProcess" "r_started r \<noteq> None" for t r
    using assms(6) [OF that] assms(4,5) by fastforce
  with assms(2,3) show ?thesis unfolding pool_inv_def by blast
qed

lemma pool_invD:
  assumes "pool_inv W"
  shows "process_pool W = Some p \<Longrightarrow> p < pools_made W" and "waits_for W t = Some p \<Longrightarrow> p < pools_made W"
    and "runs W t = Some r \<Longrightarrow> r_kind r = RunProcess \<Longrightarrow> r_started r \<noteq> None \<Longrightarrow>
      \<exists>p. r_pool r = Some p \<and> p < pools_made W \<and> pool_ready W p = Warm"
  using assms unfolding pool_inv_def by blast+

text \<open>What changes only runs of the process pool, the pools and who waits for them.\<close>

lemma pool_op_inv:
  assumes W: "worker_inv S ph W" and r: "runs W t = Some r" "r_kind r = RunProcess"
    and r': "runs W' = (runs W)(t \<mapsto> r')" "r_kind r' = RunProcess" "r_thread r' = r_thread r"
    and same: "in_flight W' = in_flight W" "orphans W' = orphans W" "tasks_made W' = tasks_made W"
      "suspects W' = suspects W" "stages W' = stages W" "process_slots W' = process_slots W"
    and "pool_inv W'"
  shows "worker_inv S ph W'"
proof (rule worker_invI)
  note D = worker_invD [OF W]
  show "cap_inv S ph W'" "suspect_inv ph W'" "slot_inv S W'"
    by (rule cap_same [OF D(1)] suspect_same [OF D(2)] slot_same [OF D(3)]; simp add: same)+
  have "task_inv W t" using D(4) by (simp add: stage_inv_def)
  then have "task_inv W' t" using r r' same by (auto simp: task_inv_def)
  then show "stage_inv W'" by (rule stage_step [OF D(4)]) (auto simp: r' same)
qed (fact assms(13))

lemma await_pool_frame:
  "runs (await_pool t r W) = (runs W)(t \<mapsto> stop_clock r)" "in_flight (await_pool t r W) = in_flight W"
  "orphans (await_pool t r W) = orphans W" "tasks_made (await_pool t r W) = tasks_made W"
  "suspects (await_pool t r W) = suspects W" "stages (await_pool t r W) = stages W"
  "process_slots (await_pool t r W) = process_slots W"
  by (simp_all add: await_pool_def ready_processes_def set_run_def Let_def split: option.split)

lemma await_pool_inv:
  assumes W: "worker_inv S ph W" and r: "runs W t = Some r" "r_kind r = RunProcess"
  shows "worker_inv S ph (await_pool t r W)"
proof (rule pool_op_inv [OF W r await_pool_frame(1)])
  note D = worker_invD [OF W]
  show "pool_inv (await_pool t r W)"
    by (rule pool_grows [OF D(5)])
      (use pool_invD [OF D(5)] in \<open>auto simp: await_pool_def ready_processes_def set_run_def stop_clock_def
         less_Suc_eq Let_def split: option.splits if_splits\<close>)
qed (simp_all add: await_pool_frame r stop_clock_def)

lemma pool_answered_inv:
  assumes W: "worker_inv S ph W" and r: "runs W t = Some r" "r_kind r = RunProcess"
  shows "worker_inv S ph (pool_answered now t W)"
proof (cases "\<exists>p. waits_for W t = Some p \<and> pool_ready W p \<noteq> Warming")
  case False
  then have "pool_answered now t W = W"
    by (auto simp: pool_answered_def Let_def split: option.split warm.split)
  with W show ?thesis by simp
next
  case True
  then obtain p where p: "waits_for W t = Some p" "pool_ready W p \<noteq> Warming" by blast
  note D = worker_invD [OF W]
  define r' where "r' = (case pool_ready W p of StartFailed x \<Rightarrow> r\<lparr>r_future := Exc x\<rparr>
      | _ \<Rightarrow> start_clock now (r\<lparr>r_pool := Some p\<rparr>))"
  have a: "pool_answered now t W = set_run t r' (W\<lparr>waits_for := (waits_for W)(t := None)\<rparr>)"
    using p r by (auto simp: pool_answered_def r'_def Let_def split: warm.split)
  have started: "r_started r' \<noteq> None \<Longrightarrow> \<exists>p. r_pool r' = Some p \<and> p < pools_made W \<and> pool_ready W p = Warm"
    using p pool_invD(2) [OF D(5) p(1)] pool_invD(3) [OF D(5) r]
    by (auto simp: r'_def start_clock_def split: warm.splits)
  show ?thesis unfolding a
  proof (rule pool_op_inv [OF W r, where r' = r'])
    show "pool_inv (set_run t r' (W\<lparr>waits_for := (waits_for W)(t := None)\<rparr>))"
      by (rule pool_grows [OF D(5)])
        (use pool_invD [OF D(5)] started in \<open>auto simp: set_run_def split: if_splits\<close>)
  qed (auto simp: set_run_def r r'_def start_clock_def split: warm.split)
qed

lemma exec_ended_inv:
  assumes W: "worker_inv S ph W" and r: "runs W t = Some r" "r_kind r = RunProcess" "r_pool r = Some p"
  shows "worker_inv S ph (exec_ended t e W)"
proof (cases e)
  case (ExecBroken msg)
  show ?thesis
  proof (cases "p \<in> set (reset_pools W)")
    case True
    with ExecBroken r await_pool_inv [OF W r(1,2)] show ?thesis by (simp add: exec_ended_def)
  next
    case False
    note D = worker_invD [OF W]
    show ?thesis
      by (rule pool_op_inv [OF W r(1,2), where r' = "r\<lparr>r_future := Exc (PyExc ''BrokenProcessPool'' msg)\<rparr>"])
        (use r False in \<open>auto simp: exec_ended_def ExecBroken set_run_def intro!: pool_shrinks [OF D(5)]
           split: if_splits\<close>)
  qed
qed (use r stage_invD(3) [OF worker_invD(4) [OF W] r(1)] in
      \<open>auto simp: exec_ended_def intro!: set_run_inv [OF W r(1)]\<close>)

lemma warmed_inv:
  assumes W: "worker_inv S ph W" and "pool_ready W p = Warming"
  shows "worker_inv S ph (W\<lparr>pool_ready := (pool_ready W)(p := v)\<rparr>)" (is "worker_inv S ph ?W")
proof (rule worker_invI)
  note D = worker_invD [OF W]
  show "cap_inv S ph ?W" "suspect_inv ph ?W" "slot_inv S ?W" "stage_inv ?W"
    by (rule cap_same [OF D(1)] suspect_same [OF D(2)] slot_same [OF D(3)] stage_same [OF D(4)]; simp)+
  show "pool_inv ?W"
    by (rule pool_grows [OF D(5)]) (use pool_invD [OF D(5)] assms(2) in \<open>auto\<close>)
qed

section \<open>How much the server may hand out\<close>

lemma autoclaim_length:
  "length (fst (snd (autoclaim c t mi es a n pel))) \<le> n"
  by (induction c t mi es a n pel rule: autoclaim.induct) (auto split: option.split prod.splits)

lemma d_xautoclaim_length:
  "d_xautoclaim k g c mi cur n v = (Inr (cur', cl, del), v') \<Longrightarrow> length cl \<le> n"
  by (auto simp: d_xautoclaim_def with_group_def Let_def split: option.splits prod.splits if_splits)
    (metis autoclaim_length fst_conv snd_conv)

lemma fold_script_rule:
  assumes "fold_script f acc xs s = (Inr acc', s')" and "I acc 0"
    and "\<And>a n x s a' s'. I a n \<Longrightarrow> f a x s = (Inr a', s') \<Longrightarrow> I a' (Suc n)"
  shows "I acc' (length xs)"
proof -
  have "I a n \<Longrightarrow> fold_script f a xs s = (Inr acc', s') \<Longrightarrow> I acc' (n + length xs)" for a n s
  proof (induction xs arbitrary: a n s)
    case (Cons x xs)
    from Cons.prems(2) obtain a1 s1 where "f a x s = (Inr a1, s1)" "fold_script f a1 xs s1 = (Inr acc', s')"
      by (auto simp: call_apply split: prod.splits sum.splits)
    with Cons.IH [of a1 "Suc n" s1] assms(3) [OF Cons.prems(1)] show ?case by simp
  qed simp
  from this [OF assms(2,1)] show ?thesis by simp
qed

definition suspects_in :: "settings \<Rightarrow> claimed list \<Rightarrow> nat" where
  "suspects_in S cs = length (filter (\<lambda>c. is_suspect c S) cs)"

definition raw_suspects :: "settings \<Rightarrow> (eid \<times> string list \<times> nat) list \<Rightarrow> nat" where
  "raw_suspects S out = length (filter (\<lambda>x. suspect_count S (snd (snd x))) out)"

lemma reclaim_one_bound:
  assumes "reclaim_one R k1 k3 g w mi (suspect_threshold S) (max_deliveries S) (slots, out) e s = (Inr (slots', out'), s')"
    and "0 \<le> slots"
  shows "0 \<le> slots'" "length out' \<le> Suc (length out)"
    "int (raw_suspects S out') + slots' = int (raw_suspects S out) + slots"
  using assms
  by (auto simp: reclaim_one_def call_apply raw_suspects_def suspect_count_def Let_def
      split: prod.splits sum.splits option.splits if_splits)

lemma to_claimed_bound:
  "to_claimed out = Some cs \<Longrightarrow> length cs = length out \<and> suspects_in S cs = raw_suspects S out"
  by (induction out arbitrary: cs rule: to_claimed.induct)
    (auto simp: suspects_in_def raw_suspects_def is_suspect_def suspect_count_def split: option.splits)

lemma call_InrE:
  assumes "call m k s = (Inr x, s')"
  obtains y s1 where "m s = (Inr y, s1)" "k y s1 = (Inr x, s')"
  using assms by (auto simp: call_apply split: prod.splits sum.splits)

lemma reclaims_bound:
  assumes "fold_script (reclaim_one R k1 k3 g w mi (suspect_threshold S) (max_deliveries S)) (slots, []) cl s =
      (Inr (slots', out), s')" and "0 \<le> slots"
  shows "length out \<le> length cl \<and> int (raw_suspects S out) \<le> slots"
proof -
  let ?I = "\<lambda>acc n. 0 \<le> fst acc \<and> length (snd acc) \<le> n \<and> int (raw_suspects S (snd acc)) + fst acc = slots"
  have "?I (slots', out) (length cl)"
  proof (rule fold_script_rule [OF assms(1), where I = ?I])
    fix a n x s a' s'
    assume "?I a n" and "reclaim_one R k1 k3 g w mi (suspect_threshold S) (max_deliveries S) a x s = (Inr a', s')"
    with reclaim_one_bound [of R k1 k3 g w mi S "fst a" "snd a" x s "fst a'" "snd a'" s']
    show "?I a' (Suc n)" by auto
  qed (use assms(2) in \<open>simp add: raw_suspects_def\<close>)
  then show ?thesis by simp
qed

context redis_service
begin

lemma reclaim_bound:
  assumes run: "reclaim R S w cur n slots s = (Inr (cs, b, cur'), s')" and "0 \<le> slots"
  shows "length cs \<le> n \<and> int (suspects_in S cs) \<le> slots"
proof -
  let ?K = "keys_of S" and ?mi = "py_trunc (visibility_timeout S * 1000)"
  obtain c' out del s1 where lua: "reclaim_lua R (stream_key ?K) (stats_key ?K) (reclaims_key ?K) (group S) w
      ?mi cur n slots (suspect_threshold S) (max_deliveries S) s = (Inr (c', out, del), s1)"
    and cs: "to_claimed out = Some cs"
    using run unfolding reclaim_def Let_def by (elim call_InrE) (auto split: prod.splits option.splits)
  obtain cl s2 slots' s3 where a: "XAUTOCLAIM R (stream_key ?K) (group S) w ?mi cur n s = (Inr (c', cl, del), s2)"
    and f: "fold_script (reclaim_one R (stream_key ?K) (reclaims_key ?K) (group S) w ?mi (suspect_threshold S)
      (max_deliveries S)) (slots, []) cl s2 = (Inr (slots', out), s3)"
    using lua unfolding reclaim_lua_def Let_def by (elim call_InrE) (auto elim!: call_InrE split: prod.splits)
  have "length cl \<le> n" using refinesD [OF XAUTOCLAIM_doc a] by (rule d_xautoclaim_length)
  with reclaims_bound [OF f assms(2)] to_claimed_bound [OF cs] show ?thesis by auto
qed

lemma fetch_bound:
  assumes "fetch R S w n s = (Inr es, s')"
  shows "length es \<le> n"
  using refinesD [OF XREADGROUP_doc assms [unfolded fetch_def]]
  by (auto simp: d_xreadgroup_def with_group_def Let_def split: option.splits if_splits)

end


section \<open>The fetch loop stays within its slots\<close>

lemma phase_weaken:
  assumes "worker_inv S ph W" and "0 \<le> budget ph'" "budget ph' \<le> budget ph"
    "0 \<le> suspect_budget ph'" "suspect_budget ph' \<le> suspect_budget ph"
  shows "worker_inv S ph' W"
  using assms by (auto simp: worker_inv_def cap_inv_def suspect_inv_def)

lemma reap_spawn_inv:
  assumes W: "worker_inv S (InReap f k) W" and "1 \<le> f" and k: "is_suspect c S \<Longrightarrow> 1 \<le> k"
  shows "worker_inv S (InReap (f - 1) (if is_suspect c S then k - 1 else k)) (reap_spawn S c W)"
proof -
  let ?k = "if is_suspect c S then k - 1 else k"
  let ?V = "snd (spawn W (c_entry_id c) (c_fields c) (c_deliveries c))"
  note D = worker_invD [OF W]
  have "0 \<le> ?k" using k D(2) by (auto simp: suspect_inv_def)
  then have V: "worker_inv S (InReap (f - 1) ?k) ?V"
    using assms(2) by (intro spawn_inv [OF D]) auto
  show ?thesis
  proof (cases "is_suspect c S")
    case False
    with V show ?thesis by (simp add: reap_spawn_def spawn_def)
  next
    case True
    let ?W = "?V\<lparr>suspects := suspects ?V @ [tasks_made W]\<rparr>"
    note E = worker_invD [OF V]
    have r: "reap_spawn S c W = ?W" using True by (simp add: reap_spawn_def spawn_def)
    have "tasks_made W \<notin> set (in_flight W)" using D(1) by (auto simp: cap_inv_def busy_def)
    with D(2) True k have "suspect_inv (InReap (f - 1) ?k) ?W"
      by (auto simp: suspect_inv_def spawn_def)
    moreover have "cap_inv S (InReap (f - 1) ?k) ?W" "slot_inv S ?W" "stage_inv ?W" "pool_inv ?W"
      by (rule cap_same [OF E(1)] slot_same [OF E(3)] stage_same [OF E(4)] pool_same [OF E(5)]; simp)+
    ultimately show ?thesis unfolding r by (intro worker_invI)
  qed
qed

lemma reap_spawns_inv:
  assumes "worker_inv S (InReap f k) W" and "int (length cs) \<le> f" and "int (suspects_in S cs) \<le> k"
  shows "worker_inv S (InReap (f - int (length cs)) (k - int (suspects_in S cs))) (fold (reap_spawn S) cs W)"
  using assms
proof (induction cs arbitrary: f k W)
  case (Cons c cs)
  have "worker_inv S (InReap (f - 1) (if is_suspect c S then k - 1 else k)) (reap_spawn S c W)"
    using Cons.prems by (intro reap_spawn_inv) (auto simp: suspects_in_def)
  from Cons.IH [OF this] Cons.prems(2,3) show ?case
    by (auto simp: suspects_in_def algebra_simps split: if_splits)
qed (simp add: suspects_in_def)

lemma read_spawns_inv:
  assumes "worker_inv S (InRead f) W" and "int (length es) \<le> f"
  shows "worker_inv S (InRead (f - int (length es))) (fold (\<lambda>e W. snd (spawn W (fst e) (snd e) 1)) es W)"
  using assms
proof (induction es arbitrary: f W)
  case (Cons e es)
  have "worker_inv S (InRead (f - 1)) (snd (spawn W (fst e) (snd e) 1))"
    using Cons.prems by (intro spawn_inv [OF worker_invD [OF Cons.prems(1)]]) auto
  from Cons.IH [OF this] Cons.prems(2) show ?case by (simp add: algebra_simps)
qed simp

lemma fetch_top_inv:
  assumes W: "worker_inv S AtTop W"
  shows "worker_inv S (fetch_top S now W) W"
proof -
  note D = worker_invD [OF W]
  have "int (card (busy W)) \<le> int (length (in_flight W)) + int (length (orphans W))"
    unfolding busy_def using card_Un_le [of "set (in_flight W)" "set (orphans W)"]
      card_length [of "in_flight W"] card_length [of "orphans W"] by linarith
  then have "cap_inv S (fetch_top S now W) W"
    using D(1) by (auto simp: fetch_top_def cap_inv_def free_slots_def Let_def)
  moreover have "suspect_inv (fetch_top S now W) W"
    using D(2) by (auto simp: fetch_top_def suspect_inv_def Let_def)
  ultimately show ?thesis using D by (intro worker_invI)
qed

definition node_inv :: "settings \<Rightarrow> 's node \<Rightarrow> bool" where
  "node_inv S z \<longleftrightarrow> worker_inv S (phase_of z) (wk z)"

lemma idle_cases:
  "worker_inv S ph W \<Longrightarrow> budget ph' = 0 \<Longrightarrow> suspect_budget ph' = 0 \<Longrightarrow> worker_inv S ph' W"
  by (rule phase_weaken) (auto simp: worker_inv_def cap_inv_def suspect_inv_def)

lemma reap_result_inv:
  assumes W: "worker_inv S (InReap f k) W" and "reap_result S now f r W = (ph, W')"
    and r: "\<And>cs b cur. r = Reply (Inr (cs, b, cur)) \<Longrightarrow> int (length cs) \<le> f \<and> int (suspects_in S cs) \<le> k"
  shows "worker_inv S ph W'"
proof -
  have set: "worker_inv S (InReap f k) (W\<lparr>next_reap := a\<rparr>)" "worker_inv S (InReap f k) (W\<lparr>cursor := c, next_reap := a\<rparr>)"
    for a c
    by (rule worker_invI; rule cap_same [OF worker_invD(1) [OF W]] suspect_same [OF worker_invD(2) [OF W]]
        slot_same [OF worker_invD(3) [OF W]] stage_same [OF worker_invD(4) [OF W]] pool_same [OF worker_invD(5) [OF W]]; simp)+
  have f: "0 \<le> f" "0 \<le> k" using worker_invD(1,2) [OF W] by (simp_all add: cap_inv_def suspect_inv_def)
  show ?thesis
  proof (cases r)
    case Down
    with assms(2) f show ?thesis by (auto simp: reap_result_def intro!: phase_weaken [OF set(1)])
  next
    case (Reply x)
    show ?thesis
    proof (cases x)
      case (Inl e)
      with assms(2) Reply W show ?thesis by (auto simp: reap_result_def intro: idle_cases)
    next
      case (Inr p)
      obtain cs b cur where p: "p = (cs, b, cur)" by (cases p)
      let ?W = "W\<lparr>cursor := cur, next_reap := now + (if b then 0 else reap_interval S)\<rparr>"
      have l: "int (length cs) \<le> f" "int (suspects_in S cs) \<le> k" using r Reply Inr p by auto
      have "worker_inv S (InReap (f - int (length cs)) (k - int (suspects_in S cs))) (fold (reap_spawn S) cs ?W)"
        by (rule reap_spawns_inv [OF set(2) l])
      from phase_weaken [OF this] assms(2) Reply Inr p l show ?thesis
        by (auto simp: reap_result_def Let_def split: if_splits)
    qed
  qed
qed

lemma read_result_inv:
  assumes W: "worker_inv S (InRead f) W" and "read_result r W = (ph, W')"
    and r: "\<And>es. r = Reply (Inr es) \<Longrightarrow> int (length es) \<le> f"
  shows "worker_inv S ph W'"
  using assms(2) idle_cases [OF W] idle_cases [OF read_spawns_inv [OF W r]]
  by (auto simp: read_result_def split: net.splits sum.splits)

context redis_service
begin

lemma node_step_inv:
  assumes z: "node_inv S z" and "node_step R S reg xt z z'"
  shows "node_inv S z'"
proof -
  have W: "worker_inv S (phase_of z) (wk z)" using z by (simp add: node_inv_def)
  have pos: "0 \<le> f" "0 \<le> k" if "phase_of z = InReap f k" for f k
    using W that by (simp_all add: worker_inv_def cap_inv_def suspect_inv_def)
  have posr: "0 \<le> f" if "phase_of z = InRead f" for f
    using W that by (simp add: worker_inv_def cap_inv_def)
  from assms(2) show ?thesis
  proof cases
    case (top now)
    with W fetch_top_inv show ?thesis by (simp add: node_inv_def)
  next
    case (reap f k r s' now ph W')
    have "worker_inv S ph W'"
      by (rule reap_result_inv [OF W [unfolded reap(2)] reap(4)])
        (use reclaim_bound reap(3) pos [OF reap(2)] in fastforce)
    with reap show ?thesis by (simp add: node_inv_def)
  next
    case (reap_down f k now ph W')
    have "worker_inv S ph W'" by (rule reap_result_inv [OF W [unfolded reap_down(2)] reap_down(3)]) simp
    with reap_down show ?thesis by (simp add: node_inv_def)
  next
    case (read f r s' ph W')
    have "worker_inv S ph W'"
      by (rule read_result_inv [OF W [unfolded read(2)] read(4)])
        (use fetch_bound read(3) posr [OF read(2)] in fastforce)
    with read show ?thesis by (simp add: node_inv_def)
  next
    case (read_down f ph W')
    have "worker_inv S ph W'" by (rule read_result_inv [OF W [unfolded read_down(2)] read_down(3)]) simp
    with read_down show ?thesis by (simp add: node_inv_def)
  next
    case (async_ends t r f)
    have "worker_inv S (phase_of z) (set_run t (r\<lparr>r_future := f\<rparr>) (wk z))"
      using stage_invD(3) [OF worker_invD(4) [OF W] async_ends(2)] async_ends
      by (intro set_run_inv [OF W async_ends(2)]) auto
    with async_ends show ?thesis by (simp add: node_inv_def)
  next
    case (thread_ends t r f)
    have "worker_inv S (phase_of z) (set_run t (r\<lparr>r_thread := Some f,
        r_future := (if r_future r = Waiting then f else r_future r)\<rparr>) (wk z))"
      using stage_invD(3) [OF worker_invD(4) [OF W] thread_ends(2,3)] thread_ends
      by (intro set_run_inv [OF W thread_ends(2)]) auto
    with thread_ends show ?thesis by (simp add: node_inv_def)
  next
    case (exec_ended t e)
    then obtain r p where "runs (wk z) t = Some r" "r_kind r = RunProcess" "r_pool r = Some p"
      by (auto simp: in_executor_def)
    with exec_ended_inv [OF W] exec_ended show ?thesis by (simp add: node_inv_def)
  next
    case stop
    have "worker_inv S (phase_of z) (request_stop (wk z))"
      by (rule worker_invI; rule cap_same [OF worker_invD(1) [OF W]] suspect_same [OF worker_invD(2) [OF W]]
        slot_same [OF worker_invD(3) [OF W]] stage_same [OF worker_invD(4) [OF W]] pool_same [OF worker_invD(5) [OF W]];
        simp add: request_stop_def)
    with stop show ?thesis by (simp add: node_inv_def)
  qed (use W in \<open>simp_all add: node_inv_def begin_task_inv run_over_inv run_times_out_inv task_done_inv
      orphan_finished_inv await_pool_inv pool_answered_inv warmed_inv abandon_inv\<close>)
qed

end


sublocale redis_service \<subseteq> node: invariant_system "node_step R S reg xt" "node_inv S" for S reg xt
  by unfold_locales (rule node_step_inv)

lemma init_worker_Inr:
  "init_worker S reg wid = Inr W \<Longrightarrow> field_constraints S \<Longrightarrow> worker_inv S AtTop W"
  by (auto simp: init_worker_def worker_inv_def cap_inv_def suspect_inv_def slot_inv_def stage_inv_def
      task_inv_def pool_inv_def busy_def holders_def field_constraints_def split: if_splits)

definition boot :: "worker \<Rightarrow> 's \<Rightarrow> 's node" where
  "boot W s = \<lparr>phase_of = AtTop, wk = W, db = s\<rparr>"

context redis_service
begin

lemma booted_inv:
  assumes "make_settings S = Inr S" and "init_worker S reg wid = Inr W"
    and "(node_step R S reg xt)\<^sup>*\<^sup>* (boot W s) z"
  shows "worker_inv S (phase_of z) (wk z)"
proof -
  have "node_inv S (boot W s)"
    using assms(1) init_worker_Inr [OF assms(2)] by (simp add: node_inv_def boot_def make_settings_Inr)
  from node.run_inv [OF assms(3) this] show ?thesis by (simp add: node_inv_def)
qed

end

lemma threads_bounded:
  assumes "worker_inv S ph W"
  shows "int (card {t. thread_running W t}) \<le> concurrency S"
proof -
  note D = worker_invD [OF assms]
  have "{t. thread_running W t} \<subseteq> busy W"
    using stage_invD(1,3) [OF D(4)] by (auto simp: thread_running_def busy_def split: option.splits) fastforce
  then have "card {t. thread_running W t} \<le> card (busy W)" by (simp add: card_mono)
  with D(1) show ?thesis by (auto simp: cap_inv_def)
qed

section \<open>A pool that failed to start\<close>

definition stuck :: "nat \<Rightarrow> py_exc \<Rightarrow> worker \<Rightarrow> bool" where
  "stuck p x W \<longleftrightarrow> process_pool W = Some p \<and> pool_ready W p = StartFailed x \<and>
     (\<forall>t r. runs W t = Some r \<longrightarrow> r_pool r \<noteq> Some p)"

lemma stuck_same:
  assumes "stuck p x W" and "process_pool W' = process_pool W" "pool_ready W' = pool_ready W"
    and "\<And>t r. runs W' t = Some r \<Longrightarrow> r_pool r = Some p \<Longrightarrow> \<exists>r0. runs W t = Some r0 \<and> r_pool r0 = Some p"
  shows "stuck p x W'"
  using assms unfolding stuck_def by metis

lemma stuck_stop_run:
  assumes "stuck p x W" and "runs W t = Some r"
  shows "stuck p x (stop_run t r ab W)"
  using assms
  by (auto simp: stuck_def stop_run_def set_run_def reset_process_pool_def Let_def split: option.splits if_splits)

lemma stuck_spawn: "stuck p x W \<Longrightarrow> stuck p x (snd (spawn W i fs n))"
  by (simp add: stuck_def spawn_def)

lemma stuck_reap_spawn: "stuck p x W \<Longrightarrow> stuck p x (reap_spawn S c W)"
  by (simp add: stuck_def reap_spawn_def spawn_def)

lemma stuck_folds:
  "stuck p x W \<Longrightarrow> stuck p x (fold (reap_spawn S) cs W)"
  "stuck p x W \<Longrightarrow> stuck p x (fold (\<lambda>e W. snd (spawn W (fst e) (snd e) 1)) es W)"
  by (induction cs arbitrary: W) (auto simp: stuck_reap_spawn,
      induction es arbitrary: W, auto simp: stuck_spawn)

lemma stuck_updates [simp]:
  "stuck p x (W\<lparr>cursor := c\<rparr>) = stuck p x W" "stuck p x (W\<lparr>next_reap := a\<rparr>) = stuck p x W"
  "stuck p x (W\<lparr>orphans := os\<rparr>) = stuck p x W" "stuck p x (leave_slot spec W) = stuck p x W"
  "stuck p x (set_stage t g W) = stuck p x W" "stuck p x (task_done t W) = stuck p x W"
  "stuck p x (request_stop W) = stuck p x W"
  by (simp_all add: stuck_def task_done_def request_stop_def)

lemma stuck_set_run:
  "stuck p x W \<Longrightarrow> r_pool r \<noteq> Some p \<Longrightarrow> stuck p x (set_run t r W)"
  by (auto simp: stuck_def set_run_def split: if_splits)

lemma stuck_ops:
  assumes W: "stuck p x W"
  shows "stuck p x (begin_task S reg xt now t W)" and "stuck p x (run_over t W)"
    and "stuck p x (run_times_out S now t W)" and "stuck p x (orphan_finished t W)"
    and "stuck p x (abandon t W)"
proof -
  have "stuck p x (begin_run now t spec W)" for spec
    using W by (auto simp: begin_run_def stuck_def set_run_def start_run_def new_run_def stop_clock_def Let_def
        split: if_splits)
  with W show "stuck p x (begin_task S reg xt now t W)"
    by (auto simp: begin_task_def split: stage.split triage.split)
  show "stuck p x (run_over t W)" "stuck p x (run_times_out S now t W)" "stuck p x (orphan_finished t W)"
    "stuck p x (abandon t W)"
    using W stuck_stop_run [OF W]
    by (auto simp: run_over_def run_times_out_def orphan_finished_def abandon_def
        split: stage.split option.split)
qed

lemma stuck_await:
  assumes "stuck p x W" and "runs W t = Some r"
  shows "stuck p x (await_pool t r W)" "waits_for (await_pool t r W) t = Some p"
  using assms
  by (auto simp: await_pool_def ready_processes_def stuck_def set_run_def stop_clock_def split: if_splits)

lemma stuck_answered:
  assumes "stuck p x W" and "runs W t = Some r"
  shows "stuck p x (pool_answered now t W)"
  using assms
  by (auto simp: pool_answered_def stuck_def set_run_def start_clock_def Let_def
      split: option.splits warm.splits if_splits)

lemma stuck_exec:
  assumes "stuck p x W" and "runs W t = Some r"
  shows "stuck p x (exec_ended t e W)"
  using assms stuck_await(1) [OF assms]
  by (auto simp: exec_ended_def split: option.split exec_end.split intro!: stuck_set_run)
    (auto simp: stuck_def)

lemma stuck_step:
  assumes W: "stuck p x (wk z)" and "node_step R S reg xt z z'"
  shows "stuck p x (wk z')"
  using assms(2)
proof cases
  case (reap f k r s' now ph W')
  with W show ?thesis
    by (auto simp: reap_result_def Let_def split: sum.splits prod.splits if_splits intro!: stuck_folds)
next
  case (read f r s' ph W')
  with W show ?thesis by (auto simp: read_result_def simp del: One_nat_def split: sum.splits intro!: stuck_folds)
next
  case (async_ends t r f)
  with W have "r_pool r \<noteq> Some p" by (auto simp: stuck_def)
  with W async_ends show ?thesis by (simp add: stuck_set_run)
next
  case (thread_ends t r f)
  with W have "r_pool r \<noteq> Some p" by (auto simp: stuck_def)
  with W thread_ends show ?thesis by (simp add: stuck_set_run)
next
  case (exec_ended t e)
  with W stuck_exec show ?thesis by (auto simp: in_executor_def)
next
  case (warmed q v)
  with W show ?thesis by (auto simp: stuck_def)
qed (use W in \<open>auto simp: stuck_ops stuck_await stuck_answered reap_result_def read_result_def\<close>)

interpretation failed_pool: invariant_system "node_step R S reg xt" "\<lambda>z. stuck p x (wk z)" for R S reg xt p x
  by unfold_locales (rule stuck_step)

text \<open>Every run that asks for the pool then fails with the start-up's error.\<close>

lemma stuck_fails:
  assumes "stuck p x W" and "runs W t = Some r"
  shows "\<exists>r'. runs (pool_answered now t (await_pool t r W)) t = Some r' \<and> r_future r' = Exc x"
proof -
  note a = stuck_await [OF assms]
  from a have "pool_ready (await_pool t r W) p = StartFailed x" by (simp add: stuck_def)
  with a show ?thesis by (simp add: pool_answered_def await_pool_frame set_run_def Let_def)
qed

end
