(* ===== verification/Example_Worker.thy ===== *)
theory Example_Worker
  imports Example_Run Worker_Node
begin

text \<open>
  A worker process from its boot: its first reaper call gets no reply, it reads the job of
  \<open>Example_Run\<close>, starts a run in its process pool, and the pool's children do not come up.
\<close>

definition demo_process :: handler_spec where
  "demo_process = SyncSpec \<lparr>fn_module = ''handlers'', fn_qualname = ''send''\<rparr> ProcessPool True None"

definition demo_processes :: registry where
  "demo_processes = [(''send_email'', demo_process)]"

definition demo_worker :: worker where
  "demo_worker = \<lparr>worker_id = ''w1'', stop_set = False, in_flight = [], suspects = [], next_reap = 0,
     cursor = (0, 0), stages = (\<lambda>_. Over), runs = Map.empty, thread_pool = False,
     process_pool = None, process_modules = [''handlers''], pool_ready = (\<lambda>_. Warming),
     waits_for = Map.empty, reset_pools = [], process_slots = 2,
     orphans = [], orphan_threads = [], tasks_made = 0, pools_made = 0\<rparr>"

lemma demo_worker_init: "init_worker demo_settings demo_processes ''w1'' = Inr demo_worker"
  by (simp add: init_worker_def ttl_problem_def demo_processes_def demo_process_def demo_worker_def
      modules_of_def demo_settings_def default_settings_def)

definition demo_reads :: worker where
  "demo_reads = snd (spawn (demo_worker\<lparr>next_reap := 5\<rparr>) (0, 1) demo_fields 1)"

definition demo_runs :: worker where
  "demo_runs = begin_task demo_settings demo_processes no_text 1 0 demo_reads"

definition demo_start_error :: py_exc where
  "demo_start_error = PyExc ''BrokenProcessPool'' ''2 of 2 pool children not ready after 120s''"

definition demo_failed :: worker where
  "demo_failed = (let W = await_pool 0 (start_run demo_process 1) demo_runs
     in W\<lparr>pool_ready := (pool_ready W)(0 := StartFailed demo_start_error)\<rparr>)"

lemma demo_process_triage:
  "triage demo_settings demo_processes no_text (0, 1) demo_fields 1 = Run demo_job demo_process"
  by code_simp

lemma demo_runs_eq:
  "demo_runs = demo_reads\<lparr>stages := (stages demo_reads)(0 := Running demo_process),
     runs := [0 \<mapsto> start_run demo_process 1], process_slots := 1\<rparr>"
  using demo_process_triage
  by (simp add: demo_runs_def begin_task_def begin_run_def demo_reads_def spawn_def demo_worker_def demo_process_def
      set_run_def set_stage_def)

lemma demo_failed_eq:
  "process_pool demo_failed = Some 0" "pool_ready demo_failed 0 = StartFailed demo_start_error"
  "runs demo_failed = [0 \<mapsto> start_run demo_process 1]" "in_flight demo_failed = [0]"
  "r_pool (start_run demo_process 1) = None"
  by (simp_all add: demo_failed_def demo_runs_eq demo_reads_def spawn_def demo_worker_def await_pool_def
      ready_processes_def set_run_def demo_process_def start_run_def new_run_def stop_clock_def Let_def)


lemma demo_fetches:
  "fst (fetch json_redis demo_settings ''w1'' 10 (server demo_enqueued)) = Inr [((0, 1), demo_fields)]"
proof -
  obtain r s' where run: "fetch json_redis demo_settings ''w1'' 10 (server demo_enqueued) = (r, s')" by fastforce
  from demo_queue.run_spec(1) [OF implements_fetch json_server.fetch_doc _ TrueI run, simplified, OF demo_enqueued_view(1)]
  show ?thesis
    by (simp add: run demo_enqueued_view(2) q_read_def read_group_def empty_queue_def empty_group_def less_prod_def Let_def)
qed

lemma demo_failed_reached:
  "(node_step json_redis demo_settings demo_processes no_text)\<^sup>*\<^sup>* (boot demo_worker (server demo_enqueued))
     (boot demo_failed (snd (fetch json_redis demo_settings ''w1'' 10 (server demo_enqueued))))"
proof -
  let ?step = "node_step json_redis demo_settings demo_processes no_text"
  let ?s = "server demo_enqueued" and ?s' = "snd (fetch json_redis demo_settings ''w1'' 10 (server demo_enqueued))"
  let ?W1 = "demo_worker\<lparr>next_reap := 5\<rparr>"
  have "fetch_top demo_settings 0 demo_worker = InReap 10 1"
    by (simp add: fetch_top_def free_slots_def demo_worker_def demo_settings_def default_settings_def)
  then have 1: "?step (boot demo_worker ?s) \<lparr>phase_of = InReap 10 1, wk = demo_worker, db = ?s\<rparr>"
    using node_step.top [of "boot demo_worker ?s" json_redis demo_settings demo_processes no_text 0]
    by (simp add: boot_def)
  have "reap_result demo_settings 0 10 Down demo_worker = (InRead 10, ?W1)"
    by (simp add: reap_result_def demo_settings_def default_settings_def)
  then have 2: "?step \<lparr>phase_of = InReap 10 1, wk = demo_worker, db = ?s\<rparr> \<lparr>phase_of = InRead 10, wk = ?W1, db = ?s\<rparr>"
    using node_step.reap_down [where z = "\<lparr>phase_of = InReap 10 1, wk = demo_worker, db = ?s\<rparr>" and free = 10
        and slots = 1 and S = demo_settings and now = 0] by simp
  have "read_result (Reply (Inr [((0, 1), demo_fields)])) ?W1 = (AtTop, demo_reads)"
    by (simp add: read_result_def demo_reads_def)
  moreover have "fetch json_redis demo_settings ''w1'' 10 ?s = (Inr [((0, 1), demo_fields)], ?s')"
    using demo_fetches by (simp add: prod_eq_iff)
  ultimately have 3: "?step \<lparr>phase_of = InRead 10, wk = ?W1, db = ?s\<rparr> \<lparr>phase_of = AtTop, wk = demo_reads, db = ?s'\<rparr>"
    using node_step.read [where z = "\<lparr>phase_of = InRead 10, wk = ?W1, db = ?s\<rparr>" and free = 10 and S = demo_settings
        and R = json_redis] by (simp add: demo_worker_def)
  have "0 \<in> set (in_flight demo_reads)" by (simp add: demo_reads_def spawn_def demo_worker_def)
  then have 4: "?step \<lparr>phase_of = AtTop, wk = demo_reads, db = ?s'\<rparr> \<lparr>phase_of = AtTop, wk = demo_runs, db = ?s'\<rparr>"
    using node_step.begin_task [where z = "\<lparr>phase_of = AtTop, wk = demo_reads, db = ?s'\<rparr>" and t = 0 and S = demo_settings
        and reg = demo_processes and xt = no_text and now = 1]
    by (simp add: demo_runs_def)
  let ?W5 = "await_pool 0 (start_run demo_process 1) demo_runs"
  have 5: "?step \<lparr>phase_of = AtTop, wk = demo_runs, db = ?s'\<rparr> \<lparr>phase_of = AtTop, wk = ?W5, db = ?s'\<rparr>"
    using node_step.enter_pool [where z = "\<lparr>phase_of = AtTop, wk = demo_runs, db = ?s'\<rparr>" and t = 0
        and r = "start_run demo_process 1"]
    by (simp add: demo_runs_eq demo_reads_def spawn_def demo_worker_def demo_process_def start_run_def new_run_def
        stop_clock_def)
  have "pool_ready ?W5 0 = Warming"
    by (simp add: await_pool_def ready_processes_def demo_runs_eq demo_reads_def spawn_def demo_worker_def set_run_def Let_def)
  then have 6: "?step \<lparr>phase_of = AtTop, wk = ?W5, db = ?s'\<rparr> (boot demo_failed ?s')"
    using node_step.warmed [where z = "\<lparr>phase_of = AtTop, wk = ?W5, db = ?s'\<rparr>" and p = 0
        and v = "StartFailed demo_start_error"] by (simp add: boot_def demo_failed_def Let_def)
  show ?thesis
    by (rule converse_rtranclp_into_rtranclp [of ?step, OF 1], rule converse_rtranclp_into_rtranclp [of ?step, OF 2],
        rule converse_rtranclp_into_rtranclp [of ?step, OF 3], rule converse_rtranclp_into_rtranclp [of ?step, OF 4],
        rule converse_rtranclp_into_rtranclp [of ?step, OF 5], rule r_into_rtranclp [of ?step, OF 6])
qed

end
