(* ===== verification/Handlers.thy ===== *)
theory Handlers
  imports Handler_Runs
begin

text \<open>
  \<^verbatim>\<open>src/ftq/handlers/\<close>: the built-in handlers and the registry that exposes them. A run is the
  list of its sleeps, how it ends and the server it leaves behind. The hash function of
  \<^verbatim>\<open>cpu_task\<close>, the class and text of redis-py's exceptions (\<open>rx\<close>) and Python's \<^verbatim>\<open>str\<close> of a float
  or a container (\<open>show\<close>) are arguments.
\<close>

section \<open>Payload values\<close>

datatype py_float = Finite rat | Infinite bool | NotANumber

text \<open>
  The texts Python's \<^verbatim>\<open>float()\<close> reads: a sign, then digits with an optional fraction and
  exponent, or a name.
\<close>

definition lower_char :: "char \<Rightarrow> char" where
  "lower_char c = (let n = of_char c :: nat in if 65 \<le> n \<and> n \<le> 90 then char_of (n + 32) else c)"

definition read_exponent :: "string \<Rightarrow> int option" where
  "read_exponent s = (case s of
       [] \<Rightarrow> Some 0
     | _ # [] \<Rightarrow> None
     | _ # c # cs \<Rightarrow>
         (if c = CHR ''-'' then map_option (\<lambda>n. - int n) (read_nat cs)
          else if c = CHR ''+'' then map_option int (read_nat cs)
          else map_option int (read_nat (c # cs))))"

definition read_decimal :: "string \<Rightarrow> rat option" where
  "read_decimal s =
     (let is_e = (\<lambda>c. c = CHR ''e'' \<or> c = CHR ''E'');
          m = takeWhile (\<lambda>c. \<not> is_e c) s; ex = dropWhile (\<lambda>c. \<not> is_e c) s;
          ip = takeWhile ((\<noteq>) CHR ''.'') m; fp = drop 1 (dropWhile ((\<noteq>) CHR ''.'') m)
      in if ip = [] \<and> fp = [] then None
         else (case (if ip = [] then Some 0 else read_nat ip) of None \<Rightarrow> None | Some i \<Rightarrow>
              (case (if fp = [] then Some 0 else read_nat fp) of None \<Rightarrow> None | Some f \<Rightarrow>
              (case read_exponent ex of None \<Rightarrow> None | Some e \<Rightarrow>
                 Some (scale10 (of_nat i + of_nat f / 10 ^ length (filter (\<lambda>c. char_digit c \<noteq> None) fp)) e)))))"

definition read_unsigned_float :: "string \<Rightarrow> py_float option" where
  "read_unsigned_float s =
     (let name = map lower_char s in
      if name = ''inf'' \<or> name = ''infinity'' then Some (Infinite True)
      else if name = ''nan'' then Some NotANumber
      else map_option Finite (read_decimal s))"

definition negate :: "py_float \<Rightarrow> py_float" where
  "negate x = (case x of Finite r \<Rightarrow> Finite (- r) | Infinite p \<Rightarrow> Infinite (\<not> p) | NotANumber \<Rightarrow> NotANumber)"

definition read_float :: "string \<Rightarrow> py_float option" where
  "read_float s = (case strip s of
       [] \<Rightarrow> None
     | c # cs \<Rightarrow>
         (if c = CHR ''-'' then map_option negate (read_unsigned_float cs)
          else if c = CHR ''+'' then read_unsigned_float cs
          else read_unsigned_float (c # cs)))"

fun json_type :: "json \<Rightarrow> string" where
  "json_type JNull = ''NoneType''"
| "json_type (JBool _) = ''bool''"
| "json_type (JInt _) = ''int''"
| "json_type (JFloat _) = ''float''"
| "json_type (JStr _) = ''str''"
| "json_type (JArr _) = ''list''"
| "json_type (JObj _) = ''dict''"

definition type_error :: "string \<Rightarrow> json \<Rightarrow> py_exc" where
  "type_error what v = PyExc ''TypeError'' (what @ '', not '' @ py_repr (json_type v))"

text \<open>\<^verbatim>\<open>int(x)\<close> and \<^verbatim>\<open>float(x)\<close> of a JSON value.\<close>

definition py_int :: "json \<Rightarrow> py_exc + int" where
  "py_int v = (case v of
       JInt i \<Rightarrow> Inr i
     | JBool b \<Rightarrow> Inr (if b then 1 else 0)
     | JFloat t \<Rightarrow> (case read_float t of
           Some (Finite r) \<Rightarrow> Inr (py_trunc r)
         | Some (Infinite _) \<Rightarrow> Inl (PyExc ''OverflowError'' ''cannot convert float infinity to integer'')
         | _ \<Rightarrow> Inl (PyExc ''ValueError'' ''cannot convert float NaN to integer''))
     | JStr s \<Rightarrow> (case read_int s of
           Some i \<Rightarrow> Inr i
         | None \<Rightarrow> Inl (PyExc ''ValueError'' (''invalid literal for int() with base 10: '' @ py_repr s)))
     | _ \<Rightarrow> Inl (type_error ''int() argument must be a string, a bytes-like object or a real number'' v))"

definition py_float_of :: "json \<Rightarrow> py_exc + py_float" where
  "py_float_of v = (case v of
       JInt i \<Rightarrow> Inr (Finite (of_int i))
     | JBool b \<Rightarrow> Inr (Finite (if b then 1 else 0))
     | JFloat t \<Rightarrow> (case read_float t of Some x \<Rightarrow> Inr x | None \<Rightarrow> Inr NotANumber)
     | JStr s \<Rightarrow> (case read_float s of
           Some x \<Rightarrow> Inr x
         | None \<Rightarrow> Inl (PyExc ''ValueError'' (''could not convert string to float: '' @ py_repr s)))
     | _ \<Rightarrow> Inl (type_error ''float() argument must be a string or a real number'' v))"

definition py_str :: "(json \<Rightarrow> string) \<Rightarrow> json \<Rightarrow> string" where
  "py_str show v = (case v of
       JStr s \<Rightarrow> s
     | JInt i \<Rightarrow> str_int i
     | JBool b \<Rightarrow> (if b then ''True'' else ''False'')
     | JNull \<Rightarrow> ''None''
     | _ \<Rightarrow> show v)"

definition payload_get :: "job \<Rightarrow> string \<Rightarrow> json \<Rightarrow> json" where
  "payload_get j k d = (case map_of (payload j) k of None \<Rightarrow> d | Some v \<Rightarrow> v)"

section \<open>Runs\<close>

datatype run_result = Gives json | Raises py_exc | Exits int

record 's handler_run =
  slept :: "py_float list"
  ends :: run_result
  leaves :: 's

definition quick :: "run_result \<Rightarrow> 's \<Rightarrow> 's handler_run" where
  "quick e s = \<lparr>slept = [], ends = e, leaves = s\<rparr>"

text \<open>\<^verbatim>\<open>await ctx.ledger.apply(key, **fields)\<close>, then the result built from its answer.\<close>

definition with_effect :: "'s redis_ops \<Rightarrow> settings \<Rightarrow> (redis_error \<Rightarrow> py_exc) \<Rightarrow> py_float list \<Rightarrow> string
    \<Rightarrow> fields \<Rightarrow> (bool \<Rightarrow> json) \<Rightarrow> 's \<Rightarrow> 's handler_run" where
  "with_effect R S rx ds key fs result s =
     (case ledger_apply R (keys_of S) (done_ttl_seconds S) key fs s of
        (Inl e, s') \<Rightarrow> \<lparr>slept = ds, ends = Raises (rx e), leaves = s'\<rparr>
      | (Inr b, s') \<Rightarrow> \<lparr>slept = ds, ends = Gives (result b), leaves = s'\<rparr>)"

definition injected_failure :: "string \<Rightarrow> py_exc" where
  "injected_failure t = PyExc ''InjectedFailure'' t"

definition hang_timeout :: rat where
  "hang_timeout = 2"

definition flaky :: "'s redis_ops \<Rightarrow> settings \<Rightarrow> (redis_error \<Rightarrow> py_exc) \<Rightarrow> job \<Rightarrow> 's \<Rightarrow> 's handler_run" where
  "flaky R S rx j s =
     (case py_int (payload_get j ''fail_times'' (JInt 1)) of
        Inl e \<Rightarrow> quick (Raises e) s
      | Inr fail_times \<Rightarrow>
          (if attempt j < fail_times then
             quick (Raises (injected_failure (''flaky: attempt '' @ str_int (attempt j) @ '' < fail_times ''
               @ str_int fail_times))) s
           else with_effect R S rx [] (''flaky:'' @ job_id j) []
             (\<lambda>b. JObj [(''attempt'', JInt (attempt j)), (''applied_now'', JBool b)]) s))"

definition poison :: "job \<Rightarrow> 's \<Rightarrow> 's handler_run" where
  "poison j s = quick (Raises (injected_failure ''poison: this job always fails'')) s"

definition crashy :: "job \<Rightarrow> 's \<Rightarrow> 's handler_run" where
  "crashy j s =
     (case py_int (payload_get j ''exit_code'' (JInt 70)) of
        Inl e \<Rightarrow> quick (Raises e) s
      | Inr code \<Rightarrow> quick (Exits code) s)"

definition slow :: "'s redis_ops \<Rightarrow> settings \<Rightarrow> (redis_error \<Rightarrow> py_exc) \<Rightarrow> job \<Rightarrow> 's \<Rightarrow> 's handler_run" where
  "slow R S rx j s =
     (case py_float_of (payload_get j ''seconds'' (JFloat ''1.0'')) of
        Inl e \<Rightarrow> quick (Raises e) s
      | Inr d \<Rightarrow> with_effect R S rx [d] (''slow:'' @ job_id j) [] (\<lambda>b. JObj [(''applied_now'', JBool b)]) s)"

definition hangs :: "job \<Rightarrow> py_exc + bool" where
  "hangs j =
     (case py_int (payload_get j ''hang_attempts'' (JInt 1)) of
        Inl e \<Rightarrow> Inl e | Inr n \<Rightarrow> Inr (attempt j < n))"

definition hang_seconds :: "job \<Rightarrow> py_exc + py_float" where
  "hang_seconds j = py_float_of (payload_get j ''hang_seconds'' (JFloat ''30.0''))"

text \<open>What a hang handler sleeps before it goes on.\<close>

definition hang_sleeps :: "job \<Rightarrow> py_exc + py_float list" where
  "hang_sleeps j =
     (case hangs j of
        Inl e \<Rightarrow> Inl e
      | Inr False \<Rightarrow> Inr []
      | Inr True \<Rightarrow> (case hang_seconds j of Inl e \<Rightarrow> Inl e | Inr d \<Rightarrow> Inr [d]))"

definition hang :: "'s redis_ops \<Rightarrow> settings \<Rightarrow> (redis_error \<Rightarrow> py_exc) \<Rightarrow> job \<Rightarrow> 's \<Rightarrow> 's handler_run" where
  "hang R S rx j s =
     (case hang_sleeps j of
        Inl e \<Rightarrow> quick (Raises e) s
      | Inr ds \<Rightarrow> with_effect R S rx ds (''hang:'' @ job_id j) []
          (\<lambda>b. JObj [(''attempt'', JInt (attempt j)), (''applied_now'', JBool b)]) s)"

text \<open>
  The thread and process versions have no ledger. \<^verbatim>\<open>time.sleep\<close> refuses a negative or
  non-finite duration.
\<close>

fun blocking_sleep :: "py_float \<Rightarrow> py_exc option" where
  "blocking_sleep (Finite r) =
     (if r < 0 then Some (PyExc ''ValueError'' ''sleep length must be non-negative'') else None)"
| "blocking_sleep NotANumber = Some (PyExc ''ValueError'' ''Invalid value NaN (not a number)'')"
| "blocking_sleep (Infinite _) = Some (PyExc ''OverflowError'' ''timestamp too large to convert to C PyTime_t'')"

definition hang_blocking :: "job \<Rightarrow> 's \<Rightarrow> 's handler_run" where
  "hang_blocking j s =
     (case hang_sleeps j of
        Inl e \<Rightarrow> quick (Raises e) s
      | Inr ds \<Rightarrow> (case List.map_filter blocking_sleep ds of
            e # _ \<Rightarrow> quick (Raises e) s
          | [] \<Rightarrow> \<lparr>slept = ds, ends = Gives (JObj [(''attempt'', JInt (attempt j))]), leaves = s\<rparr>))"

definition hang_thread :: "job \<Rightarrow> 's \<Rightarrow> 's handler_run" where
  "hang_thread j s = hang_blocking j s"

definition hang_process :: "job \<Rightarrow> 's \<Rightarrow> 's handler_run" where
  "hang_process j s = hang_blocking j s"


section \<open>send\_email and cpu\_task\<close>

definition send_email :: "'s redis_ops \<Rightarrow> settings \<Rightarrow> (redis_error \<Rightarrow> py_exc) \<Rightarrow> (json \<Rightarrow> string) \<Rightarrow> job \<Rightarrow> 's
    \<Rightarrow> 's handler_run" where
  "send_email R S rx show j s =
     (let to = py_str show (payload_get j ''to'' (JStr ''user@example.com'')) in
      case py_int (payload_get j ''latency_ms'' (JInt 0)) of
        Inl e \<Rightarrow> quick (Raises e) s
      | Inr latency_ms \<Rightarrow>
          with_effect R S rx (if latency_ms > 0 then [Finite (of_int latency_ms / 1000)] else [])
            (''send_email:'' @ job_id j) [(''to'', to)]
            (\<lambda>b. JObj [(''to'', JStr to), (''sent_now'', JBool b)]) s)"

text \<open>\<^verbatim>\<open>str.encode()\<close> on code points below 256, and \<^verbatim>\<open>bytes.hex()\<close>.\<close>

definition utf8_char :: "char \<Rightarrow> string" where
  "utf8_char c = (let n = of_char c :: nat in
     if n < 128 then [c] else [char_of (192 + n div 64), char_of (128 + n mod 64)])"

definition encode :: "string \<Rightarrow> string" where
  "encode s = concat (map utf8_char s)"

definition hex_text :: "string \<Rightarrow> string" where
  "hex_text bs = concat (map (\<lambda>c. [hex_char (of_char c div 16), hex_char (of_char c mod 16)]) bs)"

definition cpu_task :: "(string \<Rightarrow> string) \<Rightarrow> job \<Rightarrow> 's \<Rightarrow> 's handler_run" where
  "cpu_task sha256 j s =
     (case py_int (payload_get j ''rounds'' (JInt 1000)) of
        Inl e \<Rightarrow> quick (Raises e) s
      | Inr rounds \<Rightarrow>
          quick (Gives (JObj [(''rounds'', JInt rounds),
            (''digest'', JStr (hex_text ((sha256 ^^ nat rounds) (encode (job_id j)))))])) s)"

section \<open>The registry\<close>

definition fn :: "string \<Rightarrow> string \<Rightarrow> handler_fn" where
  "fn m q = \<lparr>fn_module = ''ftq.handlers.'' @ m, fn_qualname = q\<rparr>"

fun register_all :: "(registry \<Rightarrow> registry_error + registry) list \<Rightarrow> registry \<Rightarrow> registry_error + registry" where
  "register_all [] reg = Inr reg"
| "register_all (f # fs) reg = (case f reg of Inl e \<Rightarrow> Inl e | Inr reg' \<Rightarrow> register_all fs reg')"

definition builtin_registry :: "registry_error + registry" where
  "builtin_registry = register_all
     [\<lambda>r. register r ''send_email'' True None (fn ''send_email'' ''send_email''),
      \<lambda>r. register_sync r ''cpu_task'' ProcessPool True None (fn ''cpu_task'' ''cpu_task''),
      \<lambda>r. register r ''flaky'' True None (fn ''faults'' ''flaky''),
      \<lambda>r. register r ''poison'' True None (fn ''faults'' ''poison''),
      \<lambda>r. register r ''crashy'' True None (fn ''faults'' ''crashy''),
      \<lambda>r. register r ''slow'' False None (fn ''faults'' ''slow''),
      \<lambda>r. register r ''hang'' True (Some hang_timeout) (fn ''faults'' ''hang''),
      \<lambda>r. register_sync r ''hang_thread'' ThreadPool True (Some hang_timeout) (fn ''faults'' ''hang_thread''),
      \<lambda>r. register_sync r ''hang_process'' ProcessPool True (Some hang_timeout) (fn ''faults'' ''hang_process'')]
     []"

text \<open>The handler a registered type runs.\<close>

definition run_builtin :: "'s redis_ops \<Rightarrow> settings \<Rightarrow> (redis_error \<Rightarrow> py_exc) \<Rightarrow> (json \<Rightarrow> string)
    \<Rightarrow> (string \<Rightarrow> string) \<Rightarrow> job \<Rightarrow> 's \<Rightarrow> 's handler_run option" where
  "run_builtin R S rx show sha256 j s =
     (if job_type j = ''send_email'' then Some (send_email R S rx show j s)
      else if job_type j = ''cpu_task'' then Some (cpu_task sha256 j s)
      else if job_type j = ''flaky'' then Some (flaky R S rx j s)
      else if job_type j = ''poison'' then Some (poison j s)
      else if job_type j = ''crashy'' then Some (crashy j s)
      else if job_type j = ''slow'' then Some (slow R S rx j s)
      else if job_type j = ''hang'' then Some (hang R S rx j s)
      else if job_type j = ''hang_thread'' then Some (hang_thread j s)
      else if job_type j = ''hang_process'' then Some (hang_process j s)
      else None)"

definition builtins :: registry where
  "builtins = [(''send_email'', AsyncSpec (fn ''send_email'' ''send_email'') True None),
     (''cpu_task'', SyncSpec (fn ''cpu_task'' ''cpu_task'') ProcessPool True None),
     (''flaky'', AsyncSpec (fn ''faults'' ''flaky'') True None),
     (''poison'', AsyncSpec (fn ''faults'' ''poison'') True None),
     (''crashy'', AsyncSpec (fn ''faults'' ''crashy'') True None),
     (''slow'', AsyncSpec (fn ''faults'' ''slow'') False None),
     (''hang'', AsyncSpec (fn ''faults'' ''hang'') True (Some hang_timeout)),
     (''hang_thread'', SyncSpec (fn ''faults'' ''hang_thread'') ThreadPool True (Some hang_timeout)),
     (''hang_process'', SyncSpec (fn ''faults'' ''hang_process'') ProcessPool True (Some hang_timeout))]"

lemma builtin_registry_value: "builtin_registry = Inr builtins"
  by (simp add: builtin_registry_def builtins_def register_def register_sync_def check_timeout_def
      add_spec_def hang_timeout_def fn_def)

lemma builtins_ok: "registry_ok builtins"
  by (simp add: registry_ok_def builtins_def spec_ok_def hang_timeout_def fn_def)

lemma builtins_run:
  "lookup_spec builtins ty \<noteq> None \<longleftrightarrow> run_builtin R S rx show sha256 (j\<lparr>job_type := ty\<rparr>) s \<noteq> None"
  by (auto simp: lookup_spec_def builtins_def run_builtin_def)

section \<open>How a run counts against its timeout\<close>

text \<open>
  The worker stops waiting for a run at its timeout. A run that sleeps past it counts as
  timed out, however it would have ended.
\<close>

definition sleeps_past :: "rat \<Rightarrow> py_float list \<Rightarrow> bool" where
  "sleeps_past t ds \<longleftrightarrow> Infinite True \<in> set ds \<or>
     t < sum_list (map (\<lambda>d. case d of Finite r \<Rightarrow> max 0 r | _ \<Rightarrow> 0) ds)"

definition outcome_of :: "settings \<Rightarrow> handler_spec \<Rightarrow> 's handler_run \<Rightarrow> handler_end option" where
  "outcome_of S spec r =
     (let t = run_timeout S spec in
      if sleeps_past t (slept r) then Some (TimedOut (timeout_error t (start_run spec 0)))
      else (case ends r of
              Gives v \<Rightarrow> Some (Returned (dumps v)) | Raises e \<Rightarrow> Some (Raised e) | Exits _ \<Rightarrow> None))"

fun succeeds :: "handler_end option \<Rightarrow> bool" where
  "succeeds (Some (Returned _)) = True"
| "succeeds _ = False"

fun fails :: "handler_end option \<Rightarrow> bool" where
  "fails (Some (Raised _)) = True"
| "fails (Some (TimedOut _)) = True"
| "fails _ = False"

lemma quick_outcome:
  "0 < run_timeout S spec \<Longrightarrow> outcome_of S spec (quick e s) =
     (case e of Gives v \<Rightarrow> Some (Returned (dumps v)) | Raises x \<Rightarrow> Some (Raised x) | Exits _ \<Rightarrow> None)"
  by (simp add: outcome_of_def quick_def sleeps_past_def Let_def)

context redis_service
begin

lemma with_effect_ends:
  assumes "typed S (view s)"
  shows "\<exists>v. ends (with_effect R S rx ds k fs f s) = Gives v"
    and "slept (with_effect R S rx ds k fs f s) = ds"
    and "typed S (view (leaves (with_effect R S rx ds k fs f s)))"
proof -
  obtain r s' where run: "ledger_apply R (keys_of S) (done_ttl_seconds S) k fs s = (r, s')" by fastforce
  have "refines view (ledger_apply R (keys_of S) (done_ttl_seconds S) k fs)
     (ledger_apply (doc_of R) (keys_of S) (done_ttl_seconds S) k fs)" by (intro refines_intro)
  from refinesD [OF this run] implementsD [OF implements_ledger [of S R k fs] assms]
  have "r = Inr (fst (q_ledger k fs (qview S (view s))))" and "typed S (view s')"
    by (metis Pair_inject)+
  then show "\<exists>v. ends (with_effect R S rx ds k fs f s) = Gives v"
    and "slept (with_effect R S rx ds k fs f s) = ds"
    and "typed S (view (leaves (with_effect R S rx ds k fs f s)))"
    by (auto simp: with_effect_def run)
qed

lemma effect_succeeds:
  assumes "typed S (view s)" and "\<not> sleeps_past (run_timeout S spec) ds"
  shows "succeeds (outcome_of S spec (with_effect R S rx ds k fs f s))"
  using with_effect_ends(1,2) [OF assms(1), of rx ds k fs f] assms(2)
  by (auto simp: outcome_of_def Let_def)

lemma effect_times_out:
  assumes "typed S (view s)" and "sleeps_past (run_timeout S spec) ds"
  shows "fails (outcome_of S spec (with_effect R S rx ds k fs f s))"
  using with_effect_ends(2) [OF assms(1), of rx ds k fs f] assms(2)
  by (auto simp: outcome_of_def Let_def)

end

end
