(* ===== verification/Chaos_Mix.thy ===== *)
theory Chaos_Mix
  imports Handlers Client "HOL-Library.Multiset"
begin

text \<open>
  \<^verbatim>\<open>chaos/mix.py\<close>: the job mix of a chaos run, and what each kind of job must do. The random
  generator is a state \<open>g\<close> with operations; what Python documents of them is \<open>rng_ok\<close>.
\<close>

section \<open>Random draws\<close>

text \<open>
  \<^verbatim>\<open>randint\<close> and \<^verbatim>\<open>uniform\<close> are the generator's own; \<open>permutation n\<close> is the order \<^verbatim>\<open>shuffle\<close> gives
  a list of length \<open>n\<close>, \<open>pick_below n\<close> the index \<^verbatim>\<open>choice\<close> takes, \<open>weighted\<close> the index \<^verbatim>\<open>choices\<close> draws.
\<close>

record 'g rng =
  randint :: "int \<Rightarrow> int \<Rightarrow> 'g \<Rightarrow> int \<times> 'g"
  uniform :: "rat \<Rightarrow> rat \<Rightarrow> 'g \<Rightarrow> rat \<times> 'g"
  permutation :: "nat \<Rightarrow> 'g \<Rightarrow> nat list \<times> 'g"
  pick_below :: "nat \<Rightarrow> 'g \<Rightarrow> nat \<times> 'g"
  weighted :: "rat list \<Rightarrow> 'g \<Rightarrow> nat \<times> 'g"

definition rng_ok :: "'g rng \<Rightarrow> bool" where
  "rng_ok G \<longleftrightarrow>
     (\<forall>a b g. a \<le> b \<longrightarrow> a \<le> fst (randint G a b g) \<and> fst (randint G a b g) \<le> b) \<and>
     (\<forall>a b g. a \<le> b \<longrightarrow> a \<le> fst (uniform G a b g) \<and> fst (uniform G a b g) \<le> b) \<and>
     (\<forall>n g. mset (fst (permutation G n g)) = mset [0 ..< n]) \<and>
     (\<forall>n g. 0 < n \<longrightarrow> fst (pick_below G n g) < n) \<and>
     (\<forall>ws g. ws \<noteq> [] \<longrightarrow> fst (weighted G ws g) < length ws)"

definition shuffled :: "'g rng \<Rightarrow> 'a list \<Rightarrow> 'g \<Rightarrow> 'a list \<times> 'g" where
  "shuffled G xs g = (case permutation G (length xs) g of (ps, g') \<Rightarrow> (map (nth xs) ps, g'))"

section \<open>Kinds\<close>

record mix_params =
  lease :: rat
  mix_attempts :: int
  mix_deliveries :: int

text \<open>The payload functions of the kinds, by what they draw.\<close>

datatype payload_draw = NoPayload | LatencyMs | FailTimes | SlowSeconds | Rounds
  | HangUpTo int | HangOnce | HangAlways

record kind =
  k_name :: string
  k_job_type :: string
  k_share :: rat
  k_minimum :: int
  k_expect :: string
  k_effect :: "string option"
  k_payload :: payload_draw
  k_reason :: "string option"

definition kinds :: "kind list" where
  "kinds =
    [\<lparr>k_name = ''normal'', k_job_type = ''send_email'', k_share = 0, k_minimum = 0, k_expect = ''SUCCEEDED'',
      k_effect = Some ''send_email'', k_payload = LatencyMs, k_reason = None\<rparr>,
     \<lparr>k_name = ''flaky'', k_job_type = ''flaky'', k_share = 3 / 100, k_minimum = 5, k_expect = ''SUCCEEDED'',
      k_effect = Some ''flaky'', k_payload = FailTimes, k_reason = None\<rparr>,
     \<lparr>k_name = ''slow'', k_job_type = ''slow'', k_share = 3 / 1000, k_minimum = 5, k_expect = ''SUCCEEDED'',
      k_effect = Some ''slow'', k_payload = SlowSeconds, k_reason = None\<rparr>,
     \<lparr>k_name = ''cpu'', k_job_type = ''cpu_task'', k_share = 2 / 100, k_minimum = 10, k_expect = ''SUCCEEDED'',
      k_effect = None, k_payload = Rounds, k_reason = None\<rparr>,
     \<lparr>k_name = ''hang'', k_job_type = ''hang'', k_share = 1 / 1000, k_minimum = 3, k_expect = ''SUCCEEDED'',
      k_effect = Some ''hang'', k_payload = HangUpTo 2, k_reason = None\<rparr>,
     \<lparr>k_name = ''hang_thread'', k_job_type = ''hang_thread'', k_share = 5 / 10000, k_minimum = 3,
      k_expect = ''SUCCEEDED'', k_effect = None, k_payload = HangOnce, k_reason = None\<rparr>,
     \<lparr>k_name = ''hang_process'', k_job_type = ''hang_process'', k_share = 1 / 1000, k_minimum = 3,
      k_expect = ''SUCCEEDED'', k_effect = None, k_payload = HangUpTo 2, k_reason = None\<rparr>,
     \<lparr>k_name = ''hang_forever'', k_job_type = ''hang_process'', k_share = 3 / 100000, k_minimum = 2,
      k_expect = ''DEAD'', k_effect = None, k_payload = HangAlways, k_reason = Some ''max_attempts''\<rparr>,
     \<lparr>k_name = ''poison'', k_job_type = ''poison'', k_share = 2 / 10000, k_minimum = 3, k_expect = ''DEAD'',
      k_effect = None, k_payload = NoPayload, k_reason = Some ''max_attempts''\<rparr>,
     \<lparr>k_name = ''crashy'', k_job_type = ''crashy'', k_share = 3 / 100000, k_minimum = 3, k_expect = ''DEAD'',
      k_effect = None, k_payload = NoPayload, k_reason = Some ''max_deliveries''\<rparr>]"

definition by_name :: "string \<Rightarrow> kind option" where
  "by_name n = find (\<lambda>k. k_name k = n) kinds"

text \<open>\<^verbatim>\<open>round(x, 3)\<close> of a float, as its JSON literal.\<close>

definition millis :: "rat \<Rightarrow> nat" where
  "millis x = nat (round_even (x * 1000))"

definition round3 :: "rat \<Rightarrow> json" where
  "round3 x =
     (let m = millis x; f = m mod 1000;
          ds = (if f mod 100 = 0 then [f div 100] else if f mod 10 = 0 then [f div 100, f div 10 mod 10]
                else [f div 100, f div 10 mod 10, f mod 10])
      in JFloat (str_nat (m div 1000) @ CHR ''.'' # map digit_char ds))"

fun draw_payload :: "'g rng \<Rightarrow> mix_params \<Rightarrow> payload_draw \<Rightarrow> 'g \<Rightarrow> (string \<times> json) list \<times> 'g" where
  "draw_payload G p NoPayload g = ([], g)"
| "draw_payload G p LatencyMs g = (case randint G 0 20 g of (n, g') \<Rightarrow> ([(''latency_ms'', JInt n)], g'))"
| "draw_payload G p FailTimes g = (case randint G 1 3 g of (n, g') \<Rightarrow> ([(''fail_times'', JInt n)], g'))"
| "draw_payload G p SlowSeconds g =
     (case uniform G (12 / 10) (18 / 10) g of (u, g') \<Rightarrow> ([(''seconds'', round3 (u * lease p))], g'))"
| "draw_payload G p Rounds g = ([(''rounds'', JInt 2000)], g)"
| "draw_payload G p (HangUpTo m) g = (case randint G 1 m g of (n, g') \<Rightarrow> ([(''hang_attempts'', JInt n)], g'))"
| "draw_payload G p HangOnce g =
     (case uniform G 3 5 g of (u, g') \<Rightarrow> ([(''hang_attempts'', JInt 1), (''hang_seconds'', round3 u)], g'))"
| "draw_payload G p HangAlways g = ([(''hang_attempts'', JInt (mix_attempts p + 1000))], g)"

section \<open>The mix\<close>

datatype mix_error = TooFewJobs int int | NoSuchKind string

definition special_counts :: "int \<Rightarrow> (string \<times> int) list" where
  "special_counts n = map (\<lambda>k. (k_name k, max (k_minimum k) (round_even (of_int n * k_share k))))
     (filter (\<lambda>k. k_name k \<noteq> ''normal'') kinds)"

definition mix_counts :: "int \<Rightarrow> mix_error + (string \<times> int) list" where
  "mix_counts n =
     (let special = special_counts n; tot = sum_list (map snd special) in
      if tot \<ge> n then Inl (TooFewJobs n tot) else Inr ((''normal'', n - tot) # special))"

definition mix_names :: "(string \<times> int) list \<Rightarrow> string list" where
  "mix_names cs = concat (map (\<lambda>(n, c). replicate (nat c) n) cs)"

fun draw_jobs :: "'g rng \<Rightarrow> mix_params \<Rightarrow> string list \<Rightarrow> 'g \<Rightarrow> mix_error + (string \<times> new_job) list \<times> 'g" where
  "draw_jobs G p [] g = Inr ([], g)"
| "draw_jobs G p (n # ns) g =
     (case by_name n of
        None \<Rightarrow> Inl (NoSuchKind n)
      | Some k \<Rightarrow>
          (case draw_payload G p (k_payload k) g of (pl, g1) \<Rightarrow>
          (case draw_jobs G p ns g1 of
             Inl e \<Rightarrow> Inl e
           | Inr (js, g2) \<Rightarrow> Inr ((n, \<lparr>nj_type = k_job_type k, nj_payload = pl, nj_key = None\<rparr>) # js, g2))))"

definition build_mix :: "'g rng \<Rightarrow> mix_params \<Rightarrow> int \<Rightarrow> 'g \<Rightarrow> mix_error + (string \<times> new_job) list \<times> 'g" where
  "build_mix G p n g =
     (case mix_counts n of
        Inl e \<Rightarrow> Inl e
      | Inr cs \<Rightarrow> (case shuffled G (mix_names cs) g of (names, g1) \<Rightarrow> draw_jobs G p names g1))"

section \<open>The counts add up\<close>

lemma kind_names: "distinct (map k_name kinds)"
  by (simp add: kinds_def)

lemma mix_counts_names:
  assumes "mix_counts n = Inr cs"
  shows "map fst cs = map k_name kinds"
  using assms by (auto simp: mix_counts_def special_counts_def kinds_def Let_def split: if_splits)

lemma mix_counts_total:
  assumes "mix_counts n = Inr cs"
  shows "sum_list (map snd cs) = n"
  using assms by (auto simp: mix_counts_def Let_def split: if_splits)

lemma special_minimum:
  "(a, c) \<in> set (special_counts n) \<Longrightarrow> \<exists>k \<in> set kinds. k_name k = a \<and> k_minimum k \<le> c"
  by (auto simp: special_counts_def)

lemma kinds_minimum: "k \<in> set kinds \<Longrightarrow> 0 \<le> k_minimum k"
  by (auto simp: kinds_def)

lemma mix_counts_minimum:
  assumes "mix_counts n = Inr cs" and "(a, c) \<in> set cs"
  shows "\<exists>k \<in> set kinds. k_name k = a \<and> k_minimum k \<le> c \<and> 0 \<le> c"
proof (cases "(a, c) \<in> set (special_counts n)")
  case True
  then show ?thesis using special_minimum kinds_minimum by fastforce
next
  case False
  with assms have "a = ''normal''" and "0 < c" by (auto simp: mix_counts_def Let_def split: if_splits)
  then show ?thesis by (auto simp: kinds_def)
qed

lemma mix_too_few:
  "mix_counts n = Inl e \<longleftrightarrow> n \<le> sum_list (map snd (special_counts n)) \<and>
     e = TooFewJobs n (sum_list (map snd (special_counts n)))"
  by (auto simp: mix_counts_def Let_def)

section \<open>The built list\<close>

lemma count_names:
  "distinct (map fst cs) \<Longrightarrow> (a, c) \<in> set cs \<Longrightarrow> count (mset (mix_names cs)) a = nat c"
proof (induction cs)
  case (Cons x cs)
  have none: "count (mset (mix_names ds)) b = 0" if "b \<notin> fst ` set ds" for b ds
    using that by (induction ds) (auto simp: mix_names_def)
  from Cons show ?case
    by (cases x) (auto simp: mix_names_def none [unfolded mix_names_def] image_iff)
qed simp

lemma length_names:
  "(\<forall>x \<in> set cs. 0 \<le> snd x) \<Longrightarrow> int (length (mix_names cs)) = sum_list (map snd cs)"
  by (induction cs) (auto simp: mix_names_def)

lemma shuffled_mset:
  assumes "rng_ok G"
  shows "mset (fst (shuffled G xs g)) = mset xs"
proof -
  have "mset (fst (permutation G (length xs) g)) = mset [0 ..< length xs]"
    using assms by (simp add: rng_ok_def)
  then have "mset (map (nth xs) (fst (permutation G (length xs) g))) = mset (map (nth xs) [0 ..< length xs])"
    by (metis mset_map)
  then show ?thesis
    by (cases "permutation G (length xs) g") (simp only: shuffled_def prod.case fst_conv map_nth)
qed

lemma find_distinct: "distinct (map f xs) \<Longrightarrow> x \<in> set xs \<Longrightarrow> find (\<lambda>y. f y = f x) xs = Some x"
  by (induction xs) (auto simp: image_iff)

lemma by_name_kinds: "k \<in> set kinds \<Longrightarrow> by_name (k_name k) = Some k"
  unfolding by_name_def by (rule find_distinct [OF kind_names])

definition drawn :: "'g rng \<Rightarrow> mix_params \<Rightarrow> string \<times> new_job \<Rightarrow> bool" where
  "drawn G p x \<longleftrightarrow> (\<exists>k \<in> set kinds. k_name k = fst x \<and> nj_type (snd x) = k_job_type k \<and> nj_key (snd x) = None \<and>
     (\<exists>g. nj_payload (snd x) = fst (draw_payload G p (k_payload k) g)))"

lemma draw_jobs_drawn:
  assumes "set ns \<subseteq> k_name ` set kinds"
  shows "\<exists>js g'. draw_jobs G p ns g = Inr (js, g') \<and> map fst js = ns \<and> (\<forall>x \<in> set js. drawn G p x)"
  using assms
proof (induction ns arbitrary: g)
  case (Cons n ns)
  then obtain k where k: "k \<in> set kinds" "n = k_name k" by auto
  obtain pl g1 where pl: "draw_payload G p (k_payload k) g = (pl, g1)" by fastforce
  from Cons.IH [of g1] Cons.prems obtain js g2 where js: "draw_jobs G p ns g1 = Inr (js, g2)" "map fst js = ns"
    "\<forall>x \<in> set js. drawn G p x" by auto
  have "drawn G p (n, \<lparr>nj_type = k_job_type k, nj_payload = pl, nj_key = None\<rparr>)"
    using k pl unfolding drawn_def by (metis fst_conv new_job.select_convs(1-3) snd_conv)
  with js k pl show ?case by (simp add: by_name_kinds)
qed simp

lemma build_mix_ok:
  assumes "rng_ok G" and cs: "mix_counts n = Inr cs"
  shows "\<exists>js g'. build_mix G p n g = Inr (js, g') \<and> int (length js) = n \<and>
    (\<forall>(a, c) \<in> set cs. int (count (mset (map fst js)) a) = c) \<and> (\<forall>x \<in> set js. drawn G p x)"
proof -
  obtain names g1 where sh: "shuffled G (mix_names cs) g = (names, g1)" by fastforce
  have m: "mset names = mset (mix_names cs)" using shuffled_mset [OF assms(1), of "mix_names cs" g] sh by simp
  have "set names = set (mix_names cs)" using m by (metis set_mset_mset)
  also have "\<dots> \<subseteq> set (map fst cs)" by (force simp: mix_names_def)
  finally have "set names \<subseteq> k_name ` set kinds" using mix_counts_names [OF cs] by simp
  from draw_jobs_drawn [OF this, of G p g1] obtain js g' where js: "draw_jobs G p names g1 = Inr (js, g')"
    "map fst js = names" "\<forall>x \<in> set js. drawn G p x" by blast
  have pos: "0 \<le> c" if "(a, c) \<in> set cs" for a c using mix_counts_minimum [OF cs that] by auto
  have "distinct (map fst cs)" using mix_counts_names [OF cs] kind_names by simp
  then have "\<forall>(a, c) \<in> set cs. int (count (mset (map fst js)) a) = c"
    unfolding js(2) m using count_names pos by fastforce
  moreover have "int (length js) = n"
    using length_names [of cs] pos mix_counts_total [OF cs] js(2) m by (metis length_map prod.collapse size_mset)
  ultimately show ?thesis using js unfolding build_mix_def by (simp add: cs sh del: mset_map)
qed


section \<open>Rounded literals read back\<close>

lemma digit_char_code: "d < 10 \<Longrightarrow> of_char (digit_char d) = 48 + d"
  by (simp add: digit_char_def of_char_of take_bit_eq_mod)

lemma digit_char_neq:
  assumes "d < 10" and "of_char c \<notin> {48 ..< 58 :: nat}"
  shows "digit_char d \<noteq> c"
  using digit_char_code [OF assms(1)] assms by auto

lemma digit_char_letter:
  "d < 10 \<Longrightarrow> digit_char d \<noteq> CHR ''.''" "d < 10 \<Longrightarrow> digit_char d \<noteq> CHR ''e''"
  "d < 10 \<Longrightarrow> digit_char d \<noteq> CHR ''E''" "d < 10 \<Longrightarrow> digit_char d \<noteq> CHR ''i''"
  "d < 10 \<Longrightarrow> digit_char d \<noteq> CHR ''n''"
  by (erule digit_char_neq, simp)+

lemma decimal_digits:
  fixes f :: nat
  shows "f = 100 * (f div 100) + 10 * (f div 10 mod 10) + f mod 10"
proof -
  have "f = 10 * (f div 10) + f mod 10" and "f div 10 = 10 * (f div 10 div 10) + f div 10 mod 10" by simp_all
  moreover have "f div 10 div 10 = f div 100" by (simp add: div_mult2_eq [symmetric])
  ultimately show ?thesis by linarith
qed

lemma read_nat_digits:
  "read_nat (map digit_char [a]) = (if a < 10 then Some a else read_nat (map digit_char [a]))"
  "a < 10 \<Longrightarrow> b < 10 \<Longrightarrow> read_nat (map digit_char [a, b]) = Some (10 * a + b)"
  "a < 10 \<Longrightarrow> b < 10 \<Longrightarrow> c < 10 \<Longrightarrow> read_nat (map digit_char [a, b, c]) = Some (100 * a + 10 * b + c)"
  by (simp_all add: read_nat_def)

lemma read_decimal_point:
  assumes i: "read_nat ip = Some i" "\<forall>c \<in> set ip. \<exists>d < 10. c = digit_char d" "ip \<noteq> []"
    and f: "read_nat (map digit_char ds) = Some f" "\<forall>d \<in> set ds. d < 10" "ds \<noteq> []"
  shows "read_decimal (ip @ CHR ''.'' # map digit_char ds) = Some (of_nat i + of_nat f / 10 ^ length ds)"
proof -
  let ?s = "ip @ CHR ''.'' # map digit_char ds"
  have e: "\<not> (c = CHR ''e'' \<or> c = CHR ''E'')" if "c \<in> set ?s" for c
    using that i(2) f(2) by (force dest: digit_char_letter)
  then have m: "takeWhile (\<lambda>c. \<not> (c = CHR ''e'' \<or> c = CHR ''E'')) ?s = ?s"
    "dropWhile (\<lambda>c. \<not> (c = CHR ''e'' \<or> c = CHR ''E'')) ?s = []"
    by (simp_all only: takeWhile_eq_all_conv dropWhile_eq_Nil_conv) blast+
  have p: "CHR ''.'' \<noteq> c" if "c \<in> set ip" for c using that i(2) digit_char_letter(1) by fastforce
  then have t: "takeWhile ((\<noteq>) CHR ''.'') ?s = ip" "drop 1 (dropWhile ((\<noteq>) CHR ''.'') ?s) = map digit_char ds"
    by (simp_all add: takeWhile_append2 dropWhile_append2)
  have "filter (\<lambda>c. char_digit c \<noteq> None) (map digit_char ds) = map digit_char ds"
    using f(2) by (simp add: filter_id_conv)
  then show ?thesis
    unfolding read_decimal_def Let_def m t using i f by (simp add: read_exponent_def scale10_def)
qed

lemma lower_digit: "d < 10 \<Longrightarrow> lower_char (digit_char d) = digit_char d"
  by (simp add: lower_char_def digit_char_code Let_def)

lemma read_float_point:
  assumes "read_nat ip = Some i" "\<forall>c \<in> set ip. \<exists>d < 10. c = digit_char d" "ip \<noteq> []"
    and "read_nat (map digit_char ds) = Some f" "\<forall>d \<in> set ds. d < 10" "ds \<noteq> []"
  shows "read_float (ip @ CHR ''.'' # map digit_char ds) = Some (Finite (of_nat i + of_nat f / 10 ^ length ds))"
proof -
  let ?s = "ip @ CHR ''.'' # map digit_char ds"
  have "\<not> is_space CHR ''.''" by (simp add: is_space_def)
  then have "strip ?s = ?s"
    using assms(2,5) digit_char_plain by (intro strip_no_space) auto
  moreover obtain c cs where ip: "ip = c # cs" using assms(3) by (cases ip) auto
  moreover obtain d where d: "d < 10" "c = digit_char d" using assms(2) ip by auto
  moreover have "lower_char c \<noteq> CHR ''i''" "lower_char c \<noteq> CHR ''n''"
    unfolding d(2) lower_digit [OF d(1)] using digit_char_letter d(1) by blast+
  moreover have "c \<noteq> CHR ''-''" "c \<noteq> CHR ''+''" using digit_char_plain d by auto
  ultimately show ?thesis
    using read_decimal_point [OF assms] by (simp add: read_float_def read_unsigned_float_def Let_def)
qed

lemma round3_value:
  assumes "round3 x = JFloat t"
  shows "read_float t = Some (Finite (of_nat (millis x) / 1000))"
proof -
  define m f where "m = millis x" and "f = m mod 1000"
  define ds where "ds = (if f mod 100 = 0 then [f div 100] else if f mod 10 = 0 then [f div 100, f div 10 mod 10]
                else [f div 100, f div 10 mod 10, f mod 10])"
  have t: "t = str_nat (m div 1000) @ CHR ''.'' # map digit_char ds"
    using assms unfolding round3_def Let_def m_def [symmetric] f_def [symmetric] ds_def [symmetric] by simp
  have f: "f < 1000" by (simp add: f_def)
  then have ds: "\<forall>d \<in> set ds. d < 10" "ds \<noteq> []" by (auto simp: ds_def)
  obtain n where n: "read_nat (map digit_char ds) = Some n" "of_nat n / 10 ^ length ds = (of_nat f / 1000 :: rat)"
  proof (cases "f mod 100 = 0")
    case True
    then have "f = 100 * (f div 100)" by (metis add_0_right mult_div_mod_eq)
    then have "(of_nat f :: rat) = 100 * of_nat (f div 100)" by (metis of_nat_mult of_nat_numeral)
    with True f that [of "f div 100"] show thesis by (simp add: ds_def read_nat_def)
  next
    case no: False
    show thesis
    proof (cases "f mod 10 = 0")
      case True
      then have "f = 10 * (10 * (f div 100) + f div 10 mod 10)" using decimal_digits [of f] by simp
      then have "(of_nat f :: rat) = 10 * of_nat (10 * (f div 100) + f div 10 mod 10)"
        by (metis of_nat_mult of_nat_numeral)
      with True no f that [of "10 * (f div 100) + f div 10 mod 10"] show thesis
        using read_nat_digits(2) [of "f div 100" "f div 10 mod 10"] by (simp add: ds_def)
    next
      case False
      have "read_nat (map digit_char ds) = Some f"
        using read_nat_digits(3) [of "f div 100" "f div 10 mod 10" "f mod 10"] False no f decimal_digits [of f]
        by (simp add: ds_def)
      with False no that [of f] show thesis by (simp add: ds_def)
    qed
  qed
  have "m = 1000 * (m div 1000) + f" by (simp add: f_def)
  then have v: "(of_nat (m div 1000) + of_nat f / 1000 :: rat) = of_nat m / 1000"
    by (metis (no_types, opaque_lifting) add_divide_distrib nonzero_mult_div_cancel_left of_nat_add of_nat_mult
        of_nat_numeral zero_neq_numeral)
  have "\<forall>c \<in> set (str_nat (m div 1000)). \<exists>d < 10. c = digit_char d" using str_nat_chars by blast
  from read_float_point [OF read_nat_str_nat this str_nat_nonempty n(1) ds] show ?thesis
    unfolding t n(2) v [unfolded m_def] m_def .
qed


section \<open>What a job of each kind does\<close>

text \<open>The outcome of one attempt of a job under the built-in registry.\<close>

definition attempt_outcome :: "'s redis_ops \<Rightarrow> settings \<Rightarrow> (redis_error \<Rightarrow> py_exc) \<Rightarrow> (json \<Rightarrow> string)
    \<Rightarrow> (string \<Rightarrow> string) \<Rightarrow> job \<Rightarrow> 's \<Rightarrow> handler_end option" where
  "attempt_outcome R S rx show sha256 j s =
     (case (lookup_spec builtins (job_type j), run_builtin R S rx show sha256 j s) of
        (Some spec, Some r) \<Rightarrow> outcome_of S spec r | _ \<Rightarrow> None)"

lemma builtin_outcome:
  "job_type j = ''send_email'' \<Longrightarrow> attempt_outcome R S rx show sha j s =
     outcome_of S (AsyncSpec (fn ''send_email'' ''send_email'') True None) (send_email R S rx show j s)"
  "job_type j = ''cpu_task'' \<Longrightarrow> attempt_outcome R S rx show sha j s =
     outcome_of S (SyncSpec (fn ''cpu_task'' ''cpu_task'') ProcessPool True None) (cpu_task sha j s)"
  "job_type j = ''flaky'' \<Longrightarrow> attempt_outcome R S rx show sha j s =
     outcome_of S (AsyncSpec (fn ''faults'' ''flaky'') True None) (flaky R S rx j s)"
  "job_type j = ''poison'' \<Longrightarrow> attempt_outcome R S rx show sha j s =
     outcome_of S (AsyncSpec (fn ''faults'' ''poison'') True None) (poison j s)"
  "job_type j = ''crashy'' \<Longrightarrow> attempt_outcome R S rx show sha j s =
     outcome_of S (AsyncSpec (fn ''faults'' ''crashy'') True None) (crashy j s)"
  "job_type j = ''slow'' \<Longrightarrow> attempt_outcome R S rx show sha j s =
     outcome_of S (AsyncSpec (fn ''faults'' ''slow'') False None) (slow R S rx j s)"
  "job_type j = ''hang'' \<Longrightarrow> attempt_outcome R S rx show sha j s =
     outcome_of S (AsyncSpec (fn ''faults'' ''hang'') True (Some hang_timeout)) (hang R S rx j s)"
  "job_type j = ''hang_thread'' \<Longrightarrow> attempt_outcome R S rx show sha j s =
     outcome_of S (SyncSpec (fn ''faults'' ''hang_thread'') ThreadPool True (Some hang_timeout)) (hang_blocking j s)"
  "job_type j = ''hang_process'' \<Longrightarrow> attempt_outcome R S rx show sha j s =
     outcome_of S (SyncSpec (fn ''faults'' ''hang_process'') ProcessPool True (Some hang_timeout)) (hang_blocking j s)"
  by (simp_all add: attempt_outcome_def lookup_spec_def builtins_def run_builtin_def hang_thread_def hang_process_def)

lemma hang_timeouts [simp]:
  "run_timeout S (AsyncSpec f h (Some hang_timeout)) = 2"
  "run_timeout S (SyncSpec f q h (Some hang_timeout)) = 2"
  "run_timeout S (AsyncSpec f h None) = job_timeout S"
  "run_timeout S (SyncSpec f q h None) = job_timeout S"
  by (simp_all add: run_timeout_def hang_timeout_def)

text \<open>
  The payload a kind draws, as the handler reads it back: the number of attempts that fail,
  and sleeps that outlast or stay under the timeout.
\<close>

definition failing_attempts :: "job \<Rightarrow> int \<Rightarrow> bool" where
  "failing_attempts j n \<longleftrightarrow> map_of (payload j) ''fail_times'' = Some (JInt n)"

definition hanging_attempts :: "job \<Rightarrow> int \<Rightarrow> bool" where
  "hanging_attempts j n \<longleftrightarrow> map_of (payload j) ''hang_attempts'' = Some (JInt n) \<and>
     (\<exists>d > 2. hang_seconds j = Inr (Finite d))"

lemma hang_sleeps_cases:
  assumes "hanging_attempts j n"
  obtains d where "d > 2" and "hang_sleeps j = Inr (if attempt j < n then [Finite d] else [])"
  using assms by (auto simp: hanging_attempts_def hang_sleeps_def hangs_def payload_get_def py_int_def)

lemma hang_blocking_outcome:
  assumes "hanging_attempts j n" and "run_timeout S spec = 2"
  shows "if attempt j < n then fails (outcome_of S spec (hang_blocking j s))
    else succeeds (outcome_of S spec (hang_blocking j s))"
proof -
  obtain d where "d > 2" and "hang_sleeps j = Inr (if attempt j < n then [Finite d] else [])"
    using hang_sleeps_cases [OF assms(1)] .
  then show ?thesis
    using assms(2) by (simp add: hang_blocking_def outcome_of_def sleeps_past_def List.map_filter_def Let_def)
qed

lemma default_hang_seconds:
  "map_of (payload j) ''hang_seconds'' = None \<Longrightarrow> hang_seconds j = Inr (Finite 30)"
proof -
  assume "map_of (payload j) ''hang_seconds'' = None"
  moreover have "read_float ''30.0'' = Some (Finite 30)" by code_simp
  ultimately show ?thesis by (simp add: hang_seconds_def payload_get_def py_float_of_def)
qed

context redis_service
begin

lemma flaky_outcome:
  assumes "failing_attempts j n" and "job_type j = ''flaky''" and "typed S (view s)" and "0 < job_timeout S"
  shows "if attempt j < n then fails (attempt_outcome R S rx show sha j s)
    else succeeds (attempt_outcome R S rx show sha j s)"
proof (cases "attempt j < n")
  case True
  with assms show ?thesis
    by (simp add: builtin_outcome flaky_def payload_get_def failing_attempts_def py_int_def quick_outcome)
next
  case False
  have "\<not> sleeps_past (job_timeout S) []" using assms(4) by (simp add: sleeps_past_def)
  with False assms show ?thesis
    using effect_succeeds [OF assms(3), of "AsyncSpec (fn ''faults'' ''flaky'') True None" "[]"]
    by (simp add: builtin_outcome flaky_def payload_get_def failing_attempts_def py_int_def)
qed

lemma hang_outcome:
  assumes "hanging_attempts j n" and "job_type j = ''hang''" and "typed S (view s)"
  shows "if attempt j < n then fails (attempt_outcome R S rx show sha j s)
    else succeeds (attempt_outcome R S rx show sha j s)"
proof -
  obtain d where d: "d > 2" "hang_sleeps j = Inr (if attempt j < n then [Finite d] else [])"
    using hang_sleeps_cases [OF assms(1)] .
  have "sleeps_past 2 (if attempt j < n then [Finite d] else []) \<longleftrightarrow> attempt j < n"
    using d(1) by (simp add: sleeps_past_def)
  then show ?thesis
    using d(2) assms(2) effect_succeeds [OF assms(3)] effect_times_out [OF assms(3)]
    by (cases "attempt j < n") (simp_all add: builtin_outcome hang_def)
qed

end


lemma round_even_bound: "of_int (round_even x) \<le> x + 1 / 2"
proof -
  have "of_int \<lfloor>x\<rfloor> \<le> x" by simp
  then have "of_int \<lfloor>x\<rfloor> \<le> x + 1 / 2" by linarith
  then show ?thesis by (auto simp: round_even_def Let_def)
qed

lemma round_even_lower: "x - 1 / 2 \<le> of_int (round_even x)"
  by (auto simp: round_even_def Let_def) linarith+

lemma millis_upper: "0 \<le> x \<Longrightarrow> of_nat (millis x) / 1000 \<le> x + 1 / 2000"
proof -
  assume "0 \<le> x"
  then have "- 1 < (of_int (round_even (x * 1000)) :: rat)" using round_even_lower [of "x * 1000"] by simp
  then have "0 \<le> round_even (x * 1000)" by linarith
  then have "(of_nat (millis x) :: rat) = of_int (round_even (x * 1000))" by (simp add: millis_def)
  with round_even_bound [of "x * 1000"] show ?thesis by simp
qed

lemma millis_lower: "x - 1 / 2000 \<le> of_nat (millis x) / 1000"
proof -
  have "x * 1000 - 1 / 2 \<le> of_int (round_even (x * 1000))" by (rule round_even_lower)
  also have "\<dots> \<le> of_nat (millis x)" by (simp add: millis_def of_nat_nat)
  finally show ?thesis by simp
qed

lemma round3_float: "py_float_of (round3 x) = Inr (Finite (of_nat (millis x) / 1000))"
proof -
  obtain t where "round3 x = JFloat t" by (simp add: round3_def Let_def)
  with round3_value [of x t] show ?thesis by (simp add: py_float_of_def)
qed

text \<open>The worker's settings a mix is made for.\<close>

definition mix_agrees :: "mix_params \<Rightarrow> settings \<Rightarrow> bool" where
  "mix_agrees p S \<longleftrightarrow> mix_attempts p = max_attempts S \<and> 3 < max_attempts S \<and> 0 < lease p \<and>
     9 / 5 * lease p + 1 / 1000 \<le> job_timeout S \<and> 20 / 1000 \<le> job_timeout S"

text \<open>A job as a worker holds it: the mix's type and payload, some id and attempt.\<close>

definition of_new :: "new_job \<Rightarrow> job \<Rightarrow> bool" where
  "of_new n j \<longleftrightarrow> job_type j = nj_type n \<and> payload j = nj_payload n"

context redis_service
begin

lemma send_email_outcome:
  assumes "job_type j = ''send_email''" "payload j = [(''latency_ms'', JInt n)]" "n \<le> 20"
    and "typed S (view s)" and "20 / 1000 \<le> job_timeout S"
  shows "succeeds (attempt_outcome R S rx show sha j s)"
proof -
  have "\<not> sleeps_past (job_timeout S) (if n > 0 then [Finite (of_int n / 1000)] else [])"
  proof -
    have "(of_int n :: rat) \<le> 20" using assms(3) by simp
    then show ?thesis using assms(5) by (auto simp: sleeps_past_def)
  qed
  from effect_succeeds [OF assms(4)] this show ?thesis
    using assms(1,2) by (simp add: builtin_outcome send_email_def payload_get_def py_int_def Let_def)
qed

lemma cpu_task_outcome:
  assumes "job_type j = ''cpu_task''" "payload j = [(''rounds'', JInt n)]" and "0 < job_timeout S"
  shows "succeeds (attempt_outcome R S rx show sha j s)"
  using assms by (simp add: builtin_outcome cpu_task_def payload_get_def py_int_def quick_outcome)

lemma slow_outcome:
  assumes "job_type j = ''slow''" "payload j = [(''seconds'', round3 x)]" "0 \<le> x" "x + 1 / 2000 \<le> job_timeout S"
    and "typed S (view s)"
  shows "succeeds (attempt_outcome R S rx show sha j s)"
proof -
  have "\<not> sleeps_past (job_timeout S) [Finite (of_nat (millis x) / 1000)]"
    using millis_upper [OF assms(3)] assms(4) by (simp add: sleeps_past_def)
  from effect_succeeds [OF assms(5)] this show ?thesis
    using assms(1,2) by (simp add: builtin_outcome slow_def payload_get_def round3_float)
qed

lemma poison_outcome:
  assumes "job_type j = ''poison''" and "0 < job_timeout S"
  shows "fails (attempt_outcome R S rx show sha j s)"
  using assms by (simp add: builtin_outcome poison_def quick_outcome)

lemma crashy_outcome:
  assumes "job_type j = ''crashy''" and "payload j = []" and "0 < job_timeout S"
  shows "attempt_outcome R S rx show sha j s = None" and "run_builtin R S rx show sha j s = Some (quick (Exits 70) s)"
  using assms by (simp_all add: builtin_outcome run_builtin_def crashy_def payload_get_def py_int_def quick_outcome)

lemma hang_blocking_kind:
  assumes "job_type j \<in> {''hang_thread'', ''hang_process''}" and "hanging_attempts j n"
  shows "if attempt j < n then fails (attempt_outcome R S rx show sha j s)
    else succeeds (attempt_outcome R S rx show sha j s)"
proof -
  from assms(1) obtain spec where "attempt_outcome R S rx show sha j s = outcome_of S spec (hang_blocking j s)"
    and "run_timeout S spec = 2" using builtin_outcome(8,9) [of j R S rx "show" sha s] hang_timeouts(2) by blast
  with hang_blocking_outcome [OF assms(2), of S spec s] show ?thesis by simp
qed

end

lemma drawn_hang:
  "payload j = [(''hang_attempts'', JInt n)] \<Longrightarrow> hanging_attempts j n"
  using default_hang_seconds [of j] by (simp add: hanging_attempts_def)

lemma drawn_hang_once:
  "payload j = [(''hang_attempts'', JInt n), (''hang_seconds'', round3 u)] \<Longrightarrow> 3 \<le> u \<Longrightarrow> hanging_attempts j n"
  using millis_lower [of u] unfolding hanging_attempts_def
  by (intro conjI exI [of _ "of_nat (millis u) / 1000"])
    (simp_all add: hang_seconds_def payload_get_def round3_float)

lemma rng_draws:
  assumes "rng_ok G"
  shows "a \<le> b \<Longrightarrow> randint G a b g = (n, g') \<Longrightarrow> a \<le> n \<and> n \<le> b"
    and "c \<le> d \<Longrightarrow> uniform G c d g = (u, g') \<Longrightarrow> c \<le> u \<and> u \<le> d"
  using assms unfolding rng_ok_def by (metis fst_conv)+


definition draws :: "'g rng \<Rightarrow> mix_params \<Rightarrow> kind \<Rightarrow> new_job \<Rightarrow> bool" where
  "draws G p k n \<longleftrightarrow> nj_type n = k_job_type k \<and> (\<exists>g. nj_payload n = fst (draw_payload G p (k_payload k) g))"

lemma draws_of:
  assumes "draws G p k n" and "of_new n j" and "rng_ok G"
  shows "job_type j = k_job_type k"
    and "k_payload k = NoPayload \<Longrightarrow> payload j = []"
    and "k_payload k = LatencyMs \<Longrightarrow> \<exists>i \<le> 20. payload j = [(''latency_ms'', JInt i)]"
    and "k_payload k = Rounds \<Longrightarrow> payload j = [(''rounds'', JInt 2000)]"
    and "k_payload k = SlowSeconds \<Longrightarrow> 0 < lease p \<Longrightarrow>
      \<exists>u \<le> 9 / 5 * lease p. 0 \<le> u \<and> payload j = [(''seconds'', round3 u)]"
    and "k_payload k = HangAlways \<Longrightarrow> hanging_attempts j (mix_attempts p + 1000)"
proof -
  obtain g where t: "job_type j = k_job_type k" and pl: "payload j = fst (draw_payload G p (k_payload k) g)"
    using assms(1,2) by (auto simp: draws_def of_new_def)
  show "job_type j = k_job_type k" by (rule t)
  show "k_payload k = NoPayload \<Longrightarrow> payload j = []" "k_payload k = Rounds \<Longrightarrow> payload j = [(''rounds'', JInt 2000)]"
    using pl by simp_all
  show "\<exists>i \<le> 20. payload j = [(''latency_ms'', JInt i)]" if "k_payload k = LatencyMs"
    using pl that rng_draws(1) [OF assms(3), of 0 20 g] by (auto split: prod.splits)
  show "\<exists>u \<le> 9 / 5 * lease p. 0 \<le> u \<and> payload j = [(''seconds'', round3 u)]"
    if k: "k_payload k = SlowSeconds" and l: "0 < lease p"
  proof -
    obtain u g' where u: "uniform G (12 / 10) (18 / 10) g = (u, g')" by fastforce
    have "12 / 10 \<le> u \<and> u \<le> 18 / 10" using rng_draws(2) [OF assms(3) _ u] by simp
    then have "u * lease p \<le> 18 / 10 * lease p" and "0 \<le> u * lease p"
      using l by (auto intro!: mult_right_mono mult_nonneg_nonneg)
    then show ?thesis using pl k u by (intro exI [of _ "u * lease p"]) simp
  qed
  show "hanging_attempts j (mix_attempts p + 1000)" if "k_payload k = HangAlways"
    using pl that by (intro drawn_hang) simp
qed

text \<open>How many attempts the draw makes fail, for the kinds that fail and then succeed.\<close>

lemma draws_failures:
  assumes "draws G p k n" and "rng_ok G"
  shows "k_payload k = FailTimes \<Longrightarrow> \<exists>m \<in> {1 .. 3}. \<forall>j. of_new n j \<longrightarrow> failing_attempts j m"
    and "k_payload k = HangUpTo 2 \<Longrightarrow> \<exists>m \<in> {1 .. 2}. \<forall>j. of_new n j \<longrightarrow> hanging_attempts j m"
    and "k_payload k = HangOnce \<Longrightarrow> \<forall>j. of_new n j \<longrightarrow> hanging_attempts j 1"
proof -
  obtain g where pl: "nj_payload n = fst (draw_payload G p (k_payload k) g)"
    using assms(1) by (auto simp: draws_def)
  show "\<exists>m \<in> {1 .. 3}. \<forall>j. of_new n j \<longrightarrow> failing_attempts j m" if "k_payload k = FailTimes"
  proof -
    obtain m g' where m: "randint G 1 3 g = (m, g')" by fastforce
    with rng_draws(1) [OF assms(2) _ m] pl that show ?thesis
      by (intro bexI [of _ m]) (auto simp: of_new_def failing_attempts_def)
  qed
  show "\<exists>m \<in> {1 .. 2}. \<forall>j. of_new n j \<longrightarrow> hanging_attempts j m" if "k_payload k = HangUpTo 2"
  proof -
    obtain m g' where m: "randint G 1 2 g = (m, g')" by fastforce
    with rng_draws(1) [OF assms(2) _ m] pl that show ?thesis
      by (intro bexI [of _ m]) (auto simp: of_new_def intro!: drawn_hang)
  qed
  show "\<forall>j. of_new n j \<longrightarrow> hanging_attempts j 1" if "k_payload k = HangOnce"
  proof -
    obtain u g' where u: "uniform G 3 5 g = (u, g')" by fastforce
    with rng_draws(2) [OF assms(2) _ u] pl that show ?thesis
      by (auto simp: of_new_def intro!: drawn_hang_once)
  qed
qed

lemma kinds_cases:
  assumes "k \<in> set kinds"
  obtains "k_job_type k = ''send_email''" "k_payload k = LatencyMs" "k_expect k = ''SUCCEEDED''" "k_reason k = None"
  | "k_job_type k = ''flaky''" "k_payload k = FailTimes" "k_expect k = ''SUCCEEDED''" "k_reason k = None"
  | "k_job_type k = ''slow''" "k_payload k = SlowSeconds" "k_expect k = ''SUCCEEDED''" "k_reason k = None"
  | "k_job_type k = ''cpu_task''" "k_payload k = Rounds" "k_expect k = ''SUCCEEDED''" "k_reason k = None"
  | "k_job_type k = ''hang''" "k_payload k = HangUpTo 2" "k_expect k = ''SUCCEEDED''" "k_reason k = None"
  | "k_job_type k = ''hang_thread''" "k_payload k = HangOnce" "k_expect k = ''SUCCEEDED''" "k_reason k = None"
  | "k_job_type k = ''hang_process''" "k_payload k = HangUpTo 2" "k_expect k = ''SUCCEEDED''" "k_reason k = None"
  | "k_job_type k = ''hang_process''" "k_payload k = HangAlways" "k_expect k = ''DEAD''" "k_reason k = Some ''max_attempts''"
  | "k_job_type k = ''poison''" "k_payload k = NoPayload" "k_expect k = ''DEAD''" "k_reason k = Some ''max_attempts''"
  | "k_job_type k = ''crashy''" "k_payload k = NoPayload" "k_expect k = ''DEAD''" "k_reason k = Some ''max_deliveries''"
proof -
  from assms consider "k = kinds ! 0" | "k = kinds ! 1" | "k = kinds ! 2" | "k = kinds ! 3" | "k = kinds ! 4"
    | "k = kinds ! 5" | "k = kinds ! 6" | "k = kinds ! 7" | "k = kinds ! 8" | "k = kinds ! 9"
    unfolding kinds_def by (simp only: list.set insert_iff empty_iff) (elim disjE; simp)
  then show thesis by cases (rule that; simp add: kinds_def)+
qed


definition fate_after :: "(job \<Rightarrow> 's \<Rightarrow> handler_end option) \<Rightarrow> (job \<Rightarrow> 's \<Rightarrow> bool) \<Rightarrow> int \<Rightarrow> bool" where
  "fate_after out P m \<longleftrightarrow> (\<forall>j s. P j s \<longrightarrow> (if attempt j < m then fails (out j s) else succeeds (out j s)))"

context redis_service
begin

lemma kind_succeeds:
  assumes k: "k \<in> set kinds" "k_expect k = ''SUCCEEDED''" and G: "rng_ok G" and d: "draws G p k n"
    and S: "mix_agrees p S"
  shows "\<exists>m \<in> {0 .. 3}. fate_after (attempt_outcome R S rx show sha)
    (\<lambda>j s. of_new n j \<and> typed S (view s) \<and> 0 \<le> attempt j) m"
    (is "\<exists>m \<in> _. fate_after ?out ?P m")
proof -
  have t: "0 < job_timeout S" "0 < lease p" "20 / 1000 \<le> job_timeout S" "9 / 5 * lease p + 1 / 1000 \<le> job_timeout S"
    using S by (auto simp: mix_agrees_def)
  have at_once: ?thesis if "\<And>j s. of_new n j \<Longrightarrow> typed S (view s) \<Longrightarrow> succeeds (?out j s)"
    using that by (intro bexI [of _ 0]) (auto simp: fate_after_def)
  have after: ?thesis if "m \<in> {1 .. 3}" "\<And>j s. of_new n j \<Longrightarrow> typed S (view s) \<Longrightarrow>
      if attempt j < m then fails (?out j s) else succeeds (?out j s)" for m
    using that by (intro bexI [of _ m]) (auto simp: fate_after_def)
  note type = draws_of(1) [OF d _ G]
  from k(1) show ?thesis
  proof (cases rule: kinds_cases)
    case 1
    show ?thesis using draws_of(3) [OF d _ G 1(2)] type 1(1) t(3) by (intro at_once) (metis send_email_outcome)
  next
    case 2
    obtain m where "m \<in> {1 .. 3}" "\<forall>j. of_new n j \<longrightarrow> failing_attempts j m"
      using draws_failures(1) [OF d G 2(2)] by blast
    then show ?thesis using type 2(1) t(1) by (intro after [of m] flaky_outcome) auto
  next
    case 3
    show ?thesis
    proof (rule at_once)
      fix j s assume j: "of_new n j" "typed S (view s)"
      obtain u where "u \<le> 9 / 5 * lease p" "0 \<le> u" "payload j = [(''seconds'', round3 u)]"
        using draws_of(5) [OF d j(1) G 3(2) t(2)] by blast
      with type [OF j(1)] 3(1) t(4) j(2) show "succeeds (?out j s)" by (intro slow_outcome [of j u]) auto
    qed
  next
    case 4
    show ?thesis using draws_of(4) [OF d _ G 4(2)] type 4(1) t(1) by (intro at_once) (metis cpu_task_outcome)
  next
    case 5
    obtain m where "m \<in> {1 .. 2}" "\<forall>j. of_new n j \<longrightarrow> hanging_attempts j m"
      using draws_failures(2) [OF d G 5(2)] by blast
    then show ?thesis using type 5(1) by (intro after [of m] hang_outcome) auto
  next
    case 6
    show ?thesis using draws_failures(3) [OF d G 6(2)] type 6(1)
      by (intro after [of 1] hang_blocking_kind) auto
  next
    case 7
    obtain m where "m \<in> {1 .. 2}" "\<forall>j. of_new n j \<longrightarrow> hanging_attempts j m"
      using draws_failures(2) [OF d G 7(2)] by blast
    then show ?thesis using type 7(1) by (intro after [of m] hang_blocking_kind) auto
  qed (use k(2) in simp_all)
qed

lemma kind_dies:
  assumes k: "k \<in> set kinds" and G: "rng_ok G" and d: "draws G p k n" and S: "mix_agrees p S" and j: "of_new n j"
  shows "k_reason k = Some ''max_attempts'' \<Longrightarrow> attempt j < max_attempts S \<Longrightarrow>
      fails (attempt_outcome R S rx show sha j s)"
    and "k_reason k = Some ''max_deliveries'' \<Longrightarrow>
      attempt_outcome R S rx show sha j s = None \<and> run_builtin R S rx show sha j s = Some (quick (Exits 70) s)"
proof -
  have t: "0 < job_timeout S" "mix_attempts p = max_attempts S" using S by (auto simp: mix_agrees_def)
  note type = draws_of(1) [OF d j G]
  show "fails (attempt_outcome R S rx show sha j s)"
    if r: "k_reason k = Some ''max_attempts''" and a: "attempt j < max_attempts S"
    using k
  proof (cases rule: kinds_cases)
    case 8
    have "job_type j \<in> {''hang_thread'', ''hang_process''}" using type 8(1) by simp
    from hang_blocking_kind [OF this draws_of(6) [OF d j G 8(2)], of S rx "show" sha s] a t(2)
    show ?thesis by simp
  next
    case 9
    then show ?thesis using type t(1) by (intro poison_outcome) auto
  qed (use r in simp_all)
  show "attempt_outcome R S rx show sha j s = None \<and> run_builtin R S rx show sha j s = Some (quick (Exits 70) s)"
    if r: "k_reason k = Some ''max_deliveries''"
    using k
  proof (cases rule: kinds_cases)
    case 10
    then show ?thesis using type t(1) draws_of(2) [OF d j G 10(2)] crashy_outcome by metis
  qed (use r in simp_all)
qed

end

end
