(* ===== verification/Metrics.thy ===== *)
theory Metrics
  imports Protocol
begin

text \<open>
  \<^verbatim>\<open>src/ftq/metrics.py\<close>: the counters hash and the snapshot behind \<^verbatim>\<open>ftq stats\<close>. The snapshot
  reads in one pipeline and two further calls; \<open>others n\<close> is what other clients do to the server
  before call \<open>n\<close>.
\<close>

section \<open>Reading\<close>

definition counter_names :: "string list" where
  "counter_names = [''processed'', ''duplicates_suppressed'', ''effects_applied'', ''effects_suppressed'',
     ''retried'', ''scheduled'', ''dead'', ''late_successes'', ''requeued'', ''reclaimed'', ''heartbeats'',
     ''lease_lost'', ''consumers_pruned'', ''timeouts'', ''rejected'', ''blocked'']"

datatype stats_error = StatsReply redis_error | BadCounter string

text \<open>\<^verbatim>\<open>int(raw.get(name, 0))\<close> for every name; the first text that is no integer raises.\<close>

fun int_counters :: "(string \<rightharpoonup> string) \<Rightarrow> string list \<Rightarrow> stats_error + (string \<times> int) list" where
  "int_counters raw [] = Inr []"
| "int_counters raw (n # ns) =
     (case (case raw n of None \<Rightarrow> Some 0 | Some x \<Rightarrow> read_int x) of
        None \<Rightarrow> Inl (BadCounter n)
      | Some i \<Rightarrow> (case int_counters raw ns of Inl e \<Rightarrow> Inl e | Inr cs \<Rightarrow> Inr ((n, i) # cs)))"

definition read_counters :: "'s redis_ops \<Rightarrow> keys \<Rightarrow> 's \<Rightarrow> (stats_error + (string \<times> int) list) \<times> 's" where
  "read_counters R K s =
     (case HGETALL R (stats_key K) s of
        (Inl e, s') \<Rightarrow> (Inl (StatsReply e), s')
      | (Inr raw, s') \<Rightarrow> (int_counters raw counter_names, s'))"

record queue_snapshot =
  sn_queue :: string
  sn_depth :: int
  sn_in_flight :: int
  sn_undelivered :: int
  sn_delayed :: int
  sn_dlq :: int
  sn_consumers :: int
  sn_full :: bool
  sn_high :: int
  sn_low :: int
  sn_counters :: "(string \<times> int) list"

text \<open>The pipeline runs all its commands, then raises the first error.\<close>

definition read_shape :: "'s redis_ops \<Rightarrow> keys \<Rightarrow> (nat \<Rightarrow> 's \<Rightarrow> 's)
    \<Rightarrow> ('s, nat \<times> nat \<times> nat \<times> nat \<times> (string \<rightharpoonup> string)) script" where
  "read_shape R K others s =
     (case XLEN R (stream_key K) (others 0 s) of (r1, s1) \<Rightarrow>
     (case ZCARD R (delayed_key K) (others 1 s1) of (r2, s2) \<Rightarrow>
     (case XLEN R (dead_key K) (others 2 s2) of (r3, s3) \<Rightarrow>
     (case EXISTS R (full_key K) (others 3 s3) of (r4, s4) \<Rightarrow>
     (case HGETALL R (stats_key K) (others 4 s4) of (r5, s5) \<Rightarrow>
       (case r1 of Inl e \<Rightarrow> Inl e | Inr stream_len \<Rightarrow>
       (case r2 of Inl e \<Rightarrow> Inl e | Inr delayed \<Rightarrow>
       (case r3 of Inl e \<Rightarrow> Inl e | Inr dead_len \<Rightarrow>
       (case r4 of Inl e \<Rightarrow> Inl e | Inr full_flag \<Rightarrow>
       (case r5 of Inl e \<Rightarrow> Inl e | Inr raw \<Rightarrow> Inr (stream_len, delayed, dead_len, full_flag, raw))))), s5))))))"

text \<open>In flight and consumers; an error reply (no stream or group yet) counts as none.\<close>

definition read_group_info :: "'s redis_ops \<Rightarrow> settings \<Rightarrow> (nat \<Rightarrow> 's \<Rightarrow> 's) \<Rightarrow> 's \<Rightarrow> (int \<times> int) \<times> 's" where
  "read_group_info R S others s =
     (case XPENDING_SUMMARY R (stream_key (keys_of S)) (group S) (others 5 s) of
        (Inl _, s1) \<Rightarrow> ((0, 0), s1)
      | (Inr in_flight, s1) \<Rightarrow>
          (case XINFO_CONSUMERS R (stream_key (keys_of S)) (group S) (others 6 s1) of
             (Inl _, s2) \<Rightarrow> ((0, 0), s2)
           | (Inr info, s2) \<Rightarrow> ((int in_flight, int (length info)), s2)))"

definition snapshot :: "'s redis_ops \<Rightarrow> settings \<Rightarrow> (nat \<Rightarrow> 's \<Rightarrow> 's) \<Rightarrow> 's
    \<Rightarrow> (stats_error + queue_snapshot) \<times> 's" where
  "snapshot R S others s =
     (case read_shape R (keys_of S) others s of
        (Inl e, s1) \<Rightarrow> (Inl (StatsReply e), s1)
      | (Inr (stream_len, delayed, dead_len, full_flag, raw), s1) \<Rightarrow>
          (case read_group_info R S others s1 of ((in_flight, consumers), s2) \<Rightarrow>
            (let depth = int stream_len + int delayed in
             (case int_counters raw counter_names of
                Inl e \<Rightarrow> Inl e
              | Inr cs \<Rightarrow> Inr \<lparr>sn_queue = queue_name S, sn_depth = depth, sn_in_flight = in_flight,
                  sn_undelivered = int stream_len - in_flight, sn_delayed = int delayed,
                  sn_dlq = int dead_len, sn_consumers = consumers,
                  sn_full = (full_flag \<noteq> 0 \<and> depth \<ge> low_watermark S),
                  sn_high = high_watermark S, sn_low = low_watermark S, sn_counters = cs\<rparr>, s2))))"

section \<open>A quiet snapshot is the queue's view\<close>

definition snapshot_of :: "settings \<Rightarrow> qstate \<Rightarrow> queue_snapshot" where
  "snapshot_of S q = \<lparr>sn_queue = queue_name S, sn_depth = int (q_depth q), sn_in_flight = int (length (pend q)),
     sn_undelivered = int (length (filter (\<lambda>e. g_last (grp q) < fst e) (ents q))),
     sn_delayed = int (length (dlyd q)), sn_dlq = int (length (dlq q)),
     sn_consumers = int (length (g_cons (grp q))),
     sn_full = (fullf q \<and> now_full S q), sn_high = high_watermark S, sn_low = low_watermark S,
     sn_counters = map (\<lambda>n. (n, cnt q n)) counter_names\<rparr>"

lemma int_counters_numeric:
  "numeric raw \<Longrightarrow> int_counters raw ns =
     Inr (map (\<lambda>n. (n, case raw n of None \<Rightarrow> 0 | Some x \<Rightarrow> (case read_int x of None \<Rightarrow> 0 | Some i \<Rightarrow> i))) ns)"
  by (induction ns) (auto simp: numeric_def split: option.split)

lemma exec_hgetall [exec_simps]:
  "typed S v \<Longrightarrow> d_hgetall (stats_key (keys_of S)) v = (Inr (get_hash (stats_key (keys_of S)) v), v)"
  by (simp add: d_hgetall_def typedD)

lemma exec_xlen_dead [exec_simps]:
  "typed S v \<Longrightarrow> d_xlen (dead_key (keys_of S)) v = (Inr (length (dlq (qview S v))), v)"
  by (simp add: d_xlen_def typedD qview_def Let_def)

lemma stats_counters:
  assumes "typed S v"
  shows "int_counters (get_hash (stats_key (keys_of S)) v) ns = Inr (map (\<lambda>n. (n, cnt (qview S v) n)) ns)"
  using int_counters_numeric [OF typedD(12) [OF assms], of ns]
  by (simp add: qview_def Let_def stats_of_def cong: option.case_cong)

lemma window_split:
  assumes "window es l g ps"
  shows "length es = length ps + length (filter (\<lambda>i. g < i) es)"
proof -
  have d: "distinct es" using assms by (simp add: window_def strict_sorted_iff)
  have "length ps = card {i \<in> set es. i \<le> g}" using assms by (metis distinct_card window_def)
  also have "\<dots> = length (filter (\<lambda>i. i \<le> g) es)"
    using distinct_card [OF distinct_filter [OF d]] by (metis set_filter)
  finally show ?thesis using sum_length_filter_compl [of "\<lambda>i. i \<le> g" es] by (simp add: not_le)
qed

lemma undelivered_count:
  assumes "delivery_inv q"
  shows "length (ents q) = length (pend q) + length (filter (\<lambda>e. g_last (grp q) < fst e) (ents q))"
  using window_split [OF assms [unfolded delivery_inv_def]]
  by (simp add: filter_map o_def)

context redis_service
begin

lemma read_shape_quiet:
  assumes t: "typed S (view s)"
  shows "\<exists>s'. read_shape R (keys_of S) (\<lambda>_ s. s) s =
      (Inr (length (ents (qview S (view s))), length (dlyd (qview S (view s))), length (dlq (qview S (view s))),
         if fullf (qview S (view s)) then 1 else 0, get_hash (stats_key (keys_of S)) (view s)), s')
    \<and> view s' = view s"
proof -
  let ?K = "keys_of S"
  obtain r1 s1 where 1: "XLEN R (stream_key ?K) s = (r1, s1)" by fastforce
  obtain r2 s2 where 2: "ZCARD R (delayed_key ?K) s1 = (r2, s2)" by fastforce
  obtain r3 s3 where 3: "XLEN R (dead_key ?K) s2 = (r3, s3)" by fastforce
  obtain r4 s4 where 4: "EXISTS R (full_key ?K) s3 = (r4, s4)" by fastforce
  obtain r5 s5 where 5: "HGETALL R (stats_key ?K) s4 = (r5, s5)" by fastforce
  show ?thesis
    using refinesD [OF XLEN_doc 1] refinesD [OF ZCARD_doc 2] refinesD [OF XLEN_doc 3]
      refinesD [OF EXISTS_doc 4] refinesD [OF HGETALL_doc 5] t
    by (auto simp: read_shape_def 1 2 3 4 5 exec_simps)
qed

lemma read_group_info_quiet:
  assumes t: "typed S (view s)"
  shows "\<exists>s'. read_group_info R S (\<lambda>_ s. s) s =
      ((int (length (pend (qview S (view s)))), int (length (g_cons (grp (qview S (view s)))))), s')
    \<and> view s' = view s"
proof -
  let ?K = "keys_of S"
  obtain r1 s1 where 1: "XPENDING_SUMMARY R (stream_key ?K) (group S) s = (r1, s1)" by fastforce
  obtain r2 s2 where 2: "XINFO_CONSUMERS R (stream_key ?K) (group S) s1 = (r2, s2)" by fastforce
  show ?thesis
    using refinesD [OF XPENDING_SUMMARY_doc 1] refinesD [OF XINFO_CONSUMERS_doc 2] t
    by (auto simp: read_group_info_def 1 2 d_xpending_summary_def d_xinfo_consumers_def exec_with_group)
qed

lemma snapshot_quiet:
  assumes t: "typed S (view s)" and d: "delivery_inv (qview S (view s))"
  shows "fst (snapshot R S (\<lambda>_ s. s) s) = Inr (snapshot_of S (qview S (view s)))"
    and "view (snd (snapshot R S (\<lambda>_ s. s) s)) = view s"
proof -
  obtain s1 where 1: "read_shape R (keys_of S) (\<lambda>_ s. s) s =
      (Inr (length (ents (qview S (view s))), length (dlyd (qview S (view s))), length (dlq (qview S (view s))),
         if fullf (qview S (view s)) then 1 else 0, get_hash (stats_key (keys_of S)) (view s)), s1)"
    and v1: "view s1 = view s" using read_shape_quiet [OF t] by blast
  obtain s2 where 2: "read_group_info R S (\<lambda>_ s. s) s1 =
      ((int (length (pend (qview S (view s)))), int (length (g_cons (grp (qview S (view s)))))), s2)"
    and v2: "view s2 = view s" using read_group_info_quiet [of S s1] t v1 by auto
  show "fst (snapshot R S (\<lambda>_ s. s) s) = Inr (snapshot_of S (qview S (view s)))"
    using undelivered_count [OF d]
    by (auto simp: snapshot_def 1 2 stats_counters [OF t] snapshot_of_def q_depth_def now_full_def Let_def)
  show "view (snd (snapshot R S (\<lambda>_ s. s) s)) = view s"
    by (simp add: snapshot_def 1 2 stats_counters [OF t] v2 Let_def)
qed

end

end
