(* ===== verification/Queue_Simulation.thy ===== *)
theory Queue_Simulation
  imports Protocol
begin

text \<open>
  The queue as an abstract transition system: one rule per specified operation, on the view of
  the queue alone, with no keys, scripts or replies. Every step of the protocol on a documented
  server is a step of this system, so what holds of its runs holds of the queue.
\<close>

inductive q_step :: "(string list \<Rightarrow> string) \<Rightarrow> (string \<Rightarrow> string list option) \<Rightarrow> settings \<Rightarrow> registry
    \<Rightarrow> (parse_error \<Rightarrow> py_exc) \<Rightarrow> qstate \<Rightarrow> qstate \<Rightarrow> bool"
  for enc dec S reg xt where
  q_enqueue: "q_step enc dec S reg xt q (snd (q_enqueue S idk (job_id j) c (to_fields j) q))"
| q_foreign: "q_step enc dec S reg xt q (q_add ps q)"
| q_read: "q_step enc dec S reg xt q (snd (q_read w n q))"
| q_reclaim: "q_step enc dec S reg xt q (snd (q_reclaim S w cur n slots q))"
| q_process: "q_step enc dec S reg xt q (snd (q_process enc S reg xt w u i fs n he q))"
| q_heartbeat: "q_step enc dec S reg xt q (snd (q_heartbeat w i q))"
| q_ledger: "q_step enc dec S reg xt q (snd (q_ledger k fs q))"
| q_schedule: "q_step enc dec S reg xt q (snd (q_schedule dec n q))"
| q_prune: "q_step enc dec S reg xt q (snd (q_prune mi w q))"
| q_requeue: "q_step enc dec S reg xt q (snd (q_requeue j q))"
| q_tick: "m \<subseteq>\<^sub>m idem q \<Longrightarrow> qnow q \<le> t \<Longrightarrow> q_step enc dec S reg xt q (q\<lparr>idem := m, qnow := t\<rparr>)"
| q_idle: "q_step enc dec S reg xt q q"

context queue_service
begin

lemma step_simulated:
  assumes z: "sys_inv R view S z" and "step R S reg xt z z'"
    and k: "kept (keys_of S) h c (view (server z))" and h: "clock (view (server z')) < h"
  shows "q_step (cjson_encode R) (cjson_decode R) S reg xt (q_of z) (q_of z')"
  using assms(2)
proof cases
  case (enqueue idk j c r s')
  show ?thesis
    using run_spec(3) [OF implements_enqueue enqueue_call_doc sys_invD(1) [OF z] _ enqueue(2)]
    by (simp add: enqueue(1) q_step.q_enqueue)
next
  case (foreign ps r s')
  show ?thesis
    using run_spec(3) [OF implements_add [OF foreign(3)] doc_of_refines(16) sys_invD(1) [OF z] _ foreign(2)]
    by (simp add: foreign(1) q_step.q_foreign)
next
  case (read w n r s' lost)
  show ?thesis
    using run_spec(3) [OF implements_fetch fetch_doc sys_invD(1) [OF z] _ read(2)]
    by (simp add: read(1) q_step.q_read)
next
  case (reclaim w cur n slots r s' lost)
  show ?thesis
    using run_spec(3) [OF implements_reclaim reclaim_api_doc sys_invD(1) [OF z] _ reclaim(2)]
    by (simp add: reclaim(1) q_step.q_reclaim)
next
  case (settle t u he r s' lost)
  show ?thesis
    using run_spec(3) [OF implements_process process_doc sys_invD(1,5) [OF z] settle(3)]
    by (simp add: settle(1) q_step.q_process)
next
  case (crash P)
  then show ?thesis by (simp add: q_step.q_idle)
next
  case (beat w i r s')
  show ?thesis
    using run_spec(3) [OF implements_heartbeat heartbeat_api_doc sys_invD(1) [OF z] _ beat(2)]
    by (simp add: beat(1) q_step.q_heartbeat)
next
  case (effect k fs r s')
  show ?thesis
    using run_spec(3) [OF implements_ledger ledger_api_doc sys_invD(1) [OF z] _ effect(2)]
    by (simp add: effect(1) q_step.q_ledger)
next
  case (schedule r s')
  show ?thesis
    using run_spec(3) [OF implements_schedule move_due_doc sys_invD(1,7) [OF z] schedule(2)]
    by (simp add: schedule(1) q_step.q_schedule)
next
  case (prune w r s')
  show ?thesis
    using run_spec(3) [OF implements_prune prune_api_doc sys_invD(1) [OF z] _ prune(2)]
    by (simp add: prune(1) q_step.q_prune)
next
  case (requeue jid r s')
  show ?thesis
    using run_spec(3) [OF implements_requeue requeue_api_doc sys_invD(1,6) [OF z] requeue(2)]
    by (simp add: requeue(1) q_step.q_requeue)
next
  case (join r s')
  show ?thesis
    using run_spec(3) [OF implements_ensure_group ensure_group_doc sys_invD(1) [OF z] _ join(2)]
    by (simp add: join(1) q_step.q_idle)
next
  case (tick d r s')
  from tick_safe(2) [OF z tick(2) k] h obtain m n where "q_of z' = (q_of z)\<lparr>idem := m, qnow := n\<rparr>"
    "m \<subseteq>\<^sub>m idem (q_of z)" "qnow (q_of z) \<le> n" by (auto simp: tick(1))
  then show ?thesis by (auto intro: q_step.q_tick)
qed

text \<open>
  What holds of one abstract step, and is reflexive and transitive, holds between the ends of every
  run that stays within the retention period.
\<close>

lemma clock_grows:
  assumes "timed h t z" and "reaches R S reg xt z z'"
  shows "clock (view (server z)) \<le> clock (view (server z'))"
proof -
  have "timed h t z' \<and> clock (view (server z)) \<le> clock (view (server z'))"
    using assms(2) unfolding reaches_def
    by (induction rule: rtranclp_induct) (use assms(1) step_times in \<open>auto intro: order_trans\<close>)
  then show ?thesis ..
qed

lemma timed_keeps:
  assumes step: "\<And>q q'. delivery_inv q \<Longrightarrow>
      q_step (cjson_encode R) (cjson_decode R) S reg xt q q' \<Longrightarrow> P q q'"
    and refl: "\<And>q. P q q" and tr: "\<And>q q' q''. P q q' \<Longrightarrow> P q' q'' \<Longrightarrow> P q q''"
    and z: "sys_inv R view S z" "timed h t z" and "reaches R S reg xt z z'" and "clock (view (server z')) < h"
  shows "P (q_of z) (q_of z')"
  using assms(6,7) unfolding reaches_def
proof (induction rule: rtranclp_induct)
  case base
  show ?case by (rule refl)
next
  case (step y z')
  have y: "timed h t y \<and> (clock (view (server y)) < h \<longrightarrow> sys_inv R view S y)"
    using protocol.run_inv step.hyps(1) z by blast
  then have c: "clock (view (server y)) < h" and k: "kept (keys_of S) h (clock (view (server y))) (view (server y))"
    using step_times [OF step.hyps(2)] step.prems by (fastforce, simp add: timed_def)
  with y have i: "sys_inv R view S y" by simp
  from assms(1) [OF sys_invD(4) [OF i] step_simulated [OF i step.hyps(2) k step.prems]] tr [OF step.IH [OF c]]
  show ?case by blast
qed

lemma reaches_simulated:
  assumes "sys_inv R view S z" "timed h t z" "reaches R S reg xt z z'" "clock (view (server z')) < h"
  shows "(q_step (cjson_encode R) (cjson_decode R) S reg xt)\<^sup>*\<^sup>* (q_of z) (q_of z')"
  by (rule timed_keeps [OF _ _ _ assms]) auto

end

section \<open>Success is final\<close>

lemma q_step_keeps:
  assumes "delivery_inv q" and "q_step enc dec S reg xt q q'"
  shows "keeps_success q q'"
  using assms(2)
  by cases (use assms(1) in \<open>simp_all add: keeps_others keeps_reclaim keeps_process keeps_requeue keeps_fin\<close>)

section \<open>The dead-letter stream only grows at its end\<close>

definition dlq_later :: "qstate \<Rightarrow> qstate \<Rightarrow> bool" where
  "dlq_later q q' \<longleftrightarrow> dlast q \<le> dlast q' \<and> (\<forall>e \<in> set (dlq q'). e \<in> set (dlq q) \<or> dlast q < fst e)"

lemma dlq_later_same: "dlq q' = dlq q \<Longrightarrow> dlast q' = dlast q \<Longrightarrow> dlq_later q q'"
  by (simp add: dlq_later_def)

lemma dlq_later_subset: "set (dlq q') \<subseteq> set (dlq q) \<Longrightarrow> dlast q' = dlast q \<Longrightarrow> dlq_later q q'"
  by (auto simp: dlq_later_def)

lemma dlq_later_trans: "dlq_later q q' \<Longrightarrow> dlq_later q' q'' \<Longrightarrow> dlq_later q q''"
  unfolding dlq_later_def by (meson order_le_less_trans order_trans)

lemma dlq_later_owned:
  "dlq_later q (f q) \<Longrightarrow> dlq_later q (snd (q_owned w i j f q))"
  by (simp add: q_owned_def q_count_def q_drop_def dlq_later_same)

lemma dlq_later_bury: "dlq_later q (bury w j rs e a i q)"
  unfolding dlq_later_def bury_def Let_def using next_eid_gt [of "dlast q" "qnow q"]
  by (auto simp: order_less_imp_le)

lemma dlq_later_dead: "dlq_later q (snd (q_dead w i j rs e a b q))"
  unfolding q_dead_def using dlq_later_bury [of q w j rs e a i]
  by (intro dlq_later_owned) (simp add: dlq_later_def q_defs)

lemma dlq_later_commit: "dlq_later q (snd (q_commit w i j enq r q))"
  by (rule dlq_later_subset) (auto simp: q_commit_def q_count_def q_drop_def succeed_def undead_def Let_def)

lemma dlq_later_retry: "dlq_later q (snd (q_retry enc w i j a d b q))"
  unfolding q_retry_def by (intro dlq_later_owned dlq_later_same) (simp_all add: q_defs delay_entry_def)

lemma dlq_later_process: "dlq_later q (snd (q_process enc S reg xt w u i fs n he q))"
  by (cases "triage S reg xt i fs n"; cases he)
    (auto simp: q_process_def Let_def dlq_later_commit dlq_later_dead dlq_later_retry dlq_later_same split: sum.split)

lemma dlq_moves: "dlq (fold (q_move dec) ms q) = dlq q" "dlast (fold (q_move dec) ms q) = dlast q"
proof -
  have "dlq (fold (q_move dec) ms q) = dlq q \<and> dlast (fold (q_move dec) ms q) = dlast q"
    by (induction ms arbitrary: q) (simp_all add: q_move_def q_add_def Let_def)
  then show "dlq (fold (q_move dec) ms q) = dlq q" "dlast (fold (q_move dec) ms q) = dlast q" by simp_all
qed

lemma dlq_later_requeue: "dlq_later q (snd (q_requeue j q))"
  by (rule dlq_later_subset)
    (auto simp: q_requeue_def undead_def q_add_def q_count_def Let_def split: option.split)

lemma dlq_later_reclaim: "delivery_inv q \<Longrightarrow> dlq_later q (snd (q_reclaim S w cur n slots q))"
  using q_reclaim_frame(1) [of q S w cur n slots] by (auto simp: q_count_def intro!: dlq_later_same)

lemma dlq_later_others:
  "dlq_later q (snd (q_enqueue S idk j c fs q))" "dlq_later q (snd (q_schedule dec n q))"
  "dlq_later q (snd (q_read w n q))" "dlq_later q (snd (q_heartbeat w i q))"
  "dlq_later q (snd (q_ledger k fs q))" "dlq_later q (snd (q_prune mi w q))" "dlq_later q (q_add ps q)"
  by (rule dlq_later_same; simp add: q_enqueue_def q_schedule_def q_read_def q_heartbeat_def q_ledger_def
      q_prune_def q_add_def q_count_def dlq_moves Let_def split: option.split)+

lemma q_step_dlq:
  assumes "delivery_inv q" and "q_step enc dec S reg xt q q'"
  shows "dlq_later q q'"
  using assms(2)
  by cases (use assms(1) in \<open>simp_all add: dlq_later_others dlq_later_reclaim dlq_later_process
      dlq_later_requeue dlq_later_same\<close>)

context queue_service
begin

lemma timed_success:
  assumes "sys_inv R view S z" "timed h t z" "reaches R S reg xt z z'" "clock (view (server z')) < h"
    and "state_of (q_of z) j = Some ''SUCCEEDED''"
  shows "fin (q_of z') j = fin (q_of z) j"
proof -
  have "keeps_success (q_of z) (q_of z')"
    by (rule timed_keeps [OF q_step_keeps _ _ assms(1-4)]) (auto simp: keeps_success_def state_of_def)
  with assms(5) show ?thesis by (simp add: keeps_success_def)
qed

end

context queue_service
begin

lemma success_retained:
  assumes "view s0 = empty_rdb\<lparr>clock := t\<rparr>" and "reaches R S reg xt (start R S s0) z"
    and "reaches R S reg xt z z'" and "retained S t (view (server z'))"
    and "state_of (q_of z) j = Some ''SUCCEEDED''"
  shows "fin (q_of z') j = fin (q_of z) j"
proof -
  have tz: "timed (horizon t z') t z"
    and i: "clock (view (server z)) < horizon t z' \<Longrightarrow> sys_inv R view S z"
    using reached_timed [OF assms(1,2), of z'] by simp_all
  have h: "clock (view (server z')) < horizon t z'" using assms(4) by (simp add: horizon_retained)
  have "clock (view (server z)) \<le> clock (view (server z'))" by (rule clock_grows [OF tz assms(3)])
  with h have "clock (view (server z)) < horizon t z'" by simp
  from timed_success [OF i [OF this] tz assms(3) h assms(5)] show ?thesis .
qed

lemma run_simulated:
  assumes "view s0 = empty_rdb\<lparr>clock := t\<rparr>" and "reaches R S reg xt (start R S s0) z"
    and "retained S t (view (server z))"
  shows "(q_step (cjson_encode R) (cjson_decode R) S reg xt)\<^sup>*\<^sup>* (q_of (start R S s0)) (q_of z)"
  using reaches_simulated [OF start_inv [OF assms(1)] start_times(1) [OF assms(1)] assms(2), of z] assms(3)
  by (simp add: horizon_retained)

end

context queue_forever
begin

lemma reached_dlq:
  assumes z: "sys_inv R view S z" and "reaches R S reg xt z z'"
  shows "dlq_later (q_of z) (q_of z')"
  by (rule timed_keeps [OF q_step_dlq dlq_later_same dlq_later_trans z forever_timed [OF z] assms(2) lessI]) simp_all

end

end
