(* ===== verification/Dlq.thy ===== *)
theory Dlq
  imports Queue_Simulation
begin

text \<open>
  \<^verbatim>\<open>src/ftq/dlq.py\<close>: reading the dead-letter stream and sweeping it. \<^verbatim>\<open>requeue_all\<close> pages through
  the stream up to the last id it had at the start; one element of \<open>evs\<close> is one page, and says
  what other clients do to the server before each call of that page.
\<close>

section \<open>Entries\<close>

record dead_job =
  dj_entry_id :: eid
  dj_job_id :: string
  dj_type :: string
  dj_reason :: string
  dj_error :: string
  dj_attempts :: int
  dj_deliveries :: int
  dj_dead_at_ms :: int

definition field :: "fields \<Rightarrow> string \<Rightarrow> parse_error + string" where
  "field fs k = (case dict_get fs k of None \<Rightarrow> Inl (KeyErr k) | Some x \<Rightarrow> Inr x)"

definition int_field :: "fields \<Rightarrow> string \<Rightarrow> parse_error + int" where
  "int_field fs k = (case field fs k of Inl e \<Rightarrow> Inl e
     | Inr x \<Rightarrow> (case read_int x of None \<Rightarrow> Inl (ValueErr ''int'') | Some i \<Rightarrow> Inr i))"

text \<open>The constructor's arguments, evaluated in order: the first missing or bad one raises.\<close>

definition dead_from_entry :: "eid \<Rightarrow> fields \<Rightarrow> parse_error + dead_job" where
  "dead_from_entry i fs =
     (case field fs ''dlq_job_id'' of Inl e \<Rightarrow> Inl e | Inr jid \<Rightarrow>
     (case field fs ''dlq_reason'' of Inl e \<Rightarrow> Inl e | Inr reason \<Rightarrow>
     (case field fs ''dlq_error'' of Inl e \<Rightarrow> Inl e | Inr error \<Rightarrow>
     (case int_field fs ''dlq_attempts'' of Inl e \<Rightarrow> Inl e | Inr attempts \<Rightarrow>
     (case int_field fs ''dlq_deliveries'' of Inl e \<Rightarrow> Inl e | Inr deliveries \<Rightarrow>
     (case int_field fs ''dlq_dead_at_ms'' of Inl e \<Rightarrow> Inl e | Inr at_ms \<Rightarrow>
        Inr \<lparr>dj_entry_id = i, dj_job_id = jid,
             dj_type = (case dict_get fs ''type'' of None \<Rightarrow> [] | Some t \<Rightarrow> t),
             dj_reason = reason, dj_error = error, dj_attempts = attempts,
             dj_deliveries = deliveries, dj_dead_at_ms = at_ms\<rparr>))))))"

datatype sweep_error = Server redis_error | Parse parse_error

fun parse_dead :: "(eid \<times> fields) list \<Rightarrow> parse_error + dead_job list" where
  "parse_dead [] = Inr []"
| "parse_dead ((i, fs) # es) =
     (case dead_from_entry i fs of Inl e \<Rightarrow> Inl e | Inr d \<Rightarrow>
       (case parse_dead es of Inl e \<Rightarrow> Inl e | Inr ds \<Rightarrow> Inr (d # ds)))"

definition list_dead :: "'s redis_ops \<Rightarrow> keys \<Rightarrow> nat \<Rightarrow> 's \<Rightarrow> (sweep_error + dead_job list) \<times> 's" where
  "list_dead R K limit s =
     (case XRANGE R (dead_key K) FromStart None (Some limit) s of
        (Inl e, s') \<Rightarrow> (Inl (Server e), s')
      | (Inr es, s') \<Rightarrow> (case parse_dead es of Inl e \<Rightarrow> Inl (Parse e) | Inr ds \<Rightarrow> Inr ds, s'))"

section \<open>The sweep\<close>

definition page_size :: nat where
  "page_size = 100"

fun requeue_page :: "'s redis_ops \<Rightarrow> keys \<Rightarrow> (nat \<Rightarrow> 's \<Rightarrow> 's) \<Rightarrow> (eid \<times> fields) list \<Rightarrow> nat \<Rightarrow> 's
    \<Rightarrow> (sweep_error + nat) \<times> 's" where
  "requeue_page R K others [] tot s = (Inr tot, s)"
| "requeue_page R K others ((i, fs) # es) tot s =
     (case dict_get fs ''dlq_job_id'' of
        None \<Rightarrow> (Inl (Parse (KeyErr ''dlq_job_id'')), s)
      | Some j \<Rightarrow>
          (case requeue R K j (others (length es) s) of
             (Inl e, s') \<Rightarrow> (Inl (Server e), s')
           | (Inr b, s') \<Rightarrow> requeue_page R K others es (tot + (if b then 1 else 0)) s'))"

fun requeue_pages :: "'s redis_ops \<Rightarrow> keys \<Rightarrow> eid \<Rightarrow> (nat \<Rightarrow> 's \<Rightarrow> 's) list \<Rightarrow> lower \<Rightarrow> nat \<Rightarrow> 's
    \<Rightarrow> (sweep_error + nat) option \<times> 's" where
  "requeue_pages R K end_id [] lo tot s = (None, s)"
| "requeue_pages R K end_id (others # evs) lo tot s =
     (case XRANGE R (dead_key K) lo (Some end_id) (Some page_size) (others page_size s) of
        (Inl e, s1) \<Rightarrow> (Some (Inl (Server e)), s1)
      | (Inr page, s1) \<Rightarrow>
          (if page = [] then (Some (Inr tot), s1)
           else (case requeue_page R K others page tot s1 of
                   (Inl e, s2) \<Rightarrow> (Some (Inl e), s2)
                 | (Inr tot', s2) \<Rightarrow> requeue_pages R K end_id evs (After (fst (last page))) tot' s2)))"

definition requeue_all :: "'s redis_ops \<Rightarrow> keys \<Rightarrow> (nat \<Rightarrow> 's \<Rightarrow> 's) list \<Rightarrow> 's
    \<Rightarrow> (sweep_error + nat) option \<times> 's" where
  "requeue_all R K evs s =
     (case XREVRANGE1 R (dead_key K) s of
        (Inl e, s1) \<Rightarrow> (Some (Inl (Server e)), s1)
      | (Inr None, s1) \<Rightarrow> (Some (Inr 0), s1)
      | (Inr (Some e), s1) \<Rightarrow> requeue_pages R K (fst e) evs FromStart 0 s1)"

section \<open>What a burial wrote can be read back\<close>

lemma read_int_str_nat [simp]: "read_int (str_nat n) = Some (int n)"
  using read_int_str_int [of "int n"] by (simp add: str_int_def)

lemma dead_from_meta:
  "dead_from_entry d (fs @ dlq_meta w j reason error (str_int a) i q) =
     Inr \<lparr>dj_entry_id = d, dj_job_id = j, dj_type = (case dict_get fs ''type'' of None \<Rightarrow> [] | Some t \<Rightarrow> t),
          dj_reason = reason, dj_error = error, dj_attempts = a,
          dj_deliveries = int (p_count (the (map_of (pend q) i))), dj_dead_at_ms = int (qnow q)\<rparr>"
  by (simp add: dead_from_entry_def field_def int_field_def dlq_meta_def dict_get_Cons split: option.split)

section \<open>The sweep beside running clients\<close>

text \<open>Other clients only make steps of the protocol.\<close>

definition peers :: "'s redis_ops \<Rightarrow> ('s \<Rightarrow> rdb) \<Rightarrow> settings \<Rightarrow> registry \<Rightarrow> (parse_error \<Rightarrow> py_exc)
    \<Rightarrow> (nat \<Rightarrow> 's \<Rightarrow> 's) \<Rightarrow> bool" where
  "peers R view S reg xt f \<longleftrightarrow> (\<forall>n z. sys_inv R view S z \<longrightarrow>
     (\<exists>z'. reaches R S reg xt z z' \<and> server z' = f n (server z)))"

definition window_of :: "lower \<Rightarrow> eid \<Rightarrow> qstate \<Rightarrow> (eid \<times> fields) list" where
  "window_of lo end_id q = filter (\<lambda>p. above lo (fst p) \<and> fst p \<le> end_id) (dlq q)"

lemma exec_xrange_page:
  "typed S v \<Longrightarrow> d_xrange (dead_key (keys_of S)) lo (Some hi) (Some n) v =
     (Inr (take n (window_of lo hi (qview S v))), v)"
  by (simp add: d_xrange_def typedD qview_def Let_def take_opt_def below_def window_of_def)

lemma exec_xrevrange1:
  "typed S v \<Longrightarrow> d_xrevrange1 (dead_key (keys_of S)) v =
     (Inr (if dlq (qview S v) = [] then None else Some (last (dlq (qview S v)))), v)"
  by (auto simp: d_xrevrange1_def typedD qview_def Let_def hd_rev split: list.split)

lemma reaches_refl [simp]: "reaches R S reg xt z z"
  by (simp add: reaches_def)

lemma reaches_trans: "reaches R S reg xt z y \<Longrightarrow> reaches R S reg xt y x \<Longrightarrow> reaches R S reg xt z x"
  unfolding reaches_def by (rule rtranclp_trans)


lemma after_last:
  fixes xs :: "'a::linorder list"
  assumes "sorted_wrt (<) xs" and "take n xs \<noteq> []"
  shows "filter (\<lambda>x. last (take n xs) < x) xs = drop n xs"
proof -
  have s: "sorted_wrt (<) (take n xs @ drop n xs)" using assms(1) by simp
  have last: "last (take n xs) \<in> set (take n xs)" using assms(2) by (rule last_in_set)
  have "filter (\<lambda>x. last (take n xs) < x) (take n xs) = []"
    using sorted_take_last [OF assms] unfolding filter_empty_conv by (meson in_set_takeD leD)
  moreover have "filter (\<lambda>x. last (take n xs) < x) (drop n xs) = drop n xs"
    using s last unfolding sorted_wrt_append filter_id_conv by blast
  moreover have "filter (\<lambda>x. last (take n xs) < x) (take n xs @ drop n xs) = drop n xs"
    unfolding filter_append using calculation by simp
  ultimately show ?thesis by simp
qed

lemma pages_left:
  assumes "l3 \<le> l1 - page_size" and "l1 \<le> l" and "l1 \<noteq> 0" and "(l + page_size - 1) div page_size < Suc n"
  shows "(l3 + page_size - 1) div page_size < n"
proof -
  have "l3 + 99 < n * 100"
  proof (cases "l1 \<le> 100")
    case True
    with assms(1) have l3: "l3 = 0" by (simp add: page_size_def)
    have "1 \<le> (l + 99) div 100" using assms(2,3) by (simp add: Suc_le_eq div_greater_zero_iff)
    then have n: "1 \<le> n" using assms(4) by (simp add: page_size_def add.commute)
    with l3 show ?thesis by simp
  next
    case False
    have "l + 99 < Suc n * 100" using assms(4) by (simp add: page_size_def div_less_iff_less_mult)
    with False assms(1,2) show ?thesis by (simp add: page_size_def)
  qed
  then show ?thesis by (simp add: page_size_def div_less_iff_less_mult)
qed

lemma window_later:
  assumes i': "dlq_inv q'" and later: "dlq_later q q'" and e: "end_id \<le> dlast q"
  shows "length (window_of lo end_id q') \<le> length (window_of lo end_id q)"
proof -
  have "set (window_of lo end_id q') \<subseteq> set (window_of lo end_id q)"
    using later e unfolding window_of_def dlq_later_def set_filter by (blast dest: leD order_trans)
  moreover have "distinct (window_of lo end_id q')"
    using i' unfolding dlq_inv_def window_of_def by (meson distinct_filter distinct_map)
  ultimately show ?thesis
    by (metis card_length card_mono distinct_card finite_set order_trans)
qed

text \<open>After a page, what is left of the window is at most what the page did not take.\<close>

lemma window_after:
  assumes i: "dlq_inv q" and i': "dlq_inv q'" and later: "dlq_later q q'" and e: "end_id \<le> dlast q"
    and page: "page = take n (window_of lo end_id q)" "page \<noteq> []"
  shows "length (window_of (After (fst (last page))) end_id q') \<le> length (window_of lo end_id q) - n"
proof -
  let ?w = "window_of lo end_id q" and ?w' = "window_of (After (fst (last page))) end_id q'"
  let ?ks = "map fst ?w"
  have srt: "sorted_wrt (<) ?ks"
    using i unfolding dlq_inv_def window_of_def map_fst_filter [of "\<lambda>k. above lo k \<and> k \<le> end_id"]
    by (simp add: sorted_wrt_filter)
  have last: "fst (last page) = last (take n ?ks)" using page by (simp add: last_map take_map)
  have ne: "take n ?ks \<noteq> []" using page by (simp add: take_map)
  have "fst (last page) \<in> set ?ks" unfolding last using ne last_in_set in_set_takeD by fast
  then have lo: "above lo (fst (last page))" by (auto simp: window_of_def)
  have "set (map fst ?w') \<subseteq> set (filter (\<lambda>k. last (take n ?ks) < k) ?ks)"
  proof
    fix k assume "k \<in> set (map fst ?w')"
    then obtain x where x: "x \<in> set (dlq q')" "fst x = k" "fst (last page) < k" "k \<le> end_id"
      by (auto simp: window_of_def)
    have "\<not> dlast q < k" using x(4) e by (meson leD order_trans)
    with later x(1,2) have xq: "x \<in> set (dlq q)" unfolding dlq_later_def by blast
    have "above lo k" using lo x(3) by (cases lo) (auto intro: order_less_imp_le order_le_less_trans order_less_trans)
    with xq x(2,4) have "x \<in> set ?w" by (simp add: window_of_def)
    with x(2) have "k \<in> set ?ks" by (metis image_eqI list.set_map)
    with x(3) show "k \<in> set (filter (\<lambda>k. last (take n ?ks) < k) ?ks)" by (simp add: last)
  qed
  then have sub: "set (map fst ?w') \<subseteq> set (drop n ?ks)" by (simp only: after_last [OF srt ne])
  have "distinct (map fst ?w')" using i' by (simp add: dlq_inv_def window_of_def distinct_map_filter)
  then have "length ?w' = card (set (map fst ?w'))" by (metis distinct_card length_map)
  also have "\<dots> \<le> card (set (drop n ?ks))" using sub by (simp add: card_mono)
  also have "\<dots> \<le> length (drop n ?ks)" by (rule card_length)
  finally show ?thesis by simp
qed

context queue_forever
begin

lemma sys_inv_dlq: "sys_inv R view S z \<Longrightarrow> dlq_inv (q_of z)"
  by (simp add: sys_inv_def queue_inv_def base_inv_def)

lemma reaches_inv: "sys_inv R view S z \<Longrightarrow> reaches R S reg xt z z' \<Longrightarrow> sys_inv R view S z'"
  using forever.run_inv unfolding reaches_def by blast

lemma requeue_page_run:
  assumes "sys_inv R view S z" and "peers R view S reg xt f" and "server z = s"
    and "requeue_page R (keys_of S) f es tot s = (r, s')"
  shows "\<exists>z'. reaches R S reg xt z z' \<and> server z' = s'"
  using assms
proof (induction es arbitrary: z tot s)
  case Nil
  then show ?case by (intro exI [of _ z]) simp
next
  case (Cons e es)
  obtain i fs where e: "e = (i, fs)" by (cases e)
  show ?case
  proof (cases "dict_get fs ''dlq_job_id''")
    case None
    with Cons.prems e show ?thesis by (intro exI [of _ z]) simp
  next
    case (Some j)
    obtain z1 where z1: "reaches R S reg xt z z1" "server z1 = f (length es) s"
      using Cons.prems(1,2,3) unfolding peers_def by blast
    obtain x s2 where x: "requeue R (keys_of S) j (f (length es) s) = (x, s2)" by fastforce
    let ?z2 = "z1\<lparr>server := s2, extra := extra z1 + (if x = Inr True then 1 else 0)\<rparr>"
    have st: "step R S reg xt z1 ?z2" using step.requeue [of R S j z1 x s2] x z1(2) by simp
    then have z2: "reaches R S reg xt z ?z2" using z1(1) unfolding reaches_def by simp
    show ?thesis
    proof (cases x)
      case (Inl er)
      with Cons.prems(4) Some x e z2 show ?thesis by auto
    next
      case (Inr b)
      with Cons.prems(4) Some x e have "requeue_page R (keys_of S) f es (tot + (if b then 1 else 0)) s2 = (r, s')"
        by simp
      from Cons.IH [OF reaches_inv [OF Cons.prems(1) z2] Cons.prems(2) _ this] z2 reaches_trans show ?thesis
        by fastforce
    qed
  qed
qed

lemma xrange_page:
  assumes "typed S (view s)" and "XRANGE R (dead_key (keys_of S)) lo (Some hi) (Some n) s = (r, s')"
  shows "r = Inr (take n (window_of lo hi (qview S (view s))))" "view s' = view s"
  using refinesD [OF XRANGE_doc assms(2)] unfolding exec_xrange_page [OF assms(1)] by auto

text \<open>Moving to a server with the same view is no step at all.\<close>

lemma sys_inv_view: "sys_inv R view S z \<Longrightarrow> view s = view (server z) \<Longrightarrow> sys_inv R view S (z\<lparr>server := s\<rparr>)"
  by (simp add: sys_inv_def)

lemma requeue_pages_returns:
  assumes "sys_inv R view S z" and "\<forall>f \<in> set evs. peers R view S reg xt f" and "server z = s"
    and "end_id \<le> dlast (q_of z)"
    and "(length (window_of lo end_id (q_of z)) + page_size - 1) div page_size < length evs"
  shows "fst (requeue_pages R (keys_of S) end_id evs lo tot s) \<noteq> None"
  using assms
proof (induction evs arbitrary: z lo tot s)
  case (Cons f evs)
  obtain z1 where z1: "reaches R S reg xt z z1" "server z1 = f page_size s"
    using Cons.prems(1-3) unfolding peers_def by (meson list.set_intros(1))
  have i1: "sys_inv R view S z1" by (rule reaches_inv [OF Cons.prems(1) z1(1)])
  obtain x s2 where x: "XRANGE R (dead_key (keys_of S)) lo (Some end_id) (Some page_size) (f page_size s) = (x, s2)"
    by fastforce
  let ?page = "take page_size (window_of lo end_id (q_of z1))"
  have xp: "x = Inr ?page" "view s2 = view (server z1)"
    using xrange_page [OF _ x] sys_invD(1) [OF i1] z1(2) by auto
  let ?z2 = "z1\<lparr>server := s2\<rparr>"
  have i2: "sys_inv R view S ?z2" by (rule sys_inv_view [OF i1 xp(2)])
  show ?case
  proof (cases "?page = []")
    case True
    with x xp show ?thesis by simp
  next
    case False
    obtain y s3 where y: "requeue_page R (keys_of S) f ?page tot s2 = (y, s3)" by fastforce
    show ?thesis
    proof (cases y)
      case (Inl e)
      with x xp False y show ?thesis by simp
    next
      case (Inr tot')
      obtain z3 where z3: "reaches R S reg xt ?z2 z3" "server z3 = s3"
        using requeue_page_run [OF i2 _ _ y] Cons.prems(2) by auto
      have i3: "sys_inv R view S z3" by (rule reaches_inv [OF i2 z3(1)])
      have l1: "dlq_later (q_of z) (q_of z1)" by (rule reached_dlq [OF Cons.prems(1) z1(1)])
      have l2: "dlq_later (q_of z1) (q_of z3)" using reached_dlq [OF i2 z3(1)] xp(2) by simp
      have e1: "end_id \<le> dlast (q_of z1)" using Cons.prems(4) l1 unfolding dlq_later_def by (meson order_trans)
      have e3: "end_id \<le> dlast (q_of z3)" using e1 l2 unfolding dlq_later_def by (meson order_trans)
      have w1: "length (window_of lo end_id (q_of z1)) \<le> length (window_of lo end_id (q_of z))"
        by (rule window_later [OF sys_inv_dlq [OF i1] l1 Cons.prems(4)])
      have w3: "length (window_of (After (fst (last ?page))) end_id (q_of z3)) \<le>
          length (window_of lo end_id (q_of z1)) - page_size"
        by (rule window_after [OF sys_inv_dlq [OF i1] sys_inv_dlq [OF i3] l2 e1 refl False])
      have "(length (window_of (After (fst (last ?page))) end_id (q_of z3)) + page_size - 1) div page_size < length evs"
        using pages_left [OF w3 w1] False Cons.prems(5) by simp
      from Cons.IH [OF i3 _ z3(2) e3 this] Cons.prems(2) x xp False y Inr show ?thesis by simp
    qed
  qed
qed simp

end


lemma not_past_last:
  fixes ks :: "'a::linorder list"
  assumes "sorted_wrt (<) ks" and "take n ks \<noteq> []" and "k \<in> set (take n ks)"
  shows "\<not> last (take n ks) < k"
  using sorted_take_last [OF assms(1,2) in_set_takeD [OF assms(3)]] assms(3) by (meson leD)

lemma window_all:
  assumes "dlq_inv q" and "dlq q \<noteq> []"
  shows "window_of FromStart (fst (last (dlq q))) q = dlq q" and "fst (last (dlq q)) \<le> dlast q"
proof -
  have l: "last (dlq q) \<in> set (dlq q)" using assms(2) by (rule last_in_set)
  with assms(1) show "fst (last (dlq q)) \<le> dlast q" unfolding dlq_inv_def by blast
  have s: "sorted_wrt (<) (map fst (dlq q))" using assms(1) by (simp add: dlq_inv_def)
  have "\<not> fst (last (dlq q)) < fst e" if "e \<in> set (dlq q)" for e
    using not_past_last [OF s, of "length (dlq q)" "fst e"] assms(2) that by (simp add: last_map)
  then have "\<forall>e \<in> set (dlq q). fst e \<le> fst (last (dlq q))" by (meson not_le_imp_less)
  then show "window_of FromStart (fst (last (dlq q))) q = dlq q"
    unfolding window_of_def by (simp add: filter_id_conv)
qed

lemma distinct_fst_in:
  assumes "A \<subseteq> set xs" and "e \<in> set xs" and "distinct (map fst xs)"
  shows "fst e \<in> fst ` A \<longleftrightarrow> e \<in> A"
  using assms by (auto simp: distinct_map inj_on_def)

lemma window_sorted:
  "dlq_inv q \<Longrightarrow> sorted_wrt (<) (map fst (window_of lo hi q)) \<and> distinct (map fst (window_of lo hi q))"
  unfolding dlq_inv_def window_of_def map_fst_filter [of "\<lambda>k. above lo k \<and> k \<le> hi"]
  by (simp add: sorted_wrt_filter)

lemma after_last_fst:
  fixes ws :: "('a::linorder \<times> 'b) list"
  assumes "sorted_wrt (<) (map fst ws)" and "take n ws \<noteq> []"
  shows "filter (\<lambda>p. fst (last (take n ws)) < fst p) ws = drop n ws"
proof -
  have s: "sorted_wrt (<) (take n (map fst ws) @ drop n (map fst ws))" using assms(1) by simp
  have l: "fst (last (take n ws)) = last (take n (map fst ws))" using assms(2) by (simp add: last_map take_map)
  have last: "last (take n (map fst ws)) \<in> set (take n (map fst ws))" using assms(2) by (intro last_in_set) simp
  have ne: "take n (map fst ws) \<noteq> []" using assms(2) by (simp add: take_map)
  have a: "\<not> fst (last (take n ws)) < fst p" if "p \<in> set (take n ws)" for p
    unfolding l by (rule not_past_last [OF assms(1) ne]) (use that in \<open>simp add: take_map\<close>)
  have b: "fst (last (take n ws)) < fst p" if "p \<in> set (drop n ws)" for p
  proof -
    from that have "fst p \<in> set (drop n (map fst ws))" by (simp add: drop_map)
    with s last show ?thesis unfolding l sorted_wrt_append by blast
  qed
  have "filter (\<lambda>p. fst (last (take n ws)) < fst p) (take n ws) = []"
    unfolding filter_empty_conv using a by blast
  moreover have "filter (\<lambda>p. fst (last (take n ws)) < fst p) (drop n ws) = drop n ws"
    unfolding filter_id_conv using b by blast
  ultimately have "filter (\<lambda>p. fst (last (take n ws)) < fst p) (take n ws @ drop n ws) = drop n ws"
    unfolding filter_append by simp
  then show ?thesis by simp
qed

lemma window_rest:
  assumes i: "dlq_inv q" and ne: "take n (window_of lo hi q) \<noteq> []"
    and q': "dlq q' = filter (\<lambda>e. fst e \<notin> fst ` set (take n (window_of lo hi q))) (dlq q)"
  shows "window_of (After (fst (last (take n (window_of lo hi q))))) hi q' = drop n (window_of lo hi q)"
proof -
  let ?w = "window_of lo hi q"
  let ?l = "fst (last (take n ?w))"
  have srt: "sorted_wrt (<) (map fst ?w)" using window_sorted [OF i] by simp
  have "last (take n ?w) \<in> set ?w" using ne last_in_set in_set_takeD by fast
  then have lo: "above lo ?l" by (simp add: window_of_def)
  have up: "above lo k" if "?l < k" for k
    using lo that by (cases lo) (auto intro: order_less_imp_le order_le_less_trans order_less_trans)
  have l: "?l = last (take n (map fst ?w))" using ne by (simp add: last_map take_map)
  have le: "\<not> ?l < k" if "k \<in> fst ` set (take n ?w)" for k
    unfolding l by (rule not_past_last [OF srt]) (use ne that in \<open>simp_all add: take_map\<close>)
  define L where "L = ?l"
  have "window_of (After L) hi q' = filter (\<lambda>p. fst p \<notin> fst ` set (take n ?w) \<and> L < fst p \<and> fst p \<le> hi) (dlq q)"
    unfolding window_of_def [of "After L"] q' filter_filter by simp
  also have "\<dots> = filter (\<lambda>p. (above lo (fst p) \<and> fst p \<le> hi) \<and> L < fst p) (dlq q)"
    by (rule filter_cong [OF refl]) (use up le in \<open>unfold L_def, blast\<close>)
  also have "\<dots> = filter (\<lambda>p. L < fst p) ?w" unfolding window_of_def [of lo] filter_filter ..
  finally show ?thesis using after_last_fst [OF srt ne] by (simp add: L_def)
qed

context queue_forever
begin

lemma xrevrange1_dlq:
  assumes "typed S (view s)" and "XREVRANGE1 R (dead_key (keys_of S)) s = (r, s')"
  shows "r = Inr (if dlq (qview S (view s)) = [] then None else Some (last (dlq (qview S (view s)))))"
    "view s' = view s"
  using refinesD [OF XREVRANGE1_doc assms(2)] unfolding exec_xrevrange1 [OF assms(1)] by auto

lemma requeue_all_ends:
  assumes z: "sys_inv R view S z" and f: "\<forall>f \<in> set evs. peers R view S reg xt f"
    and n: "(length (dlq (q_of z)) + page_size - 1) div page_size < length evs"
  shows "fst (requeue_all R (keys_of S) evs (server z)) \<noteq> None"
proof -
  obtain r s1 where r: "XREVRANGE1 R (dead_key (keys_of S)) (server z) = (r, s1)" by fastforce
  note x = xrevrange1_dlq [OF sys_invD(1) [OF z] r]
  show ?thesis
  proof (cases "dlq (q_of z) = []")
    case True
    with r x show ?thesis by (simp add: requeue_all_def)
  next
    case False
    note w = window_all [OF sys_inv_dlq [OF z] False]
    have "fst (requeue_pages R (keys_of S) (fst (last (dlq (q_of z)))) evs FromStart 0 s1) \<noteq> None"
      by (rule requeue_pages_returns [OF sys_inv_view [OF z x(2)] f]) (use w n x(2) in simp_all)
    with r x False show ?thesis by (simp add: requeue_all_def)
  qed
qed

text \<open>With nobody else at work, every dead job goes back and the stream is empty.\<close>

abbreviation quiet :: "nat \<Rightarrow> 's \<Rightarrow> 's" where
  "quiet \<equiv> (\<lambda>_ s. s)"

lemma quiet_page:
  assumes "sys_inv R view S z" and "set es \<subseteq> set (dlq (q_of z))" and "distinct (map fst es)" and "server z = s"
  shows "\<exists>s' z'. requeue_page R (keys_of S) quiet es tot s = (Inr (tot + length es), s') \<and> server z' = s' \<and>
    sys_inv R view S z' \<and> dlq (q_of z') = filter (\<lambda>e. fst e \<notin> fst ` set es) (dlq (q_of z)) \<and>
    dlast (q_of z') = dlast (q_of z)"
  using assms
proof (induction es arbitrary: z tot s)
  case Nil
  then show ?case by (intro exI [of _ "server z"] exI [of _ z]) simp
next
  case (Cons e es)
  obtain i fs where e: "e = (i, fs)" by (cases e)
  note z = Cons.prems(1)
  have "e \<in> set (dlq (q_of z))" using Cons.prems(2) by simp
  then obtain j where j: "dlq_job fs = Some j" "state_of (q_of z) j = Some ''DEAD''" "dead_id (q_of z) j = i"
    using sys_inv_dlq [OF z] e unfolding dlq_inv_def by fastforce
  obtain x s2 where x: "requeue R (keys_of S) j s = (x, s2)" by fastforce
  note sp = run_spec [OF implements_requeue requeue_api_doc sys_invD(1,6) [OF z] x [folded Cons.prems(4)]]
  obtain fs' where "map_of (dlq (q_of z)) (dead_id (q_of z) j) = Some fs'"
    using sys_inv_dlq [OF z] j(2) unfolding dlq_inv_def by blast
  then have q: "fst (q_requeue j (q_of z))" "dlq (snd (q_requeue j (q_of z))) = filter (\<lambda>e. fst e \<noteq> i) (dlq (q_of z))"
    "dlast (snd (q_requeue j (q_of z))) = dlast (q_of z)"
    using j(2,3) by (simp_all add: q_requeue_def undead_def q_add_def q_count_def Let_def)
  let ?z2 = "z\<lparr>server := s2, extra := extra z + (if x = Inr True then 1 else 0)\<rparr>"
  have i2: "sys_inv R view S ?z2" using step_inv [OF z step.requeue] x Cons.prems(4) by fastforce
  have q2: "dlq (q_of ?z2) = filter (\<lambda>e. fst e \<noteq> i) (dlq (q_of z))" "dlast (q_of ?z2) = dlast (q_of z)"
    using sp(3) q by simp_all
  have "set es \<subseteq> set (dlq (q_of ?z2))" using Cons.prems(2,3) unfolding q2 e by auto
  from Cons.IH [OF i2 this, of s2 "Suc tot"] Cons.prems(3) obtain s' z' where
    r: "requeue_page R (keys_of S) quiet es (Suc tot) s2 = (Inr (Suc tot + length es), s')" "server z' = s'"
      "sys_inv R view S z'" "dlq (q_of z') = filter (\<lambda>e. fst e \<notin> fst ` set es) (dlq (q_of ?z2))"
      "dlast (q_of z') = dlast (q_of ?z2)" by auto
  have "requeue_page R (keys_of S) quiet (e # es) tot s = (Inr (tot + length (e # es)), s')"
    using r(1) x sp(1) q(1) j(1) by (simp add: e dlq_job_def)
  moreover have "dlq (q_of z') = filter (\<lambda>x. fst x \<notin> fst ` set (e # es)) (dlq (q_of z))"
    unfolding r(4) q2 e filter_filter by (rule filter_cong) auto
  ultimately show ?case using r(2,3,5) q2(2) by (intro exI [of _ s'] exI [of _ z']) simp
qed

lemma quiet_pages:
  assumes "sys_inv R view S z" and "server z = s" and "end_id \<le> dlast (q_of z)"
    and "(length (window_of lo end_id (q_of z)) + page_size - 1) div page_size < n"
  shows "\<exists>s' z'. requeue_pages R (keys_of S) end_id (replicate n quiet) lo tot s =
      (Some (Inr (tot + length (window_of lo end_id (q_of z)))), s') \<and> server z' = s' \<and> sys_inv R view S z' \<and>
    dlq (q_of z') = filter (\<lambda>e. e \<notin> set (window_of lo end_id (q_of z))) (dlq (q_of z))"
  using assms
proof (induction n arbitrary: z lo tot s)
  case (Suc n)
  note z = Suc.prems(1)
  let ?w = "window_of lo end_id (q_of z)"
  let ?page = "take page_size ?w"
  obtain x s1 where x: "XRANGE R (dead_key (keys_of S)) lo (Some end_id) (Some page_size) s = (x, s1)" by fastforce
  have xp: "x = Inr ?page" "view s1 = view (server z)"
    using xrange_page [OF _ x] sys_invD(1) [OF z] Suc.prems(2) by auto
  have i1: "sys_inv R view S (z\<lparr>server := s1\<rparr>)" by (rule sys_inv_view [OF z xp(2)])
  show ?case
  proof (cases "?page = []")
    case True
    then have "?w = []" by (simp add: page_size_def)
    then show ?thesis using x xp i1
      by (intro exI [of _ s1] exI [of _ "z\<lparr>server := s1\<rparr>"]) (simp add: filter_id_conv)
  next
    case False
    have sub: "set ?page \<subseteq> set (dlq (q_of z))" by (auto simp: window_of_def dest: in_set_takeD)
    have dw: "distinct (map fst ?w)" "sorted_wrt (<) (map fst ?w)" "distinct (map fst (dlq (q_of z)))"
      using window_sorted [OF sys_inv_dlq [OF z]] sys_inv_dlq [OF z] by (auto simp: dlq_inv_def)
    have "distinct (map fst ?page)" using distinct_take [OF dw(1), of page_size] by (simp only: take_map)
    from quiet_page [OF i1 _ this, of s1 tot] sub xp(2) obtain s2 z2 where
      p: "requeue_page R (keys_of S) quiet ?page tot s1 = (Inr (tot + length ?page), s2)" "server z2 = s2"
        "sys_inv R view S z2" "dlq (q_of z2) = filter (\<lambda>e. fst e \<notin> fst ` set ?page) (dlq (q_of z))"
        "dlast (q_of z2) = dlast (q_of z)" by auto
    have w2: "window_of (After (fst (last ?page))) end_id (q_of z2) = drop page_size ?w"
      by (rule window_rest [OF sys_inv_dlq [OF z] False p(4)])
    have "0 < length ?w" using False by auto
    then have n: "(length (drop page_size ?w) + page_size - 1) div page_size < n"
      using pages_left [of "length (drop page_size ?w)" "length ?w" "length ?w" n] Suc.prems(4) by simp
    from Suc.IH [OF p(3,2), of "After (fst (last ?page))" "tot + length ?page"] p(5) Suc.prems(3) n
    obtain s' z' where r: "requeue_pages R (keys_of S) end_id (replicate n quiet) (After (fst (last ?page)))
        (tot + length ?page) s2 = (Some (Inr (tot + length ?page + length (drop page_size ?w))), s')"
      "server z' = s'" "sys_inv R view S z'"
      "dlq (q_of z') = filter (\<lambda>e. e \<notin> set (drop page_size ?w)) (dlq (q_of z2))"
      unfolding w2 by auto
    have len: "length ?page + length (drop page_size ?w) = length ?w" by simp
    have "requeue_pages R (keys_of S) end_id (replicate (Suc n) quiet) lo tot s = (Some (Inr (tot + length ?w)), s')"
      using x xp False p(1) r(1) len by (simp add: add.assoc)
    moreover have "dlq (q_of z') = filter (\<lambda>e. e \<notin> set ?w) (dlq (q_of z))"
    proof -
      have "e \<in> set ?w \<longleftrightarrow> fst e \<in> fst ` set ?page \<or> e \<in> set (drop page_size ?w)" if e: "e \<in> set (dlq (q_of z))" for e
      proof -
        have "fst e \<in> fst ` set ?page \<longleftrightarrow> e \<in> set ?page"
          using sub e dw(3) by (meson distinct_fst_in)
        moreover have "set ?w = set ?page \<union> set (drop page_size ?w)" by (metis append_take_drop_id set_append)
        ultimately show ?thesis by blast
      qed
      then show ?thesis unfolding r(4) p(4) filter_filter by (intro filter_cong) auto
    qed
    ultimately show ?thesis using r(2,3) by blast
  qed
qed simp

lemma quiet_sweep:
  assumes z: "sys_inv R view S z" and n: "(length (dlq (q_of z)) + page_size - 1) div page_size < n"
  shows "\<exists>s'. requeue_all R (keys_of S) (replicate n quiet) (server z) = (Some (Inr (length (dlq (q_of z)))), s') \<and>
    dlq (qview S (view s')) = []"
proof -
  obtain r s1 where r: "XREVRANGE1 R (dead_key (keys_of S)) (server z) = (r, s1)" by fastforce
  note x = xrevrange1_dlq [OF sys_invD(1) [OF z] r]
  show ?thesis
  proof (cases "dlq (q_of z) = []")
    case True
    with r x show ?thesis by (simp add: requeue_all_def)
  next
    case False
    note w = window_all [OF sys_inv_dlq [OF z] False]
    from quiet_pages [OF sys_inv_view [OF z x(2)], of s1 "fst (last (dlq (q_of z)))" FromStart n 0] w n x(2)
    obtain s' z' where "requeue_pages R (keys_of S) (fst (last (dlq (q_of z)))) (replicate n quiet) FromStart 0 s1 =
        (Some (Inr (length (dlq (q_of z)))), s')" "server z' = s'"
      "dlq (q_of z') = filter (\<lambda>e. e \<notin> set (dlq (q_of z))) (dlq (q_of z))" by auto
    with r x False show ?thesis by (simp add: requeue_all_def filter_empty_conv)
  qed
qed

end

end
