(* ===== verification/Chaos_Verifier.thy ===== *)
theory Chaos_Verifier
  imports Chaos_Mix Metrics Dlq
begin

text \<open>
  \<^verbatim>\<open>chaos/verifier.py\<close>: the checks a chaos run must pass, computed from what Redis recorded. The
  verifier runs when the workers have stopped, so nothing else changes the server between its
  reads. \<open>verify\<close> reads the evidence, \<open>judge\<close> decides on it.
\<close>

section \<open>Checks\<close>

definition sample_size :: nat where
  "sample_size = 20"

record check =
  c_ok :: bool
  c_detail :: "(string \<times> json) list"
  c_violations :: "string list"

definition fail_check :: "string \<Rightarrow> check \<Rightarrow> check" where
  "fail_check m c = c\<lparr>c_ok := False,
     c_violations := (if length (c_violations c) < sample_size then c_violations c @ [m] else c_violations c)\<rparr>"

definition check_with :: "string list \<Rightarrow> (string \<times> json) list \<Rightarrow> check" where
  "check_with ms d = (fold fail_check ms \<lparr>c_ok = True, c_detail = [], c_violations = []\<rparr>)\<lparr>c_detail := d\<rparr>"

definition as_dict :: "check \<Rightarrow> (string \<times> json) list" where
  "as_dict c = (''ok'', JBool (c_ok c)) # c_detail c @ [(''violations'', JArr (map JStr (c_violations c)))]"

lemma fold_fail:
  "fold fail_check ms c = c\<lparr>c_ok := (c_ok c \<and> ms = []),
     c_violations := c_violations c @ take (sample_size - length (c_violations c)) ms\<rparr>"
proof (induction ms arbitrary: c)
  case (Cons m ms)
  show ?case
  proof (cases "length (c_violations c) < sample_size")
    case True
    then have "fail_check m c = c\<lparr>c_ok := False, c_violations := c_violations c @ [m]\<rparr>"
      and "sample_size - length (c_violations c) = Suc (sample_size - Suc (length (c_violations c)))"
      by (simp_all add: fail_check_def)
    then show ?thesis by (simp add: Cons.IH)
  next
    case False
    then have "fail_check m c = c\<lparr>c_ok := False\<rparr>" by (simp add: fail_check_def)
    with False show ?thesis by (simp add: Cons.IH)
  qed
qed simp

lemma check_with_simps [simp]:
  "c_ok (check_with ms d) \<longleftrightarrow> ms = []" "c_violations (check_with ms d) = take sample_size ms"
  "c_detail (check_with ms d) = d"
  by (simp_all add: check_with_def fold_fail)

section \<open>Counting\<close>

text \<open>\<^verbatim>\<open>Counter(xs)\<close>: every element once, in the order of first occurrence, with its count.\<close>

definition firsts :: "'a list \<Rightarrow> 'a list" where
  "firsts xs = rev (remdups (rev xs))"

definition counter :: "'a list \<Rightarrow> ('a \<times> nat) list" where
  "counter xs = map (\<lambda>x. (x, count_list xs x)) (firsts xs)"

lemma set_firsts [simp]: "set (firsts xs) = set xs"
  by (simp add: firsts_def)

definition count_json :: "string list \<Rightarrow> json" where
  "count_json xs = JObj (map (\<lambda>(x, n). (x, JInt (int n))) (counter xs))"

section \<open>The evidence\<close>

record evidence =
  ev_states :: "string \<Rightarrow> string"
  ev_results :: "string list"
  ev_effects :: "string list"
  ev_dlq :: "fields list"
  ev_counters :: "string \<Rightarrow> int"
  ev_stream :: nat
  ev_pel :: nat
  ev_delayed :: nat

datatype verify_error = VServer redis_error | VKey string | VValue string

type_synonym accepted = "(string \<times> string) list"

fun kinds_of :: "accepted \<Rightarrow> verify_error + (string \<times> kind) list" where
  "kinds_of [] = Inr []"
| "kinds_of ((j, n) # as) =
     (case by_name n of None \<Rightarrow> Inl (VKey n)
      | Some k \<Rightarrow> (case kinds_of as of Inl e \<Rightarrow> Inl e | Inr ks \<Rightarrow> Inr ((j, k) # ks)))"

definition terminal :: "string \<Rightarrow> bool" where
  "terminal st \<longleftrightarrow> st = ''SUCCEEDED'' \<or> st = ''DEAD''"

definition or_text :: "string \<Rightarrow> string \<Rightarrow> string" where
  "or_text x d = (if x = [] then d else x)"

definition labelled :: "string \<Rightarrow> kind \<Rightarrow> string" where
  "labelled j k = j @ '' ('' @ k_name k @ '')''"

section \<open>I1: one terminal state, the expected one\<close>

definition i1_job :: "evidence \<Rightarrow> string \<times> kind \<Rightarrow> string list" where
  "i1_job ev = (\<lambda>(j, k). let st = ev_states ev j in
     if \<not> terminal st then [labelled j k @ '': no terminal state'']
     else if st \<noteq> k_expect k then [labelled j k @ '': '' @ st @ '', expected '' @ k_expect k]
     else [])"

definition i1_check :: "evidence \<Rightarrow> (string \<times> kind) list \<Rightarrow> check" where
  "i1_check ev ks = check_with
     (concat (map (i1_job ev) ks) @
      (if ev_counters ev ''late_successes'' \<noteq> 0
       then [''late_successes = '' @ str_int (ev_counters ev ''late_successes'') @ '': a job was transiently DEAD'']
       else []))
     [(''jobs'', JInt (int (length ks))),
      (''states'', count_json (map (\<lambda>(j, k). or_text (ev_states ev j) ''NONE'') ks))]"

section \<open>I2: effects\<close>

definition want :: "evidence \<Rightarrow> string \<Rightarrow> nat" where
  "want ev j = (if ev_states ev j = ''SUCCEEDED'' then 1 else 0)"

definition state_label :: "evidence \<Rightarrow> string \<Rightarrow> kind \<Rightarrow> string" where
  "state_label ev j k = '' ('' @ k_name k @ '', '' @ or_text (ev_states ev j) ''no state'' @ ''): ''"

definition effect_of :: "string \<times> kind \<Rightarrow> string option" where
  "effect_of = (\<lambda>(j, k). map_option (\<lambda>p. p @ '':'' @ j) (k_effect k))"

definition i2_job :: "evidence \<Rightarrow> string \<times> kind \<Rightarrow> string list" where
  "i2_job ev x = (case effect_of x of
       None \<Rightarrow> []
     | Some key \<Rightarrow>
         (if count_list (ev_effects ev) key \<noteq> want ev (fst x)
          then [key @ state_label ev (fst x) (snd x) @ str_nat (count_list (ev_effects ev) key) @ '' effects'']
          else []))"

definition i2_check :: "evidence \<Rightarrow> (string \<times> kind) list \<Rightarrow> check" where
  "i2_check ev ks =
     (let expected = List.map_filter effect_of ks;
          stray = filter (\<lambda>e. e \<notin> set expected) (firsts (ev_effects ev))
      in check_with
           (concat (map (i2_job ev) ks) @
            map (\<lambda>e. ''effect '' @ e @ '' ('' @ str_nat (count_list (ev_effects ev) e)
              @ ''x) belongs to no accepted job with effects'') stray)
           [(''effects_logged'', JInt (int (length (ev_effects ev)))),
            (''distinct_keys'', JInt (int (length (firsts (ev_effects ev))))),
            (''duplicated_keys'', JInt (int (length (filter (\<lambda>p. snd p > 1) (counter (ev_effects ev))))))])"

section \<open>I2b: results\<close>

definition i2b_job :: "evidence \<Rightarrow> string \<times> kind \<Rightarrow> string list" where
  "i2b_job ev = (\<lambda>(j, k).
     if count_list (ev_results ev) j \<noteq> want ev j
     then [j @ state_label ev j k @ str_nat (count_list (ev_results ev) j) @ '' results''] else [])"

text \<open>Python walks the ids no job was accepted under in set order; the order here is the log's.\<close>

definition i2b_check :: "evidence \<Rightarrow> (string \<times> kind) list \<Rightarrow> check" where
  "i2b_check ev ks = check_with
     (concat (map (i2b_job ev) ks) @
      map (\<lambda>j. ''result for '' @ j @ '', which was never accepted'')
        (filter (\<lambda>j. j \<notin> set (map fst ks)) (firsts (ev_results ev))))
     [(''results_logged'', JInt (int (length (ev_results ev)))),
      (''duplicated_job_ids'', JInt (int (length (filter (\<lambda>p. snd p > 1) (counter (ev_results ev))))))]"


section \<open>I3: the dead-letter queue\<close>

definition need :: "fields \<Rightarrow> string \<Rightarrow> verify_error + string" where
  "need f n = (case dict_get f n of None \<Rightarrow> Inl (VKey n) | Some x \<Rightarrow> Inr x)"

definition need_int :: "fields \<Rightarrow> string \<Rightarrow> verify_error + int" where
  "need_int f n = (case need f n of Inl e \<Rightarrow> Inl e
     | Inr x \<Rightarrow> (case read_int x of None \<Rightarrow> Inl (VValue x) | Some i \<Rightarrow> Inr i))"

fun collect :: "(verify_error + 'a) list \<Rightarrow> verify_error + 'a list" where
  "collect [] = Inr []"
| "collect (Inl e # _) = Inl e"
| "collect (Inr x # rs) = (case collect rs of Inl e \<Rightarrow> Inl e | Inr xs \<Rightarrow> Inr (x # xs))"

definition dlq_key :: "fields \<Rightarrow> string" where
  "dlq_key f = (case dict_get f ''dlq_job_id'' of None \<Rightarrow> ''?'' | Some j \<Rightarrow> j)"

definition entries_for :: "evidence \<Rightarrow> string \<Rightarrow> fields list" where
  "entries_for ev j = filter (\<lambda>f. dlq_key f = j) (ev_dlq ev)"

fun contains :: "string \<Rightarrow> string \<Rightarrow> bool" where
  "contains pat [] = (pat = [])"
| "contains pat (c # cs) = (take (length pat) (c # cs) = pat \<or> contains pat cs)"

text \<open>The four reason and count checks of a job that must be dead, the first that fails.\<close>

definition i3_entry :: "int \<Rightarrow> int \<Rightarrow> string \<Rightarrow> kind \<Rightarrow> fields \<Rightarrow> verify_error + string list" where
  "i3_entry max_att max_del j k e =
     (case need e ''dlq_reason'' of Inl x \<Rightarrow> Inl x | Inr reason \<Rightarrow>
      if Some reason \<noteq> k_reason k then
        Inr [labelled j k @ '': reason '' @ reason @ '', expected '' @ (case k_reason k of None \<Rightarrow> ''None'' | Some r \<Rightarrow> r)]
      else
        (case (if k_name k = ''crashy'' then need_int e ''dlq_deliveries'' else Inr (max_del + 1)) of
           Inl x \<Rightarrow> Inl x
         | Inr n \<Rightarrow>
           if k_name k = ''crashy'' \<and> n \<le> max_del then
             Inr [j @ '' (crashy): dead-lettered at delivery '' @ (case dict_get e ''dlq_deliveries'' of None \<Rightarrow> [] | Some d \<Rightarrow> d)]
           else
           (case (if k_name k \<in> {''poison'', ''hang_forever''} then need e ''dlq_attempts'' else Inr (str_int max_att)) of
              Inl x \<Rightarrow> Inl x
            | Inr att \<Rightarrow>
              if k_name k \<in> {''poison'', ''hang_forever''} \<and> att \<noteq> str_int max_att then
                Inr [labelled j k @ '': dead after '' @ att @ '' attempts'']
              else
              (case (if k_name k = ''hang_forever'' then need e ''dlq_error'' else Inr ''HandlerTimeout'') of
                 Inl x \<Rightarrow> Inl x
               | Inr err \<Rightarrow>
                 if k_name k = ''hang_forever'' \<and> \<not> contains ''HandlerTimeout'' err then
                   Inr [j @ '' (hang_forever): last error '' @ py_repr (take 80 err)]
                 else Inr []))))"

definition i3_job :: "int \<Rightarrow> int \<Rightarrow> evidence \<Rightarrow> string \<times> kind \<Rightarrow> verify_error + string list" where
  "i3_job max_att max_del ev = (\<lambda>(j, k).
     let es = entries_for ev j in
     if k_expect k \<noteq> ''DEAD'' then
       (case es of
          [] \<Rightarrow> Inr []
        | e # _ \<Rightarrow> Inr [labelled j k @ '' is in the DLQ ('' @
            (case dict_get e ''dlq_reason'' of None \<Rightarrow> ''None'' | Some r \<Rightarrow> r) @ '')''])
     else (case es of
             [e] \<Rightarrow> i3_entry max_att max_del j k e
           | _ \<Rightarrow> Inr [labelled j k @ '': '' @ str_nat (length es) @ '' DLQ entries'']))"

text \<open>\<^verbatim>\<open>d.get(name, 0)\<close> of the orchestrator's counts.\<close>

definition get0 :: "(string \<times> int) list \<Rightarrow> string \<Rightarrow> int" where
  "get0 d n = (case map_of d n of None \<Rightarrow> 0 | Some i \<Rightarrow> i)"

text \<open>Crashes past what the crashy jobs may cause (only with the orchestrator's counts).\<close>

definition i3_crashes :: "int \<Rightarrow> (string \<times> int) list option \<Rightarrow> (string \<times> kind) list \<Rightarrow> string list" where
  "i3_crashes max_del seen ks =
     (let crashy_jobs = int (length (filter (\<lambda>x. k_name (snd x) = ''crashy'') ks)) in
      case seen of
        None \<Rightarrow> []
      | Some ev \<Rightarrow>
          (if get0 ev ''crash_restarts'' > crashy_jobs * max_del then
             [str_int (get0 ev ''crash_restarts'') @ '' crashy crashes > '' @ str_int crashy_jobs
                @ '' crashy jobs x max_deliveries '' @ str_int max_del @ '': a crashy job ran past max_deliveries'']
           else []))"

text \<open>The entries job by job, as \<^verbatim>\<open>dlq_by_job\<close> lists them.\<close>

definition grouped_dlq :: "evidence \<Rightarrow> fields list" where
  "grouped_dlq ev = concat (map (entries_for ev) (firsts (map dlq_key (ev_dlq ev))))"

definition crashy_deliveries :: "evidence \<Rightarrow> (string \<times> kind) list \<Rightarrow> verify_error + int list" where
  "crashy_deliveries ev ks =
     (case collect (map (\<lambda>f. need_int f ''dlq_deliveries'')
              (filter (\<lambda>f. map_option k_name (map_of ks (dlq_key f)) = Some ''crashy'') (grouped_dlq ev))) of
        Inl x \<Rightarrow> Inl x | Inr ns \<Rightarrow> Inr (sort ns))"

definition i3_check :: "int \<Rightarrow> int \<Rightarrow> evidence \<Rightarrow> (string \<times> int) list option \<Rightarrow> (string \<times> kind) list
    \<Rightarrow> verify_error + check" where
  "i3_check max_att max_del ev seen ks =
     (case collect (map (i3_job max_att max_del ev) ks) of Inl x \<Rightarrow> Inl x | Inr mss \<Rightarrow>
     (case crashy_deliveries ev ks of Inl x \<Rightarrow> Inl x | Inr ns \<Rightarrow>
     (case collect (map (\<lambda>f. need f ''dlq_reason'') (ev_dlq ev)) of Inl x \<Rightarrow> Inl x | Inr reasons \<Rightarrow>
        Inr (check_with
          (concat mss @
           map (\<lambda>j. ''DLQ entry for '' @ j @ '', which was never accepted'')
             (filter (\<lambda>j. j \<notin> set (map fst ks)) (firsts (map dlq_key (ev_dlq ev)))) @
           i3_crashes max_del seen ks)
          [(''dlq_entries'', JInt (int (length (ev_dlq ev)))), (''reasons'', count_json reasons),
           (''crashy_dlq_deliveries'', JArr (map JInt ns))]))))"

section \<open>I4, W1 and I5\<close>

definition minimums :: "(string \<times> int) list" where
  "minimums = [(''kills'', 3), (''pauses'', 3), (''network_windows'', 6), (''reclaimed'', 1),
     (''duplicates_suppressed'', 1), (''timeouts'', 1), (''pool_resets'', 1), (''crash_restarts'', 1)]"

text \<open>What happened: the orchestrator's counts, three of them replaced by the queue's own counters.\<close>

definition observed :: "evidence \<Rightarrow> (string \<times> int) list \<Rightarrow> (string \<times> int) list" where
  "observed ev seen =
     (let own = [''reclaimed'', ''duplicates_suppressed'', ''timeouts''] in
      map (\<lambda>(n, i). (n, if n \<in> set own then ev_counters ev n else i)) seen @
      map (\<lambda>n. (n, ev_counters ev n)) (filter (\<lambda>n. n \<notin> fst ` set seen) own))"

definition i4_check :: "evidence \<Rightarrow> (string \<times> int) list \<Rightarrow> (string \<times> int) list \<Rightarrow> check" where
  "i4_check ev seen ms =
     (let obs = observed ev seen in
      check_with
        (concat (map (\<lambda>(n, m). if get0 obs n < m then [n @ '' = '' @ str_int (get0 obs n) @ '' < '' @ str_int m]
           else []) ms))
        [(''observed'', JObj (map (\<lambda>(n, i). (n, JInt i)) obs)),
         (''minimums'', JObj (map (\<lambda>(n, m). (n, JInt m)) ms))])"

definition w1_check :: "(string \<times> int) list \<Rightarrow> check" where
  "w1_check seen =
     (let unexpected = get0 seen ''unexpected_exits''; errors = get0 seen ''error_log_lines'' in
      check_with
        ((if unexpected \<noteq> 0 then [str_int unexpected @ '' worker exit(s) not caused by a crashy job''] else []) @
         (if errors \<noteq> 0 then [str_int errors @ '' ERROR line(s) in the worker logs''] else []))
        [(''unexpected_exits'', JInt unexpected), (''error_log_lines'', JInt errors)])"

definition i5_check :: "evidence \<Rightarrow> check" where
  "i5_check ev = \<lparr>c_ok = (ev_stream ev = ev_pel ev \<and> ev_pel ev = ev_delayed ev \<and> ev_delayed ev = 0),
     c_detail = [(''stream'', JInt (int (ev_stream ev))), (''pel'', JInt (int (ev_pel ev))),
       (''delayed'', JInt (int (ev_delayed ev)))], c_violations = []\<rparr>"

section \<open>The verdict\<close>

text \<open>The named checks of the report, in its order.\<close>

definition judge :: "int \<Rightarrow> int \<Rightarrow> evidence \<Rightarrow> (string \<times> int) list option \<Rightarrow> (string \<times> int) list \<Rightarrow> accepted
    \<Rightarrow> verify_error + (string \<times> check) list" where
  "judge max_att max_del ev seen ms acc =
     (case kinds_of acc of Inl e \<Rightarrow> Inl e | Inr ks \<Rightarrow>
     (case i3_check max_att max_del ev seen ks of Inl e \<Rightarrow> Inl e | Inr i3 \<Rightarrow>
        Inr ([(''I1_no_loss'', i1_check ev ks), (''I2_no_duplicate_effects'', i2_check ev ks),
              (''I2b_no_duplicate_results'', i2b_check ev ks), (''I3_dlq_correct'', i3)] @
             (case seen of None \<Rightarrow> []
              | Some e \<Rightarrow> [(''I4_faults_happened'', i4_check ev e ms), (''W1_workers_healthy'', w1_check e)]) @
             [(''I5_drained'', i5_check ev)])))"

definition passed :: "(string \<times> check) list \<Rightarrow> bool" where
  "passed cs \<longleftrightarrow> (\<forall>c \<in> set cs. c_ok (snd c))"


section \<open>Reading the evidence\<close>

definition stream_page :: nat where
  "stream_page = 10000"

definition pipe_size :: nat where
  "pipe_size = 5000"

text \<open>A read either fails, with the exception the report is lost with, or goes on.\<close>

type_synonym ('s, 'a) reading = "'s \<Rightarrow> ((verify_error + 'a) \<times> 's) option"

definition reply_of :: "('s, 'a) script \<Rightarrow> ('s, 'a) reading" where
  "reply_of m = (\<lambda>s. case m s of (Inl e, s') \<Rightarrow> Some (Inl (VServer e), s') | (Inr x, s') \<Rightarrow> Some (Inr x, s'))"

definition give :: "verify_error + 'a \<Rightarrow> ('s, 'a) reading" where
  "give r = (\<lambda>s. Some (r, s))"

definition read_then :: "('s, 'a) reading \<Rightarrow> ('a \<Rightarrow> ('s, 'b) reading) \<Rightarrow> ('s, 'b) reading" where
  "read_then m f = (\<lambda>s. case m s of
       None \<Rightarrow> None | Some (Inl e, s') \<Rightarrow> Some (Inl e, s') | Some (Inr x, s') \<Rightarrow> f x s')"

text \<open>\<^verbatim>\<open>_stream\<close>: pages until a short one. It need not end; then there is no value.\<close>

partial_function (option) stream_from :: "'s redis_ops \<Rightarrow> key \<Rightarrow> lower \<Rightarrow> (eid \<times> fields) list \<Rightarrow> 's
    \<Rightarrow> ((verify_error + (eid \<times> fields) list) \<times> 's) option" where
  "stream_from R k lo out s =
     (case XRANGE R k lo None (Some stream_page) s of
        (Inl e, s') \<Rightarrow> Some (Inl (VServer e), s')
      | (Inr page, s') \<Rightarrow>
          if length page < stream_page then Some (Inr (out @ page), s')
          else stream_from R k (After (fst (last page))) (out @ page) s')"

definition read_stream :: "'s redis_ops \<Rightarrow> key \<Rightarrow> ('s, (eid \<times> fields) list) reading" where
  "read_stream R k = stream_from R k FromStart []"

text \<open>\<^verbatim>\<open>_states\<close>: one pipeline of reads per chunk of job ids.\<close>

fun chunks :: "nat \<Rightarrow> 'a list \<Rightarrow> 'a list list" where
  "chunks n xs = (if xs = [] \<or> n = 0 then [] else take n xs # chunks n (drop n xs))"

declare chunks.simps [simp del]

fun hget_states :: "'s redis_ops \<Rightarrow> keys \<Rightarrow> string list \<Rightarrow> 's \<Rightarrow> (redis_error + string option) list \<times> 's" where
  "hget_states R K [] s = ([], s)"
| "hget_states R K (j # js) s =
     (case HGET R (done_key K j) ''state'' s of
        (r, s1) \<Rightarrow> (case hget_states R K js s1 of (rs, s2) \<Rightarrow> (r # rs, s2)))"

fun read_states :: "'s redis_ops \<Rightarrow> keys \<Rightarrow> string list list \<Rightarrow> ('s, (string \<times> string) list) reading" where
  "read_states R K [] s = Some (Inr [], s)"
| "read_states R K (c # cs) s =
     (case hget_states R K c s of (rs, s1) \<Rightarrow>
       (case raise_first rs of
          Inl e \<Rightarrow> Some (Inl (VServer e), s1)
        | Inr sts \<Rightarrow> read_then (read_states R K cs)
            (\<lambda>more_states. give (Inr (zip c (map (\<lambda>st. case st of None \<Rightarrow> [] | Some x \<Rightarrow> x) sts) @ more_states))) s1))"

definition counter_error :: "stats_error \<Rightarrow> verify_error" where
  "counter_error e = (case e of StatsReply r \<Rightarrow> VServer r | BadCounter n \<Rightarrow> VValue n)"

definition counters_reading :: "'s redis_ops \<Rightarrow> keys \<Rightarrow> ('s, (string \<times> int) list) reading" where
  "counters_reading R K s = (case read_counters R K s of
       (Inl e, s') \<Rightarrow> Some (Inl (counter_error e), s') | (Inr cs, s') \<Rightarrow> Some (Inr cs, s'))"

definition verify :: "'s redis_ops \<Rightarrow> settings \<Rightarrow> accepted \<Rightarrow> int \<Rightarrow> int \<Rightarrow> (string \<times> int) list option
    \<Rightarrow> (string \<times> int) list \<Rightarrow> ('s, (string \<times> check) list) reading" where
  "verify R S acc max_att max_del seen ms =
     (let K = keys_of S in
      read_then (read_states R K (chunks pipe_size (map fst acc))) (\<lambda>states.
      read_then (read_stream R (results_key K)) (\<lambda>res.
      read_then (give (collect (map (\<lambda>e. need (snd e) ''job_id'') res))) (\<lambda>results.
      read_then (read_stream R (effects_key K)) (\<lambda>eff.
      read_then (give (collect (map (\<lambda>e. need (snd e) ''key'') eff))) (\<lambda>effects.
      read_then (read_stream R (dead_key K)) (\<lambda>dlq_entries.
      read_then (counters_reading R K) (\<lambda>cs.
      read_then (reply_of (XLEN R (stream_key K))) (\<lambda>stream_len.
      read_then (reply_of (XPENDING_SUMMARY R (stream_key K) (group S))) (\<lambda>pel.
      read_then (reply_of (ZCARD R (delayed_key K))) (\<lambda>delayed.
        give (judge max_att max_del
          \<lparr>ev_states = (\<lambda>j. case map_of states j of None \<Rightarrow> [] | Some st \<Rightarrow> st), ev_results = results,
           ev_effects = effects, ev_dlq = map snd dlq_entries,
           ev_counters = (\<lambda>n. get0 cs n), ev_stream = stream_len, ev_pel = pel, ev_delayed = delayed\<rparr>
          seen ms acc))))))))))))"


section \<open>How far delivery counts climbed\<close>

fun int_pairs :: "fields \<Rightarrow> verify_error + (int \<times> int) list" where
  "int_pairs [] = Inr []"
| "int_pairs ((k, v) # ps) =
     (case (read_int k, read_int v) of
        (Some i, Some n) \<Rightarrow> (case int_pairs ps of Inl e \<Rightarrow> Inl e | Inr qs \<Rightarrow> Inr ((i, n) # qs))
      | (None, _) \<Rightarrow> Inl (VValue k) | (_, None) \<Rightarrow> Inl (VValue v))"

text \<open>\<^verbatim>\<open>others[n] = others.get(n, 0) - 1\<close>\<close>

definition take_one :: "int \<Rightarrow> (int \<times> int) list \<Rightarrow> (int \<times> int) list" where
  "take_one n d = (if n \<in> fst ` set d then map (\<lambda>(m, c). (m, if m = n then c - 1 else c)) d else d @ [(n, - 1)])"

definition excluding_crashy :: "(int \<times> int) list \<Rightarrow> int list \<Rightarrow> (int \<times> int) list" where
  "excluding_crashy h deads =
     filter (\<lambda>p. snd p \<noteq> 0) (fold (\<lambda>n_dead d. fold take_one [2 .. n_dead] d) deads h)"

definition max_delivery :: "(int \<times> int) list \<Rightarrow> int" where
  "max_delivery d = (case map fst d of [] \<Rightarrow> 1 | n # ns \<Rightarrow> fold max ns n)"

definition lookup0 :: "(int \<times> int) list \<Rightarrow> int \<Rightarrow> int" where
  "lookup0 d n = (case map_of d n of None \<Rightarrow> 0 | Some c \<Rightarrow> c)"

lemma take_one_lookup:
  "lookup0 (take_one n d) m = lookup0 d m - (if m = n then 1 else 0)"
proof (cases "n \<in> fst ` set d")
  case True
  then obtain c where "map_of d n = Some c" by (metis map_of_eq_None_iff not_Some_eq)
  moreover have "map_of (map (\<lambda>(m, c). (m, if m = n then c - 1 else c)) d) m =
      map_option (\<lambda>c. if m = n then c - 1 else c) (map_of d m)"
    by (induction d) (auto simp: option.map_ident)
  ultimately show ?thesis using True by (auto simp: take_one_def lookup0_def split: option.splits)
next
  case False
  then have "map_of d n = None" by (simp add: map_of_eq_None_iff)
  with False show ?thesis by (auto simp: take_one_def lookup0_def map_add_def split: option.splits)
qed

lemma take_one_keys:
  "distinct (map fst d) \<Longrightarrow> distinct (map fst (take_one n d))"
proof -
  have "map fst (map (\<lambda>(m, c). (m, if m = n then c - 1 else c)) d) = map fst d" by auto
  then show "distinct (map fst d) \<Longrightarrow> distinct (map fst (take_one n d))"
    by (simp only: take_one_def split: if_split) (simp add: image_iff)
qed

lemma fold_take_lookup:
  "lookup0 (fold take_one ns d) m = lookup0 d m - int (count_list ns m)"
  by (induction ns arbitrary: d) (auto simp: take_one_lookup)

lemma fold_take_keys: "distinct (map fst d) \<Longrightarrow> distinct (map fst (fold take_one ns d))"
  by (induction ns arbitrary: d) (auto simp: take_one_keys)

lemma count_upto: "count_list [a .. b] m = (if a \<le> m \<and> m \<le> b then 1 else 0)"
proof -
  have "distinct [a .. b]" by simp
  then have "count_list [a .. b] m = (if m \<in> set [a .. b] then 1 else 0)"
    by (metis count_list_0_iff distinct_count_atmost_1 count_mset)
  then show ?thesis by simp
qed

lemma excluding_crashy_lookup:
  assumes "distinct (map fst h)"
  shows "lookup0 (excluding_crashy h deads) m = lookup0 h m - int (length (filter (\<lambda>n. 2 \<le> m \<and> m \<le> n) deads))"
proof -
  let ?d = "fold (\<lambda>n_dead d. fold take_one [2 .. n_dead] d) deads h"
  have "distinct (map fst ?d) \<and> lookup0 ?d m = lookup0 h m - int (length (filter (\<lambda>n. 2 \<le> m \<and> m \<le> n) deads))"
    using assms by (induction deads arbitrary: h) (auto simp: fold_take_keys fold_take_lookup count_upto)
  moreover have "distinct (map fst d) \<Longrightarrow> lookup0 (filter (\<lambda>p. snd p \<noteq> 0) d) m = lookup0 d m" for d :: "(int \<times> int) list"
  proof (induction d)
    case (Cons x d)
    have "map_of (filter (\<lambda>p. snd p \<noteq> 0) d) k = None" if "k \<notin> fst ` set d" for k
      using that by (auto simp: map_of_eq_None_iff)
    with Cons show ?case by (auto simp: lookup0_def split: option.splits)
  qed simp
  ultimately show ?thesis by (simp add: excluding_crashy_def)
qed


section \<open>What each check demands\<close>

lemma concat_map_Nil: "concat (map f xs) = [] \<longleftrightarrow> (\<forall>x \<in> set xs. f x = [])"
  by auto

lemma kinds_of_set:
  assumes "kinds_of acc = Inr ks"
  shows "map fst ks = map fst acc" and "\<forall>x \<in> set ks. snd x \<in> set kinds"
    and "map (\<lambda>x. (fst x, k_name (snd x))) ks = acc"
proof -
  have "map fst ks = map fst acc \<and> (\<forall>x \<in> set ks. snd x \<in> set kinds) \<and> map (\<lambda>x. (fst x, k_name (snd x))) ks = acc"
    using assms
  proof (induction acc arbitrary: ks)
    case (Cons a acc)
    obtain j n where a: "a = (j, n)" by (cases a)
    from Cons.prems obtain k ks' where k: "by_name n = Some k" "kinds_of acc = Inr ks'" "ks = (j, k) # ks'"
      by (auto simp: a split: option.splits sum.splits)
    from k(1) have "k \<in> set kinds" "k_name k = n" by (auto simp: by_name_def find_Some_iff)
    with Cons.IH [OF k(2)] show ?case by (simp add: a k(3))
  qed simp
  then show "map fst ks = map fst acc" and "\<forall>x \<in> set ks. snd x \<in> set kinds"
    and "map (\<lambda>x. (fst x, k_name (snd x))) ks = acc" by blast+
qed

lemma expect_terminal: "k \<in> set kinds \<Longrightarrow> terminal (k_expect k)"
  by (erule kinds_cases) (simp_all add: terminal_def)

lemma i1_check_ok:
  assumes "\<forall>x \<in> set ks. snd x \<in> set kinds"
  shows "c_ok (i1_check ev ks) \<longleftrightarrow>
    (\<forall>x \<in> set ks. ev_states ev (fst x) = k_expect (snd x)) \<and> ev_counters ev ''late_successes'' = 0"
proof -
  have "i1_job ev x = [] \<longleftrightarrow> ev_states ev (fst x) = k_expect (snd x)" if "x \<in> set ks" for x
    using expect_terminal assms that by (auto simp: i1_job_def labelled_def Let_def split: prod.splits)
  then show ?thesis by (simp add: i1_check_def concat_map_Nil)
qed

lemma filter_Nil: "filter P xs = [] \<longleftrightarrow> (\<forall>x \<in> set xs. \<not> P x)"
  by (simp add: filter_empty_conv)

lemma i2_check_ok:
  "c_ok (i2_check ev ks) \<longleftrightarrow>
    (\<forall>x \<in> set ks. \<forall>e. effect_of x = Some e \<longrightarrow> count_list (ev_effects ev) e = want ev (fst x)) \<and>
    (\<forall>e \<in> set (ev_effects ev). \<exists>x \<in> set ks. effect_of x = Some e)"
proof -
  have "i2_job ev x = [] \<longleftrightarrow> (\<forall>e. effect_of x = Some e \<longrightarrow> count_list (ev_effects ev) e = want ev (fst x))" for x
    by (auto simp: i2_job_def state_label_def split: option.splits)
  moreover have "set (List.map_filter effect_of ks) = {e. \<exists>x \<in> set ks. effect_of x = Some e}"
    by (force simp: List.map_filter_def)
  ultimately show ?thesis by (simp add: i2_check_def concat_map_Nil filter_Nil Let_def)
qed

lemma i2b_check_ok:
  "c_ok (i2b_check ev ks) \<longleftrightarrow>
    (\<forall>x \<in> set ks. count_list (ev_results ev) (fst x) = want ev (fst x)) \<and>
    set (ev_results ev) \<subseteq> fst ` set ks"
proof -
  have "i2b_job ev x = [] \<longleftrightarrow> count_list (ev_results ev) (fst x) = want ev (fst x)" for x
    by (simp add: i2b_job_def split: prod.splits)
  then show ?thesis by (simp add: i2b_check_def concat_map_Nil filter_Nil subset_eq)
qed

lemma i5_check_ok:
  "c_ok (i5_check ev) \<longleftrightarrow> ev_stream ev = 0 \<and> ev_pel ev = 0 \<and> ev_delayed ev = 0"
  by (auto simp: i5_check_def)

text \<open>What the dead-letter entry of a job that must be dead says.\<close>

definition entry_right :: "int \<Rightarrow> int \<Rightarrow> kind \<Rightarrow> fields \<Rightarrow> bool" where
  "entry_right max_att max_del k e \<longleftrightarrow>
     dict_get e ''dlq_reason'' = k_reason k \<and>
     (k_name k = ''crashy'' \<longrightarrow> (\<exists>d n. dict_get e ''dlq_deliveries'' = Some d \<and> read_int d = Some n \<and> max_del < n)) \<and>
     (k_name k \<in> {''poison'', ''hang_forever''} \<longrightarrow> dict_get e ''dlq_attempts'' = Some (str_int max_att)) \<and>
     (k_name k = ''hang_forever'' \<longrightarrow> (\<exists>t. dict_get e ''dlq_error'' = Some t \<and> contains ''HandlerTimeout'' t))"

lemma i3_entry_right:
  assumes "k_reason k \<noteq> None"
  shows "i3_entry max_att max_del j k e = Inr [] \<longleftrightarrow> entry_right max_att max_del k e"
proof (cases "dict_get e ''dlq_reason''")
  case None
  with assms show ?thesis by (auto simp: i3_entry_def need_def entry_right_def)
next
  case (Some r)
  show ?thesis
  proof (cases "Some r = k_reason k")
    case False
    with Some show ?thesis by (auto simp: i3_entry_def need_def entry_right_def)
  next
    case True
    consider "k_name k = ''crashy''" | "k_name k = ''poison''" | "k_name k = ''hang_forever''"
      | "k_name k \<notin> {''crashy'', ''poison'', ''hang_forever''}" by blast
    then show ?thesis
      by cases (use True [symmetric] Some in \<open>auto simp: i3_entry_def need_def need_int_def entry_right_def
          split: option.splits\<close>)
  qed
qed

lemma collect_map [simp]: "collect (map Inr xs) = Inr xs"
  by (induction xs) auto

lemma collect_Inr: "collect rs = Inr xs \<longleftrightarrow> rs = map Inr xs"
proof
  show "collect rs = Inr xs \<Longrightarrow> rs = map Inr xs"
    by (induction rs arbitrary: xs rule: collect.induct) (auto split: sum.splits)
qed simp

lemma dead_kind_reason: "k \<in> set kinds \<Longrightarrow> k_expect k = ''DEAD'' \<Longrightarrow> k_reason k \<noteq> None"
  by (erule kinds_cases) simp_all

definition dlq_right :: "int \<Rightarrow> int \<Rightarrow> evidence \<Rightarrow> string \<times> kind \<Rightarrow> bool" where
  "dlq_right max_att max_del ev x \<longleftrightarrow>
     (if k_expect (snd x) = ''DEAD''
      then \<exists>e. entries_for ev (fst x) = [e] \<and> entry_right max_att max_del (snd x) e
      else entries_for ev (fst x) = [])"

lemma i3_job_right:
  assumes "snd x \<in> set kinds"
  shows "i3_job max_att max_del ev x = Inr [] \<longleftrightarrow> dlq_right max_att max_del ev x"
proof -
  obtain j k where x: "x = (j, k)" by (cases x)
  show ?thesis
  proof (cases "k_expect k = ''DEAD''")
    case True
    with assms have "k_reason k \<noteq> None" using dead_kind_reason by (simp add: x)
    from i3_entry_right [OF this] True show ?thesis
      by (auto simp: x i3_job_def dlq_right_def Let_def split: list.split)
  next
    case False
    then show ?thesis by (auto simp: x i3_job_def dlq_right_def Let_def split: list.split)
  qed
qed

lemma i3_check_ok:
  assumes "i3_check max_att max_del ev seen ks = Inr c" and "\<forall>x \<in> set ks. snd x \<in> set kinds"
  shows "c_ok c \<longleftrightarrow> (\<forall>x \<in> set ks. dlq_right max_att max_del ev x) \<and>
    (\<forall>f \<in> set (ev_dlq ev). dlq_key f \<in> fst ` set ks) \<and> i3_crashes max_del seen ks = []"
proof -
  obtain mss where m: "map (i3_job max_att max_del ev) ks = map Inr mss"
    and c: "c_ok c \<longleftrightarrow> concat mss = [] \<and> (\<forall>j \<in> set (firsts (map dlq_key (ev_dlq ev))). j \<in> set (map fst ks)) \<and>
      i3_crashes max_del seen ks = []"
    using assms(1) by (auto simp: i3_check_def collect_Inr filter_Nil split: sum.splits)
  have "concat mss = [] \<longleftrightarrow> (\<forall>x \<in> set ks. i3_job max_att max_del ev x = Inr [])"
  proof -
    have len: "length mss = length ks" using m by (metis length_map)
    have "i3_job max_att max_del ev (ks ! i) = Inr (mss ! i)" if "i < length ks" for i
      using m that len by (metis nth_map)
    then show ?thesis using len by (auto simp: all_set_conv_all_nth)
  qed
  then show ?thesis using c i3_job_right assms(2) by auto
qed


section \<open>The evidence is what the queue holds\<close>

definition states_read :: "qstate \<Rightarrow> accepted \<Rightarrow> string \<Rightarrow> string" where
  "states_read q acc j =
     (if j \<in> fst ` set acc then (case state_of q j of None \<Rightarrow> [] | Some st \<Rightarrow> st) else [])"

definition evidence_of :: "qstate \<Rightarrow> accepted \<Rightarrow> verify_error + evidence" where
  "evidence_of q acc =
     (case collect (map (\<lambda>f. need f ''job_id'') (reslog q)) of Inl e \<Rightarrow> Inl e | Inr results \<Rightarrow>
     (case collect (map (\<lambda>f. need f ''key'') (efflog q)) of Inl e \<Rightarrow> Inl e | Inr effects \<Rightarrow>
        Inr \<lparr>ev_states = states_read q acc, ev_results = results, ev_effects = effects,
             ev_dlq = map snd (dlq q), ev_counters = (\<lambda>n. if n \<in> set counter_names then cnt q n else 0),
             ev_stream = length (ents q), ev_pel = length (pend q), ev_delayed = length (dlyd q)\<rparr>))"

text \<open>Ids grow along a stream: \<^verbatim>\<open>XADD\<close> only appends larger ones.\<close>

definition stream_grows :: "key \<Rightarrow> rdb \<Rightarrow> bool" where
  "stream_grows k v \<longleftrightarrow> sorted_wrt (<) (map fst (s_entries (get_stream k v)))"

definition logs_grow :: "settings \<Rightarrow> rdb \<Rightarrow> bool" where
  "logs_grow S v \<longleftrightarrow> (let K = keys_of S in
     stream_grows (results_key K) v \<and> stream_grows (effects_key K) v \<and> stream_grows (dead_key K) v)"

text \<open>A reading that gives \<open>r\<close> on every server that shows \<open>v\<close>, and changes nothing.\<close>

definition yields :: "('s \<Rightarrow> rdb) \<Rightarrow> rdb \<Rightarrow> ('s, 'a) reading \<Rightarrow> verify_error + 'a \<Rightarrow> bool" where
  "yields view v m r \<longleftrightarrow> (\<forall>s. view s = v \<longrightarrow> (\<exists>s'. m s = Some (r, s') \<and> view s' = v))"

named_theorems yields_intro \<open>rules for readings of a quiet server\<close>

lemma yields_then [yields_intro]:
  "yields view v m (Inr x) \<Longrightarrow> yields view v (f x) r \<Longrightarrow> yields view v (read_then m f) r"
  by (fastforce simp: yields_def read_then_def)

lemma yields_then_error: "yields view v m (Inl e) \<Longrightarrow> yields view v (read_then m f) (Inl e)"
  by (fastforce simp: yields_def read_then_def)

lemma yields_give [yields_intro]: "yields view v (give r) r"
  by (simp add: yields_def give_def)

lemma yields_reply:
  "refines view m d \<Longrightarrow> d v = (Inr x, v) \<Longrightarrow> yields view v (reply_of m) (Inr x)"
  unfolding yields_def refines_def reply_of_def by (auto simp: split_def split: sum.splits prod.splits)



lemma drop_after_last:
  assumes "sorted_wrt (<) (map fst w)" and "take n w \<noteq> []"
  shows "filter (\<lambda>p. fst (last (take n w)) < fst p) w = drop n (w :: ('k::linorder \<times> 'a) list)"
proof -
  let ?m = "fst (last (take n w))"
  have m: "?m = last (take n (map fst w))" "take n (map fst w) \<noteq> []"
    using assms(2) by (simp_all add: take_map last_map)
  have "filter (\<lambda>p. ?m < fst p) (take n w) = []"
    using sorted_take_last [OF assms(1) m(2)] m(1) unfolding filter_empty_conv take_map
    by (metis (no_types, lifting) imageI image_set in_set_takeD leD)
  moreover have "filter (\<lambda>p. ?m < fst p) (drop n w) = drop n w"
  proof -
    have "sorted_wrt (<) (map fst (take n w) @ map fst (drop n w))"
      using assms(1) by (simp flip: map_append)
    moreover have "last (take n w) \<in> set (take n w)" using assms(2) by (rule last_in_set)
    ultimately show ?thesis unfolding sorted_wrt_append filter_id_conv by simp
  qed
  ultimately show ?thesis by (metis append_Nil append_take_drop_id filter_append)
qed

lemma above_after:
  assumes "above lo i" and "i < j"
  shows "above lo j"
  using assms by (cases lo) (auto intro: order_less_imp_le order_le_less_trans order_less_trans)

definition rest_of :: "lower \<Rightarrow> (eid \<times> 'a) list \<Rightarrow> (eid \<times> 'a) list" where
  "rest_of lo es = filter (\<lambda>p. above lo (fst p)) es"

lemma rest_after_page:
  assumes "sorted_wrt (<) (map fst es)" and "take n (rest_of lo es) \<noteq> []"
  shows "rest_of (After (fst (last (take n (rest_of lo es))))) es = drop n (rest_of lo es)"
proof -
  let ?m = "fst (last (take n (rest_of lo es)))"
  have "above lo ?m"
    using in_set_takeD [OF last_in_set [OF assms(2)]] by (simp add: rest_of_def)
  then have "rest_of (After ?m) es = filter (\<lambda>p. ?m < fst p) (rest_of lo es)"
    unfolding rest_of_def filter_filter by (intro filter_cong refl) (auto dest: above_after)
  moreover have "sorted_wrt (<) (map fst (rest_of lo es))"
    using assms(1) unfolding rest_of_def map_fst_filter [of "above lo"] by (rule sorted_wrt_filter)
  ultimately show ?thesis using drop_after_last [OF _ assms(2)] by simp
qed

context redis_service
begin

lemma stream_from_yields:
  assumes "stream_ok k v" and g: "stream_grows k v"
  shows "yields view v (stream_from R k lo out) (Inr (out @ rest_of lo (s_entries (get_stream k v))))"
proof (induction "length (rest_of lo (s_entries (get_stream k v)))" arbitrary: lo out rule: less_induct)
  case less
  let ?es = "s_entries (get_stream k v)"
  let ?page = "take stream_page (rest_of lo ?es)"
  have doc: "d_xrange k lo None (Some stream_page) v = (Inr ?page, v)"
    using assms(1) by (simp add: d_xrange_def take_opt_def below_def rest_of_def)
  show ?case
    unfolding yields_def
  proof (intro allI impI)
    fix s assume s: "view s = v"
    obtain r s1 where run: "XRANGE R k lo None (Some stream_page) s = (r, s1)" by fastforce
    have r: "r = Inr ?page" "view s1 = v" using refinesD [OF XRANGE_doc run] doc s by auto
    show "\<exists>s'. stream_from R k lo out s = Some (Inr (out @ rest_of lo ?es), s') \<and> view s' = v"
    proof (cases "length ?page < stream_page")
      case True
      then have "?page = rest_of lo ?es" by simp
      with True r run show ?thesis by (subst stream_from.simps) simp
    next
      case False
      then have ne: "?page \<noteq> []" by (auto simp: stream_page_def)
      note rest = rest_after_page [OF g [unfolded stream_grows_def] ne]
      have "length (rest_of (After (fst (last ?page))) ?es) < length (rest_of lo ?es)"
        unfolding rest using ne by (simp add: stream_page_def)
      from less.hyps [OF this, of "out @ ?page"] r(2)
      obtain s' where "stream_from R k (After (fst (last ?page))) (out @ ?page) s1 =
          Some (Inr (out @ rest_of lo ?es), s')" "view s' = v"
        unfolding rest yields_def by auto
      with False r run show ?thesis by (subst stream_from.simps) simp
    qed
  qed
qed

lemma read_stream_yields:
  assumes "stream_ok k v" and "stream_grows k v"
  shows "yields view v (read_stream R k) (Inr (s_entries (get_stream k v)))"
  using stream_from_yields [OF assms, of FromStart "[]"] by (simp add: read_stream_def rest_of_def)

lemma hget_states_run:
  assumes "typed S v" and "view s = v" and "hget_states R (keys_of S) js s = (rs, s')"
  shows "rs = map (\<lambda>j. Inr (state_of (qview S v) j)) js" and "view s' = v"
proof -
  have "rs = map (\<lambda>j. Inr (state_of (qview S v) j)) js \<and> view s' = v"
    using assms(2,3)
  proof (induction js arbitrary: s rs)
    case (Cons j js)
    obtain r s1 where h: "HGET R (done_key (keys_of S) j) ''state'' s = (r, s1)" by fastforce
    obtain rs' where t: "hget_states R (keys_of S) js s1 = (rs', s')" "rs = r # rs'"
      using Cons.prems(2) h by (auto split: prod.splits)
    have "r = Inr (state_of (qview S v) j)" "view s1 = v"
      using refinesD [OF HGET_doc h] Cons.prems(1) assms(1) by (auto simp: d_hget_def typedD qview_def state_of_def Let_def)
    with Cons.IH [OF _ t(1)] t(2) show ?case by simp
  qed simp
  then show "rs = map (\<lambda>j. Inr (state_of (qview S v) j)) js" and "view s' = v" by simp_all
qed

end


lemma concat_chunks: "0 < n \<Longrightarrow> concat (chunks n xs) = xs"
proof (induction n xs rule: chunks.induct)
  case (1 n xs)
  then show ?case by (subst chunks.simps) auto
qed

lemma raise_first_map: "raise_first (map (\<lambda>x. Inr (f x)) xs) = Inr (map f xs)"
  by (induction xs) auto

lemma map_of_zip_fun: "map_of (map (\<lambda>j. (j, f j)) js) j = (if j \<in> set js then Some (f j) else None)"
  by (induction js) auto

context redis_service
begin

lemma read_states_yields:
  assumes "typed S v"
  shows "yields view v (read_states R (keys_of S) cs)
    (Inr (map (\<lambda>j. (j, case state_of (qview S v) j of None \<Rightarrow> [] | Some st \<Rightarrow> st)) (concat cs)))"
proof (induction cs)
  case Nil
  show ?case by (simp add: yields_def)
next
  case (Cons c cs)
  show ?case
    unfolding yields_def
  proof (intro allI impI)
    fix s assume s: "view s = v"
    obtain rs s1 where h: "hget_states R (keys_of S) c s = (rs, s1)" by fastforce
    note r = hget_states_run [OF assms s h]
    from Cons.IH r(2) obtain s2 where "read_states R (keys_of S) cs s1 =
        Some (Inr (map (\<lambda>j. (j, case state_of (qview S v) j of None \<Rightarrow> [] | Some st \<Rightarrow> st)) (concat cs)), s2)"
      "view s2 = v" unfolding yields_def by blast
    then show "\<exists>s'. read_states R (keys_of S) (c # cs) s = Some (Inr (map (\<lambda>j. (j, case state_of (qview S v) j of
        None \<Rightarrow> [] | Some st \<Rightarrow> st)) (concat (c # cs))), s') \<and> view s' = v"
      by (simp add: h r(1) raise_first_map read_then_def give_def zip_map2 zip_same_conv_map o_def)
  qed
qed

lemma counters_yields:
  assumes "typed S v"
  shows "yields view v (counters_reading R (keys_of S)) (Inr (map (\<lambda>n. (n, cnt (qview S v) n)) counter_names))"
  unfolding yields_def
proof (intro allI impI)
  fix s assume s: "view s = v"
  obtain r s1 where h: "HGETALL R (stats_key (keys_of S)) s = (r, s1)" by fastforce
  show "\<exists>s'. counters_reading R (keys_of S) s = Some (Inr (map (\<lambda>n. (n, cnt (qview S v) n)) counter_names), s')
      \<and> view s' = v"
    using refinesD [OF HGETALL_doc h] s assms
    by (auto simp: counters_reading_def read_counters_def h exec_hgetall stats_counters)
qed

lemma verify_yields:
  assumes t: "typed S v" and g: "logs_grow S v"
  shows "yields view v (verify R S acc max_att max_del seen ms)
    (case evidence_of (qview S v) acc of Inl e \<Rightarrow> Inl e | Inr ev \<Rightarrow> judge max_att max_del ev seen ms acc)"
proof -
  let ?K = "keys_of S" and ?q = "qview S v"
  have sg: "stream_grows (results_key ?K) v" "stream_grows (effects_key ?K) v" "stream_grows (dead_key ?K) v"
    using g by (simp_all add: logs_grow_def Let_def)
  note streams = read_stream_yields [OF typedD(3) [OF t] sg(1)] read_stream_yields [OF typedD(4) [OF t] sg(2)]
    read_stream_yields [OF typedD(2) [OF t] sg(3)]
  note lens = yields_reply [OF XLEN_doc exec_xlen [OF t]] yields_reply [OF ZCARD_doc exec_zcard [OF t]]
    yields_reply [OF XPENDING_SUMMARY_doc, of "stream_key ?K" "group S" v "length (pend ?q)"]
  have pel: "yields view v (reply_of (XPENDING_SUMMARY R (stream_key ?K) (group S))) (Inr (length (pend ?q)))"
    by (rule lens(3)) (simp add: d_xpending_summary_def exec_with_group [OF t])
  have st: "yields view v (read_states R ?K (chunks pipe_size (map fst acc)))
      (Inr (map (\<lambda>j. (j, case state_of ?q j of None \<Rightarrow> [] | Some st \<Rightarrow> st)) (map fst acc)))"
    using read_states_yields [OF t, of "chunks pipe_size (map fst acc)"] concat_chunks [of pipe_size "map fst acc"]
    by (simp add: pipe_size_def)
  have logs: "map (\<lambda>e. need (snd e) ''job_id'') (s_entries (get_stream (results_key ?K) v)) = map (\<lambda>f. need f ''job_id'') (reslog ?q)"
    "map (\<lambda>e. need (snd e) ''key'') (s_entries (get_stream (effects_key ?K) v)) = map (\<lambda>f. need f ''key'') (efflog ?q)"
    "s_entries (get_stream (dead_key ?K) v) = dlq ?q"
    by (simp_all add: qview_def Let_def)
  have states: "(\<lambda>j. case map_of (map (\<lambda>j. (j, case state_of ?q j of None \<Rightarrow> [] | Some st \<Rightarrow> st)) (map fst acc)) j of
      None \<Rightarrow> [] | Some st \<Rightarrow> st) = states_read ?q acc"
    by (simp add: map_of_zip_fun states_read_def fun_eq_iff del: map_map)
  have counts: "(\<lambda>n. get0 (map (\<lambda>n. (n, cnt ?q n)) counter_names) n) = (\<lambda>n. if n \<in> set counter_names then cnt ?q n else 0)"
    by (simp add: get0_def map_of_zip_fun fun_eq_iff)
  show ?thesis
  proof (cases "collect (map (\<lambda>f. need f ''job_id'') (reslog ?q))")
    case (Inl e)
    then show ?thesis
      unfolding verify_def evidence_of_def Let_def logs
      by (simp, intro yields_then [OF st] yields_then [OF streams(1)] yields_then_error)
        (simp add: logs yields_give)
  next
    case 1: (Inr results)
    show ?thesis
    proof (cases "collect (map (\<lambda>f. need f ''key'') (efflog ?q))")
      case (Inl e)
      with 1 show ?thesis
        unfolding verify_def evidence_of_def Let_def
        by (simp, intro yields_then [OF st] yields_then [OF streams(1)] yields_then [where x = results]
            yields_then [OF streams(2)] yields_then_error) (simp_all add: logs yields_give)
    next
      case 2: (Inr effects)
      have r: "yields view v (give (collect (map (\<lambda>e. need (snd e) ''job_id'') (s_entries (get_stream (results_key ?K) v)))))
          (Inr results)"
        and e: "yields view v (give (collect (map (\<lambda>e. need (snd e) ''key'') (s_entries (get_stream (effects_key ?K) v)))))
          (Inr effects)"
        unfolding logs 1 2 by (rule yields_give)+
      have ev: "(case evidence_of ?q acc of Inl e \<Rightarrow> Inl e | Inr ev \<Rightarrow> judge max_att max_del ev seen ms acc) =
          judge max_att max_del \<lparr>ev_states = states_read ?q acc, ev_results = results, ev_effects = effects,
             ev_dlq = map snd (dlq ?q), ev_counters = (\<lambda>n. if n \<in> set counter_names then cnt ?q n else 0),
             ev_stream = length (ents ?q), ev_pel = length (pend ?q), ev_delayed = length (dlyd ?q)\<rparr> seen ms acc"
        unfolding evidence_of_def 1 2 by simp
      show ?thesis
        unfolding verify_def Let_def ev
        by (rule yields_then [OF st], rule yields_then [OF streams(1)], rule yields_then [OF r],
            rule yields_then [OF streams(2)], rule yields_then [OF e], rule yields_then [OF streams(3)],
            rule yields_then [OF counters_yields [OF t]], rule yields_then [OF lens(1)], rule yields_then [OF pel],
            rule yields_then [OF lens(2)], unfold logs(3) states counts, rule yields_give)
    qed
  qed
qed

end


section \<open>The verdict\<close>

definition run_correct :: "int \<Rightarrow> int \<Rightarrow> evidence \<Rightarrow> (string \<times> int) list option \<Rightarrow> (string \<times> int) list
    \<Rightarrow> (string \<times> kind) list \<Rightarrow> bool" where
  "run_correct max_att max_del ev seen ms ks \<longleftrightarrow>
     (\<forall>x \<in> set ks. ev_states ev (fst x) = k_expect (snd x)) \<and> ev_counters ev ''late_successes'' = 0 \<and>
     (\<forall>x \<in> set ks. \<forall>e. effect_of x = Some e \<longrightarrow> count_list (ev_effects ev) e = want ev (fst x)) \<and>
     (\<forall>e \<in> set (ev_effects ev). \<exists>x \<in> set ks. effect_of x = Some e) \<and>
     (\<forall>x \<in> set ks. count_list (ev_results ev) (fst x) = want ev (fst x)) \<and> set (ev_results ev) \<subseteq> fst ` set ks \<and>
     (\<forall>x \<in> set ks. dlq_right max_att max_del ev x) \<and> (\<forall>f \<in> set (ev_dlq ev). dlq_key f \<in> fst ` set ks) \<and>
     ev_stream ev = 0 \<and> ev_pel ev = 0 \<and> ev_delayed ev = 0 \<and>
     (case seen of None \<Rightarrow> True
      | Some e \<Rightarrow> get0 e ''crash_restarts'' \<le> int (length (filter (\<lambda>x. k_name (snd x) = ''crashy'') ks)) * max_del \<and>
          (\<forall>(n, m) \<in> set ms. m \<le> get0 (observed ev e) n) \<and>
          get0 e ''unexpected_exits'' = 0 \<and> get0 e ''error_log_lines'' = 0)"

lemma i3_crashes_Nil:
  "i3_crashes max_del seen ks = [] \<longleftrightarrow> (case seen of None \<Rightarrow> True
     | Some e \<Rightarrow> get0 e ''crash_restarts'' \<le> int (length (filter (\<lambda>x. k_name (snd x) = ''crashy'') ks)) * max_del)"
  by (auto simp: i3_crashes_def Let_def split: option.split)

lemma i4_check_ok: "c_ok (i4_check ev e ms) \<longleftrightarrow> (\<forall>(n, m) \<in> set ms. m \<le> get0 (observed ev e) n)"
  by (auto simp: i4_check_def concat_map_Nil Let_def split: if_splits)

lemma w1_check_ok: "c_ok (w1_check e) \<longleftrightarrow> get0 e ''unexpected_exits'' = 0 \<and> get0 e ''error_log_lines'' = 0"
  by (auto simp: w1_check_def Let_def)

lemma judge_verdict:
  assumes "judge max_att max_del ev seen ms acc = Inr cs" and ks: "kinds_of acc = Inr ks"
  shows "passed cs \<longleftrightarrow> run_correct max_att max_del ev seen ms ks"
proof -
  note in_kinds = kinds_of_set(2) [OF ks]
  obtain i3 where i3: "i3_check max_att max_del ev seen ks = Inr i3"
    and cs: "cs = [(''I1_no_loss'', i1_check ev ks), (''I2_no_duplicate_effects'', i2_check ev ks),
        (''I2b_no_duplicate_results'', i2b_check ev ks), (''I3_dlq_correct'', i3)] @
       (case seen of None \<Rightarrow> []
        | Some e \<Rightarrow> [(''I4_faults_happened'', i4_check ev e ms), (''W1_workers_healthy'', w1_check e)]) @
       [(''I5_drained'', i5_check ev)]"
    using assms(1) by (auto simp: judge_def ks split: sum.splits)
  note oks = i1_check_ok [OF in_kinds] i2_check_ok i2b_check_ok i3_check_ok [OF i3 in_kinds] i5_check_ok
    i3_crashes_Nil i4_check_ok w1_check_ok
  show ?thesis
    by (cases seen; unfold cs passed_def run_correct_def; simp add: oks; blast)
qed

section \<open>The verifier on a state the protocol reaches\<close>

lemma count_collect:
  "map (\<lambda>f. need f n) fs = map Inr xs \<Longrightarrow> count_list xs j = length (filter (\<lambda>f. dict_get f n = Some j) fs)"
proof (induction fs arbitrary: xs)
  case (Cons f fs)
  then obtain x ys where "xs = x # ys" by (cases xs) auto
  with Cons show ?case by (auto simp: need_def split: option.splits)
qed simp

lemma evidence_ofD:
  assumes "evidence_of q acc = Inr ev"
  shows "ev_states ev = states_read q acc" "map (\<lambda>f. need f ''job_id'') (reslog q) = map Inr (ev_results ev)"
    "map (\<lambda>f. need f ''key'') (efflog q) = map Inr (ev_effects ev)" "ev_dlq ev = map snd (dlq q)"
    "ev_stream ev = length (ents q)" "ev_pel ev = length (pend q)" "ev_delayed ev = length (dlyd q)"
  using assms by (auto simp: evidence_of_def collect_Inr split: sum.splits)

lemma results_evidence:
  assumes "results_inv q" and "evidence_of q acc = Inr ev" and "j \<in> fst ` set acc"
  shows "count_list (ev_results ev) j = want ev j"
proof -
  have "count_list (ev_results ev) j = length (results_for q j)"
    using count_collect [OF evidence_ofD(2) [OF assms(2)]] by (simp add: results_for_def)
  then show ?thesis
    using assms(1,3) by (auto simp: results_inv_def want_def evidence_ofD(1) [OF assms(2)] states_read_def split: option.split)
qed

lemma dlq_evidence:
  assumes i: "dlq_inv q" and ev: "evidence_of q acc = Inr ev" and j: "j \<in> fst ` set acc"
  shows "length (entries_for ev j) = (if ev_states ev j = ''DEAD'' then 1 else 0)"
proof -
  have k: "dlq_key (snd e) = j \<longleftrightarrow> dlq_job (snd e) = Some j" if "e \<in> set (dlq q)" for e
    using i that by (auto simp: dlq_inv_def dlq_key_def dlq_job_def split: option.splits)
  have "entries_for ev j = map snd (filter (\<lambda>e. dlq_key (snd e) = j) (dlq q))"
    by (simp add: entries_for_def evidence_ofD(4) [OF ev] filter_map o_def)
  also have "filter (\<lambda>e. dlq_key (snd e) = j) (dlq q) = filter (\<lambda>e. dlq_job (snd e) = Some j) (dlq q)"
    using k by (intro filter_cong refl) simp
  finally show ?thesis
    using dlq_count [OF i, of j] j by (auto simp: evidence_ofD(1) [OF ev] states_read_def split: option.split)
qed

lemma drained_evidence:
  assumes s: "states_inv q" and a: "accept_inv dec A q" and ev: "evidence_of q acc = Inr ev"
    and d: "c_ok (i5_check ev)" and j: "j \<in> fst ` set acc" "j \<in> A"
  shows "terminal (ev_states ev j)"
proof -
  have "ents q = []" "dlyd q = []" using d by (simp_all add: i5_check_ok evidence_ofD [OF ev])
  then have "state_of q j \<noteq> None" using a j(2) by (auto simp: accept_inv_def accounted_def)
  then show ?thesis
    using s j(1) by (auto simp: states_inv_def evidence_ofD(1) [OF ev] states_read_def terminal_def split: option.split)
      (metis option.distinct(1) option.inject)
qed

end
