(* ===== verification/Chaos_Faults.thy ===== *)
theory Chaos_Faults
  imports Chaos_Mix "HOL-Library.AList"
begin

text \<open>
  \<^verbatim>\<open>chaos/faults.py\<close>: the fault schedule, the injector and the supervisor. The schedule draws from
  the run's generator; the injector's docker and Toxiproxy calls are commands whose success is
  an argument, and time is what the event loop's clock reads at each attempt.
\<close>

section \<open>Faults\<close>

datatype fault_kind = Kill | Pause | ResetPeer | Timeout | Latency | Partition

definition fault_kinds :: "fault_kind list" where
  "fault_kinds = [Kill, Pause, ResetPeer, Timeout, Latency, Partition]"

definition network :: "fault_kind list" where
  "network = [ResetPeer, Timeout, Latency, Partition]"

fun weight :: "fault_kind \<Rightarrow> rat" where
  "weight Kill = 2"
| "weight Pause = 2"
| "weight ResetPeer = 3 / 2"
| "weight Timeout = 3 / 2"
| "weight Latency = 1"
| "weight Partition = 3 / 2"

definition opening_rounds :: nat where
  "opening_rounds = 4"

definition settle_s :: rat where
  "settle_s = 2"

definition retry_for_s :: rat where
  "retry_for_s = 10"

definition retry_interval_s :: rat where
  "retry_interval_s = 1 / 2"

record fault =
  f_at :: rat
  f_kind :: fault_kind
  f_worker :: nat
  f_duration :: rat
  f_latency_ms :: int

definition to_millis :: "rat \<Rightarrow> rat" where
  "to_millis x = of_int (round_even (x * 1000)) / 1000"

fun fault_duration :: "'g rng \<Rightarrow> rat \<Rightarrow> fault_kind \<Rightarrow> 'g \<Rightarrow> (rat \<times> int) \<times> 'g" where
  "fault_duration G le Kill g = (case uniform G (1 / 2) 3 g of (d, g') \<Rightarrow> ((d, 0), g'))"
| "fault_duration G le Pause g = (case uniform G (3 / 2 * le) (3 * le) g of (d, g') \<Rightarrow> ((d, 0), g'))"
| "fault_duration G le Latency g =
     (case uniform G 2 5 g of (d, g1) \<Rightarrow> (case randint G 50 250 g1 of (ms, g2) \<Rightarrow> ((d, ms), g2)))"
| "fault_duration G le _ g = (case uniform G 1 4 g of (d, g') \<Rightarrow> ((d, 0), g'))"

section \<open>The plan\<close>

record 'g planning =
  pl_opening :: "fault_kind list"
  pl_busy :: "nat \<Rightarrow> rat"
  pl_faults :: "fault list"
  pl_t :: rat
  pl_rng :: 'g

definition max_active :: "nat \<Rightarrow> nat" where
  "max_active workers = max 1 (workers div 2)"

definition free_workers :: "nat \<Rightarrow> (nat \<Rightarrow> rat) \<Rightarrow> rat \<Rightarrow> nat list" where
  "free_workers workers busy t = filter (\<lambda>w. busy w \<le> t) [1 ..< workers + 1]"

definition next_kind :: "'g rng \<Rightarrow> fault_kind list \<Rightarrow> 'g \<Rightarrow> fault_kind \<times> 'g" where
  "next_kind G opening g = (case opening of
       k # _ \<Rightarrow> (k, g)
     | [] \<Rightarrow> (case weighted G (map weight fault_kinds) g of (i, g') \<Rightarrow> (fault_kinds ! i, g')))"

text \<open>One turn of the loop: a fault if a worker is free and few enough are busy, then a gap.\<close>

definition plan_turn :: "'g rng \<Rightarrow> nat \<Rightarrow> rat \<Rightarrow> rat \<times> rat \<Rightarrow> 'g planning \<Rightarrow> 'g planning" where
  "plan_turn G workers le gap p =
     (case next_kind G (pl_opening p) (pl_rng p) of (k, g1) \<Rightarrow>
      let free = free_workers workers (pl_busy p) (pl_t p); active = workers - length free;
          p2 = (if free \<noteq> [] \<and> active < max_active workers then
                  (case pick_below G (length free) g1 of (i, g2) \<Rightarrow>
                  (case fault_duration G le k g2 of ((d, ms), g3) \<Rightarrow>
                     p\<lparr>pl_faults := pl_faults p @ [\<lparr>f_at = to_millis (pl_t p), f_kind = k, f_worker = free ! i,
                          f_duration = to_millis d, f_latency_ms = ms\<rparr>],
                       pl_busy := (pl_busy p)(free ! i := pl_t p + d + settle_s),
                       pl_opening := tl (pl_opening p), pl_rng := g3\<rparr>))
                else p\<lparr>pl_rng := g1\<rparr>)
      in (case uniform G (fst gap) (snd gap) (pl_rng p2) of (dt, g4) \<Rightarrow> p2\<lparr>pl_t := pl_t p2 + dt, pl_rng := g4\<rparr>))"

text \<open>The loop need not end (with no workers it never does); then there is no value.\<close>

partial_function (option) plan_loop :: "'g rng \<Rightarrow> nat \<Rightarrow> rat \<Rightarrow> rat \<Rightarrow> rat \<times> rat \<Rightarrow> 'g planning \<Rightarrow> 'g planning option" where
  "plan_loop G workers le until_s gap p =
     (if pl_t p < until_s \<or> pl_opening p \<noteq> [] then plan_loop G workers le until_s gap (plan_turn G workers le gap p)
      else Some p)"

definition opening_kinds :: "fault_kind list" where
  "opening_kinds = concat (map (replicate opening_rounds) fault_kinds)"

definition plan_start :: "'g rng \<Rightarrow> 'g \<Rightarrow> 'g planning" where
  "plan_start G g = (case shuffled G opening_kinds g of (ks, g') \<Rightarrow>
     \<lparr>pl_opening = ks, pl_busy = (\<lambda>_. 0), pl_faults = [], pl_t = 2, pl_rng = g'\<rparr>)"

definition plan :: "'g rng \<Rightarrow> nat \<Rightarrow> rat \<Rightarrow> rat \<Rightarrow> rat \<times> rat \<Rightarrow> 'g \<Rightarrow> (fault list \<times> 'g) option" where
  "plan G workers le until_s gap g =
     map_option (\<lambda>p. (pl_faults p, pl_rng p)) (plan_loop G workers le until_s gap (plan_start G g))"

section \<open>The injector\<close>

record injection =
  i_fault :: fault
  i_started :: rat
  i_healed :: rat
  i_attempts :: nat

record injector =
  held_down :: "string list"
  executed :: "injection list"
  skipped :: "(fault \<times> nat \<times> string) list"

definition worker_name :: "nat \<Rightarrow> string" where
  "worker_name i = ''ftq-chaos-worker-'' @ str_nat i"

definition proxy_name :: "nat \<Rightarrow> string" where
  "proxy_name i = ''redis_'' @ str_nat i"

datatype command = DockerKill string | DockerPause string | DockerUnpause string | DockerStart string
  | SetEnabled string bool | AddToxic string string "(string \<times> int) list" | RemoveToxic string

fun apply_command :: "fault \<Rightarrow> command" where
  "apply_command f = (case f_kind f of
       Kill \<Rightarrow> DockerKill (worker_name (f_worker f))
     | Pause \<Rightarrow> DockerPause (worker_name (f_worker f))
     | Partition \<Rightarrow> SetEnabled (proxy_name (f_worker f)) False
     | Latency \<Rightarrow> AddToxic (proxy_name (f_worker f)) ''latency'' [(''latency'', f_latency_ms f), (''jitter'', 50)]
     | Timeout \<Rightarrow> AddToxic (proxy_name (f_worker f)) ''timeout'' [(''timeout'', 0)]
     | ResetPeer \<Rightarrow> AddToxic (proxy_name (f_worker f)) ''reset_peer'' [(''timeout'', 0)])"

fun heal_command :: "fault \<Rightarrow> command" where
  "heal_command f = (case f_kind f of
       Kill \<Rightarrow> DockerStart (worker_name (f_worker f))
     | Pause \<Rightarrow> DockerUnpause (worker_name (f_worker f))
     | Partition \<Rightarrow> SetEnabled (proxy_name (f_worker f)) True
     | _ \<Rightarrow> RemoveToxic (proxy_name (f_worker f)))"

definition hold :: "string \<Rightarrow> injector \<Rightarrow> injector" where
  "hold n ij = (if n \<in> set (held_down ij) then ij else ij\<lparr>held_down := held_down ij @ [n]\<rparr>)"

definition release :: "string \<Rightarrow> injector \<Rightarrow> injector" where
  "release n ij = ij\<lparr>held_down := filter ((\<noteq>) n) (held_down ij)\<rparr>"

text \<open>\<^verbatim>\<open>_apply\<close>: a kill holds its worker first and lets go of it if the command fails.\<close>

definition inj_apply :: "fault \<Rightarrow> string option \<Rightarrow> injector \<Rightarrow> string option \<times> injector" where
  "inj_apply f failure ij =
     (if f_kind f = Kill then
        (let inj1 = hold (worker_name (f_worker f)) ij in
         case failure of None \<Rightarrow> (None, inj1) | Some e \<Rightarrow> (Some e, release (worker_name (f_worker f)) inj1))
      else (failure, ij))"

text \<open>\<^verbatim>\<open>_heal\<close>: a command that fails raises out of the injector's task.\<close>

definition inj_heal :: "fault \<Rightarrow> string option \<Rightarrow> injector \<Rightarrow> string option \<times> injector" where
  "inj_heal f failure ij = (case failure of
       Some e \<Rightarrow> (Some e, ij)
     | None \<Rightarrow> (None, if f_kind f = Kill then release (worker_name (f_worker f)) ij else ij))"

text \<open>
  \<^verbatim>\<open>_one\<close>: attempts until the fault is applied or given up. An attempt is the loop time when it
  starts, the failure of its command if any, and the loop time after a failure.
\<close>

datatype one_end = Applied nat rat | Skipped | NotYet

fun try_apply :: "rat \<Rightarrow> rat \<Rightarrow> fault \<Rightarrow> nat \<Rightarrow> (rat \<times> string option \<times> rat) list \<Rightarrow> injector \<Rightarrow> one_end \<times> injector" where
  "try_apply t0 stop_at f n [] ij = (NotYet, ij)"
| "try_apply t0 stop_at f n ((now, failure, later) # as) ij =
     (case inj_apply f failure ij of
        (None, inj1) \<Rightarrow> (Applied (Suc n) (now - t0), inj1)
      | (Some e, inj1) \<Rightarrow>
          (if (f_kind f = Kill \<or> f_kind f = Pause) \<and> later < stop_at
           then try_apply t0 stop_at f (Suc n) as inj1
           else (Skipped, inj1\<lparr>skipped := skipped inj1 @ [(f, Suc n, take 300 e)]\<rparr>)))"

definition inject_one :: "rat \<Rightarrow> rat \<Rightarrow> fault \<Rightarrow> (rat \<times> string option \<times> rat) list \<Rightarrow> string option \<Rightarrow> rat
    \<Rightarrow> injector \<Rightarrow> string option \<times> injector" where
  "inject_one t0 began f as heal_failure healed_at ij =
     (case try_apply t0 (began + retry_for_s) f 0 as ij of
        (Applied n started, inj1) \<Rightarrow>
          (case inj_heal f heal_failure inj1 of
             (Some e, inj2) \<Rightarrow> (Some e, inj2)
           | (None, inj2) \<Rightarrow> (None, inj2\<lparr>executed := executed inj2 @
               [\<lparr>i_fault = f, i_started = to_millis started, i_healed = to_millis (healed_at - t0), i_attempts = n\<rparr>]\<rparr>))
      | (_, inj1) \<Rightarrow> (None, inj1))"

definition executed_of :: "fault_kind \<Rightarrow> injector \<Rightarrow> nat" where
  "executed_of k ij = length (filter (\<lambda>i. f_kind (i_fault i) = k) (executed ij))"

fun kind_value :: "fault_kind \<Rightarrow> string" where
  "kind_value Kill = ''kill''"
| "kind_value Pause = ''pause''"
| "kind_value ResetPeer = ''reset_peer''"
| "kind_value Timeout = ''timeout''"
| "kind_value Latency = ''latency''"
| "kind_value Partition = ''partition''"

definition inj_counts :: "injector \<Rightarrow> (string \<times> nat) list" where
  "inj_counts ij =
     [(''kills'', executed_of Kill ij), (''pauses'', executed_of Pause ij),
      (''network_windows'', sum_list (map (\<lambda>k. executed_of k ij) network))] @
     map (\<lambda>k. (''by_kind.'' @ kind_value k, executed_of k ij)) fault_kinds @
     [(''skipped'', length (skipped ij))]"

section \<open>The supervisor\<close>

text \<open>
  One pass: the holds before the states were read, the states (name, state, exit code), the
  holds when each worker is looked at; a restart is counted under its exit code.
\<close>

definition supervise_one :: "string list \<Rightarrow> string list \<Rightarrow> string \<times> string \<times> int option
    \<Rightarrow> (int \<times> nat) list \<times> command list \<Rightarrow> (int \<times> nat) list \<times> command list" where
  "supervise_one held_before held_now x acc =
     (case x of (name, st, code) \<Rightarrow>
        if st = ''exited'' \<and> \<not> (name \<in> set held_before \<or> name \<in> set held_now) then
          (let c = (case code of None \<Rightarrow> - 1 | Some i \<Rightarrow> i);
               n = (case map_of (fst acc) c of None \<Rightarrow> 0 | Some i \<Rightarrow> i)
           in (AList.update c (Suc n) (fst acc), snd acc @ [DockerStart name]))
        else acc)"

definition supervise_pass :: "string list \<Rightarrow> (string list \<times> string \<times> string \<times> int option) list
    \<Rightarrow> (int \<times> nat) list \<Rightarrow> (int \<times> nat) list \<times> command list" where
  "supervise_pass held_before xs counted =
     fold (\<lambda>(now, x). supervise_one held_before now x) xs (counted, [])"


section \<open>Draws\<close>

lemma round_even_near: "of_int (round_even x) \<le> x + 1 / 2" "x - 1 / 2 \<le> of_int (round_even x)"
  by (rule round_even_bound, rule round_even_lower)

lemma to_millis_near: "to_millis x \<le> x + 1 / 2000" "x - 1 / 2000 \<le> to_millis x"
  using round_even_near [of "x * 1000"] by (simp_all add: to_millis_def)

definition longest :: "rat \<Rightarrow> rat" where
  "longest le = max 5 (3 * le)"

lemma fault_duration_bounds:
  assumes "rng_ok G" and "0 < le" and "fault_duration G le k g = ((d, ms), g')"
  shows "0 < d \<and> d \<le> longest le \<and> (k = Pause \<longrightarrow> 3 / 2 * le \<le> d)"
proof -
  obtain u g1 where u: "uniform G (1 / 2) 3 g = (u, g1)" by fastforce
  obtain v g2 where v: "uniform G (3 / 2 * le) (3 * le) g = (v, g2)" by fastforce
  then have v': "uniform G (3 * le / 2) (3 * le) g = (v, g2)" by simp
  obtain w g3 where w: "uniform G 2 5 g = (w, g3)" by fastforce
  obtain x g4 where x: "uniform G 1 4 g = (x, g4)" by fastforce
  note draws = rng_draws(2) [OF assms(1) _ u] rng_draws(2) [OF assms(1) _ v] rng_draws(2) [OF assms(1) _ w]
    rng_draws(2) [OF assms(1) _ x]
  show ?thesis
    using assms(2,3) draws by (cases k) (auto simp: u v' w x longest_def split: prod.splits)
qed

lemma free_workers_set: "set (free_workers n busy t) = {w. 1 \<le> w \<and> w \<le> n \<and> busy w \<le> t}"
  by (auto simp: free_workers_def)

definition busy_workers :: "nat \<Rightarrow> (nat \<Rightarrow> rat) \<Rightarrow> rat \<Rightarrow> nat set" where
  "busy_workers n busy t = {w. 1 \<le> w \<and> w \<le> n \<and> t < busy w}"

lemma active_count: "n - length (free_workers n busy t) = card (busy_workers n busy t)"
proof -
  have d: "distinct (free_workers n busy t)" by (simp add: free_workers_def)
  have u: "busy_workers n busy t = {1 .. n} - set (free_workers n busy t)"
    by (auto simp: busy_workers_def free_workers_set)
  have "set (free_workers n busy t) \<subseteq> {1 .. n}" by (auto simp: free_workers_set)
  then show ?thesis unfolding u using d by (simp add: card_Diff_subset distinct_card)
qed

section \<open>What a turn does\<close>

text \<open>A turn either plans a fault on a free worker, or only lets time pass.\<close>

lemma plan_turn_cases:
  assumes G: "rng_ok G" and le: "0 < le" and gap: "fst gap \<le> snd gap"
  obtains (fault) k w d ms dt g where
      "1 \<le> w" "w \<le> n" "pl_busy p w \<le> pl_t p" "card (busy_workers n (pl_busy p) (pl_t p)) < max_active n"
      "0 < d" "d \<le> longest le" "k = Pause \<longrightarrow> 3 / 2 * le \<le> d" "pl_opening p \<noteq> [] \<longrightarrow> k = hd (pl_opening p)"
      "fst gap \<le> dt" "dt \<le> snd gap"
      "plan_turn G n le gap p = p\<lparr>pl_faults := pl_faults p @ [\<lparr>f_at = to_millis (pl_t p), f_kind = k, f_worker = w,
          f_duration = to_millis d, f_latency_ms = ms\<rparr>], pl_busy := (pl_busy p)(w := pl_t p + d + settle_s),
        pl_opening := tl (pl_opening p), pl_t := pl_t p + dt, pl_rng := g\<rparr>"
  | (wait) dt g where
      "n = 0 \<or> busy_workers n (pl_busy p) (pl_t p) \<noteq> {}" "fst gap \<le> dt" "dt \<le> snd gap"
      "plan_turn G n le gap p = p\<lparr>pl_t := pl_t p + dt, pl_rng := g\<rparr>"
proof -
  let ?free = "free_workers n (pl_busy p) (pl_t p)"
  obtain k g1 where k: "next_kind G (pl_opening p) (pl_rng p) = (k, g1)" by fastforce
  have hdk: "pl_opening p \<noteq> [] \<longrightarrow> k = hd (pl_opening p)"
    using k by (auto simp: next_kind_def split: list.splits)
  show thesis
  proof (cases "?free \<noteq> [] \<and> n - length ?free < max_active n")
    case True
    obtain i g2 where i: "pick_below G (length ?free) g1 = (i, g2)" by fastforce
    obtain d ms g3 where d: "fault_duration G le k g2 = ((d, ms), g3)" by (metis prod.collapse)
    obtain dt g4 where dt: "uniform G (fst gap) (snd gap) g3 = (dt, g4)" by fastforce
    have "i < length ?free" using G True i unfolding rng_ok_def by (metis fst_conv length_greater_0_conv)
    then have w: "?free ! i \<in> set ?free" by simp
    note b = fault_duration_bounds [OF G le d]
    have dtb: "fst gap \<le> dt \<and> dt \<le> snd gap" using rng_draws(2) [OF G gap dt] .
    show thesis
    proof (rule fault [where w = "?free ! i" and d = d and k = k and dt = dt and ms = ms and g = g4])
      show "1 \<le> ?free ! i" "?free ! i \<le> n" "pl_busy p (?free ! i) \<le> pl_t p"
        using w by (simp_all add: free_workers_set)
      show "card (busy_workers n (pl_busy p) (pl_t p)) < max_active n" using True active_count by metis
      show "0 < d" "d \<le> longest le" "k = Pause \<longrightarrow> 3 / 2 * le \<le> d" using b by auto
      show "fst gap \<le> dt" "dt \<le> snd gap" using dtb by auto
      show "plan_turn G n le gap p = p\<lparr>pl_faults := pl_faults p @ [\<lparr>f_at = to_millis (pl_t p), f_kind = k,
          f_worker = ?free ! i, f_duration = to_millis d, f_latency_ms = ms\<rparr>],
          pl_busy := (pl_busy p)(?free ! i := pl_t p + d + settle_s),
          pl_opening := tl (pl_opening p), pl_t := pl_t p + dt, pl_rng := g4\<rparr>"
        using True by (simp add: plan_turn_def k i d dt Let_def)
    qed (rule hdk)
  next
    case False
    obtain dt g4 where dt: "uniform G (fst gap) (snd gap) g1 = (dt, g4)" by fastforce
    have dtb: "fst gap \<le> dt \<and> dt \<le> snd gap" using rng_draws(2) [OF G gap dt] .
    have "n = 0 \<or> busy_workers n (pl_busy p) (pl_t p) \<noteq> {}"
    proof (rule ccontr)
      assume "\<not> ?thesis"
      then have "n \<noteq> 0" and "card (busy_workers n (pl_busy p) (pl_t p)) = 0" by auto
      then have "n - length ?free = 0" using active_count by metis
      moreover from this \<open>n \<noteq> 0\<close> have "?free \<noteq> []" by auto
      ultimately show False using False by (simp add: max_active_def)
    qed
    moreover have "plan_turn G n le gap p = p\<lparr>pl_t := pl_t p + dt, pl_rng := g4\<rparr>"
      unfolding plan_turn_def Let_def k prod.case if_not_P [OF False] by (simp add: dt)
    ultimately show thesis using dtb wait by blast
  qed
qed


section \<open>Every plan is survivable\<close>

definition active_at :: "rat \<Rightarrow> fault \<Rightarrow> bool" where
  "active_at x f \<longleftrightarrow> f_at f \<le> x \<and> x < f_at f + f_duration f"

text \<open>A worker's next fault starts well after the one before has been healed.\<close>

definition spaced :: "fault \<Rightarrow> fault \<Rightarrow> bool" where
  "spaced f f' \<longleftrightarrow> (f_worker f = f_worker f' \<longrightarrow> f_at f + f_duration f + 199 / 100 \<le> f_at f')"

definition survivable :: "nat \<Rightarrow> rat \<Rightarrow> fault list \<Rightarrow> bool" where
  "survivable n le fs \<longleftrightarrow>
     (\<forall>f \<in> set fs. 1 \<le> f_worker f \<and> f_worker f \<le> n \<and> (f_kind f = Pause \<longrightarrow> 3 / 2 * le - 1 / 2000 \<le> f_duration f)) \<and>
     sorted_wrt spaced fs \<and> (\<forall>x. length (filter (active_at x) fs) \<le> max_active n)"

definition plan_inv :: "nat \<Rightarrow> rat \<Rightarrow> fault_kind list \<Rightarrow> 'g planning \<Rightarrow> bool" where
  "plan_inv n le ks p \<longleftrightarrow> survivable n le (pl_faults p) \<and>
     (\<forall>f \<in> set (pl_faults p). f_at f + f_duration f + 1999 / 1000 \<le> pl_busy p (f_worker f)) \<and>
     (\<forall>w. pl_busy p w \<le> pl_t p + longest le + settle_s) \<and>
     mset ks \<subseteq># mset (map f_kind (pl_faults p)) + mset (pl_opening p)"

lemma active_workers_distinct:
  assumes "sorted_wrt spaced fs"
  shows "distinct (map f_worker (filter (active_at x) fs))"
  using assms
proof (induction fs)
  case (Cons f fs)
  have "f_worker f \<noteq> f_worker f'" if "active_at x f" "f' \<in> set fs" "active_at x f'" for f'
    using Cons.prems that by (fastforce simp: spaced_def active_at_def)
  with Cons show ?case by auto
qed simp

lemma plan_add:
  assumes s: "survivable n le fs" and b: "\<forall>f \<in> set fs. f_at f + f_duration f + 1999 / 1000 \<le> busy (f_worker f)"
    and w: "1 \<le> w" "w \<le> n" "busy w \<le> t" and few: "card (busy_workers n busy t) < max_active n"
    and d: "k = Pause \<longrightarrow> 3 / 2 * le \<le> d"
    and f_def: "f = \<lparr>f_at = to_millis t, f_kind = k, f_worker = w, f_duration = to_millis d, f_latency_ms = ms\<rparr>"
  shows "survivable n le (fs @ [f])"
proof -
  note near = to_millis_near [of t] to_millis_near [of d]
  have "spaced f' f" if "f' \<in> set fs" for f'
  proof -
    have "f_at f' + f_duration f' + 1999 / 1000 \<le> busy (f_worker f')" using b that by blast
    then have "f_worker f' = w \<Longrightarrow> f_at f' + f_duration f' + 199 / 100 \<le> to_millis t"
      using w(3) near(2) by simp
    then show ?thesis by (simp add: spaced_def f_def)
  qed
  moreover have "length (filter (active_at x) (fs @ [f])) \<le> max_active n" for x
  proof (cases "active_at x f")
    case False
    with s show ?thesis by (simp add: survivable_def)
  next
    case True
    have "f_worker ` set (filter (active_at x) fs) \<subseteq> busy_workers n busy t"
    proof
      fix v assume "v \<in> f_worker ` set (filter (active_at x) fs)"
      then obtain f' where f': "f' \<in> set fs" "active_at x f'" "v = f_worker f'" by auto
      have "f_at f' + f_duration f' + 1999 / 1000 \<le> busy v" using b f' by blast
      moreover have "x < f_at f' + f_duration f'" "to_millis t \<le> x"
        using f'(2) True by (simp_all add: active_at_def f_def)
      ultimately have "t < busy v" using near(2) by simp
      with s f' show "v \<in> busy_workers n busy t" by (auto simp: busy_workers_def survivable_def)
    qed
    moreover have "finite (busy_workers n busy t)" by (simp add: busy_workers_def)
    ultimately have "card (f_worker ` set (filter (active_at x) fs)) \<le> card (busy_workers n busy t)"
      by (rule card_mono [rotated])
    moreover have "card (f_worker ` set (filter (active_at x) fs)) = length (filter (active_at x) fs)"
      using active_workers_distinct [of fs x] s by (metis distinct_card length_map list.set_map survivable_def)
    ultimately show ?thesis using few True by simp
  qed
  moreover have "f_kind f = Pause \<longrightarrow> 3 / 2 * le - 1 / 2000 \<le> f_duration f"
    using d near(4) by (auto simp: f_def)
  ultimately show ?thesis using s w by (auto simp: survivable_def sorted_wrt_append f_def)
qed

lemma plan_turn_inv:
  assumes G: "rng_ok G" and le: "0 < le" and gap: "0 < fst gap" "fst gap \<le> snd gap" and i: "plan_inv n le ks p"
  shows "plan_inv n le ks (plan_turn G n le gap p)"
proof (cases rule: plan_turn_cases [OF G le gap(2), of n p, case_names fault wait])
  case (fault k w d ms dt g)
  let ?f = "\<lparr>f_at = to_millis (pl_t p), f_kind = k, f_worker = w, f_duration = to_millis d, f_latency_ms = ms\<rparr>"
  have "survivable n le (pl_faults p @ [?f])"
    using i fault by (intro plan_add [where busy = "pl_busy p" and w = w and t = "pl_t p" and d = d and k = k]) (auto simp: plan_inv_def)
  moreover have "\<forall>f \<in> set (pl_faults p @ [?f]). f_at f + f_duration f + 1999 / 1000 \<le>
      ((pl_busy p)(w := pl_t p + d + settle_s)) (f_worker f)"
  proof -
    have "f_at ?f + f_duration ?f + 1999 / 1000 \<le> pl_t p + d + settle_s"
      using to_millis_near [of "pl_t p"] to_millis_near [of d] by (simp add: settle_s_def)
    moreover have "f_at f + f_duration f + 1999 / 1000 \<le> pl_t p + d + settle_s"
      if "f \<in> set (pl_faults p)" "f_worker f = w" for f
      using i that fault(3,5) by (fastforce simp: plan_inv_def settle_s_def)
    ultimately show ?thesis using i by (auto simp: plan_inv_def)
  qed
  moreover have "\<forall>v. ((pl_busy p)(w := pl_t p + d + settle_s)) v \<le> pl_t p + dt + longest le + settle_s"
  proof
    fix v
    have "pl_busy p v \<le> pl_t p + longest le + settle_s" using i by (simp add: plan_inv_def)
    moreover have "0 < dt" using gap(1) fault(9) by simp
    ultimately show "((pl_busy p)(w := pl_t p + d + settle_s)) v \<le> pl_t p + dt + longest le + settle_s"
      using fault(6) by auto
  qed
  moreover have "mset ks \<subseteq># mset (map f_kind (pl_faults p @ [?f])) + mset (tl (pl_opening p))"
  proof (cases "pl_opening p")
    case Nil
    then show ?thesis using i by (auto simp: plan_inv_def intro: subset_mset.order_trans)
  next
    case (Cons a rest)
    then show ?thesis using i fault(8) by (simp add: plan_inv_def)
  qed
  ultimately show ?thesis unfolding plan_inv_def fault(11) by simp
next
  case (wait dt g)
  have "pl_busy p w \<le> pl_t p + dt + longest le + settle_s" for w
  proof -
    have "pl_busy p w \<le> pl_t p + longest le + settle_s" using i by (simp add: plan_inv_def)
    with gap(1) wait(2) show ?thesis by simp
  qed
  then show ?thesis using i by (simp add: plan_inv_def wait(4))
qed


section \<open>Planning ends\<close>

text \<open>
  How many gaps of the smallest size it can take until either the span is over or, while the
  opening is not done, every worker is free again.
\<close>

definition horizon :: "nat \<Rightarrow> rat \<Rightarrow> 'g planning \<Rightarrow> rat" where
  "horizon n until_s p = (if pl_opening p = [] then until_s else Max (insert 0 (pl_busy p ` {1 .. n})))"

definition turns_left :: "nat \<Rightarrow> rat \<Rightarrow> rat \<times> rat \<Rightarrow> 'g planning \<Rightarrow> nat" where
  "turns_left n until_s gap p = nat \<lceil>(horizon n until_s p - pl_t p) / fst gap\<rceil>"

lemma turns_decrease:
  assumes "0 < d" and "d \<le> dt" and "t < h"
  shows "nat \<lceil>(h - (t + dt)) / d\<rceil> < nat \<lceil>(h - t) / (d :: rat)\<rceil>"
proof -
  have "(h - (t + dt)) / d \<le> (h - t) / d - 1"
    using assms by (simp add: field_simps)
  then have "\<lceil>(h - (t + dt)) / d\<rceil> \<le> \<lceil>(h - t) / d\<rceil> - 1" by (metis ceiling_diff_one ceiling_mono)
  moreover have "0 < \<lceil>(h - t) / d\<rceil>" using assms by simp
  ultimately show ?thesis by simp
qed

lemma busy_horizon:
  assumes "busy_workers n (pl_busy p) (pl_t p) \<noteq> {}"
  shows "pl_t p < Max (insert 0 (pl_busy p ` {1 .. n}))"
proof -
  obtain w where "1 \<le> w" "w \<le> n" "pl_t p < pl_busy p w" using assms by (auto simp: busy_workers_def)
  moreover from this have "pl_busy p w \<le> Max (insert 0 (pl_busy p ` {1 .. n}))" by (intro Max_ge) auto
  ultimately show ?thesis by simp
qed

lemma plan_turn_measure:
  assumes G: "rng_ok G" and le: "0 < le" and gap: "0 < fst gap" "fst gap \<le> snd gap" and n: "0 < n"
    and go: "pl_t p < until_s \<or> pl_opening p \<noteq> []"
  shows "(plan_turn G n le gap p, p) \<in> measures [\<lambda>p. length (pl_opening p), turns_left n until_s gap]"
proof (cases rule: plan_turn_cases [OF G le gap(2), of n p, case_names fault wait])
  case (fault k w d ms dt g)
  show ?thesis
  proof (cases "pl_opening p")
    case Nil
    with go have "pl_t p < until_s" by simp
    from turns_decrease [OF gap(1) fault(9) this] Nil show ?thesis
      by (simp add: fault(11) turns_left_def horizon_def)
  qed (simp add: fault(11))
next
  case (wait dt g)
  have "pl_t p < horizon n until_s p"
    using wait(1) n go busy_horizon [of n p] by (auto simp: horizon_def)
  from turns_decrease [OF gap(1) wait(2) this] have "turns_left n until_s gap (plan_turn G n le gap p) < turns_left n until_s gap p"
    unfolding turns_left_def wait(4) by (simp add: horizon_def cong: if_cong)
  then show ?thesis by (simp add: wait(4))
qed

lemma plan_loop_ends:
  assumes G: "rng_ok G" and le: "0 < le" and gap: "0 < fst gap" "fst gap \<le> snd gap" and n: "0 < n"
    and "plan_inv n le ks p"
  shows "\<exists>p'. plan_loop G n le until_s gap p = Some p' \<and> plan_inv n le ks p' \<and> pl_opening p' = [] \<and> until_s \<le> pl_t p'"
  using assms(6)
proof (induction p rule: wf_induct_rule [OF wf_measures [of "[\<lambda>p. length (pl_opening p), turns_left n until_s gap]"]])
  case (1 p)
  show ?case
  proof (cases "pl_t p < until_s \<or> pl_opening p \<noteq> []")
    case True
    with "1.IH" [OF plan_turn_measure [OF G le gap n True] plan_turn_inv [OF G le gap "1.prems"]] show ?thesis
      by (subst plan_loop.simps) simp
  next
    case False
    with "1.prems" show ?thesis by (subst plan_loop.simps) auto
  qed
qed

lemma plan_start_inv:
  assumes "rng_ok G" and "0 < le"
  shows "plan_inv n le opening_kinds (plan_start G g)"
proof -
  have "mset (fst (shuffled G opening_kinds g)) = mset opening_kinds" by (rule shuffled_mset [OF assms(1)])
  then show ?thesis
    using assms(2) by (cases "shuffled G opening_kinds g")
      (auto simp: plan_inv_def plan_start_def survivable_def longest_def settle_s_def max_def)
qed

lemma opening_rounds_each: "k \<in> set fault_kinds \<Longrightarrow> count (mset opening_kinds) k = opening_rounds"
  by (auto simp: opening_kinds_def fault_kinds_def opening_rounds_def)

lemma plan_correct:
  assumes G: "rng_ok G" and le: "0 < le" and gap: "0 < fst gap" "fst gap \<le> snd gap" and n: "0 < n"
  shows "\<exists>fs g'. plan G n le until_s gap g = Some (fs, g') \<and> survivable n le fs \<and>
    (\<forall>k. opening_rounds \<le> length (filter (\<lambda>f. f_kind f = k) fs))"
proof -
  obtain p where p: "plan_loop G n le until_s gap (plan_start G g) = Some p" "plan_inv n le opening_kinds p" "pl_opening p = []"
    using plan_loop_ends [OF assms plan_start_inv [OF G le]] by blast
  have "opening_rounds \<le> length (filter (\<lambda>f. f_kind f = k) (pl_faults p))" for k
  proof -
    have "count (mset opening_kinds) k \<le> count (mset (map f_kind (pl_faults p))) k"
      using p(2,3) unfolding plan_inv_def by (metis add.right_neutral mset.simps(1) mset_subset_eq_count)
    moreover have "k \<in> set fault_kinds" by (cases k) (simp_all add: fault_kinds_def)
    moreover have "count (mset (map f_kind fs)) k = length (filter (\<lambda>f. f_kind f = k) fs)" for fs
      by (induction fs) auto
    ultimately show ?thesis using opening_rounds_each by metis
  qed
  with p show ?thesis by (auto simp: plan_def plan_inv_def)
qed


section \<open>Holds are let go of\<close>

lemma release_hold: "n \<notin> set (held_down ij) \<Longrightarrow> release n (hold n ij) = ij"
proof -
  assume "n \<notin> set (held_down ij)"
  then have "filter ((\<noteq>) n) (held_down ij) = held_down ij" by (auto simp: filter_id_conv)
  with \<open>n \<notin> set (held_down ij)\<close> show ?thesis by (simp add: release_def hold_def)
qed

lemma inj_apply_fails:
  assumes "worker_name (f_worker f) \<notin> set (held_down ij)"
  shows "inj_apply f (Some e) ij = (Some e, ij)"
    and "inj_apply f None ij = (None, if f_kind f = Kill then hold (worker_name (f_worker f)) ij else ij)"
  using release_hold [OF assms] by (simp_all add: inj_apply_def Let_def)

text \<open>
  How the attempts end. A fault is skipped only when its command failed and it cannot be tried
  again: it is neither a kill nor a pause, or its time is up.
\<close>

lemma try_apply_end:
  assumes "worker_name (f_worker f) \<notin> set (held_down ij)" and "try_apply t0 stop_at f n as ij = (r, ij')"
  shows "case r of
      Applied m st \<Rightarrow> ij' = (if f_kind f = Kill then hold (worker_name (f_worker f)) ij else ij) \<and>
        n < m \<and> (\<exists>now later. (now, None, later) \<in> set as \<and> st = now - t0)
    | Skipped \<Rightarrow> (\<exists>now e later m. (now, Some e, later) \<in> set as \<and> n < m \<and>
        ((f_kind f \<noteq> Kill \<and> f_kind f \<noteq> Pause) \<or> stop_at \<le> later) \<and>
        ij' = ij\<lparr>skipped := skipped ij @ [(f, m, take 300 e)]\<rparr>)
    | NotYet \<Rightarrow> ij' = ij"
  using assms
proof (induction as arbitrary: n)
  case (Cons a as)
  obtain now failure later where a: "a = (now, failure, later)" by (cases a)
  show ?case
  proof (cases failure)
    case None
    with Cons.prems show ?thesis by (auto simp: a inj_apply_fails(2))
  next
    case (Some e)
    show ?thesis
    proof (cases "(f_kind f = Kill \<or> f_kind f = Pause) \<and> later < stop_at")
      case True
      with Cons.prems Some have "try_apply t0 stop_at f (Suc n) as ij = (r, ij')" by (simp add: a inj_apply_fails(1))
      from Cons.IH [OF Cons.prems(1) this] show ?thesis by (cases r) (fastforce dest: Suc_lessD)+
    next
      case False
      then have "r = Skipped" and "ij' = ij\<lparr>skipped := skipped ij @ [(f, Suc n, take 300 e)]\<rparr>"
        using Cons.prems Some by (auto simp: a inj_apply_fails(1))
      moreover have "(f_kind f \<noteq> Kill \<and> f_kind f \<noteq> Pause) \<or> stop_at \<le> later" using False by auto
      ultimately show ?thesis using Some by (simp add: a) blast
    qed
  qed
qed simp

lemma inject_one_hold:
  assumes "worker_name (f_worker f) \<notin> set (held_down ij)"
  shows "held_down (snd (inject_one t0 began f as None healed_at ij)) = held_down ij"
proof -
  obtain r ij' where run: "try_apply t0 (began + retry_for_s) f 0 as ij = (r, ij')" by fastforce
  have "held_down (release (worker_name (f_worker f)) (hold (worker_name (f_worker f)) ij)) = held_down ij"
    using release_hold [OF assms] by simp
  with try_apply_end [OF assms run] show ?thesis
    by (cases r) (auto simp: inject_one_def run inj_heal_def)
qed

section \<open>Counts\<close>

lemma executed_total:
  "executed_of Kill ij + executed_of Pause ij + sum_list (map (\<lambda>k. executed_of k ij) network) = length (executed ij)"
proof -
  have "length (filter (\<lambda>i. f_kind (i_fault i) = Kill) es) + length (filter (\<lambda>i. f_kind (i_fault i) = Pause) es) +
      sum_list (map (\<lambda>k. length (filter (\<lambda>i. f_kind (i_fault i) = k) es)) network) = length es" for es
  proof (induction es)
    case (Cons e es)
    then show ?case by (cases "f_kind (i_fault e)") (simp_all add: network_def)
  qed (simp add: network_def)
  then show ?thesis by (simp add: executed_of_def)
qed

section \<open>The supervisor leaves held workers alone\<close>

definition restart_total :: "(int \<times> nat) list \<Rightarrow> nat" where
  "restart_total cs = sum_list (map snd cs)"

lemma update_total:
  "distinct (map fst cs) \<Longrightarrow>
   restart_total (AList.update c (Suc (case map_of cs c of None \<Rightarrow> 0 | Some i \<Rightarrow> i)) cs) = Suc (restart_total cs)"
  by (induction cs) (auto simp: restart_total_def map_of_eq_None_iff split: option.splits)

definition may_restart :: "string list \<Rightarrow> string list \<times> string \<times> string \<times> int option \<Rightarrow> string \<Rightarrow> bool" where
  "may_restart held_before x name = (case x of (now, n, st, code) \<Rightarrow>
     n = name \<and> st = ''exited'' \<and> name \<notin> set held_before \<and> name \<notin> set now)"

lemma supervise_one_step:
  assumes "distinct (map fst (fst acc))"
    and acc'_def: "acc' = supervise_one held_before now x acc"
  shows "distinct (map fst (fst acc'))"
    and "restart_total (fst acc') + length (snd acc) = restart_total (fst acc) + length (snd acc')"
    and "c \<in> set (snd acc') \<Longrightarrow> c \<in> set (snd acc) \<or> (\<exists>name. c = DockerStart name \<and> may_restart held_before (now, x) name)"
  using assms(1) update_total [OF assms(1)] unfolding acc'_def
  by (auto simp: supervise_one_def may_restart_def Let_def distinct_update split: prod.splits if_splits)

lemma supervise_fold:
  assumes "distinct (map fst (fst acc))"
    and acc'_def: "acc' = fold (\<lambda>(now, x). supervise_one held_before now x) xs acc"
  shows "distinct (map fst (fst acc')) \<and>
    restart_total (fst acc') + length (snd acc) = restart_total (fst acc) + length (snd acc') \<and>
    (\<forall>c \<in> set (snd acc'). c \<in> set (snd acc) \<or>
       (\<exists>x \<in> set xs. \<exists>name. c = DockerStart name \<and> may_restart held_before x name))"
  using assms(1) unfolding acc'_def
proof (induction xs arbitrary: acc)
  case (Cons y ys)
  obtain now x where y: "y = (now, x)" by (cases y)
  note one = supervise_one_step [OF Cons.prems refl, where held_before = held_before and now = now and x = x]
  let ?acc = "supervise_one held_before now x acc"
  let ?r = "fold (\<lambda>(now, x). supervise_one held_before now x) ys ?acc"
  have r: "fold (\<lambda>(now, x). supervise_one held_before now x) (y # ys) acc = ?r" by (simp add: y)
  note ih = Cons.IH [OF one(1)]
  have "restart_total (fst ?r) + length (snd acc) = restart_total (fst acc) + length (snd ?r)"
    using ih one(2) by linarith
  moreover have "c \<in> set (snd acc) \<or>
      (\<exists>x \<in> set (y # ys). \<exists>name. c = DockerStart name \<and> may_restart held_before x name)" if "c \<in> set (snd ?r)" for c
    using ih one(3) [of c] that unfolding y by (meson list.set_intros)
  ultimately show ?case unfolding r using ih by blast
qed simp

lemma supervise_pass_inv:
  assumes "distinct (map fst counted)" and "supervise_pass held_before xs counted = (counted', cmds)"
  shows "restart_total counted' = restart_total counted + length cmds" and "distinct (map fst counted')"
    and "c \<in> set cmds \<Longrightarrow> \<exists>x \<in> set xs. \<exists>name. c = DockerStart name \<and> may_restart held_before x name"
  using supervise_fold [OF _ refl, where acc = "(counted, [])" and held_before = held_before and xs = xs] assms by (auto simp: supervise_pass_def)

end
