(* ===== verification/Chaos_Run.thy ===== *)
theory Chaos_Run
  imports Chaos_Verifier Chaos_Faults
begin

text \<open>
  \<^verbatim>\<open>chaos/run.py\<close>, what the orchestrator decides: the workers' settings, the producer that records
  what was accepted, the waits, the evidence it hands to the verifier. Starting containers,
  writing files and logging are not modelled.
\<close>

section \<open>Settings\<close>

definition chaos_lease :: rat where
  "chaos_lease = 2"

definition chaos_batch :: nat where
  "chaos_batch = 100"

text \<open>The defaults with the environment of \<^verbatim>\<open>WORKER_ENV\<close> and the worker's concurrency.\<close>

definition worker_env :: "int \<Rightarrow> settings" where
  "worker_env conc = default_settings\<lparr>queue_name := ''chaos'', block_ms := 500, socket_timeout := 2,
     socket_connect_timeout := 1, visibility_timeout := chaos_lease, heartbeat_interval := 1 / 2,
     reap_interval := 1 / 2, max_attempts := 8, max_deliveries := 12, job_backoff_base := 1 / 10,
     job_backoff_cap := 2, job_timeout := 10, shutdown_grace := 10, done_ttl_seconds := 0,
     consumer_prune_idle := 10, consumer_prune_interval := 5, loglevel := INFO, logformat := JsonLog,
     concurrency := conc\<rparr>"

definition producer_settings :: "rat \<Rightarrow> settings" where
  "producer_settings drain_timeout = default_settings\<lparr>redis_url := ''redis://127.0.0.1:6390/0'',
     queue_name := ''chaos'', mode := Block, block_timeout := drain_timeout, done_ttl_seconds := 0\<rparr>"

definition chaos_params :: "int \<Rightarrow> mix_params" where
  "chaos_params conc = \<lparr>lease = chaos_lease, mix_attempts = max_attempts (worker_env conc),
     mix_deliveries = max_deliveries (worker_env conc)\<rparr>"

section \<open>The producer\<close>

datatype produce_end = Produced | ProduceFull int | ProduceError redis_error | StrictZip

text \<open>\<^verbatim>\<open>accepted[job_id] = kind\<close>: a key that is there already keeps its place.\<close>

definition note_accepted :: "string \<Rightarrow> string \<Rightarrow> accepted \<Rightarrow> accepted" where
  "note_accepted j k acc = AList.update j k acc"

text \<open>One answer of \<^verbatim>\<open>enqueue_many\<close> per batch; \<^verbatim>\<open>zip(..., strict=True)\<close> raises on a length mismatch.\<close>

fun produce_batches :: "(string \<times> new_job) list list \<Rightarrow> enqueue_result list \<Rightarrow> accepted \<Rightarrow> produce_end option \<times> accepted" where
  "produce_batches [] _ acc = (Some Produced, acc)"
| "produce_batches (b # bs) [] acc = (None, acc)"
| "produce_batches (b # bs) (r # rs) acc =
     (case r of
        QueueFull d _ \<Rightarrow> (Some (ProduceFull d), acc)
      | ClientError e \<Rightarrow> (Some (ProduceError e), acc)
      | Ids js \<Rightarrow>
          (let acc' = fold (\<lambda>(j, x) a. note_accepted j (fst x) a) (zip js b) acc in
           if length js \<noteq> length b then (Some StrictZip, acc') else produce_batches bs rs acc'))"

definition produce_all :: "(string \<times> new_job) list \<Rightarrow> enqueue_result list \<Rightarrow> produce_end option \<times> accepted" where
  "produce_all jobs rs = produce_batches (chunks chaos_batch jobs) rs []"

section \<open>Waiting\<close>

text \<open>\<^verbatim>\<open>_wait_drained\<close>: one element per poll, the clock and what the snapshot shows.\<close>

fun wait_drained :: "rat \<Rightarrow> nat \<Rightarrow> (rat \<times> queue_snapshot) list \<Rightarrow> bool option" where
  "wait_drained deadline quiet [] = None"
| "wait_drained deadline quiet ((now, s) # ps) =
     (if now < deadline then
        (let quiet' = (if sn_depth s = 0 \<and> sn_in_flight s = 0 then quiet + 1 else 0) in
         if quiet' \<ge> 3 then Some True else wait_drained deadline quiet' ps)
      else Some False)"

text \<open>\<^verbatim>\<open>_wait_consumers\<close>: 300 polls; what it raises names the last count.\<close>

fun wait_consumers :: "nat \<Rightarrow> int \<Rightarrow> int \<Rightarrow> queue_snapshot list \<Rightarrow> (int + unit) option" where
  "wait_consumers 0 n lst ps = Some (Inl lst)"
| "wait_consumers (Suc k) n lst [] = None"
| "wait_consumers (Suc k) n lst (s # ps) =
     (if sn_consumers s \<ge> n then Some (Inr ()) else wait_consumers k n (sn_consumers s) ps)"

section \<open>Evidence\<close>

definition may_hang :: "string \<Rightarrow> int \<Rightarrow> bool" where
  "may_hang k a =
     (let limit = (if k = ''hang'' \<or> k = ''hang_process'' then 2 else if k = ''hang_thread'' then 1 else 0)
      in k = ''hang_forever'' \<or> a < limit)"

definition restarts_of :: "(int \<times> nat) list \<Rightarrow> int \<Rightarrow> int" where
  "restarts_of cs code = (case map_of cs code of None \<Rightarrow> 0 | Some n \<Rightarrow> int n)"

definition run_evidence :: "injector \<Rightarrow> (int \<times> nat) list \<Rightarrow> (string \<times> int) list \<Rightarrow> int \<Rightarrow> (string \<times> int) list" where
  "run_evidence ij counted by_level pool_resets =
     map (\<lambda>(n, c). (n, int c)) (filter (\<lambda>p. take 3 (fst p) \<noteq> ''by_'') (inj_counts ij)) @
     [(''pool_resets'', pool_resets), (''crash_restarts'', restarts_of counted 70),
      (''unexpected_exits'', sum_list (map (\<lambda>(code, n). if code \<noteq> 70 then int n else 0) counted)),
      (''error_log_lines'', get0 by_level ''ERROR'' + get0 by_level ''non-json'')]"

section \<open>The settings fit the mix\<close>

lemma chaos_settings_valid: "1 \<le> conc \<Longrightarrow> make_settings (worker_env conc) = Inr (worker_env conc)"
proof -
  assume "1 \<le> conc"
  moreover have "queue_name_ok ''chaos''" by code_simp
  ultimately show ?thesis
    by (simp add: make_settings_Inr worker_env_def default_settings_def field_constraints_def chaos_lease_def)
qed

lemma chaos_mix_agrees: "mix_agrees (chaos_params conc) (worker_env conc)"
  by (simp add: mix_agrees_def chaos_params_def worker_env_def default_settings_def chaos_lease_def)

section \<open>Accepted jobs\<close>

lemma note_accepted_new: "j \<notin> fst ` set acc \<Longrightarrow> note_accepted j k acc = acc @ [(j, k)]"
  unfolding note_accepted_def by (induction acc) auto

lemma fold_accepted:
  "length js = length b \<Longrightarrow> distinct js \<Longrightarrow> set js \<inter> fst ` set acc = {} \<Longrightarrow>
   fold (\<lambda>(j, x) a. note_accepted j (fst x) a) (zip js b) acc = acc @ zip js (map fst b)"
proof (induction js b arbitrary: acc rule: list_induct2)
  case (Cons j js x b)
  have "j \<notin> fst ` set acc" using Cons.prems(2) by auto
  then have "fold (\<lambda>(j, x) a. note_accepted j (fst x) a) (zip (j # js) (x # b)) acc =
      fold (\<lambda>(j, x) a. note_accepted j (fst x) a) (zip js b) (acc @ [(j, fst x)])"
    by (simp add: note_accepted_new)
  also have "\<dots> = (acc @ [(j, fst x)]) @ zip js (map fst b)"
    using Cons.prems by (intro Cons.IH) auto
  finally show ?case by simp
qed simp

lemma produce_batches_accepts:
  assumes "length rs = length bs" and "\<forall>i < length bs. \<exists>js. rs ! i = Ids js \<and> length js = length (bs ! i)"
    and "all_ids = concat (map (\<lambda>r. case r of Ids js \<Rightarrow> js | _ \<Rightarrow> []) rs)" and "distinct all_ids" and "set all_ids \<inter> fst ` set acc = {}"
  shows "produce_batches bs rs acc = (Some Produced, acc @ zip all_ids (map fst (concat bs)))"
  using assms
proof (induction rs bs arbitrary: acc all_ids rule: list_induct2)
  case (Cons r rs b bs)
  obtain js where r: "r = Ids js" "length js = length b" using Cons.prems(1) by (auto dest: spec [of _ 0])
  let ?rest = "concat (map (\<lambda>r. case r of Ids js \<Rightarrow> js | _ \<Rightarrow> []) rs)"
  have all_ids: "all_ids = js @ ?rest" using Cons.prems(2) r by simp
  have rest: "\<forall>i < length bs. \<exists>js. rs ! i = Ids js \<and> length js = length (bs ! i)"
    using Cons.prems(1) by (auto dest: spec [of _ "Suc _"])
  have f: "fold (\<lambda>(j, x) a. note_accepted j (fst x) a) (zip js b) acc = acc @ zip js (map fst b)"
    using Cons.prems(3,4) r(2) by (intro fold_accepted) (auto simp: all_ids)
  have "produce_batches bs rs (acc @ zip js (map fst b)) =
      (Some Produced, (acc @ zip js (map fst b)) @ zip ?rest (map fst (concat bs)))"
  proof (rule Cons.IH [OF rest refl])
    show "distinct ?rest" using Cons.prems(3) by (simp add: all_ids)
    have "set js \<inter> set ?rest = {}" "set ?rest \<inter> fst ` set acc = {}" using Cons.prems(3,4) unfolding all_ids by auto
    moreover have "fst ` set (zip js (map fst b)) \<subseteq> set js" by (auto dest: set_zip_leftD)
    ultimately show "set ?rest \<inter> fst ` set (acc @ zip js (map fst b)) = {}" by (simp only: set_append image_Un) blast
  qed
  then show ?case by (simp add: r f all_ids zip_append)
qed simp


section \<open>Drained means drained\<close>

definition is_quiet :: "queue_snapshot \<Rightarrow> bool" where
  "is_quiet s \<longleftrightarrow> sn_depth s = 0 \<and> sn_in_flight s = 0"

text \<open>\<open>quiet\<close> counts the quiet polls just before; a verdict of drained ends in three of them.\<close>

lemma wait_drained_true:
  assumes "wait_drained deadline quiet ps = Some True" and "quiet = length (takeWhile (\<lambda>p. is_quiet (snd p)) qs)"
    and "quiet < 3"
  shows "\<exists>n \<le> length ps. let seen = rev (take n ps) @ qs in
    3 \<le> length seen \<and> (\<forall>p \<in> set (take 3 seen). is_quiet (snd p)) \<and> 0 < n \<and> fst (hd seen) < deadline"
  using assms
proof (induction deadline quiet ps arbitrary: qs rule: wait_drained.induct)
  case (2 deadline quiet now s ps)
  have now: "now < deadline" using "2.prems"(1) by (simp split: if_splits)
  let ?quiet = "if sn_depth s = 0 \<and> sn_in_flight s = 0 then quiet + 1 else 0"
  have q: "?quiet = length (takeWhile (\<lambda>p. is_quiet (snd p)) ((now, s) # qs))"
    using "2.prems"(2) by (simp add: is_quiet_def [of s])
  show ?case
  proof (cases "?quiet \<ge> 3")
    case True
    let ?t = "takeWhile (\<lambda>p. is_quiet (snd p)) ((now, s) # qs)"
    have "take 3 ((now, s) # qs) = take 3 ?t"
      using True unfolding q by (metis append_take_drop_id length_takeWhile_le take_append takeWhile_eq_take min_def
          take_take)
    moreover have "\<forall>p \<in> set ?t. is_quiet (snd p)" by (metis (mono_tags, lifting) set_takeWhileD)
    ultimately have "\<forall>p \<in> set (take 3 ((now, s) # qs)). is_quiet (snd p)" by (metis in_set_takeD)
    moreover have "3 \<le> length ((now, s) # qs)" using True unfolding q by (meson length_takeWhile_le order_trans)
    ultimately show ?thesis using now by (intro exI [of _ 1]) (simp add: Let_def)
  next
    case False
    with "2.prems"(1) now have "wait_drained deadline ?quiet ps = Some True" by (simp add: Let_def)
    from "2.IH" [OF now refl False this q] False obtain n where n: "n \<le> length ps"
      "let seen = rev (take n ps) @ (now, s) # qs in
        3 \<le> length seen \<and> (\<forall>p \<in> set (take 3 seen). is_quiet (snd p)) \<and> 0 < n \<and> fst (hd seen) < deadline"
      by auto
    then show ?thesis by (intro exI [of _ "Suc n"]) (simp add: Let_def)
  qed
qed simp

end
