(* ===== verification/Bench_Analysis.thy ===== *)
theory Bench_Analysis
  imports Handler_Runs "HOL-Library.Multiset"
begin

text \<open>
  \<^verbatim>\<open>bench/analysis.py\<close>: the arithmetic of the benchmark reports, over exact rationals. A
  histogram is a Python dict of value and count: an association list with distinct keys.
\<close>

section \<open>Windows and rates\<close>

datatype analysis_error = EmptyHistogram | BadQuantile rat | Unreachable | NoSamples | DivisionByZero

record bench_window =
  start_ms :: int
  end_ms :: int

definition of_run :: "int \<Rightarrow> rat \<Rightarrow> rat \<Rightarrow> bench_window" where
  "of_run t0_ms warmup_s measure_s =
     (let st = t0_ms + round_even (warmup_s * 1000)
      in \<lparr>start_ms = st, end_ms = st + round_even (measure_s * 1000)\<rparr>)"

definition win_seconds :: "bench_window \<Rightarrow> rat" where
  "win_seconds w = of_int (end_ms w - start_ms w) / 1000"

definition in_window :: "bench_window \<Rightarrow> rat \<Rightarrow> bool" where
  "in_window w t \<longleftrightarrow> of_int (start_ms w) \<le> t \<and> t < of_int (end_ms w)"

definition rate_in :: "bench_window \<Rightarrow> int list \<Rightarrow> analysis_error + rat" where
  "rate_in w ts =
     (if win_seconds w = 0 then Inl DivisionByZero
      else Inr (of_nat (length (filter (\<lambda>t. in_window w (of_int t)) ts)) / win_seconds w))"

section \<open>Percentiles\<close>

type_synonym hist = "(rat \<times> nat) list"

definition hist_total :: "hist \<Rightarrow> nat" where
  "hist_total h = sum_list (map snd h)"

fun scan_ranks :: "nat \<Rightarrow> nat \<Rightarrow> hist \<Rightarrow> analysis_error + rat" where
  "scan_ranks rank seen [] = Inl Unreachable"
| "scan_ranks rank seen ((v, n) # h) = (if seen + n \<ge> rank then Inr v else scan_ranks rank (seen + n) h)"

definition percentile :: "hist \<Rightarrow> rat \<Rightarrow> analysis_error + rat" where
  "percentile h q =
     (if hist_total h = 0 then Inl EmptyHistogram
      else if \<not> (0 < q \<and> q \<le> 100) then Inl (BadQuantile q)
      else scan_ranks (nat \<lceil>q / 100 * of_nat (hist_total h)\<rceil>) 0 (sort_key fst h))"

definition percentiles :: "rat list" where
  "percentiles = [50, 95, 99, 999 / 10]"

definition round_to :: "nat \<Rightarrow> rat \<Rightarrow> rat" where
  "round_to d x = of_int (round_even (x * 10 ^ d)) / 10 ^ d"

fun collect_percentiles :: "hist \<Rightarrow> rat list \<Rightarrow> analysis_error + (string \<times> rat) list" where
  "collect_percentiles h [] = Inr []"
| "collect_percentiles h (q # qs) =
     (case percentile h q of Inl e \<Rightarrow> Inl e | Inr v \<Rightarrow>
       (case collect_percentiles h qs of Inl e \<Rightarrow> Inl e | Inr ps \<Rightarrow> Inr ((CHR ''p'' # fmt_g q, v) # ps)))"

definition summarize :: "hist \<Rightarrow> analysis_error + (string \<times> rat) list" where
  "summarize h =
     (if hist_total h = 0 then Inr [(''count'', 0)]
      else (case collect_percentiles h percentiles of
              Inl e \<Rightarrow> Inl e
            | Inr ps \<Rightarrow> Inr ([(''count'', of_nat (hist_total h)),
                (''mean'', round_to 3 (sum_list (map (\<lambda>(v, n). v * of_nat n) h) / of_nat (hist_total h))),
                (''max'', fold max (map fst (tl h)) (fst (hd h)))] @ ps)))"

section \<open>Building histograms\<close>

text \<open>\<^verbatim>\<open>counts[k] += n\<close> on a \<^verbatim>\<open>Counter\<close>.\<close>

fun bump :: "rat \<Rightarrow> nat \<Rightarrow> hist \<Rightarrow> hist" where
  "bump k n [] = [(k, n)]"
| "bump k n ((m, c) # h) = (if m = k then (m, c + n) # h else (m, c) # bump k n h)"

definition bucket_edge :: "rat \<Rightarrow> rat \<Rightarrow> rat" where
  "bucket_edge b v = round_to 6 (of_int \<lceil>v / b - 1 / 10 ^ 9\<rceil> * b)"

definition histogram :: "rat list \<Rightarrow> rat \<Rightarrow> analysis_error + hist" where
  "histogram vs b =
     (if b = 0 \<and> vs \<noteq> [] then Inl DivisionByZero
      else Inr (sort_key fst (fold (\<lambda>v h. bump (bucket_edge b v) 1 h) vs [])))"

definition merge :: "hist list \<Rightarrow> hist" where
  "merge hs = sort_key fst (fold (\<lambda>h acc. fold (\<lambda>(k, n). bump k n) h acc) hs [])"

section \<open>Cumulative counters\<close>

fun interpolate :: "rat \<Rightarrow> (rat \<times> rat) list \<Rightarrow> rat option" where
  "interpolate t ((t0, v0) # (t1, v1) # rest) =
     (if t0 \<le> t \<and> t \<le> t1 then Some (if t1 = t0 then v0 else v0 + (v1 - v0) * (t - t0) / (t1 - t0))
      else interpolate t ((t1, v1) # rest))"
| "interpolate t _ = None"

definition value_at :: "(rat \<times> rat) list \<Rightarrow> rat \<Rightarrow> analysis_error + rat" where
  "value_at ss t =
     (case ss of
        [] \<Rightarrow> Inl NoSamples
      | (t0, v0) # _ \<Rightarrow>
          (if t \<le> t0 then Inr v0
           else (case interpolate t ss of Some v \<Rightarrow> Inr v | None \<Rightarrow> Inr (snd (last ss)))))"

definition busy_fraction :: "(rat \<times> rat) list \<Rightarrow> bench_window \<Rightarrow> analysis_error + rat option" where
  "busy_fraction ss w =
     (if length ss < 2 \<or> fst (hd ss) > of_int (start_ms w) \<or> fst (last ss) < of_int (end_ms w) then Inr None
      else (case value_at ss (of_int (end_ms w)) of Inl e \<Rightarrow> Inl e | Inr v1 \<Rightarrow>
           (case value_at ss (of_int (start_ms w)) of Inl e \<Rightarrow> Inl e | Inr v0 \<Rightarrow>
             (if win_seconds w = 0 then Inl DivisionByZero
              else Inr (Some (round_to 3 ((v1 - v0) / win_seconds w)))))))"

section \<open>Percentiles are nearest-rank\<close>

text \<open>The samples a histogram stands for, in order.\<close>

definition samples :: "hist \<Rightarrow> rat list" where
  "samples h = concat (map (\<lambda>(v, n). replicate n v) (sort_key fst h))"

lemma length_samples: "length (samples h) = hist_total h"
proof -
  have "length (concat (map (\<lambda>(v, n). replicate n v) xs)) = sum_list (map snd xs)" for xs :: hist
    by (induction xs) auto
  moreover have "sum_list (map snd (sort_key fst h)) = sum_list (map snd h)"
    by (metis mset_map mset_sort sum_mset_sum_list)
  ultimately show ?thesis by (simp add: samples_def hist_total_def)
qed

lemma sorted_samples: "sorted (samples h)"
proof -
  have "sorted (map fst xs) \<Longrightarrow> sorted (concat (map (\<lambda>(v, n). replicate n v) xs))" for xs :: hist
    by (induction xs) (auto simp: sorted_append)
  then show ?thesis by (simp add: samples_def)
qed

lemma scan_ranks_nth:
  assumes "seen < rank" and "rank \<le> seen + length (concat (map (\<lambda>(v, n). replicate n v) h))"
  shows "scan_ranks rank seen h = Inr (concat (map (\<lambda>(v, n). replicate n v) h) ! (rank - seen - 1))"
  using assms
proof (induction h arbitrary: seen)
  case (Cons x h)
  obtain v n where x: "x = (v, n)" by (cases x)
  show ?case
  proof (cases "seen + n \<ge> rank")
    case True
    then have "rank - Suc seen < n" using Cons.prems(1) by linarith
    with True show ?thesis by (simp add: x nth_append)
  next
    case False
    then have "\<not> rank - Suc seen < n" and "rank - Suc seen - n = rank - Suc (seen + n)" by linarith+
    with False Cons.IH [of "seen + n"] Cons.prems show ?thesis by (simp add: x nth_append)
  qed
qed simp

definition nearest_rank :: "rat \<Rightarrow> rat list \<Rightarrow> nat" where
  "nearest_rank q xs = nat \<lceil>q / 100 * of_nat (length xs)\<rceil>"

lemma nearest_rank_bounds:
  assumes "0 < q" and "q \<le> 100" and "xs \<noteq> []"
  shows "0 < nearest_rank q xs" and "nearest_rank q xs \<le> length xs"
proof -
  have "0 < q / 100 * of_nat (length xs)" using assms by simp
  then show "0 < nearest_rank q xs" by (simp add: nearest_rank_def)
  have "q / 100 * of_nat (length xs) \<le> of_nat (length xs)"
    using assms(1,2) mult_right_mono [of "q / 100" 1 "of_nat (length xs) :: rat"] by simp
  then have "\<lceil>q / 100 * of_nat (length xs)\<rceil> \<le> int (length xs)" by (simp add: ceiling_le_iff)
  then show "nearest_rank q xs \<le> length xs" by (simp add: nearest_rank_def)
qed

lemma percentile_nth:
  assumes "0 < q" and "q \<le> 100" and "0 < hist_total h"
  shows "percentile h q = Inr (samples h ! (nearest_rank q (samples h) - 1))"
proof -
  have ne: "samples h \<noteq> []" using assms(3) length_samples [of h] by auto
  have "scan_ranks (nearest_rank q (samples h)) 0 (sort_key fst h) =
      Inr (samples h ! (nearest_rank q (samples h) - 1))"
    using scan_ranks_nth [of 0 "nearest_rank q (samples h)" "sort_key fst h"] nearest_rank_bounds [OF assms(1,2) ne]
    by (simp add: samples_def)
  then show ?thesis using assms by (simp add: percentile_def nearest_rank_def length_samples)
qed


text \<open>At least \<open>q\<close> percent of a sorted list are at or below its nearest-rank element, less are below.\<close>

lemma nearest_rank_counts:
  assumes "sorted xs" and q: "0 < q" "q \<le> 100" and ne: "xs \<noteq> []"
  defines "v \<equiv> xs ! (nearest_rank q xs - 1)"
  shows "q / 100 * of_nat (length xs) \<le> of_nat (length (filter (\<lambda>x. x \<le> v) xs))"
    and "of_nat (length (filter (\<lambda>x. x < v) xs)) < q / 100 * of_nat (length xs)"
proof -
  let ?r = "nearest_rank q xs"
  note r = nearest_rank_bounds [OF q ne]
  have real: "q / 100 * of_nat (length xs) \<le> of_nat ?r" "of_nat ?r - 1 < q / 100 * of_nat (length xs)"
    using q ne by (simp_all add: nearest_rank_def of_nat_nat) linarith+
  have "\<forall>x \<in> set (take ?r xs). x \<le> v"
    using assms(1) r unfolding v_def by (auto simp: in_set_conv_nth sorted_iff_nth_mono)
  then have "filter (\<lambda>x. x \<le> v) (take ?r xs) = take ?r xs" by (simp add: filter_id_conv)
  then have "?r \<le> length (filter (\<lambda>x. x \<le> v) (take ?r xs @ drop ?r xs))"
    using r by (simp only: filter_append length_append) simp
  then have "(of_nat ?r :: rat) \<le> of_nat (length (filter (\<lambda>x. x \<le> v) xs))" by simp
  with real(1) show "q / 100 * of_nat (length xs) \<le> of_nat (length (filter (\<lambda>x. x \<le> v) xs))" by linarith
  have "\<forall>x \<in> set (drop (?r - 1) xs). \<not> x < v"
    using assms(1) r unfolding v_def by (auto simp: in_set_conv_nth sorted_iff_nth_mono not_less)
  then have "filter (\<lambda>x. x < v) (drop (?r - 1) xs) = []" by (simp add: filter_empty_conv)
  then have "filter (\<lambda>x. x < v) (take (?r - 1) xs @ drop (?r - 1) xs) = filter (\<lambda>x. x < v) (take (?r - 1) xs)"
    by (simp only: filter_append) simp
  then have "length (filter (\<lambda>x. x < v) xs) \<le> ?r - 1"
    using length_filter_le [of "\<lambda>x. x < v" "take (?r - 1) xs"] by simp
  then have "(of_nat (length (filter (\<lambda>x. x < v) xs)) :: rat) \<le> of_nat (?r - 1)" by (rule of_nat_mono)
  also have "\<dots> = of_nat ?r - 1" using r(1) by (simp add: of_nat_diff)
  finally show "of_nat (length (filter (\<lambda>x. x < v) xs)) < q / 100 * of_nat (length xs)" using real(2) by linarith
qed

section \<open>Histograms count\<close>

definition hist_at :: "hist \<Rightarrow> rat \<Rightarrow> nat" where
  "hist_at h k = (case map_of h k of None \<Rightarrow> 0 | Some n \<Rightarrow> n)"

lemma bump_at: "hist_at (bump k n h) m = hist_at h m + (if m = k then n else 0)"
  by (induction h) (auto simp: hist_at_def)

lemma bump_keys: "fst ` set (bump k n h) = insert k (fst ` set h)"
proof (induction h)
  case (Cons x h)
  obtain m c where x: "x = (m, c)" by (cases x)
  show ?case
  proof (cases "m = k")
    case True
    then show ?thesis by (simp add: x)
  next
    case False
    with Cons show ?thesis by (simp add: x insert_commute)
  qed
qed simp

lemma bump_distinct: "distinct (map fst h) \<Longrightarrow> distinct (map fst (bump k n h))"
  by (induction h) (auto simp: bump_keys)

lemma bump_total: "hist_total (bump k n h) = hist_total h + n"
  by (induction h) (auto simp: hist_total_def)

lemma sort_total: "hist_total (sort_key fst h) = hist_total h"
  unfolding hist_total_def by (metis mset_map mset_sort sum_mset_sum_list)

lemma sort_at:
  assumes "distinct (map fst h)"
  shows "hist_at (sort_key fst h) m = hist_at h m"
proof -
  have "distinct (map fst (sort_key fst h))"
    using assms by (metis distinct_map distinct_sort set_sort)
  then have "map_of (sort_key fst h) = map_of h"
    using assms by (intro map_of_inject_set [THEN iffD2]) simp_all
  then show ?thesis by (simp add: hist_at_def)
qed

lemma fold_bump:
  "hist_at (fold (\<lambda>v h. bump (f v) 1 h) vs h) m = hist_at h m + length (filter (\<lambda>v. f v = m) vs)"
  "hist_total (fold (\<lambda>v h. bump (f v) 1 h) vs h) = hist_total h + length vs"
  "distinct (map fst h) \<Longrightarrow> distinct (map fst (fold (\<lambda>v h. bump (f v) 1 h) vs h))"
  by (induction vs arbitrary: h) (auto simp: bump_at bump_total bump_distinct)

lemma fold_merge_at:
  "hist_at (fold (\<lambda>(k, n). bump k n) h acc) m = hist_at acc m + sum_list (map snd (filter (\<lambda>p. fst p = m) h))"
  "distinct (map fst acc) \<Longrightarrow> distinct (map fst (fold (\<lambda>(k, n). bump k n) h acc))"
  by (induction h arbitrary: acc) (auto simp: bump_at bump_distinct)

lemma hist_at_sum: "distinct (map fst h) \<Longrightarrow> hist_at h m = sum_list (map snd (filter (\<lambda>p. fst p = m) h))"
proof (induction h)
  case (Cons x h)
  have "filter (\<lambda>p. fst p = fst x) h = []" using Cons.prems by (auto simp: filter_empty_conv image_iff)
  with Cons show ?case by (auto simp: hist_at_def)
qed (simp add: hist_at_def)

lemma merge_at:
  assumes "\<forall>h \<in> set hs. distinct (map fst h)"
  shows "hist_at (merge hs) m = sum_list (map (\<lambda>h. hist_at h m) hs)" and "distinct (map fst (merge hs))"
proof -
  have *: "hist_at (fold (\<lambda>h acc. fold (\<lambda>(k, n). bump k n) h acc) hs acc) m =
      hist_at acc m + sum_list (map (\<lambda>h. hist_at h m) hs) \<and>
      distinct (map fst (fold (\<lambda>h acc. fold (\<lambda>(k, n). bump k n) h acc) hs acc))"
    if "distinct (map fst acc)" for acc
    using assms that
  proof (induction hs arbitrary: acc)
    case (Cons h hs)
    from Cons.IH [of "fold (\<lambda>(k, n). bump k n) h acc"] Cons.prems fold_merge_at [where h = h and acc = acc]
    show ?case by (simp add: hist_at_sum [of h])
  qed simp
  have "hist_at [] m = 0" by (simp add: hist_at_def)
  with * [of "[]"] show "hist_at (merge hs) m = sum_list (map (\<lambda>h. hist_at h m) hs)"
    by (simp add: merge_def sort_at)
  show "distinct (map fst (merge hs))"
    using * [of "[]"] unfolding merge_def by (metis distinct_map distinct_sort set_sort list.map(1) distinct.simps(1))
qed


section \<open>Bucketing keeps percentiles an upper bound\<close>

lemma round_even_int [simp]: "round_even (of_int i) = i"
  by (simp add: round_even_def Let_def)

lemma bucket_edge_bounds:
  assumes b: "0 < b" and m: "b = of_int m / 10 ^ 6"
  shows "v - b / 10 ^ 9 \<le> bucket_edge b v" and "bucket_edge b v < v + b"
proof -
  define c where "c = \<lceil>v / b - 1 / 10 ^ 9\<rceil>"
  have "of_int c * b * 10 ^ 6 = (of_int (c * m) :: rat)" by (simp add: m)
  then have "round_even (of_int c * b * 10 ^ 6) = c * m" by (metis round_even_int)
  then have "bucket_edge b v = of_int (c * m) / 10 ^ 6"
    unfolding bucket_edge_def round_to_def c_def [symmetric] by (simp only:)
  then have e: "bucket_edge b v = of_int c * b" by (simp add: m)
  have "v / b - 1 / 10 ^ 9 \<le> of_int c" "of_int c < v / b - 1 / 10 ^ 9 + 1" unfolding c_def by linarith+
  then have "(v / b - 1 / 10 ^ 9) * b \<le> of_int c * b" "of_int c * b < (v / b - 1 / 10 ^ 9 + 1) * b"
    using b by (auto intro: mult_right_mono mult_strict_right_mono)
  with b show "v - b / 10 ^ 9 \<le> bucket_edge b v" "bucket_edge b v < v + b"
    unfolding e by (simp_all add: algebra_simps)
qed

lemma bucket_edge_mono:
  assumes b: "0 < b" and "v \<le> v'"
  shows "bucket_edge b v \<le> bucket_edge b v'"
proof -
  have r: "round_even x \<le> round_even y" if "x \<le> y" for x y
  proof (cases "\<lfloor>x\<rfloor> = \<lfloor>y\<rfloor>")
    case True
    with that show ?thesis by (auto simp: round_even_def Let_def)
  next
    case False
    with that have "\<lfloor>x\<rfloor> + 1 \<le> \<lfloor>y\<rfloor>" using floor_mono [OF that] by simp
    then show ?thesis by (auto simp: round_even_def Let_def)
  qed
  have "v / b \<le> v' / b" using assms by (simp add: divide_right_mono)
  then have "\<lceil>v / b - 1 / 10 ^ 9\<rceil> \<le> \<lceil>v' / b - 1 / 10 ^ 9\<rceil>" by (intro ceiling_mono) simp
  then have "(of_int \<lceil>v / b - 1 / 10 ^ 9\<rceil> :: rat) * b \<le> of_int \<lceil>v' / b - 1 / 10 ^ 9\<rceil> * b"
    using b by (intro mult_right_mono) simp_all
  then have "round_even (of_int \<lceil>v / b - 1 / 10 ^ 9\<rceil> * b * 10 ^ 6) \<le>
      round_even (of_int \<lceil>v' / b - 1 / 10 ^ 9\<rceil> * b * 10 ^ 6)" by (intro r) simp
  then show ?thesis unfolding bucket_edge_def round_to_def by (simp add: divide_right_mono)
qed

lemma count_samples:
  assumes "distinct (map fst h)"
  shows "count (mset (samples h)) m = hist_at h m"
proof -
  have "count (mset (concat (map (\<lambda>(v, n). replicate n v) xs))) m = sum_list (map snd (filter (\<lambda>p. fst p = m) xs))"
    for xs :: hist by (induction xs) auto
  then have "count (mset (samples h)) m = sum_list (map snd (filter (\<lambda>p. fst p = m) (sort_key fst h)))"
    by (simp add: samples_def)
  also have "\<dots> = hist_at (sort_key fst h) m"
    using assms by (intro hist_at_sum [symmetric]) (metis distinct_map distinct_sort set_sort)
  finally show ?thesis using sort_at [OF assms] by simp
qed

lemma samples_histogram:
  assumes "0 < b" and "histogram vs b = Inr h"
  shows "samples h = map (bucket_edge b) (sort vs)" and "distinct (map fst h)"
proof -
  have h: "h = sort_key fst (fold (\<lambda>v h. bump (bucket_edge b v) 1 h) vs [])" (is "h = sort_key fst ?f")
    using assms by (auto simp: histogram_def split: if_splits)
  have d: "distinct (map fst ?f)" by (rule fold_bump(3)) simp
  then show dh: "distinct (map fst h)" unfolding h by (metis distinct_map distinct_sort set_sort)
  have "count (mset (samples h)) m = count (mset (map (bucket_edge b) (sort vs))) m" for m
  proof -
    have "count (mset (samples h)) m = hist_at ?f m" using count_samples [OF dh] sort_at [OF d] by (simp add: h)
    also have "\<dots> = length (filter (\<lambda>v. bucket_edge b v = m) vs)"
      unfolding fold_bump(1) by (simp add: hist_at_def)
    also have "\<dots> = count (mset (map (bucket_edge b) vs)) m"
      by (induction vs) auto
    finally show ?thesis by simp
  qed
  then have "mset (map (bucket_edge b) (sort vs)) = mset (samples h)" by (simp add: multiset_eq_iff)
  moreover have "sorted (map (bucket_edge b) (sort vs))"
    using bucket_edge_mono [OF assms(1)] by (simp add: sorted_map sorted_wrt_mono_rel [of _ "(\<le>)"])
  ultimately show "samples h = map (bucket_edge b) (sort vs)"
    using sorted_samples [of h] by (metis properties_for_sort)
qed

lemma percentile_of_histogram:
  assumes b: "0 < b" "b = of_int m / 10 ^ 6" and q: "0 < q" "q \<le> 100" and vs: "vs \<noteq> []"
    and h: "histogram vs b = Inr h"
  shows "\<exists>p. percentile h q = Inr p \<and> sort vs ! (nearest_rank q vs - 1) - b / 10 ^ 9 \<le> p \<and>
    p < sort vs ! (nearest_rank q vs - 1) + b"
proof -
  note s = samples_histogram(1) [OF b(1) h]
  have len: "length (samples h) = length vs" by (simp add: s)
  then have tot: "0 < hist_total h" using vs length_samples [of h] by simp
  have r: "nearest_rank q (samples h) = nearest_rank q vs" by (simp add: nearest_rank_def len)
  have "nearest_rank q vs - 1 < length (sort vs)" using nearest_rank_bounds [OF q vs] by simp
  then have "samples h ! (nearest_rank q vs - 1) = bucket_edge b (sort vs ! (nearest_rank q vs - 1))"
    unfolding s by (rule nth_map)
  then show ?thesis using percentile_nth [OF q tot] bucket_edge_bounds [OF b] by (simp add: r)
qed

section \<open>Interpolation follows the counter\<close>

definition grows_with_time :: "(rat \<times> rat) list \<Rightarrow> bool" where
  "grows_with_time ss \<longleftrightarrow> sorted (map fst ss) \<and> sorted (map snd ss)"

lemma segment_bounds:
  fixes t0 t1 v0 v1 t :: rat
  assumes "t0 < t1" and "v0 \<le> v1" and "t0 \<le> t" and "t \<le> t1"
  shows "v0 \<le> v0 + (v1 - v0) * (t - t0) / (t1 - t0)" and "v0 + (v1 - v0) * (t - t0) / (t1 - t0) \<le> v1"
proof -
  have "0 \<le> (v1 - v0) * (t - t0) / (t1 - t0)" using assms by (intro divide_nonneg_pos mult_nonneg_nonneg) simp_all
  then show "v0 \<le> v0 + (v1 - v0) * (t - t0) / (t1 - t0)" by simp
  have "(v1 - v0) * (t - t0) \<le> (v1 - v0) * (t1 - t0)" using assms by (intro mult_left_mono) simp_all
  then have "(v1 - v0) * (t - t0) / (t1 - t0) \<le> v1 - v0" using assms(1) by (simp add: pos_divide_le_eq)
  then show "v0 + (v1 - v0) * (t - t0) / (t1 - t0) \<le> v1" by simp
qed

lemma segment_mono:
  fixes t0 t1 v0 v1 t t' :: rat
  assumes "t0 < t1" and "v0 \<le> v1" and "t \<le> t'"
  shows "v0 + (v1 - v0) * (t - t0) / (t1 - t0) \<le> v0 + (v1 - v0) * (t' - t0) / (t1 - t0)"
  using assms by (intro add_left_mono divide_right_mono mult_left_mono) simp_all

lemma interpolate_bounds:
  assumes "grows_with_time ss" and "interpolate t ss = Some v"
  shows "snd (hd ss) \<le> v" and "v \<le> snd (last ss)" and "fst (hd ss) \<le> t" and "t \<le> fst (last ss)"
proof -
  have "snd (hd ss) \<le> v \<and> v \<le> snd (last ss) \<and> fst (hd ss) \<le> t \<and> t \<le> fst (last ss)"
    using assms
  proof (induction t ss rule: interpolate.induct)
    case (1 t t0 v0 t1 v1 rest)
    have g: "t0 \<le> t1" "v0 \<le> v1" "grows_with_time ((t1, v1) # rest)"
      and l: "t1 \<le> fst (last ((t1, v1) # rest))" "v1 \<le> snd (last ((t1, v1) # rest))"
      using "1.prems"(1) by (auto simp: grows_with_time_def last_conv_nth intro: order_trans)
    show ?case
    proof (cases "t0 \<le> t \<and> t \<le> t1")
      case True
      then have "v0 \<le> v \<and> v \<le> v1"
        using "1.prems"(2) g segment_bounds [of t0 t1 v0 v1 t] by (auto split: if_splits)
      with True l show ?thesis by auto
    next
      case False
      with "1.prems"(2) have "interpolate t ((t1, v1) # rest) = Some v" by (simp split: if_splits)
      from "1.IH" [OF False g(3) this] g show ?thesis by auto
    qed
  qed simp_all
  then show "snd (hd ss) \<le> v" and "v \<le> snd (last ss)" and "fst (hd ss) \<le> t" and "t \<le> fst (last ss)" by auto
qed


lemma interpolate_total:
  assumes "grows_with_time ss" and "2 \<le> length ss" and "fst (hd ss) \<le> t" and "t \<le> fst (last ss)"
  shows "interpolate t ss \<noteq> None"
  using assms
proof (induction t ss rule: interpolate.induct)
  case (1 t t0 v0 t1 v1 rest)
  have g: "grows_with_time ((t1, v1) # rest)" using "1.prems"(1) by (simp add: grows_with_time_def)
  show ?case
  proof (cases "t0 \<le> t \<and> t \<le> t1")
    case False
    then have "t1 < t" using "1.prems"(3) by auto
    with "1.IH" [OF False g] "1.prems"(4) show ?thesis using False by (cases rest) auto
  qed simp
qed simp_all

lemma interpolate_mono:
  assumes "grows_with_time ss" and "interpolate t ss = Some v" and "interpolate t' ss = Some v'" and "t \<le> t'"
  shows "v \<le> v'"
  using assms
proof (induction t ss rule: interpolate.induct)
  case (1 t t0 v0 t1 v1 rest)
  have g: "t0 \<le> t1" "v0 \<le> v1" "grows_with_time ((t1, v1) # rest)"
    using "1.prems"(1) by (auto simp: grows_with_time_def)
  note lower = interpolate_bounds(3) [OF "1.prems"(1,2)]
  show ?case
  proof (cases "t \<le> t1")
    case True
    with lower "1.prems"(2) have v: "v = (if t1 = t0 then v0 else v0 + (v1 - v0) * (t - t0) / (t1 - t0))" by simp
    show ?thesis
    proof (cases "t' \<le> t1")
      case True
      with lower "1.prems"(3,4) have "v' = (if t1 = t0 then v0 else v0 + (v1 - v0) * (t' - t0) / (t1 - t0))" by simp
      with v g "1.prems"(4) segment_mono [of t0 t1 v0 v1 t t'] show ?thesis by auto
    next
      case False
      then have "interpolate t' ((t1, v1) # rest) = Some v'" using "1.prems"(3) by simp
      from interpolate_bounds(1) [OF g(3) this] have "v1 \<le> v'" by simp
      moreover have "v \<le> v1" using v g lower True segment_bounds(2) [of t0 t1 v0 v1 t] by auto
      ultimately show ?thesis by simp
    qed
  next
    case False
    then have f: "\<not> (t0 \<le> t \<and> t \<le> t1)" and f': "\<not> t' \<le> t1" using "1.prems"(4) by auto
    from f "1.prems"(2) have "interpolate t ((t1, v1) # rest) = Some v" by (simp only: interpolate.simps if_False)
    moreover from f' "1.prems"(3) have "interpolate t' ((t1, v1) # rest) = Some v'" by simp
    ultimately show ?thesis using "1.IH" [OF f g(3)] "1.prems"(4) by blast
  qed
qed simp_all

lemma value_at_interpolates:
  assumes "grows_with_time ss" and "2 \<le> length ss" and "fst (hd ss) \<le> t" and "t \<le> fst (last ss)"
  shows "\<exists>v. value_at ss t = Inr v \<and> (v = snd (hd ss) \<and> t = fst (hd ss) \<or> interpolate t ss = Some v)"
proof -
  obtain t0 v0 rest where ss: "ss = (t0, v0) # rest" using assms(2) by (cases ss) auto
  obtain v where "interpolate t ss = Some v" using interpolate_total [OF assms] by blast
  with assms(3) show ?thesis unfolding value_at_def ss by (cases "t \<le> t0") auto
qed

lemma value_at_mono:
  assumes g: "grows_with_time ss" and l: "2 \<le> length ss" and t: "fst (hd ss) \<le> t" "t \<le> t'" "t' \<le> fst (last ss)"
  shows "\<exists>v v'. value_at ss t = Inr v \<and> value_at ss t' = Inr v' \<and> snd (hd ss) \<le> v \<and> v \<le> v' \<and> v' \<le> snd (last ss)"
proof -
  obtain v where v: "value_at ss t = Inr v" "v = snd (hd ss) \<and> t = fst (hd ss) \<or> interpolate t ss = Some v"
    using value_at_interpolates [OF g l t(1)] t by auto
  obtain v' where v': "value_at ss t' = Inr v'" "v' = snd (hd ss) \<and> t' = fst (hd ss) \<or> interpolate t' ss = Some v'"
    using value_at_interpolates [OF g l _ t(3)] t by auto
  have ends: "snd (hd ss) \<le> snd (last ss)"
  proof -
    have "map snd ss \<noteq> []" using l by auto
    then have "hd (map snd ss) \<le> last (map snd ss)"
      using g by (cases "map snd ss") (auto simp: grows_with_time_def sorted_wrt.simps)
    then show ?thesis using l by (cases ss) (auto simp: hd_map last_map)
  qed
  have b: "snd (hd ss) \<le> v'" "v' \<le> snd (last ss)" "snd (hd ss) \<le> v"
    using v(2) v'(2) interpolate_bounds(1,2) [OF g] ends by auto
  have "v \<le> v'"
  proof (cases "interpolate t ss = Some v \<and> interpolate t' ss = Some v'")
    case True
    then show ?thesis using interpolate_mono [OF g _ _ t(2)] by blast
  next
    case False
    have "v = v'" if "t' = fst (hd ss)"
    proof -
      have "t = t'" using t(1,2) that by simp
      then show ?thesis using v(1) v'(1) by simp
    qed
    with False v(2) v'(2) b(1) show ?thesis by auto
  qed
  with v(1) v'(1) b show ?thesis by blast
qed

text \<open>The slack of the edge: a sample just above an edge is counted at that edge.\<close>

lemma edge_below_sample: "bucket_edge (1 / 10) (3 / 10 + 1 / 10 ^ 11) < 3 / 10 + 1 / 10 ^ 11"
proof -
  have "\<lceil>(3 / 10 + 1 / 10 ^ 11) / (1 / 10) - 1 / 10 ^ 9 :: rat\<rceil> = 3" by (simp add: ceiling_eq_iff)
  then show ?thesis by (simp add: bucket_edge_def round_to_def round_even_def Let_def)
qed

end
