(* ===== verification/Bench_Loadgen.thy ===== *)
theory Bench_Loadgen
  imports Chaos_Verifier Bench_Analysis "HOL-Library.AList"
begin

text \<open>
  \<^verbatim>\<open>bench/loadgen.py\<close>: one producer's open loop, the reading of the results log and the parts of
  the report that are computed from them. Processes, clocks and the sampling of the server's
  own statistics are inputs: a turn of the producer comes with the readings it makes.
\<close>

section \<open>The load\<close>

record load_spec =
  ls_redis_url :: string
  ls_queue :: string
  ls_group :: string
  ls_rate :: rat
  ls_warmup :: int
  ls_measure :: int
  ls_cooldown :: int
  ls_processes :: int
  ls_batch :: int
  ls_tick_ms :: rat
  ls_job_type :: string
  ls_payload :: "(string \<times> json) list"
  ls_payload_bytes :: int
  ls_max_depth :: int
  ls_backpressure :: string
  ls_high_watermark :: int
  ls_low_watermark :: int
  ls_block_timeout :: rat
  ls_expect_workers :: int
  ls_drain_timeout :: rat
  ls_hosts :: int
  ls_run_id :: string
  ls_host_timeout :: rat

definition load_defaults :: "string \<Rightarrow> load_spec" where
  "load_defaults url = \<lparr>ls_redis_url = url, ls_queue = ''bench'', ls_group = ''workers'', ls_rate = 0,
     ls_warmup = 10, ls_measure = 30, ls_cooldown = 5, ls_processes = 2, ls_batch = 500, ls_tick_ms = 10,
     ls_job_type = ''send_email'', ls_payload = [], ls_payload_bytes = 100, ls_max_depth = 0,
     ls_backpressure = ''reject'', ls_high_watermark = 1000000, ls_low_watermark = 800000, ls_block_timeout = 5,
     ls_expect_workers = 0, ls_drain_timeout = 300, ls_hosts = 1, ls_run_id = [], ls_host_timeout = 120\<rparr>"

definition load_duration :: "load_spec \<Rightarrow> int" where
  "load_duration sp = ls_warmup sp + ls_measure sp + ls_cooldown sp"

definition load_settings :: "load_spec \<Rightarrow> config_error + settings" where
  "load_settings sp = make_settings (default_settings\<lparr>redis_url := ls_redis_url sp, queue_name := ls_queue sp,
     group := ls_group sp, mode := (if ls_backpressure sp = ''block'' then Block else Reject),
     high_watermark := ls_high_watermark sp, low_watermark := ls_low_watermark sp,
     block_timeout := ls_block_timeout sp, loglevel := WARNING\<rparr>)"

definition pad_base :: "load_spec \<Rightarrow> (string \<times> json) list" where
  "pad_base sp = dict_put (foldl dict_put [(''to'', JStr ''user@example.com'')] (ls_payload sp)) (''pad'', JStr [])"

definition make_payload :: "load_spec \<Rightarrow> (string \<times> json) list" where
  "make_payload sp =
     (let base = pad_base sp; len = int (length (dumps (JObj base)))
      in dict_put base (''pad'', JStr (replicate (nat (max 0 (ls_payload_bytes sp - len))) (CHR ''x''))))"

section \<open>One producer\<close>

datatype load_error = LoadServer redis_error | LoadZeroDivision | LoadMissing string | LoadBadInt string
  | LoadConfig config_error | LoadAnalysis analysis_error

record prod_state =
  p_offered :: int
  p_seconds :: "(int \<times> int \<times> int \<times> int) list"
  p_calls :: "rat list"
  p_batches :: "(int \<times> nat) list"
  p_lag :: rat
  p_waits :: nat
  p_counters :: producer_counters

text \<open>
  What a turn of the loop meets: the clock at its top, what others do to the server, the ids,
  rounds and start of the call if it makes one, and how long that took.
\<close>

record 's prod_turn =
  pt_now :: rat
  pt_others :: "'s \<Rightarrow> 's"
  pt_ids :: "nat \<Rightarrow> string"
  pt_started :: rat
  pt_rounds :: "'s round list"
  pt_elapsed_ms :: rat

definition producer_rate :: "load_spec \<Rightarrow> load_error + rat" where
  "producer_rate sp =
     (if ls_processes sp * ls_hosts sp = 0 then Inl LoadZeroDivision
      else Inr (ls_rate sp / of_int (ls_processes sp * ls_hosts sp)))"

fun add_second :: "int \<Rightarrow> int \<times> int \<times> int \<Rightarrow> (int \<times> int \<times> int \<times> int) list \<Rightarrow> (int \<times> int \<times> int \<times> int) list" where
  "add_second k (o', a, r) [] = [(k, o', a, r)]"
| "add_second k (o', a, r) ((m, x, y, z) # bs) =
     (if m = k then (m, x + o', y + a, z + r) # bs else (m, x, y, z) # add_second k (o', a, r) bs)"

fun add_count :: "'a \<Rightarrow> ('a \<times> nat) list \<Rightarrow> ('a \<times> nat) list" where
  "add_count k [] = [(k, 1)]"
| "add_count k ((m, c) # h) = (if m = k then (m, Suc c) # h else (m, c) # add_count k h)"

definition accepted_in_call :: "enqueue_result \<Rightarrow> redis_error + nat" where
  "accepted_in_call r = (case r of
       Ids js \<Rightarrow> Inr (length js)
     | QueueFull _ js \<Rightarrow> Inr (length (filter (\<lambda>x. x \<noteq> None) js))
     | ClientError e \<Rightarrow> Inl e)"

text \<open>How many jobs the turn offers; none means the producer is ahead and waits for the tick.\<close>

definition turn_size :: "load_spec \<Rightarrow> rat \<Rightarrow> int \<Rightarrow> rat \<Rightarrow> int \<Rightarrow> (int \<times> int) option" where
  "turn_size sp rate total_due now offered =
     (if rate > 0 then
        (let due = min (py_trunc (rate * now)) total_due - offered
         in if due < 1 then None else Some (due, min due (ls_batch sp)))
      else Some (0, ls_batch sp))"

definition note_call :: "load_spec \<Rightarrow> rat \<Rightarrow> int \<Rightarrow> int \<Rightarrow> nat \<Rightarrow> rat \<Rightarrow> rat \<Rightarrow> producer_counters \<Rightarrow> prod_state \<Rightarrow> prod_state" where
  "note_call sp rate due n acc now elapsed pc p =
     (let p1 = p\<lparr>p_offered := p_offered p + n,
            p_seconds := add_second (py_trunc now) (n, int acc, n - int acc) (p_seconds p),
            p_lag := (if rate > 0 then max (p_lag p) (of_int due / rate) else p_lag p),
            p_counters := pc\<rparr>
      in if of_int (ls_warmup sp) \<le> now \<and> now < of_int (ls_warmup sp + ls_measure sp)
         then p1\<lparr>p_calls := p_calls p1 @ [elapsed], p_batches := add_count n (p_batches p1)\<rparr> else p1)"

definition produce_turn :: "'s redis_ops \<Rightarrow> settings \<Rightarrow> load_spec \<Rightarrow> rat \<Rightarrow> int \<Rightarrow> 's prod_turn \<Rightarrow> prod_state \<Rightarrow> 's
    \<Rightarrow> ((load_error + prod_state) \<times> 's) option" where
  "produce_turn R S sp rate total_due t p s =
     (case (if ls_max_depth sp \<noteq> 0 then XLEN R (stream_key (keys_of S)) s else (Inr 0, s)) of
        (Inl e, s1) \<Rightarrow> Some (Inl (LoadServer e), s1)
      | (Inr depth, s1) \<Rightarrow>
          if ls_max_depth sp \<noteq> 0 \<and> int depth \<ge> ls_max_depth sp then Some (Inr (p\<lparr>p_waits := Suc (p_waits p)\<rparr>), s1)
          else (case turn_size sp rate total_due (pt_now t) (p_offered p) of
             None \<Rightarrow> Some (Inr p, s1)
           | Some (due, n) \<Rightarrow>
               (let job = \<lparr>nj_type = ls_job_type sp, nj_payload = make_payload sp, nj_key = None\<rparr> in
                case enqueue_many R S (p_counters p) (pt_started t) (pt_rounds t)
                       (map (\<lambda>i. (pt_ids t i, job)) [0 ..< nat n]) s1 of
                  None \<Rightarrow> None
                | Some (r, pc, s2) \<Rightarrow>
                    (case accepted_in_call r of
                       Inl e \<Rightarrow> Some (Inl (LoadServer e), s2)
                     | Inr acc \<Rightarrow> Some (Inr (note_call sp rate due n acc (pt_now t) (pt_elapsed_ms t) pc p), s2)))))"

fun produce_loop :: "'s redis_ops \<Rightarrow> settings \<Rightarrow> load_spec \<Rightarrow> rat \<Rightarrow> int \<Rightarrow> 's prod_turn list \<Rightarrow> prod_state \<Rightarrow> 's
    \<Rightarrow> ((load_error + prod_state) \<times> 's) option" where
  "produce_loop R S sp rate total_due [] p s = None"
| "produce_loop R S sp rate total_due (t # ts) p s =
     (if pt_now t < of_int (load_duration sp) then
        (case produce_turn R S sp rate total_due t p (pt_others t s) of
           None \<Rightarrow> None
         | Some (Inl e, s') \<Rightarrow> Some (Inl e, s')
         | Some (Inr p', s') \<Rightarrow> produce_loop R S sp rate total_due ts p' s')
      else Some (Inr p, s))"

definition fresh_producer :: prod_state where
  "fresh_producer = \<lparr>p_offered = 0, p_seconds = [], p_calls = [], p_batches = [], p_lag = 0, p_waits = 0,
     p_counters = no_counters\<rparr>"

definition enqueue_bucket_ms :: rat where
  "enqueue_bucket_ms = 1 / 10"

record prod_summary =
  ps_offered :: int
  ps_accepted :: nat
  ps_rejected :: nat
  ps_blocked :: nat
  ps_blocked_seconds :: rat
  ps_max_lag_s :: rat
  ps_depth_waits :: nat
  ps_per_second :: "(int \<times> int \<times> int \<times> int) list"
  ps_hist :: hist
  ps_batch_sizes :: "(int \<times> nat) list"

definition prod_summary_of :: "prod_state \<Rightarrow> load_error + prod_summary" where
  "prod_summary_of p =
     (case histogram (p_calls p) enqueue_bucket_ms of
        Inl e \<Rightarrow> Inl (LoadAnalysis e)
      | Inr h \<Rightarrow> Inr \<lparr>ps_offered = p_offered p, ps_accepted = pc_accepted (p_counters p),
          ps_rejected = pc_rejected (p_counters p), ps_blocked = pc_blocked (p_counters p),
          ps_blocked_seconds = round_to 3 (pc_blocked_seconds (p_counters p)),
          ps_max_lag_s = round_to 4 (p_lag p), ps_depth_waits = p_waits p, ps_per_second = p_seconds p,
          ps_hist = h, ps_batch_sizes = p_batches p\<rparr>)"

definition load_produce :: "'s redis_ops \<Rightarrow> load_spec \<Rightarrow> 's prod_turn list \<Rightarrow> 's \<Rightarrow> ((load_error + prod_summary) \<times> 's) option" where
  "load_produce R sp ts s =
     (case load_settings sp of
        Inl e \<Rightarrow> Some (Inl (LoadConfig e), s)
      | Inr S \<Rightarrow>
          (case producer_rate sp of
             Inl e \<Rightarrow> Some (Inl e, s)
           | Inr rate \<Rightarrow>
               (case produce_loop R S sp rate (py_trunc (rate * of_int (load_duration sp))) ts fresh_producer s of
                  None \<Rightarrow> None
                | Some (Inl e, s') \<Rightarrow> Some (Inl e, s')
                | Some (Inr p, s') \<Rightarrow> Some (prod_summary_of p, s'))))"


section \<open>Reading the results log\<close>

record results_read =
  rr_times :: "(int \<times> int) list"
  rr_per_job :: "(string \<times> nat) list"
  rr_by_worker :: "(string \<times> nat) list"

definition field_of :: "fields \<Rightarrow> string \<Rightarrow> load_error + string" where
  "field_of f k = (case dict_get f k of None \<Rightarrow> Inl (LoadMissing k) | Some v \<Rightarrow> Inr v)"

definition load_int :: "fields \<Rightarrow> string \<Rightarrow> load_error + int" where
  "load_int f k = (case field_of f k of Inl e \<Rightarrow> Inl e | Inr v \<Rightarrow>
     (case read_int v of None \<Rightarrow> Inl (LoadBadInt v) | Some i \<Rightarrow> Inr i))"

definition note_result :: "bench_window \<Rightarrow> fields \<Rightarrow> results_read \<Rightarrow> load_error + results_read" where
  "note_result w f rr =
     (case load_int f ''finished_at_ms'' of Inl e \<Rightarrow> Inl e | Inr finished \<Rightarrow>
     (case load_int f ''enqueued_at_ms'' of Inl e \<Rightarrow> Inl e | Inr enqueued \<Rightarrow>
     (case field_of f ''job_id'' of Inl e \<Rightarrow> Inl e | Inr j \<Rightarrow>
        (let rr1 = rr\<lparr>rr_times := rr_times rr @ [(enqueued, finished)], rr_per_job := add_count j (rr_per_job rr)\<rparr> in
         if in_window w (of_int finished) then
           (case field_of f ''worker_id'' of Inl e \<Rightarrow> Inl e
            | Inr wid \<Rightarrow> Inr (rr1\<lparr>rr_by_worker := add_count wid (rr_by_worker rr1)\<rparr>))
         else Inr rr1))))"

fun note_results :: "bench_window \<Rightarrow> (eid \<times> fields) list \<Rightarrow> results_read \<Rightarrow> load_error + results_read" where
  "note_results w [] rr = Inr rr"
| "note_results w (e # es) rr = (case note_result w (snd e) rr of Inl x \<Rightarrow> Inl x | Inr rr' \<Rightarrow> note_results w es rr')"

definition results_page :: nat where
  "results_page = 10000"

partial_function (option) results_from :: "'s redis_ops \<Rightarrow> key \<Rightarrow> bench_window \<Rightarrow> eid \<Rightarrow> results_read \<Rightarrow> 's
    \<Rightarrow> ((load_error + results_read) \<times> 's) option" where
  "results_from R k w cursor rr s =
     (case XRANGE R k (After cursor) None (Some results_page) s of
        (Inl e, s') \<Rightarrow> Some (Inl (LoadServer e), s')
      | (Inr reply, s') \<Rightarrow>
          if reply = [] then Some (Inr rr, s')
          else (case note_results w reply rr of
                  Inl e \<Rightarrow> Some (Inl e, s')
                | Inr rr' \<Rightarrow> results_from R k w (fst (last reply)) rr' s'))"

definition no_results :: results_read where
  "no_results = \<lparr>rr_times = [], rr_per_job = [], rr_by_worker = []\<rparr>"

definition read_results :: "'s redis_ops \<Rightarrow> keys \<Rightarrow> eid \<Rightarrow> bench_window \<Rightarrow> 's \<Rightarrow> ((load_error + results_read) \<times> 's) option" where
  "read_results R K after_id w s = results_from R (results_key K) w after_id no_results s"

section \<open>The report\<close>

definition merge_seconds :: "prod_summary list \<Rightarrow> (int \<times> int \<times> int \<times> int) list" where
  "merge_seconds produced = fold (\<lambda>p acc. fold (\<lambda>(sec, b). add_second sec b) (ps_per_second p) acc) produced []"

definition in_measure :: "load_spec \<Rightarrow> int \<Rightarrow> bool" where
  "in_measure sp sec \<longleftrightarrow> ls_warmup sp \<le> sec \<and> sec < ls_warmup sp + ls_measure sp"

definition offered_w :: "load_spec \<Rightarrow> (int \<times> int \<times> int \<times> int) list \<Rightarrow> int" where
  "offered_w sp bs = sum_list (map (\<lambda>(sec, x, a, r). x) (filter (\<lambda>b. in_measure sp (fst b)) bs))"

definition accepted_w :: "load_spec \<Rightarrow> (int \<times> int \<times> int \<times> int) list \<Rightarrow> int" where
  "accepted_w sp bs = sum_list (map (\<lambda>(sec, x, a, r). a) (filter (\<lambda>b. in_measure sp (fst b)) bs))"

definition e2e_hist :: "bench_window \<Rightarrow> (int \<times> int) list \<Rightarrow> hist" where
  "e2e_hist w ts = fold (\<lambda>(enq, fin') h. if in_window w (of_int enq) then bump (of_int (fin' - enq)) 1 h else h) ts []"

definition completed_by_second :: "int \<Rightarrow> (int \<times> int) list \<Rightarrow> (int \<times> nat) list" where
  "completed_by_second t0_ms ts = fold (\<lambda>(enq, fin'). add_count ((fin' - t0_ms) div 1000)) ts []"

definition duplicate_results :: "(string \<times> nat) list \<Rightarrow> nat" where
  "duplicate_results per_job = sum_list (map (\<lambda>(j, n). if n > 1 then n - 1 else 0) per_job)"

definition missing_results :: "prod_summary list \<Rightarrow> (string \<times> nat) list \<Rightarrow> int" where
  "missing_results produced per_job = int (sum_list (map ps_accepted produced)) - int (length per_job)"

definition load_exactly_once :: "load_spec \<Rightarrow> int \<Rightarrow> bool \<Rightarrow> prod_summary list \<Rightarrow> (string \<times> nat) list \<Rightarrow> nat \<Rightarrow> bool" where
  "load_exactly_once sp hosts_reported drained produced per_job dlq_len \<longleftrightarrow>
     hosts_reported = ls_hosts sp \<and> drained \<and> missing_results produced per_job = 0 \<and>
     duplicate_results per_job = 0 \<and> dlq_len = 0"

text \<open>\<^verbatim>\<open>INFO commandstats\<close>: calls and microseconds of each command, before and after.\<close>

record command_cost =
  cc_calls :: int
  cc_usec :: int
  cc_calls_per_job :: rat
  cc_usec_per_job :: rat

definition remove_prefix :: "string \<Rightarrow> string \<Rightarrow> string" where
  "remove_prefix pre s = (if take (length pre) s = pre then drop (length pre) s else s)"

definition cost_of :: "(string \<times> int \<times> int) list \<Rightarrow> int \<Rightarrow> string \<times> int \<times> int \<Rightarrow> command_cost" where
  "cost_of before jobs x =
     (let prev = (case map_of before (fst x) of None \<Rightarrow> (0, 0) | Some p \<Rightarrow> p);
          calls = fst (snd x) - fst prev; usec = snd (snd x) - snd prev
      in \<lparr>cc_calls = calls, cc_usec = usec,
          cc_calls_per_job = (if jobs \<noteq> 0 then round_to 3 (of_int calls / of_int jobs) else 0),
          cc_usec_per_job = (if jobs \<noteq> 0 then round_to 2 (of_int usec / of_int jobs) else 0)\<rparr>)"

definition command_costs :: "(string \<times> int \<times> int) list \<Rightarrow> (string \<times> int \<times> int) list \<Rightarrow> int \<Rightarrow> (string \<times> command_cost) list" where
  "command_costs before after jobs =
     sort_key (\<lambda>kv. - cc_usec (snd kv))
       (fold (\<lambda>x out. if cc_calls (cost_of before jobs x) \<le> 0 then out
                      else AList.update (remove_prefix ''cmdstat_'' (fst x)) (cost_of before jobs x) out) after [])"

section \<open>Hosts and waiting\<close>

definition loadgen_key :: "string \<Rightarrow> string \<Rightarrow> string \<Rightarrow> string" where
  "loadgen_key q run_id name = key_prefix \<lparr>queue = q\<rparr> @ '':loadgen:'' @ run_id @ '':'' @ name"

definition to_local_epoch :: "int \<Rightarrow> rat \<Rightarrow> rat" where
  "to_local_epoch start_redis_ms offset_ms = (of_int start_redis_ms - offset_ms) / 1000"

text \<open>\<^verbatim>\<open>_poll\<close>: each element is what a check returns and the clock read after it when it is empty.\<close>

fun poll_until :: "rat \<Rightarrow> ('a option \<times> rat) list \<Rightarrow> (unit + 'a) option" where
  "poll_until deadline [] = None"
| "poll_until deadline ((v, now) # ps) =
     (case v of Some x \<Rightarrow> Some (Inr x)
      | None \<Rightarrow> if now > deadline then Some (Inl ()) else poll_until deadline ps)"

text \<open>The drain loop of \<^verbatim>\<open>run\<close>: the time since it began and what others do before each look.\<close>

fun drain_wait :: "'s redis_ops \<Rightarrow> keys \<Rightarrow> rat \<Rightarrow> (rat \<times> ('s \<Rightarrow> 's)) list \<Rightarrow> 's \<Rightarrow> ((redis_error + bool) \<times> 's) option" where
  "drain_wait R K limit [] s = None"
| "drain_wait R K limit ((waited, others) # ps) s =
     (if waited < limit then
        (case XLEN R (stream_key K) (others s) of
           (Inl e, s1) \<Rightarrow> Some (Inl e, s1)
         | (Inr n, s1) \<Rightarrow>
             (case ZCARD R (delayed_key K) s1 of
                (Inl e, s2) \<Rightarrow> Some (Inl e, s2)
              | (Inr d, s2) \<Rightarrow> if n + d = 0 then Some (Inr True, s2) else drain_wait R K limit ps s2))
      else Some (Inr False, s))"


text \<open>\<^verbatim>\<open>_wait_for_consumers\<close>: an error reply (no group yet) counts as no consumer.\<close>

fun wait_for_workers :: "'s redis_ops \<Rightarrow> settings \<Rightarrow> int \<Rightarrow> rat \<Rightarrow> (rat \<times> ('s \<Rightarrow> 's)) list \<Rightarrow> 's \<Rightarrow> ((int + int) \<times> 's) option" where
  "wait_for_workers R S expect deadline [] s = None"
| "wait_for_workers R S expect deadline ((now, others) # ps) s =
     (case XINFO_CONSUMERS R (stream_key (keys_of S)) (group S) (others s) of
        (r, s1) \<Rightarrow>
          (let consumers = (case r of Inl _ \<Rightarrow> 0 | Inr cs \<Rightarrow> int (length cs)) in
           if consumers \<ge> expect then Some (Inr consumers, s1)
           else if now > deadline then Some (Inl consumers, s1)
           else wait_for_workers R S expect deadline ps s1))"

section \<open>The padded payload\<close>

lemma esc_pad: "length (dumps (JStr (replicate n (CHR ''x'')))) = length (dumps (JStr [])) + n"
proof -
  have "esc_char (CHR ''x'') = [CHR ''x'']" by code_simp
  then have "concat (map esc_char (replicate n (CHR ''x''))) = replicate n (CHR ''x'')" by (induction n) simp_all
  then show ?thesis by (simp add: quote_def del: map_replicate)
qed

lemma length_commas: "length (commas xs) = sum_list (map length xs) + (length xs - 1)"
  by (induction xs rule: commas.induct) simp_all

text \<open>The length of an object is that of its members; replacing one changes it by the difference.\<close>

definition member_length :: "string \<times> json \<Rightarrow> nat" where
  "member_length p = length (quote (fst p)) + 1 + length (dumps (snd p))"

lemma length_dumps_obj:
  "length (dumps (JObj ps)) = sum_list (map member_length ps) + (length ps - 1) + 2"
  by (simp add: length_commas member_length_def [abs_def] o_def case_prod_unfold add.assoc)

lemma put_last:
  "distinct (map fst ps) \<Longrightarrow> (k, v) \<in> set ps \<Longrightarrow>
   sum_list (map member_length (dict_put ps (k, v'))) + member_length (k, v) =
     sum_list (map member_length ps) + member_length (k, v')"
proof (induction ps)
  case (Cons q ps)
  have same: "map (\<lambda>q. if fst q = k then (k, v') else q) ps = ps" if "k \<notin> fst ` set ps"
    using that by (induction ps) auto
  show ?case
  proof (cases "fst q = k")
    case True
    with Cons.prems have "q = (k, v)" "k \<notin> fst ` set ps" by (auto simp: image_iff)
    with same show ?thesis by (simp add: dict_put_def)
  next
    case False
    with Cons have "sum_list (map member_length (dict_put ps (k, v'))) + member_length (k, v) =
        sum_list (map member_length ps) + member_length (k, v')" by auto
    moreover have "k \<in> fst ` set ps" using Cons.prems False by force
    ultimately show ?thesis using False by (simp add: dict_put_def)
  qed
qed simp

lemma dict_put_keys: "distinct (map fst ps) \<Longrightarrow> distinct (map fst (dict_put ps p))"
proof -
  have "map fst (map (\<lambda>q. if fst q = fst p then p else q) ps) = map fst ps" by (induction ps) auto
  then show "distinct (map fst ps) \<Longrightarrow> distinct (map fst (dict_put ps p))"
    by (simp add: dict_put_def del: map_map)
qed

lemma foldl_put_keys: "distinct (map fst ps) \<Longrightarrow> distinct (map fst (foldl dict_put ps qs))"
  by (induction qs arbitrary: ps) (simp_all add: dict_put_keys)

lemma pad_base_keys: "distinct (map fst (pad_base sp))" "(''pad'', JStr []) \<in> set (pad_base sp)"
  unfolding pad_base_def by (intro dict_put_keys foldl_put_keys) (auto simp: dict_put_def image_iff)

lemma length_put: "k \<in> fst ` set ps \<Longrightarrow> length (dict_put ps (k, v)) = length ps"
  by (simp add: dict_put_def)

lemma make_payload_length:
  "int (length (dumps (JObj (make_payload sp)))) =
     max (int (length (dumps (JObj (pad_base sp))))) (ls_payload_bytes sp)"
proof -
  define n where "n = nat (max 0 (ls_payload_bytes sp - int (length (dumps (JObj (pad_base sp))))))"
  define pad where "pad = JStr (replicate n (CHR ''x''))"
  have mk: "make_payload sp = dict_put (pad_base sp) (''pad'', pad)"
    by (simp add: make_payload_def pad_def n_def Let_def)
  have m: "member_length (''pad'', pad) = member_length (''pad'', JStr []) + n"
    using esc_pad [of n] by (simp only: member_length_def snd_conv fst_conv pad_def)
  have "''pad'' \<in> fst ` set (pad_base sp)" using pad_base_keys(2) [of sp] by force
  then have "length (dumps (JObj (make_payload sp))) = length (dumps (JObj (pad_base sp))) + n"
    using put_last [OF pad_base_keys, of sp pad] unfolding length_dumps_obj mk m by (simp add: length_put)
  then show ?thesis by (simp add: n_def max_def)
qed

section \<open>A call's counts\<close>

lemma loop_inv_count:
  assumes "loop_inv n tot c"
  shows "length (filter (\<lambda>a. a \<noteq> None) (accepted_ids c)) + length (pending_calls c) = n"
proof -
  have "length (filter (\<lambda>a. a \<noteq> None) (accepted_ids c)) = card {i. i < n \<and> accepted_ids c ! i \<noteq> None}"
    using assms by (simp add: length_filter_conv_card loop_inv_def)
  moreover have "length (pending_calls c) = card {i. i < n \<and> accepted_ids c ! i = None}"
  proof -
    have "fst ` set (pending_calls c) = {i. i < n \<and> accepted_ids c ! i = None}"
      using assms by (auto simp: loop_inv_def)
    then show ?thesis using distinct_card [of "map fst (pending_calls c)"] assms by (simp add: loop_inv_def)
  qed
  moreover have "{i. i < n \<and> accepted_ids c ! i \<noteq> None} \<inter> {i. i < n \<and> accepted_ids c ! i = None} = {}"
    "{i. i < n \<and> accepted_ids c ! i \<noteq> None} \<union> {i. i < n \<and> accepted_ids c ! i = None} = {..<n}" by auto
  ultimately show ?thesis
    using card_Un_disjoint [of "{i. i < n \<and> accepted_ids c ! i \<noteq> None}" "{i. i < n \<and> accepted_ids c ! i = None}"] by simp
qed

lemma note_replies_rejected: "pc_rejected (counters (note_replies rs c)) = pc_rejected (counters c)"
proof -
  have "pc_rejected (counters (fold note_reply xs c)) = pc_rejected (counters c)" for xs c
    by (induction xs arbitrary: c) (auto simp: note_reply_def split: prod.splits)
  then show ?thesis by (simp add: note_replies_def)
qed

lemma give_up_rejected:
  assumes "loop_inv n tot c" and "give_up R S d c s = (r, c', s')" and "accepted_in_call r = Inr acc"
  shows "acc \<le> n \<and> pc_rejected (counters c') = pc_rejected (counters c) + (n - acc)"
  using assms(2,3) loop_inv_count [OF assms(1)]
  by (auto simp: give_up_def accepted_in_call_def count_rejected_def count_waiting_def Let_def
      split: if_splits prod.splits sum.splits)

lemma enqueue_loop_rejected:
  assumes "loop_inv n tot c" and "enqueue_loop R S started waited rds c s = Some (r, c', s')"
    and "accepted_in_call r = Inr acc"
  shows "acc \<le> n \<and> pc_rejected (counters c') = pc_rejected (counters c) + (n - acc)"
  using assms
proof (induction R S started waited rds c s arbitrary: r c' s' rule: enqueue_loop.induct)
  case (2 R S started waited rd rds c s)
  obtain x s1 where snd': "send R S (count_as_of S waited) (others_do rd) (map snd (pending_calls c)) s = (x, s1)"
    by fastforce
  show ?case
  proof (cases x)
    case (Inl e)
    with 2 snd' show ?thesis by (auto simp: accepted_in_call_def)
  next
    case (Inr replies)
    let ?c1 = "note_replies replies c"
    let ?c2 = "if \<not> waited \<and> is_block S then count_blocked ?c1 else ?c1"
    have inv: "loop_inv n tot ?c1" "loop_inv n tot ?c2"
      using note_replies_inv [OF "2.prems"(1)] by simp_all
    have rej: "pc_rejected (counters ?c2) = pc_rejected (counters c)"
      by (simp add: count_blocked_def note_replies_rejected)
    show ?thesis
    proof (cases "pending_calls ?c1 = []")
      case True
      with "2.prems"(2,3) snd' Inr loop_inv_done [OF inv(1) True] show ?thesis
        by (auto simp: accepted_in_call_def count_waiting_def note_replies_rejected Let_def split: if_splits)
    next
      case False
      show ?thesis
      proof (cases "\<not> is_block S \<or> checked_at rd \<ge> started + block_timeout S")
        case True
        with "2.prems"(2) snd' Inr False give_up_rejected [OF inv(2) _ "2.prems"(3)] rej
        show ?thesis by (simp add: Let_def)
      next
        case go: False
        with "2.prems"(2) snd' Inr False "2.IH" [OF snd'[symmetric] _ refl False refl go inv(2) _ "2.prems"(3)] rej
        show ?thesis by (simp add: Let_def)
      qed
    qed
  qed
qed simp

lemma enqueue_many_counts:
  assumes run: "enqueue_many R S pc started rounds jobs s = Some (r, pc', s')" and acc: "accepted_in_call r = Inr acc"
  shows "acc \<le> length jobs" and "pc_rejected pc' = pc_rejected pc + (length jobs - acc)"
    and "pc_accepted pc' + pc_duplicates pc' = pc_accepted pc + pc_duplicates pc + acc"
proof -
  have *: "acc \<le> length jobs \<and> pc_rejected pc' = pc_rejected pc + (length jobs - acc)"
  proof (cases "jobs = []")
    case True
    with assms show ?thesis by (auto simp: enqueue_many_def accepted_in_call_def)
  next
    case False
    with run obtain c where e: "enqueue_loop R S started False rounds
        \<lparr>pending_calls = enumerate 0 (map (\<lambda>p. client_args (fst p) (snd p)) jobs),
         accepted_ids = replicate (length jobs) None, full_depth = 0, counters = pc\<rparr> s = Some (r, c, s')"
      and pc: "pc' = counters c" by (auto simp: enqueue_many_def)
    show ?thesis using enqueue_loop_rejected [OF enqueue_start_inv e acc] by (simp add: pc)
  qed
  have "tally pc' = tally pc + length jobs"
    using enqueue_many_end [OF run] acc by (auto simp: end_ok_def accepted_in_call_def split: enqueue_result.splits)
  with * show "acc \<le> length jobs" and "pc_rejected pc' = pc_rejected pc + (length jobs - acc)"
    and "pc_accepted pc' + pc_duplicates pc' = pc_accepted pc + pc_duplicates pc + acc" unfolding tally_def by linarith+
qed

section \<open>The producer's books balance\<close>

definition offered_sum :: "(int \<times> int \<times> int \<times> int) list \<Rightarrow> int" where
  "offered_sum bs = sum_list (map (\<lambda>(k, x, a, r). x) bs)"

definition accepted_sum :: "(int \<times> int \<times> int \<times> int) list \<Rightarrow> int" where
  "accepted_sum bs = sum_list (map (\<lambda>(k, x, a, r). a) bs)"

definition rejected_sum :: "(int \<times> int \<times> int \<times> int) list \<Rightarrow> int" where
  "rejected_sum bs = sum_list (map (\<lambda>(k, x, a, r). r) bs)"

lemma add_second_sums [simp]:
  "offered_sum (add_second k (x, a, r) bs) = offered_sum bs + x"
  "accepted_sum (add_second k (x, a, r) bs) = accepted_sum bs + a"
  "rejected_sum (add_second k (x, a, r) bs) = rejected_sum bs + r"
proof -
  have "offered_sum (add_second k (x, a, r) bs) = offered_sum bs + x \<and>
      accepted_sum (add_second k (x, a, r) bs) = accepted_sum bs + a \<and>
      rejected_sum (add_second k (x, a, r) bs) = rejected_sum bs + r"
    by (induction bs) (auto simp: offered_sum_def accepted_sum_def rejected_sum_def)
  then show "offered_sum (add_second k (x, a, r) bs) = offered_sum bs + x"
    "accepted_sum (add_second k (x, a, r) bs) = accepted_sum bs + a"
    "rejected_sum (add_second k (x, a, r) bs) = rejected_sum bs + r" by simp_all
qed

definition balanced :: "int \<times> int \<times> int \<times> int \<Rightarrow> bool" where
  "balanced b = (case b of (k, x, a, r) \<Rightarrow> x = a + r \<and> 0 \<le> a \<and> 0 \<le> r)"

lemma add_second_balanced:
  "list_all balanced bs \<Longrightarrow> balanced (k, b) \<Longrightarrow> list_all balanced (add_second k b bs)"
  by (induction k b bs rule: add_second.induct) (auto simp: balanced_def)

lemma sum_add_count: "sum_list (map snd (add_count k h)) = Suc (sum_list (map snd h))"
  by (induction h) auto

text \<open>
  The offered jobs stay on schedule, each second's row and their totals agree with the
  client's counters, and each measured call is in one row of the batch sizes.
\<close>

definition books_ok :: "rat \<Rightarrow> int \<Rightarrow> prod_state \<Rightarrow> bool" where
  "books_ok rate total_due p \<longleftrightarrow>
     0 \<le> p_offered p \<and> (0 < rate \<longrightarrow> p_offered p \<le> total_due) \<and> list_all balanced (p_seconds p) \<and>
     offered_sum (p_seconds p) = p_offered p \<and>
     accepted_sum (p_seconds p) = int (pc_accepted (p_counters p) + pc_duplicates (p_counters p)) \<and>
     rejected_sum (p_seconds p) = int (pc_rejected (p_counters p)) \<and>
     length (p_calls p) = sum_list (map snd (p_batches p))"

lemma turn_size_bounds:
  assumes "turn_size sp rate total_due now offered = Some (due, n)" and "0 \<le> ls_batch sp"
  shows "0 \<le> n" and "0 < rate \<Longrightarrow> n \<le> due \<and> offered + due = min (py_trunc (rate * now)) total_due"
  using assms by (auto simp: turn_size_def Let_def split: if_splits)

lemma note_call_ok:
  assumes "books_ok rate total_due p" and t: "turn_size sp rate total_due now (p_offered p) = Some (due, n)"
    and b: "0 \<le> ls_batch sp" and "acc \<le> nat n" and "pc_rejected pc = pc_rejected (p_counters p) + (nat n - acc)"
    and "pc_accepted pc + pc_duplicates pc = pc_accepted (p_counters p) + pc_duplicates (p_counters p) + acc"
  shows "books_ok rate total_due (note_call sp rate due n acc now elapsed pc p)"
proof -
  note n = turn_size_bounds [OF t b]
  have "balanced (py_trunc now, n, int acc, n - int acc)" using n(1) assms(4) by (simp add: balanced_def)
  then have "list_all balanced (add_second (py_trunc now) (n, int acc, n - int acc) (p_seconds p))"
    using assms(1) by (intro add_second_balanced) (auto simp: books_ok_def)
  moreover have "0 < rate \<Longrightarrow> p_offered p + n \<le> total_due" using n(2) by auto
  ultimately show ?thesis
    using assms n(1) by (auto simp: books_ok_def note_call_def sum_add_count Let_def)
qed

lemma produce_turn_ok:
  assumes "books_ok rate total_due p" and "0 \<le> ls_batch sp"
    and "produce_turn R S sp rate total_due t p s = Some (Inr p', s')"
  shows "books_ok rate total_due p'"
proof -
  have waits: "books_ok rate total_due (p\<lparr>p_waits := w\<rparr>)" for w using assms(1) by (simp add: books_ok_def)
  show ?thesis
  proof (cases "turn_size sp rate total_due (pt_now t) (p_offered p)")
    case None
    with assms waits show ?thesis by (auto simp: produce_turn_def split: if_splits prod.splits sum.splits)
  next
    case (Some dn)
    obtain due n where dn: "dn = (due, n)" by fastforce
    let ?jobs = "map (\<lambda>i. (pt_ids t i, \<lparr>nj_type = ls_job_type sp, nj_payload = make_payload sp, nj_key = None\<rparr>)) [0 ..< nat n]"
    from Some dn assms(3) consider (wait) "p' = p\<lparr>p_waits := Suc (p_waits p)\<rparr>"
      | (call) r pc acc s1 s2 where
          "enqueue_many R S (p_counters p) (pt_started t) (pt_rounds t) ?jobs s1 = Some (r, pc, s2)"
          "accepted_in_call r = Inr acc" "p' = note_call sp rate due n acc (pt_now t) (pt_elapsed_ms t) pc p"
      by (auto simp: produce_turn_def Let_def split: if_splits prod.splits sum.splits option.splits)
    then show ?thesis
    proof cases
      case call
      from enqueue_many_counts [OF call(1,2)] have "acc \<le> nat n"
        "pc_rejected pc = pc_rejected (p_counters p) + (nat n - acc)"
        "pc_accepted pc + pc_duplicates pc = pc_accepted (p_counters p) + pc_duplicates (p_counters p) + acc"
        by simp_all
      with note_call_ok [OF assms(1) Some [unfolded dn] assms(2)] show ?thesis by (simp add: call(3))
    qed (simp add: waits)
  qed
qed

lemma produce_loop_ok:
  assumes "books_ok rate total_due p" and "0 \<le> ls_batch sp"
    and "produce_loop R S sp rate total_due ts p s = Some (Inr p', s')"
  shows "books_ok rate total_due p'"
  using assms
  by (induction R S sp rate total_due ts p s rule: produce_loop.induct)
    (auto split: if_splits option.splits prod.splits sum.splits dest: produce_turn_ok)


lemma fresh_books: "0 \<le> total_due \<Longrightarrow> books_ok rate total_due fresh_producer"
  by (simp add: books_ok_def fresh_producer_def no_counters_def offered_sum_def accepted_sum_def rejected_sum_def)

text \<open>A call of the whole backlog leaves the producer exactly on schedule.\<close>

lemma caught_up:
  assumes "turn_size sp rate total_due now (p_offered p) = Some (due, due)" and "0 < rate"
  shows "p_offered (note_call sp rate due due acc now elapsed pc p) = min (py_trunc (rate * now)) total_due"
  using assms by (auto simp: turn_size_def note_call_def Let_def split: if_splits)

section \<open>The results read\<close>

lemma note_results_append:
  "note_results w (xs @ ys) rr = (case note_results w xs rr of Inl e \<Rightarrow> Inl e | Inr rr' \<Rightarrow> note_results w ys rr')"
  by (induction xs arbitrary: rr) (auto split: sum.splits)

context redis_service
begin

lemma results_from_reads:
  assumes ok: "stream_ok k v" and g: "stream_grows k v" and "view s = v"
  shows "\<exists>s'. results_from R k w cursor rr s = Some (note_results w (rest_of (After cursor) (s_entries (get_stream k v))) rr, s') \<and>
    (view s' = v)"
  using assms(3)
proof (induction "length (rest_of (After cursor) (s_entries (get_stream k v)))" arbitrary: cursor rr s rule: less_induct)
  case less
  let ?es = "s_entries (get_stream k v)"
  let ?rest = "rest_of (After cursor) ?es"
  let ?page = "take results_page ?rest"
  obtain r s1 where run: "XRANGE R k (After cursor) None (Some results_page) s = (r, s1)" by fastforce
  have "d_xrange k (After cursor) None (Some results_page) v = (Inr ?page, v)"
    using ok by (simp add: d_xrange_def take_opt_def below_def rest_of_def)
  then have r: "r = Inr ?page" "view s1 = v" using refinesD [OF XRANGE_doc run] less.prems by auto
  show ?case
  proof (cases "?page = []")
    case True
    then have "?rest = []" by (simp add: results_page_def)
    with r run show ?thesis by (subst results_from.simps) simp
  next
    case False
    note rest = rest_after_page [OF g [unfolded stream_grows_def] False]
    have split: "note_results w ?rest rr =
        (case note_results w ?page rr of Inl e \<Rightarrow> Inl e | Inr rr' \<Rightarrow> note_results w (drop results_page ?rest) rr')"
      using note_results_append [of w ?page "drop results_page ?rest" rr] by simp
    show ?thesis
    proof (cases "note_results w ?page rr")
      case (Inl e)
      with False r run split show ?thesis by (subst results_from.simps) simp
    next
      case (Inr rr')
      have "length (rest_of (After (fst (last ?page))) ?es) < length ?rest"
        unfolding rest using False by (simp add: results_page_def)
      from less.hyps [OF this r(2), of rr'] obtain s' where
        "results_from R k w (fst (last ?page)) rr' s1 = Some (note_results w (drop results_page ?rest) rr', s')"
        "view s' = v" unfolding rest by auto
      with Inr False r run split show ?thesis by (subst results_from.simps) simp
    qed
  qed
qed

text \<open>The wait that says drained has seen an empty stream and an empty delayed set.\<close>

lemma drain_wait_true:
  assumes "drain_wait R K limit ps s = Some (Inr True, s')"
  shows "s_entries (get_stream (stream_key K) (view s')) = [] \<and> get_zset (delayed_key K) (view s') = []"
  using assms
proof (induction ps arbitrary: s)
  case (Cons p ps)
  obtain waited others where p: "p = (waited, others)" by fastforce
  obtain r s1 where x: "XLEN R (stream_key K) (others s) = (r, s1)" by fastforce
  obtain q s2 where z: "ZCARD R (delayed_key K) s1 = (q, s2)" by fastforce
  note docs = refinesD [OF XLEN_doc x, unfolded d_xlen_def] refinesD [OF ZCARD_doc z, unfolded d_zcard_def]
  from Cons.prems p x z obtain n d where "r = Inr n" "q = Inr d"
    and "(n + d = 0 \<and> s' = s2) \<or> drain_wait R K limit ps s2 = Some (Inr True, s')"
    by (auto split: if_splits sum.splits)
  then show ?case using docs Cons.IH [of s2] by (auto split: if_splits)
qed simp

end

section \<open>The exactly-once check\<close>

lemma add_count_keys:
  "fst ` set (add_count k h) = insert k (fst ` set h)" "distinct (map fst h) \<Longrightarrow> distinct (map fst (add_count k h))"
proof -
  show a: "fst ` set (add_count k h) = insert k (fst ` set h)" for h
  proof (induction h)
    case (Cons x h)
    then show ?case by (cases x) (simp add: insert_commute)
  qed simp
  show "distinct (map fst h) \<Longrightarrow> distinct (map fst (add_count k h))"
  proof (induction h)
    case (Cons x h)
    then show ?case using a [of h] by (cases x) (auto simp: image_iff)
  qed simp
qed

lemma fold_add_count:
  "fst ` set (fold add_count js h) = set js \<union> fst ` set h"
  "distinct (map fst h) \<Longrightarrow> distinct (map fst (fold add_count js h))"
  "sum_list (map snd (fold add_count js h)) = length js + sum_list (map snd h)"
  by (induction js arbitrary: h) (auto simp: add_count_keys sum_add_count)

lemma count_positive: "\<forall>x \<in> set h. 0 < snd x \<Longrightarrow> \<forall>x \<in> set (fold add_count js h). 0 < snd x"
proof (induction js arbitrary: h)
  case (Cons j js)
  have "\<forall>x \<in> set h. 0 < snd x \<Longrightarrow> \<forall>x \<in> set (add_count j h). 0 < snd x"
  proof (induction h)
    case (Cons x h)
    then show ?case by (cases x) simp
  qed simp
  with Cons show ?case by simp
qed simp

lemma duplicate_results_sum:
  "\<forall>x \<in> set h. 0 < snd x \<Longrightarrow> duplicate_results h + length h = sum_list (map snd h)"
  unfolding duplicate_results_def by (induction h) auto

text \<open>\<open>js\<close> are the job ids of the entries read, in order.\<close>

lemma per_job_counts:
  fixes js :: "string list"
  shows "length (fold add_count js []) = card (set js)"
    and "duplicate_results (fold add_count js []) = 0 \<longleftrightarrow> distinct js"
proof -
  let ?h = "fold add_count js ([] :: (string \<times> nat) list)"
  have "distinct (map fst ?h)" by (rule fold_add_count(2)) simp
  from distinct_card [OF this] show l: "length ?h = card (set js)" using fold_add_count(1) [of js "[]"] by simp
  have "duplicate_results ?h + length ?h = length js"
    using duplicate_results_sum [OF count_positive, of "[]" js] fold_add_count(3) [of js "[] :: (string \<times> nat) list"] by simp
  then have "duplicate_results ?h = 0 \<longleftrightarrow> card (set js) = length js" using l by linarith
  then show "duplicate_results ?h = 0 \<longleftrightarrow> distinct js" by (auto simp: distinct_card dest: card_distinct)
qed

lemma note_results_jobs:
  "note_results w es rr = Inr rr' \<Longrightarrow> rr_per_job rr' = fold add_count (map (\<lambda>e. the (dict_get (snd e) ''job_id'')) es) (rr_per_job rr)"
  by (induction es arbitrary: rr)
    (auto simp: note_result_def field_of_def Let_def split: sum.splits option.splits if_splits)

section \<open>Command costs\<close>

lemma update_fresh: "k \<notin> fst ` set xs \<Longrightarrow> AList.update k v xs = xs @ [(k, v)]"
  by (induction xs) auto

lemma command_costs_of:
  assumes "distinct (map (\<lambda>x. remove_prefix ''cmdstat_'' (fst x)) after)"
  shows "mset (command_costs before after jobs) =
      mset (map (\<lambda>x. (remove_prefix ''cmdstat_'' (fst x), cost_of before jobs x))
        (filter (\<lambda>x. 0 < cc_calls (cost_of before jobs x)) after))"
    and "sorted_wrt (\<lambda>x y. cc_usec (snd y) \<le> cc_usec (snd x)) (command_costs before after jobs)"
proof -
  define name where "name = (\<lambda>x :: string \<times> int \<times> int. remove_prefix ''cmdstat_'' (fst x))"
  define f where "f = (\<lambda>x out. if cc_calls (cost_of before jobs x) \<le> 0 then out
      else AList.update (name x) (cost_of before jobs x) out)"
  have "fold f xs out = out @ map (\<lambda>x. (name x, cost_of before jobs x)) (filter (\<lambda>x. 0 < cc_calls (cost_of before jobs x)) xs)"
    if "distinct (map name xs)" "set (map name xs) \<inter> fst ` set out = {}" for xs out
    using that
  proof (induction xs arbitrary: out)
    case (Cons x xs)
    show ?case
    proof (cases "0 < cc_calls (cost_of before jobs x)")
      case True
      have "f x out = out @ [(name x, cost_of before jobs x)]"
        using True Cons.prems(2) by (simp add: f_def update_fresh)
      moreover have "set (map name xs) \<inter> fst ` set (out @ [(name x, cost_of before jobs x)]) = {}"
        using Cons.prems by auto
      ultimately show ?thesis using Cons True by simp
    qed (use Cons in \<open>auto simp: f_def\<close>)
  qed simp
  from this [of after "[]"] assms have "command_costs before after jobs = sort_key (\<lambda>kv. - cc_usec (snd kv))
      (map (\<lambda>x. (name x, cost_of before jobs x)) (filter (\<lambda>x. 0 < cc_calls (cost_of before jobs x)) after))"
    by (simp add: command_costs_def f_def name_def cong: if_cong)
  then show "mset (command_costs before after jobs) = mset (map (\<lambda>x. (remove_prefix ''cmdstat_'' (fst x), cost_of before jobs x))
        (filter (\<lambda>x. 0 < cc_calls (cost_of before jobs x)) after))"
    by (simp add: name_def)
  have "sorted (map (\<lambda>kv. - cc_usec (snd kv)) (command_costs before after jobs))"
    unfolding command_costs_def by (rule sorted_sort_key)
  then show "sorted_wrt (\<lambda>x y. cc_usec (snd y) \<le> cc_usec (snd x)) (command_costs before after jobs)"
    by (simp add: sorted_wrt_map)
qed

end
