(* ===== verification/Example_Chaos.thy ===== *)
theory Example_Chaos
  imports Example_Run Chaos_Run Bench_Loadgen
begin

text \<open>
  A generator that meets what is documented of Python's, and the finished run of \<open>Example_Run\<close> as
  the chaos verifier reads it: one accepted job of kind normal, whose effect was never applied.
\<close>

definition demo_rng :: "unit rng" where
  "demo_rng = \<lparr>randint = (\<lambda>a b g. (a, g)), uniform = (\<lambda>a b g. (b, g)), permutation = (\<lambda>n g. (rev [0 ..< n], g)),
     pick_below = (\<lambda>n g. (0, g)), weighted = (\<lambda>ws g. (0, g))\<rparr>"

lemma demo_rng_ok: "rng_ok demo_rng"
  by (auto simp: rng_ok_def demo_rng_def)

definition demo_accepted :: accepted where
  "demo_accepted = [(''01'', ''normal'')]"

definition demo_evidence :: evidence where
  "demo_evidence = \<lparr>ev_states = states_read (qview demo_settings (server demo_done)) demo_accepted,
     ev_results = [''01''], ev_effects = [], ev_dlq = [],
     ev_counters = (\<lambda>n. if n \<in> set counter_names then cnt (qview demo_settings (server demo_done)) n else 0),
     ev_stream = 0, ev_pel = 0, ev_delayed = 0\<rparr>"

lemma demo_evidence_of: "evidence_of (qview demo_settings (server demo_done)) demo_accepted = Inr demo_evidence"
  by (simp add: evidence_of_def demo_done_view demo_evidence_def need_def dict_get_Cons)

lemma demo_logs_grow: "logs_grow demo_settings (server demo_done)"
proof -
  let ?q = "qview demo_settings (server demo_done)" and ?K = "keys_of demo_settings"
  have "length (reslog ?q) = 1" "length (efflog ?q) = 0" "length (dlq ?q) = 0" by (simp_all add: demo_done_view)
  then have "length (s_entries (get_stream (results_key ?K) (server demo_done))) = 1"
    "s_entries (get_stream (effects_key ?K) (server demo_done)) = []"
    "s_entries (get_stream (dead_key ?K) (server demo_done)) = []"
    by (simp_all add: qview_def Let_def)
  then show ?thesis
    by (auto simp: logs_grow_def stream_grows_def length_Suc_conv Let_def)
qed

definition demo_kind :: kind where
  "demo_kind = hd kinds"

lemma demo_kind_of: "kinds_of demo_accepted = Inr [(''01'', demo_kind)]" "k_effect demo_kind = Some ''send_email''"
  "k_expect demo_kind = ''SUCCEEDED''"
  by (simp_all add: demo_accepted_def demo_kind_def kinds_def by_name_def)

lemma demo_state: "ev_states demo_evidence ''01'' = ''SUCCEEDED''"
  by (simp add: demo_evidence_def states_read_def demo_accepted_def demo_done_view)

lemma demo_no_dlq: "ev_dlq demo_evidence = []" "entries_for demo_evidence j = []" "grouped_dlq demo_evidence = []"
  by (simp_all add: demo_evidence_def entries_for_def grouped_dlq_def)

lemma demo_judged: "\<exists>cs. judge 5 10 demo_evidence None [] demo_accepted = Inr cs"
  by (simp add: judge_def demo_kind_of i3_check_def i3_job_def demo_no_dlq crashy_deliveries_def)

section \<open>A producer that has nothing due\<close>

definition demo_turn :: "rat \<Rightarrow> rdb prod_turn" where
  "demo_turn now = \<lparr>pt_now = now, pt_others = (\<lambda>s. s), pt_ids = (\<lambda>i. str_nat i), pt_started = now, pt_rounds = [],
     pt_elapsed_ms = 1\<rparr>"

lemma demo_load_settings: "\<exists>S. load_settings ((load_defaults ''redis://localhost'')\<lparr>ls_rate := 10\<rparr>) = Inr S"
proof -
  have "queue_name_ok ''bench''" by code_simp
  then show ?thesis
    unfolding load_settings_def make_settings_Inr
    by (auto simp: load_defaults_def default_settings_def field_constraints_def ttl_margin_def job_lifetime_bound_def
        lifetime_bound_def)
qed

lemma demo_load:
  "\<exists>ps s'. load_produce json_redis ((load_defaults ''redis://localhost'')\<lparr>ls_rate := 10\<rparr>) [demo_turn 0, demo_turn 45]
     (server demo_start) = Some (Inr ps, s')"
proof -
  obtain S where "load_settings ((load_defaults ''redis://localhost'')\<lparr>ls_rate := 10\<rparr>) = Inr S"
    using demo_load_settings by blast
  then show ?thesis
    by (simp add: load_produce_def producer_rate_def demo_turn_def produce_turn_def turn_size_def fresh_producer_def
        load_duration_def load_defaults_def prod_summary_of_def histogram_def py_trunc_def enqueue_bucket_ms_def)
qed

end
