(* ===== verification/Worker_Loops.thy ===== *)
theory Worker_Loops
  imports Worker_Node
begin

text \<open>
  \<^verbatim>\<open>src/ftq/worker.py\<close>, the loops beside the fetch loop: the start-up that waits for Redis, the
  heartbeat of one job, and the maintenance loop. Each takes what happens outside as a list,
  one element per iteration: whether Redis can be reached and what other clients did to the
  server meanwhile. A list that runs out is a loop still going (or cancelled).
\<close>

section \<open>Connecting\<close>

datatype attempt = StopRequested | Unreachable | Reachable

fun connect :: "'s redis_ops \<Rightarrow> settings \<Rightarrow> attempt list \<Rightarrow> 's \<Rightarrow> (redis_error + bool) option \<times> 's" where
  "connect R S [] s = (None, s)"
| "connect R S (StopRequested # _) s = (Some (Inr False), s)"
| "connect R S (Unreachable # as) s = connect R S as s"
| "connect R S (Reachable # _) s =
     (case ensure_group R S s of
        (Inl e, s') \<Rightarrow> (Some (Inl e), s')
      | (Inr _, s') \<Rightarrow> (Some (Inr True), s'))"

lemma connect_waits:
  "connect R S (replicate n Unreachable @ as) s = connect R S as s"
  by (induction n) auto

section \<open>Heartbeats\<close>

datatype beat_end = Beating | LostLease

fun heartbeat_loop :: "'s redis_ops \<Rightarrow> settings \<Rightarrow> string \<Rightarrow> eid \<Rightarrow> (bool \<times> ('s \<Rightarrow> 's)) list \<Rightarrow> 's
    \<Rightarrow> beat_end \<times> 's" where
  "heartbeat_loop R S w i [] s = (Beating, s)"
| "heartbeat_loop R S w i ((up, others) # evs) s =
     (if up then
        (case heartbeat R S w i (others s) of
           (Inl e, s') \<Rightarrow> heartbeat_loop R S w i evs s'
         | (Inr out, s') \<Rightarrow>
             if out = LEASE_LOST then (LostLease, s') else heartbeat_loop R S w i evs s')
      else heartbeat_loop R S w i evs (others s))"

section \<open>Maintenance\<close>

text \<open>
  One pass: the number of retries moved and the time of the next prune. \<open>up1\<close> and \<open>up2\<close> say
  whether the two calls reach Redis; a failed call ends the pass, never the loop.
\<close>

definition maintenance_pass :: "'s redis_ops \<Rightarrow> settings \<Rightarrow> string \<Rightarrow> bool \<Rightarrow> bool \<Rightarrow> rat \<Rightarrow> rat \<Rightarrow> 's
    \<Rightarrow> (nat \<times> rat) \<times> 's" where
  "maintenance_pass R S w up1 up2 now next_prune s =
     (if \<not> up1 then ((0, next_prune), s)
      else (case move_due R S s of
              (Inl e, s1) \<Rightarrow> ((0, next_prune), s1)
            | (Inr moved, s1) \<Rightarrow>
                (if now \<ge> next_prune then
                   (let next = now + consumer_prune_interval S in
                    if up2 then ((moved, next), snd (prune_consumers R S w s1))
                    else ((moved, next), s1))
                 else ((moved, next_prune), s1))))"

definition sleeps :: "settings \<Rightarrow> nat \<Rightarrow> bool" where
  "sleeps S moved \<longleftrightarrow> int moved < scheduler_batch S"

text \<open>The passes up to the next sleep, at most \<open>n\<close> of them.\<close>

fun maintain :: "nat \<Rightarrow> 's redis_ops \<Rightarrow> settings \<Rightarrow> string \<Rightarrow> rat \<Rightarrow> rat \<Rightarrow> 's \<Rightarrow> (rat \<times> 's) option" where
  "maintain 0 R S w now next_prune s = None"
| "maintain (Suc n) R S w now next_prune s =
     (case maintenance_pass R S w True True now next_prune s of
        ((moved, next), s') \<Rightarrow>
          if sleeps S moved then Some (next, s') else maintain n R S w now next s')"

section \<open>A lease that was just renewed\<close>

lemma autoclaim_fresh:
  assumes "autoclaim c t mi es a n pel = (out, cl, del, rest)" and "distinct (map fst pel)"
    and "map_of pel i = Some p" and "map_of es i \<noteq> None" and "t - p_time p < mi"
  shows "map_of out i = Some p \<and> i \<notin> fst ` set cl"
  using assms
proof (induction c t mi es a n pel arbitrary: out cl del rest rule: autoclaim.induct)
  case (4 c t mi es a n j p' pel)
  obtain o1 c1 d1 r1 where 1: "autoclaim c t mi es a n pel = (o1, c1, d1, r1)" by (metis prod_cases4)
  obtain o2 c2 d2 r2 where 2: "autoclaim c t mi es a (Suc n) pel = (o2, c2, d2, r2)" by (metis prod_cases4)
  have sub1: "fst ` set o1 \<subseteq> fst ` set pel" "fst ` set c1 \<subseteq> fst ` set o1"
    using autoclaim_subset [OF 1] autoclaim_claimed [OF 1] by auto
  have sub2: "fst ` set c2 \<subseteq> fst ` set pel"
    using autoclaim_claimed [OF 2, THEN conjunct1] autoclaim_subset [OF 2] by (rule subset_trans)
  show ?case
  proof (cases "map_of es j")
    case None
    with "4.prems" 1 have "j \<noteq> i" "out = o1" "cl = c1" by auto
    with "4.IH"(1) [OF None 1] "4.prems" show ?thesis by simp
  next
    case (Some fs)
    show ?thesis
    proof (cases "t - p_time p' < mi")
      case True
      with Some "4.prems"(1) 2 have o: "out = (j, p') # o2" "cl = c2" by simp_all
      show ?thesis
      proof (cases "j = i")
        case True
        with "4.prems"(2,3) sub2 o show ?thesis by auto
      next
        case False
        with "4.IH"(2) [OF Some True 2] "4.prems" o show ?thesis by simp
      qed
    next
      case False
      with Some "4.prems"(1) 1 have o: "out = (j, \<lparr>p_owner = c, p_time = t, p_count = Suc (p_count p')\<rparr>) # o1"
        "cl = (j, fs) # c1" by simp_all
      have "j \<noteq> i" using False "4.prems"(3,5) by auto
      with "4.IH"(3) [OF Some False 1] "4.prems" o show ?thesis by simp
    qed
  qed
qed auto

lemma map_of_set_pent: "i \<noteq> j \<Longrightarrow> map_of (set_pent j p pel) i = map_of pel i"
  by (induction pel) (auto simp: set_pent_def)

lemma q_reclaims_others:
  assumes "i \<notin> fst ` set cl"
  shows "map_of (pend (snd (q_reclaims S w acc cl q))) i = map_of (pend q) i"
    and "i \<in> c_entry_id ` set (snd (fst (q_reclaims S w acc cl q))) \<Longrightarrow> i \<in> c_entry_id ` set (snd acc)"
proof -
  have "map_of (pend (snd (q_reclaims S w acc cl q))) i = map_of (pend q) i \<and>
    (i \<in> c_entry_id ` set (snd (fst (q_reclaims S w acc cl q))) \<longrightarrow> i \<in> c_entry_id ` set (snd acc))"
    using assms
  proof (induction S w acc cl q rule: q_reclaims.induct)
    case (2 S w slots out j fs es q)
    have "map_of (g_pel (claim_group w j a b q)) i = map_of (pend q) i" for a b
      using "2.prems" by (auto simp: claim_group_def map_of_set_pent map_of_filter_neq Let_def split: option.split)
    with 2 show ?case by (auto simp: Let_def)
  qed simp
  then show "map_of (pend (snd (q_reclaims S w acc cl q))) i = map_of (pend q) i"
    "i \<in> c_entry_id ` set (snd (fst (q_reclaims S w acc cl q))) \<Longrightarrow> i \<in> c_entry_id ` set (snd acc)" by auto
qed

lemma q_reclaim_fresh:
  assumes d: "delivery_inv q" and p: "map_of (pend q) i = Some p"
    and fresh: "int (qnow q) - p_time p < py_trunc (visibility_timeout S * 1000)"
  shows "map_of (pend (snd (q_reclaim S w cur n slots q))) i = Some p"
    and "i \<notin> c_entry_id ` set (fst (fst (q_reclaim S w cur n slots q)))"
proof -
  let ?mi = "py_trunc (visibility_timeout S * 1000)"
  obtain cur' cl del g where a: "auto_group w ?mi cur n q = ((cur', cl, del), g)" by (metis prod.collapse)
  obtain out rest where au: "autoclaim w (int (qnow q)) ?mi (ents q) (10 * n) n
      (filter (\<lambda>p. cur \<le> fst p) (pend q)) = (out, cl, del, rest)"
    and g: "g_pel g = filter (\<lambda>p. fst p < cur) (pend q) @ out"
    using a by (auto simp: auto_group_def Let_def split: prod.splits)
  have dist: "distinct (map fst (pend q))" using d by (simp add: delivery_inv_def window_def)
  have "owns q (p_owner p) i" using p by (simp add: owns_def)
  with d have es: "map_of (ents q) i \<noteq> None" using pel_okD [OF delivery_pel_ok] by blast
  have cl: "fst ` set cl \<subseteq> fst ` set (filter (\<lambda>p. cur \<le> fst p) (pend q))"
    using autoclaim_claimed [OF au, THEN conjunct1] autoclaim_subset [OF au] by (rule subset_trans)
  note before = map_of_filter_key [of "\<lambda>k. k < cur"] and scan = map_of_filter_key [of "\<lambda>k. cur \<le> k"]
  have here: "map_of (g_pel g) i = Some p \<and> i \<notin> fst ` set cl"
  proof (cases "cur \<le> i")
    case True
    have "map_of out i = Some p \<and> i \<notin> fst ` set cl"
      by (rule autoclaim_fresh [OF au _ _ es fresh])
        (use dist p True in \<open>simp_all add: scan distinct_map_filter\<close>)
    moreover from True have "\<not> i < cur" by (rule leD)
    ultimately show ?thesis by (simp add: g map_add_def before)
  next
    case False
    have "map_of out i = None"
      using autoclaim_subset [OF au] False by (fastforce simp: map_of_eq_None_iff)
    moreover have "i \<notin> fst ` set cl" using cl False by fastforce
    moreover from False have "i < cur" by (rule not_le_imp_less)
    ultimately show ?thesis using p by (simp add: g map_add_def before)
  qed
  obtain sl cs q2 where r: "q_reclaims S w (slots, []) cl (q\<lparr>grp := g\<rparr>) = ((sl, cs), q2)"
    by (metis prod.collapse)
  from here q_reclaims_others [of i cl S w "(slots, [])" "q\<lparr>grp := g\<rparr>"] r
  have "map_of (pend q2) i = Some p" "i \<notin> c_entry_id ` set cs" by auto
  with r a show "map_of (pend (snd (q_reclaim S w cur n slots q))) i = Some p"
    "i \<notin> c_entry_id ` set (fst (fst (q_reclaim S w cur n slots q)))"
    by (auto simp: q_reclaim_def q_count_def)
qed


lemma map_of_set_pent_self: "map_of pel i = Some p \<Longrightarrow> map_of (set_pent i x pel) i = Some x"
  by (induction pel) (auto simp: set_pent_def)

lemma q_heartbeat_fresh:
  assumes "fst (q_heartbeat w i q) = OK" and "pel_ok q"
  shows "\<exists>p. map_of (pend (snd (q_heartbeat w i q))) i = Some p \<and> p_owner p = w \<and> p_time p = int (qnow q)"
proof -
  from assms(1) have o: "owns q w i" by (auto simp: q_heartbeat_def split: if_splits)
  then obtain p where p: "map_of (pend q) i = Some p" by (auto simp: owns_def)
  moreover from pel_okD [OF assms(2) o] have "i \<in> fst ` set (ents q)" by (auto dest: map_of_SomeD intro: rev_image_eqI)
  ultimately show ?thesis using o p map_of_set_pent_self [OF p] by (simp add: q_heartbeat_def q_count_def claim_group_def Let_def)
qed

lemma ms_of_tick:
  assumes "d_tick d v = (r, v')" and "int d \<le> 1000 * (L - 1)"
  shows "int (ms_of v') - int (ms_of v) < L"
proof -
  have "ms_of v' = (clock v + d) div 1000" using assms(1) by (auto simp: d_tick_def ms_of_def Let_def)
  moreover have "(clock v + d) div 1000 \<le> (clock v + (d + 999) div 1000 * 1000) div 1000"
    by (rule div_le_mono) linarith
  moreover have "(clock v + (d + 999) div 1000 * 1000) div 1000 = clock v div 1000 + (d + 999) div 1000" by simp
  have "int (d + 999) div 1000 \<le> (999 + (L - 1) * 1000) div 1000"
    using assms(2) by (intro zdiv_mono1) simp_all
  then have "int (d + 999) div 1000 < L" by simp
  moreover from this have "int ((d + 999) div 1000) < L" by (simp only: of_nat_div of_nat_numeral)
  ultimately show ?thesis by (simp add: ms_of_def)
qed

context queue_forever
begin

lemma renewed_lease:
  assumes z: "sys_inv R view S z" and hb: "heartbeat R S w i (server z) = (Inr OK, s1)"
    and tk: "TICK R d s1 = (r, s2)" and d: "int d \<le> 1000 * (py_trunc (visibility_timeout S * 1000) - 1)"
    and rc: "reclaim R S w' cur n slots s2 = (Inr (cs, b, c), s3)"
  shows "i \<notin> c_entry_id ` set cs" and "owns (qview S (view s3)) w i"
proof -
  let ?q1 = "qview S (view s1)" and ?q2 = "qview S (view s2)"
  note h = run_spec [OF implements_heartbeat heartbeat_api_doc sys_invD(1) [OF z] _ hb, simplified]
  have z1: "sys_inv R view S (z\<lparr>server := s1\<rparr>)" using step_inv [OF z step.beat [OF hb]] .
  have z2: "sys_inv R view S (z\<lparr>server := s2\<rparr>)" using tick_inv [OF z1, of d r s2] tk by simp
  note t1 = sys_invD(1) [OF z1, simplified] and t2 = sys_invD(1) [OF z2, simplified]
  obtain p where p: "map_of (pend ?q1) i = Some p" "p_owner p = w" "p_time p = int (qnow (q_of z))"
    using q_heartbeat_fresh [OF _ sys_invD(5) [OF z], of w i] h by auto
  have q1: "qnow ?q1 = qnow (q_of z)" using h(3) by (simp add: q_heartbeat_def q_count_def split: if_splits)
  from refinesD [OF TICK_doc tk] have dt: "d_tick d (view s1) = (r, view s2)" .
  with exec_tick [OF t1 typed_kept [OF t1 no_ttl] lessI, where d = d] have g: "grp ?q2 = grp ?q1" by auto
  have fresh: "int (qnow ?q2) - p_time p < py_trunc (visibility_timeout S * 1000)"
    using ms_of_tick [OF dt d] p(3) q1 by (simp add: qview_def Let_def)
  note rs = run_spec [OF implements_reclaim reclaim_api_doc t2 _ rc, simplified]
  note f = q_reclaim_fresh [OF sys_invD(4) [OF z2, simplified] _ fresh, of i w' cur n slots]
  show "i \<notin> c_entry_id ` set cs" using f(2) p(1) g rs(1) by (metis fst_conv)
  show "owns (qview S (view s3)) w i" using f(1) p g rs(3) by (simp add: owns_def)
qed

end


section \<open>All due retries are moved before the loop sleeps\<close>

definition all_due :: "qstate \<Rightarrow> string list" where
  "all_due q = map fst (filter (\<lambda>p. snd p \<le> int (qnow q)) (dlyd q))"

lemma fold_move_frame:
  "dlyd (fold (q_move dec) ms q) = filter (\<lambda>p. fst p \<notin> set ms) (dlyd q)"
  "qnow (fold (q_move dec) ms q) = qnow q"
proof -
  have "dlyd (fold (q_move dec) ms q) = filter (\<lambda>p. fst p \<notin> set ms) (dlyd q) \<and>
      qnow (fold (q_move dec) ms q) = qnow q"
    by (induction ms arbitrary: q) (auto simp: q_move_def q_add_def Let_def intro: filter_cong)
  then show "dlyd (fold (q_move dec) ms q) = filter (\<lambda>p. fst p \<notin> set ms) (dlyd q)"
    "qnow (fold (q_move dec) ms q) = qnow q" by simp_all
qed

lemma filter_taken: "distinct xs \<Longrightarrow> filter (\<lambda>x. x \<notin> set (take n xs)) xs = drop n xs"
proof -
  assume "distinct xs"
  then have d: "set (take n xs) \<inter> set (drop n xs) = {}" by (simp add: set_take_disj_set_drop_if_distinct)
  have "filter (\<lambda>x. x \<notin> set (take n xs)) (take n xs @ drop n xs) = drop n xs"
    using d by (simp only: filter_append) (auto simp: filter_id_conv filter_empty_conv)
  then show ?thesis by simp
qed

lemma all_due_schedule:
  assumes "distinct (map fst (dlyd q))"
  shows "all_due (snd (q_schedule dec n q)) = drop n (all_due q)"
    and "dlyd (snd (q_schedule dec n q)) = filter (\<lambda>p. fst p \<notin> set (due_members n q)) (dlyd q)"
    and "qnow (snd (q_schedule dec n q)) = qnow q"
proof -
  show d: "dlyd (snd (q_schedule dec n q)) = filter (\<lambda>p. fst p \<notin> set (due_members n q)) (dlyd q)"
    and t: "qnow (snd (q_schedule dec n q)) = qnow q"
    by (auto simp: q_schedule_def q_count_def Let_def fold_move_frame)
  have "all_due (snd (q_schedule dec n q)) = filter (\<lambda>m. m \<notin> set (due_members n q)) (all_due q)"
    unfolding all_due_def d t by (simp add: filter_map comp_def conj_commute)
  also have "\<dots> = drop n (all_due q)"
    using filter_taken [of "all_due q" n] assms
    by (simp add: due_members_def all_due_def distinct_map_filter)
  finally show "all_due (snd (q_schedule dec n q)) = drop n (all_due q)" .
qed

context queue_service
begin

lemma maintenance_pass_spec:
  assumes t: "typed S (view s)" and d: "delayed_ok (cjson_decode R) (qview S (view s))"
    and dist: "distinct (map fst (dlyd (qview S (view s))))"
    and run: "maintenance_pass R S w True True now np s = ((moved, next), s')"
  shows "typed S (view s')" and "delayed_ok (cjson_decode R) (qview S (view s'))"
    and "distinct (map fst (dlyd (qview S (view s'))))"
    and "moved = min (length (all_due (qview S (view s)))) (nat (scheduler_batch S))"
    and "all_due (qview S (view s')) = drop (nat (scheduler_batch S)) (all_due (qview S (view s)))"
    and "next = (if now \<ge> np then now + consumer_prune_interval S else np)"
proof -
  let ?n = "nat (scheduler_batch S)" and ?q = "qview S (view s)"
  obtain r s1 where m: "move_due R S s = (r, s1)" by fastforce
  note ms = run_spec [OF implements_schedule move_due_doc t d m]
  obtain r2 s2 where pr: "prune_consumers R S w s1 = (r2, s2)" by fastforce
  note ps = run_spec [OF implements_prune prune_api_doc ms(2) _ pr, simplified]
  let ?q1 = "qview S (view s1)"
  have q2: "dlyd (qview S (view s2)) = dlyd ?q1" "qnow (qview S (view s2)) = qnow ?q1"
    using ps(3) by (simp_all add: q_prune_def q_count_def Let_def)
  have s': "s' = s1 \<or> s' = s2" and moved: "moved = length (due_members ?n ?q)"
    and "next = (if now \<ge> np then now + consumer_prune_interval S else np)"
    using run ms(1) by (auto simp: maintenance_pass_def m pr q_schedule_def Let_def split: if_splits)
  then show "next = (if now \<ge> np then now + consumer_prune_interval S else np)" by simp
  note f = all_due_schedule [OF dist, of "cjson_decode R" ?n, folded ms(3)]
  have same: "dlyd (qview S (view s')) = dlyd ?q1" "qnow (qview S (view s')) = qnow ?q1" using s' q2 by auto
  show "typed S (view s')" using s' ms(2) ps(2) by auto
  show "moved = min (length (all_due ?q)) ?n" using moved by (simp add: due_members_def all_due_def)
  show "all_due (qview S (view s')) = drop ?n (all_due ?q)" using f(1) same by (simp add: all_due_def)
  show "delayed_ok (cjson_decode R) (qview S (view s'))" using d f(2) by (auto simp: delayed_ok_def same)
  show "distinct (map fst (dlyd (qview S (view s'))))" using dist f(2) by (simp add: same distinct_map_filter)
qed

lemma maintain_drains:
  assumes "typed S (view s)" and "delayed_ok (cjson_decode R) (qview S (view s))"
    and "distinct (map fst (dlyd (qview S (view s))))"
    and "length (all_due (qview S (view s))) div nat (scheduler_batch S) < n"
  shows "\<exists>next s'. maintain n R S w now np s = Some (next, s') \<and> typed S (view s') \<and>
    all_due (qview S (view s')) = []"
  using assms
proof (induction n arbitrary: np s)
  case (Suc n)
  let ?b = "nat (scheduler_batch S)" and ?due = "all_due (qview S (view s))"
  have b: "1 \<le> scheduler_batch S" using valid by (simp add: make_settings_Inr field_constraints_def)
  obtain moved nxt s' where run: "maintenance_pass R S w True True now np s = ((moved, nxt), s')"
    by (metis prod.collapse)
  note p = maintenance_pass_spec [OF Suc.prems(1-3) run]
  show ?case
  proof (cases "sleeps S moved")
    case True
    then have "all_due (qview S (view s')) = []" using p(4,5) b by (auto simp: sleeps_def)
    with True run p(1) show ?thesis by simp
  next
    case False
    then have l: "?b \<le> length ?due" using p(4) b by (auto simp: sleeps_def)
    then have "length (all_due (qview S (view s'))) div ?b < n"
      using Suc.prems(4) b p(5) by (simp add: le_div_geq)
    from Suc.IH [OF p(1-3) this] False run show ?thesis by simp
  qed
qed simp

end

end
