(* ===== verification/Cli.thy ===== *)
theory Cli
  imports Bench_Loadgen Dlq Metrics "HOL-Library.Sublist"
begin

text \<open>
  \<^verbatim>\<open>src/ftq/bench.py\<close> and the commands of \<^verbatim>\<open>src/ftq/cli.py\<close> that act on a queue. A command ends by
  printing values, with an exit code, or with an exception. The clock readings, the fresh job ids and
  what other clients do between the calls are arguments, one element per turn of a loop.
\<close>

datatype cli_error =
    BadParameter string | BadPayload | CliServer redis_error | CliKey string | CliStats stats_error
  | CliSweep sweep_error | CliFull int "string option list" | ZeroStep | ZeroDivision

datatype cli_end = Printed "json list" | Exit int | Raised cli_error

section \<open>The smoke benchmark\<close>

text \<open>\<^verbatim>\<open>range(0, jobs, batch)\<close> with the size of each batch; a negative step only makes empty batches.\<close>

function batch_sizes :: "int \<Rightarrow> int \<Rightarrow> int \<Rightarrow> int list" where
  "batch_sizes i jobs batch = (if batch \<le> 0 \<or> jobs \<le> i then [] else min batch (jobs - i) # batch_sizes (i + batch) jobs batch)"
  by auto
termination by (relation "measure (\<lambda>(i, jobs, batch). nat (jobs - i))") auto

declare batch_sizes.simps [simp del]

record 's bench_send =
  bs_started :: rat
  bs_rounds :: "'s round list"
  bs_id :: "nat \<Rightarrow> string"

fun bench_enqueue :: "'s redis_ops \<Rightarrow> settings \<Rightarrow> new_job \<Rightarrow> 's bench_send list \<Rightarrow> int list \<Rightarrow> string list
    \<Rightarrow> producer_counters \<Rightarrow> 's \<Rightarrow> ((cli_error + string list) \<times> producer_counters \<times> 's) option" where
  "bench_enqueue R S job sends [] acc pc s = Some (Inr acc, pc, s)"
| "bench_enqueue R S job [] (n # ns) acc pc s = None"
| "bench_enqueue R S job (e # sends) (n # ns) acc pc s =
     (case enqueue_many R S pc (bs_started e) (bs_rounds e) (map (\<lambda>i. (bs_id e i, job)) [0..<nat n]) s of
        None \<Rightarrow> None
      | Some (Ids js, pc', s') \<Rightarrow> bench_enqueue R S job sends ns (acc @ js) pc' s'
      | Some (QueueFull d js, pc', s') \<Rightarrow> Some (Inl (CliFull d js), pc', s')
      | Some (ClientError x, pc', s') \<Rightarrow> Some (Inl (CliServer x), pc', s'))"

definition seen_count :: "(string \<times> nat) list \<Rightarrow> string \<Rightarrow> nat" where
  "seen_count seen j = (case map_of seen j of None \<Rightarrow> 0 | Some n \<Rightarrow> n)"

fun note_page :: "string list \<Rightarrow> (eid \<times> fields) list \<Rightarrow> (string \<times> nat) list \<Rightarrow> nat
    \<Rightarrow> cli_error + (string \<times> nat) list \<times> nat" where
  "note_page ours [] seen completed = Inr (seen, completed)"
| "note_page ours (e # es) seen completed =
     (case dict_get (snd e) ''job_id'' of
        None \<Rightarrow> Inl (CliKey ''job_id'')
      | Some j \<Rightarrow>
          (let seen' = add_count j seen in
           note_page ours es seen' (if seen_count seen' j = 1 \<and> j \<in> set ours then Suc completed else completed)))"

definition bench_page :: nat where
  "bench_page = 10000"

record 's bench_turn =
  bt_clock :: rat
  bt_others :: "'s \<Rightarrow> 's"

fun bench_wait :: "'s redis_ops \<Rightarrow> key \<Rightarrow> string list \<Rightarrow> rat \<Rightarrow> 's bench_turn list \<Rightarrow> (string \<times> nat) list \<Rightarrow> nat \<Rightarrow> eid
    \<Rightarrow> 's \<Rightarrow> ((cli_error + (string \<times> nat) list \<times> nat) \<times> 's) option" where
  "bench_wait R k ours deadline [] seen completed from_id s =
     (if completed < card (set ours) then None else Some (Inr (seen, completed), s))"
| "bench_wait R k ours deadline (t # ts) seen completed from_id s =
     (if completed < card (set ours) \<and> bt_clock t < deadline then
        (case XRANGE R k (After from_id) None (Some bench_page) (bt_others t s) of
           (Inl e, s1) \<Rightarrow> Some (Inl (CliServer e), s1)
         | (Inr reply, s1) \<Rightarrow>
             (if reply = [] then bench_wait R k ours deadline ts seen completed from_id s1
              else (case note_page ours reply seen completed of
                 Inl e \<Rightarrow> Some (Inl e, s1)
               | Inr (seen', completed') \<Rightarrow>
                   bench_wait R k ours deadline ts seen' completed' (fst (last reply)) s1)))
      else Some (Inr (seen, completed), s))"

record smoke_report =
  sr_jobs :: int
  sr_job :: new_job
  sr_batch :: int
  sr_enqueue_seconds :: rat
  sr_enqueue_rate :: rat
  sr_drain_seconds :: rat
  sr_throughput :: rat
  sr_completed :: nat
  sr_missing :: nat
  sr_duplicates :: nat
  sr_producer :: producer_counters
  sr_stats :: queue_snapshot

definition bench_duplicates :: "string list \<Rightarrow> (string \<times> nat) list \<Rightarrow> nat" where
  "bench_duplicates ours seen = length (filter (\<lambda>j. 1 < seen_count seen j) (remdups ours))"

record 's bench_env =
  bv_t0 :: rat
  bv_sends :: "'s bench_send list"
  bv_enqueued :: rat
  bv_turns :: "'s bench_turn list"
  bv_drained :: rat
  bv_others :: "nat \<Rightarrow> 's \<Rightarrow> 's"

definition make_report :: "'s redis_ops \<Rightarrow> settings \<Rightarrow> int \<Rightarrow> new_job \<Rightarrow> int \<Rightarrow> 's bench_env \<Rightarrow> string list
    \<Rightarrow> (string \<times> nat) list \<Rightarrow> nat \<Rightarrow> producer_counters \<Rightarrow> 's \<Rightarrow> (cli_error + smoke_report) \<times> 's" where
  "make_report R S jobs job batch E ours seen completed pc s =
     (let enqueue_s = bv_enqueued E - bv_t0 E; drain_s = bv_drained E - bv_t0 E in
      if enqueue_s = 0 \<or> drain_s = 0 then (Inl ZeroDivision, s)
      else (case snapshot R S (bv_others E) s of
          (Inl e, s') \<Rightarrow> (Inl (CliStats e), s')
        | (Inr st, s') \<Rightarrow> (Inr \<lparr>sr_jobs = jobs, sr_job = job, sr_batch = batch,
            sr_enqueue_seconds = round_to 3 enqueue_s, sr_enqueue_rate = round_to 1 (of_int jobs / enqueue_s),
            sr_drain_seconds = round_to 3 drain_s, sr_throughput = round_to 1 (of_nat completed / drain_s),
            sr_completed = completed, sr_missing = card (set ours) - completed,
            sr_duplicates = bench_duplicates ours seen, sr_producer = pc, sr_stats = st\<rparr>, s')))"

definition run_bench :: "'s redis_ops \<Rightarrow> settings \<Rightarrow> int \<Rightarrow> new_job \<Rightarrow> int \<Rightarrow> rat \<Rightarrow> 's bench_env \<Rightarrow> 's
    \<Rightarrow> ((cli_error + smoke_report) \<times> 's) option" where
  "run_bench R S jobs job batch wait_limit E s =
     (let k = results_key (keys_of S) in
      case XREVRANGE1 R k s of
        (Inl e, s1) \<Rightarrow> Some (Inl (CliServer e), s1)
      | (Inr newest, s1) \<Rightarrow>
          (if batch = 0 then Some (Inl ZeroStep, s1)
           else (case bench_enqueue R S job (bv_sends E) (batch_sizes 0 jobs batch) [] no_counters s1 of
               None \<Rightarrow> None
             | Some (Inl e, _, s2) \<Rightarrow> Some (Inl e, s2)
             | Some (Inr ours, pc, s2) \<Rightarrow>
                 (case bench_wait R k ours (bv_t0 E + wait_limit) (bv_turns E) [] 0
                     (case newest of None \<Rightarrow> (0, 0) | Some e \<Rightarrow> fst e) s2 of
                    None \<Rightarrow> None
                  | Some (Inl e, s3) \<Rightarrow> Some (Inl e, s3)
                  | Some (Inr (seen, completed), s3) \<Rightarrow>
                      Some (make_report R S jobs job batch E ours seen completed pc s3)))))"

section \<open>Commands\<close>

definition parse_payload :: "string \<Rightarrow> cli_error + (string \<times> json) list" where
  "parse_payload t = (case loads t of
       None \<Rightarrow> Inl BadPayload
     | Some (JObj ps) \<Rightarrow> Inr ps
     | Some _ \<Rightarrow> Inl (BadParameter ''payload must be a JSON object''))"

definition cli_enqueue :: "'s redis_ops \<Rightarrow> settings \<Rightarrow> rat \<Rightarrow> 's round list \<Rightarrow> string \<Rightarrow> string \<Rightarrow> string \<Rightarrow> string option
    \<Rightarrow> 's \<Rightarrow> (cli_end \<times> 's) option" where
  "cli_enqueue R S started rounds jid ty payload_text key s =
     (case parse_payload payload_text of
        Inl e \<Rightarrow> Some (Raised e, s)
      | Inr ps \<Rightarrow>
          (case enqueue_one R S no_counters started rounds jid \<lparr>nj_type = ty, nj_payload = ps, nj_key = key\<rparr> s of
             None \<Rightarrow> None
           | Some (Ids js, _, s') \<Rightarrow> Some (Printed (map JStr js), s')
           | Some (QueueFull _ _, _, s') \<Rightarrow> Some (Exit 2, s')
           | Some (ClientError e, _, s') \<Rightarrow> Some (Raised (CliServer e), s')))"

definition snapshot_json :: "queue_snapshot \<Rightarrow> json" where
  "snapshot_json n = JObj [(''queue'', JStr (sn_queue n)), (''depth'', JInt (sn_depth n)),
     (''in_flight'', JInt (sn_in_flight n)), (''undelivered'', JInt (sn_undelivered n)), (''delayed'', JInt (sn_delayed n)),
     (''dlq'', JInt (sn_dlq n)), (''consumers'', JInt (sn_consumers n)), (''full'', JBool (sn_full n)),
     (''watermarks'', JObj [(''high'', JInt (sn_high n)), (''low'', JInt (sn_low n))]),
     (''counters'', JObj (map (\<lambda>c. (fst c, JInt (snd c))) (sn_counters n)))]"

definition cli_stats :: "'s redis_ops \<Rightarrow> settings \<Rightarrow> (nat \<Rightarrow> 's \<Rightarrow> 's) \<Rightarrow> 's \<Rightarrow> cli_end \<times> 's" where
  "cli_stats R S others s = (case snapshot R S others s of
       (Inl e, s') \<Rightarrow> (Raised (CliStats e), s')
     | (Inr n, s') \<Rightarrow> (Printed [snapshot_json n], s'))"

text \<open>The report is printed in either case; the exit code tells whether the check passed.\<close>

definition bench_exit :: "smoke_report \<Rightarrow> int" where
  "bench_exit r = (if sr_missing r \<noteq> 0 \<or> sr_duplicates r \<noteq> 0 then 1 else 0)"

definition cli_bench :: "'s redis_ops \<Rightarrow> settings \<Rightarrow> int \<Rightarrow> string \<Rightarrow> string \<Rightarrow> int \<Rightarrow> rat \<Rightarrow> 's bench_env \<Rightarrow> 's
    \<Rightarrow> (cli_end \<times> 's) option" where
  "cli_bench R S jobs ty payload_text batch limit E s =
     (case parse_payload payload_text of
        Inl e \<Rightarrow> Some (Raised e, s)
      | Inr ps \<Rightarrow>
          (case run_bench R (S\<lparr>mode := Block\<rparr>) jobs \<lparr>nj_type = ty, nj_payload = ps, nj_key = None\<rparr> batch limit E s of
             None \<Rightarrow> None
           | Some (Inl e, s') \<Rightarrow> Some (Raised e, s')
           | Some (Inr r, s') \<Rightarrow> Some (Exit (bench_exit r), s')))"

text \<open>An entry id as text, \<^verbatim>\<open>ms-seq\<close>.\<close>

definition eid_text :: "eid \<Rightarrow> string" where
  "eid_text i = str_nat (fst i) @ ''-'' @ str_nat (snd i)"

definition dead_json :: "dead_job \<Rightarrow> json" where
  "dead_json d = JObj [(''dlq_entry_id'', JStr (eid_text (dj_entry_id d))), (''job_id'', JStr (dj_job_id d)),
     (''type'', JStr (dj_type d)), (''reason'', JStr (dj_reason d)), (''error'', JStr (dj_error d)),
     (''attempts'', JInt (dj_attempts d)), (''deliveries'', JInt (dj_deliveries d)), (''dead_at_ms'', JInt (dj_dead_at_ms d))]"

definition cli_dlq_list :: "'s redis_ops \<Rightarrow> settings \<Rightarrow> nat \<Rightarrow> 's \<Rightarrow> cli_end \<times> 's" where
  "cli_dlq_list R S limit s = (case list_dead R (keys_of S) limit s of
       (Inl e, s') \<Rightarrow> (Raised (CliSweep e), s')
     | (Inr ds, s') \<Rightarrow> (Printed (map dead_json ds), s'))"

fun requeue_ids :: "'s redis_ops \<Rightarrow> keys \<Rightarrow> (nat \<Rightarrow> 's \<Rightarrow> 's) \<Rightarrow> string list \<Rightarrow> nat \<Rightarrow> 's \<Rightarrow> (redis_error + nat) \<times> 's" where
  "requeue_ids R K others [] n s = (Inr n, s)"
| "requeue_ids R K others (j # js) n s =
     (case requeue R K j (others (length js) s) of
        (Inl e, s') \<Rightarrow> (Inl e, s')
      | (Inr b, s') \<Rightarrow> requeue_ids R K others js (if b then Suc n else n) s')"

definition cli_dlq_requeue :: "'s redis_ops \<Rightarrow> settings \<Rightarrow> string list \<Rightarrow> bool \<Rightarrow> (nat \<Rightarrow> 's \<Rightarrow> 's) list \<Rightarrow> (nat \<Rightarrow> 's \<Rightarrow> 's)
    \<Rightarrow> 's \<Rightarrow> (cli_end \<times> 's) option" where
  "cli_dlq_requeue R S job_ids all_flag evs others s =
     (if all_flag = (job_ids \<noteq> []) then Some (Raised (BadParameter ''give job_id(s) or --all, not both or neither''), s)
      else if all_flag then
        (case requeue_all R (keys_of S) evs s of
           (None, _) \<Rightarrow> None
         | (Some (Inl e), s') \<Rightarrow> Some (Raised (CliSweep e), s')
         | (Some (Inr n), s') \<Rightarrow> Some (Printed [JInt (int n)], s'))
      else
        (case requeue_ids R (keys_of S) others job_ids 0 s of
           (Inl e, s') \<Rightarrow> Some (Raised (CliServer e), s')
         | (Inr n, s') \<Rightarrow> Some (Printed [JInt (int n)], s')))"

section \<open>What the smoke benchmark has read\<close>

definition job_of :: "eid \<times> fields \<Rightarrow> string" where
  "job_of e = the (dict_get (snd e) ''job_id'')"

lemma seen_add: "seen_count (add_count j h) i = seen_count h i + (if i = j then 1 else 0)"
  by (induction j h rule: add_count.induct) (auto simp: seen_count_def)

lemma seen_fold: "seen_count (fold add_count js h) i = seen_count h i + count_list js i"
  by (induction js arbitrary: h) (auto simp: seen_add)

text \<open>The two counters of the loop, as functions of the entries read.\<close>

definition tallied :: "string list \<Rightarrow> (eid \<times> fields) list \<Rightarrow> (string \<times> nat) list \<Rightarrow> nat \<Rightarrow> bool" where
  "tallied ours es seen completed \<longleftrightarrow> seen = fold add_count (map job_of es) [] \<and>
     completed = card (set ours \<inter> job_of ` set es)"

lemma tallied_step:
  assumes "tallied ours es seen completed" and "dict_get (snd e) ''job_id'' = Some j"
  shows "tallied ours (es @ [e]) (add_count j seen)
    (if seen_count (add_count j seen) j = 1 \<and> j \<in> set ours then Suc completed else completed)"
proof -
  have j: "job_of e = j" using assms(2) by (simp add: job_of_def)
  have n: "seen_count seen j = count_list (map job_of es) j"
    using assms(1) seen_fold [of "map job_of es" "[]" j] by (simp add: tallied_def seen_count_def)
  have "seen_count (add_count j seen) j = 1 \<longleftrightarrow> j \<notin> job_of ` set es"
    unfolding seen_add n by (simp add: count_list_0_iff)
  moreover have "set ours \<inter> job_of ` set (es @ [e]) = (if j \<in> set ours then insert j else id) (set ours \<inter> job_of ` set es)"
    using j by auto
  ultimately show ?thesis using assms(1) j by (auto simp: tallied_def card_insert_if)
qed

lemma note_page_tallied:
  "note_page ours page seen completed = Inr (seen', completed') \<Longrightarrow> tallied ours es seen completed \<Longrightarrow>
   tallied ours (es @ page) seen' completed'"
proof (induction page arbitrary: es seen completed)
  case (Cons e page)
  then obtain j where "dict_get (snd e) ''job_id'' = Some j" by (auto split: option.splits)
  with Cons show ?case using tallied_step [OF Cons.prems(2), of e j] Cons.IH [of _ _ "es @ [e]"] by (auto simp: Let_def)
qed simp

text \<open>A client that only appends to the log of results.\<close>

definition appends :: "('s \<Rightarrow> rdb) \<Rightarrow> key \<Rightarrow> ('s \<Rightarrow> 's) \<Rightarrow> bool" where
  "appends view k f \<longleftrightarrow> (\<forall>s. stream_ok k (view s) \<longrightarrow> stream_grows k (view s) \<longrightarrow>
     stream_ok k (view (f s)) \<and> stream_grows k (view (f s)) \<and>
     prefix (s_entries (get_stream k (view s))) (s_entries (get_stream k (view (f s)))))"

text \<open>The entries read so far are the first ones after the start, and the cursor is at the last of them.\<close>

definition read_upto :: "eid \<Rightarrow> (eid \<times> fields) list \<Rightarrow> (eid \<times> fields) list \<Rightarrow> eid \<Rightarrow> bool" where
  "read_upto from_id entries es cur \<longleftrightarrow> rest_of (After from_id) entries = es @ rest_of (After cur) entries \<and>
     cur = (if es = [] then from_id else fst (last es))"

lemma read_upto_append:
  assumes "read_upto from_id xs es cur" and "sorted_wrt (<) (map fst (xs @ ys))"
  shows "read_upto from_id (xs @ ys) es cur"
proof (cases "es = []")
  case True
  with assms show ?thesis by (simp add: read_upto_def)
next
  case False
  have "last es \<in> set (rest_of (After from_id) xs)" using assms(1) False by (auto simp: read_upto_def)
  then have l: "last es \<in> set xs" "from_id < fst (last es)" by (auto simp: rest_of_def)
  then have "\<forall>y \<in> set ys. fst (last es) < fst y" using assms(2) by (auto simp: sorted_wrt_append)
  then have "rest_of (After from_id) ys = ys" "rest_of (After cur) ys = ys"
    using l assms(1) False order.strict_trans by (auto simp: rest_of_def read_upto_def filter_id_conv)
  with assms(1) show ?thesis by (simp add: read_upto_def rest_of_def)
qed

lemma read_upto_page:
  assumes "read_upto from_id xs es cur" and "sorted_wrt (<) (map fst xs)"
    and "page = take n (rest_of (After cur) xs)" and "page \<noteq> []"
  shows "read_upto from_id xs (es @ page) (fst (last page))"
proof -
  have "rest_of (After (fst (last page))) xs = drop n (rest_of (After cur) xs)"
    using rest_after_page [OF assms(2)] assms(3,4) by blast
  then have "rest_of (After cur) xs = page @ rest_of (After (fst (last page))) xs"
    unfolding assms(3) by (metis append_take_drop_id)
  then show ?thesis using assms(1,4) unfolding read_upto_def by (metis append.assoc append_is_Nil_conv last_appendR)
qed

context redis_service
begin

lemma bench_wait_reads:
  assumes "bench_wait R k ours deadline ts seen completed cur s = Some (Inr (seen', completed'), s')"
    and "list_all (\<lambda>t. appends view k (bt_others t)) ts"
    and "stream_ok k (view s)" and "stream_grows k (view s)"
    and "read_upto from_id (s_entries (get_stream k (view s))) es cur" and "tallied ours es seen completed"
  shows "\<exists>es'. prefix es' (rest_of (After from_id) (s_entries (get_stream k (view s')))) \<and> tallied ours es' seen' completed' \<and>
    (card (set ours) \<le> completed' \<or> list_ex (\<lambda>t. deadline \<le> bt_clock t) ts)"
  using assms
proof (induction ts arbitrary: s seen completed cur es)
  case Nil
  then have "seen' = seen" "completed' = completed" "s' = s" "card (set ours) \<le> completed" by (simp_all split: if_splits)
  with Nil.prems(5,6) show ?case unfolding read_upto_def by (metis prefixI)
next
  case (Cons t ts)
  let ?log = "\<lambda>s. s_entries (get_stream k (view s))"
  show ?case
  proof (cases "completed < card (set ours) \<and> bt_clock t < deadline")
    case False
    then have "seen' = seen" "completed' = completed" "s' = s"
      using Cons.prems(1) by (simp_all only: bench_wait.simps if_False option.inject prod.inject sum.inject)
    moreover have "card (set ours) \<le> completed \<or> list_ex (\<lambda>t. deadline \<le> bt_clock t) (t # ts)" using False by auto
    ultimately show ?thesis using Cons.prems(5,6) unfolding read_upto_def by (metis prefixI)
  next
    case True
    let ?s = "bt_others t s"
    have a: "appends view k (bt_others t)" "list_all (\<lambda>t. appends view k (bt_others t)) ts" using Cons.prems(2) by simp_all
    then have f: "stream_ok k (view ?s)" "stream_grows k (view ?s)" "prefix (?log s) (?log ?s)"
      using Cons.prems(3,4) unfolding appends_def by blast+
    then obtain ys where "?log ?s = ?log s @ ys" unfolding prefix_def by blast
    then have u: "read_upto from_id (?log ?s) es cur"
      using read_upto_append [OF Cons.prems(5), of ys] f(2) unfolding stream_grows_def by simp
    let ?page = "take bench_page (rest_of (After cur) (?log ?s))"
    obtain r s1 where x: "XRANGE R k (After cur) None (Some bench_page) ?s = (r, s1)" by fastforce
    have "d_xrange k (After cur) None (Some bench_page) (view ?s) = (Inr ?page, view ?s)"
      using f(1) by (simp add: d_xrange_def take_opt_def below_def rest_of_def)
    then have r: "r = Inr ?page" and v: "view s1 = view ?s" using refinesD [OF XRANGE_doc x] by auto
    note ok = f(1,2) [folded v] and u' = u [folded v]
    let ?Q = "\<lambda>ts. \<exists>es'. prefix es' (rest_of (After from_id) (?log s')) \<and> tallied ours es' seen' completed' \<and>
      (card (set ours) \<le> completed' \<or> list_ex (\<lambda>t. deadline \<le> bt_clock t) ts)"
    have "?Q ts"
    proof (cases "?page = []")
      case empty: True
      have "bench_wait R k ours deadline ts seen completed cur s1 = Some (Inr (seen', completed'), s')"
        using Cons.prems(1) True unfolding bench_wait.simps x r empty by simp
      from Cons.IH [OF this a(2) ok u' Cons.prems(6)] show ?thesis .
    next
      case False
      then obtain seen1 completed1 where n: "note_page ours ?page seen completed = Inr (seen1, completed1)"
        and w: "bench_wait R k ours deadline ts seen1 completed1 (fst (last ?page)) s1 = Some (Inr (seen', completed'), s')"
        using Cons.prems(1) True unfolding bench_wait.simps x r by (auto split: sum.splits)
      have "read_upto from_id (?log s1) (es @ ?page) (fst (last ?page))"
        using read_upto_page [OF u _ refl False] f(2) unfolding v stream_grows_def by blast
      from Cons.IH [OF w a(2) ok this note_page_tallied [OF n Cons.prems(6)]] show ?thesis .
    qed
    then show "?Q (t # ts)" unfolding list_ex_iff by (meson list.set_intros(2))
  qed
qed

end

lemma bench_wait_returns:
  "list_ex (\<lambda>t. deadline \<le> bt_clock t) ts \<Longrightarrow> bench_wait R k ours deadline ts seen completed cur s \<noteq> None"
proof (induction ts arbitrary: seen completed cur s)
  case (Cons t ts)
  show ?case
  proof (cases "completed < card (set ours) \<and> bt_clock t < deadline")
    case True
    with Cons.prems have "list_ex (\<lambda>t. deadline \<le> bt_clock t) ts" by auto
    note IH = Cons.IH [OF this]
    obtain r s1 where "XRANGE R k (After cur) None (Some bench_page) (bt_others t s) = (r, s1)" by fastforce
    with IH show ?thesis by (cases r) (auto simp del: not_None_eq split: sum.split)
  next
    case False
    then show ?thesis by (simp only: bench_wait.simps if_False option.distinct not_False_eq_True)
  qed
qed simp

text \<open>No job missing and none doubled: every job of ours is exactly once among the entries read.\<close>

lemma bench_check:
  assumes "tallied ours es seen completed"
  shows "card (set ours) - completed = 0 \<and> bench_duplicates ours seen = 0 \<longleftrightarrow>
    (\<forall>j \<in> set ours. count_list (map job_of es) j = 1)"
proof -
  have c: "seen_count seen j = count_list (map job_of es) j" for j
    using assms seen_fold [of "map job_of es" "[]" j] by (simp add: tallied_def seen_count_def)
  have "card (set ours) - completed = 0 \<longleftrightarrow> set ours \<inter> job_of ` set es = set ours"
  proof
    assume "card (set ours) - completed = 0"
    then have "card (set ours \<inter> job_of ` set es) = card (set ours)"
      using assms card_mono [of "set ours" "set ours \<inter> job_of ` set es"] by (simp add: tallied_def)
    then show "set ours \<inter> job_of ` set es = set ours" by (simp add: card_subset_eq)
  qed (use assms in \<open>simp add: tallied_def\<close>)
  also have "\<dots> \<longleftrightarrow> (\<forall>j \<in> set ours. count_list (map job_of es) j \<noteq> 0)" by (auto simp: count_list_0_iff)
  finally have m: "card (set ours) - completed = 0 \<longleftrightarrow> (\<forall>j \<in> set ours. count_list (map job_of es) j \<noteq> 0)" .
  have "bench_duplicates ours seen = 0 \<longleftrightarrow> (\<forall>j \<in> set ours. \<not> 1 < count_list (map job_of es) j)"
    by (auto simp: bench_duplicates_def c filter_empty_conv)
  moreover have "n = 1 \<longleftrightarrow> n \<noteq> 0 \<and> \<not> 1 < n" for n :: nat by linarith
  ultimately show ?thesis using m by blast
qed

end
