(* ===== verification/Deploy_Commands.thy ===== *)
theory Deploy_Commands
  imports Handlers Bench_Analysis "HOL-Library.Sublist"
begin

text \<open>
  \<^verbatim>\<open>deploy/bench.py\<close>, its pure part: the points of a benchmark session, the commands the two load
  generator tasks run, the trip of the report through the task's log, and the scrubbing of the
  account id. The pair of \<^verbatim>\<open>base64\<close> and \<^verbatim>\<open>gzip\<close> is a parameter (a codec).
\<close>

datatype deploy_error =
    CommandFailed int string | OsFault string | RuntimeFault string | ValueFault string | KeyFault string | TypeFault
  | IndexFault | BadJson | BadCodec

section \<open>The session\<close>

record bench_point =
  bp_suite :: string
  bp_label :: string
  bp_workers :: int
  bp_warmup :: int
  bp_measure :: int
  bp_cooldown :: int
  bp_args :: "string list"
  bp_overload :: rat

definition point_overhead_s :: int where
  "point_overhead_s = 90"

definition session_overhead_s :: int where
  "session_overhead_s = 15 * 60"

definition max_depth_arg :: int where
  "max_depth_arg = 20000"

definition bp_seconds :: "bench_point \<Rightarrow> int" where
  "bp_seconds p = bp_warmup p + bp_measure p + bp_cooldown p + point_overhead_s"

record session_spec =
  ss_worker_counts :: "int list"
  ss_scaling_measure :: int
  ss_headline_workers :: int
  ss_headline_measure :: int
  ss_headline_repeats :: int
  ss_backpressure_measure :: int
  ss_overload :: rat
  ss_high_watermark :: int
  ss_low_watermark :: int
  ss_warmup :: int
  ss_cooldown :: int
  ss_processes :: int
  ss_suites :: "string list"

definition session_defaults :: session_spec where
  "session_defaults = \<lparr>ss_worker_counts = [1, 2, 4, 8, 12], ss_scaling_measure = 180,
     ss_headline_workers = 12, ss_headline_measure = 300, ss_headline_repeats = 3,
     ss_backpressure_measure = 120, ss_overload = 3 / 2, ss_high_watermark = 200000,
     ss_low_watermark = 150000, ss_warmup = 20, ss_cooldown = 5, ss_processes = 4,
     ss_suites = [''scaling'', ''headline'', ''backpressure'']\<rparr>"

text \<open>\<^verbatim>\<open>{n:02d}\<close>.\<close>

definition pad2 :: "int \<Rightarrow> string" where
  "pad2 n = (if 0 \<le> n \<and> n < 10 then CHR ''0'' # str_int n else str_int n)"

definition saturate_args :: "string list" where
  "saturate_args = [''--rate'', ''0'', ''--max-depth'', str_int max_depth_arg, ''--batch'', ''500'']"

definition session_points :: "session_spec \<Rightarrow> bench_point list" where
  "session_points s =
     (let procs = [''--processes'', str_int (ss_processes s)];
          marks = [''--high-watermark'', str_int (ss_high_watermark s),
                   ''--low-watermark'', str_int (ss_low_watermark s)];
          hw = ss_headline_workers s
      in (if ''scaling'' \<in> set (ss_suites s) then
            map (\<lambda>w. \<lparr>bp_suite = ''scaling'', bp_label = ''w'' @ pad2 w, bp_workers = w, bp_warmup = ss_warmup s,
              bp_measure = ss_scaling_measure s, bp_cooldown = ss_cooldown s, bp_args = procs @ saturate_args,
              bp_overload = 0\<rparr>) (ss_worker_counts s) else []) @
         (if ''headline'' \<in> set (ss_suites s) then
            map (\<lambda>r. \<lparr>bp_suite = ''headline'', bp_label = ''w'' @ pad2 hw @ ''_r'' @ str_int r, bp_workers = hw,
              bp_warmup = ss_warmup s, bp_measure = ss_headline_measure s, bp_cooldown = ss_cooldown s,
              bp_args = procs @ saturate_args, bp_overload = 0\<rparr>) [1 .. ss_headline_repeats s] else []) @
         (if ''backpressure'' \<in> set (ss_suites s) then
            map (\<lambda>mode. \<lparr>bp_suite = ''backpressure'', bp_label = ''w'' @ pad2 hw @ ''_'' @ mode, bp_workers = hw,
              bp_warmup = ss_warmup s, bp_measure = ss_backpressure_measure s, bp_cooldown = ss_cooldown s,
              bp_args = procs @ [''--backpressure'', mode] @ marks, bp_overload = ss_overload s\<rparr>)
              [''reject'', ''block''] else []))"

definition session_seconds :: "bench_point list \<Rightarrow> int" where
  "session_seconds ps = sum_list (map bp_seconds ps) + session_overhead_s"

text \<open>\<^verbatim>\<open>statistics.median\<close>.\<close>

definition median :: "rat list \<Rightarrow> rat" where
  "median xs = (let ys = sort xs; n = length ys in
     if odd n then ys ! (n div 2) else (ys ! (n div 2 - 1) + ys ! (n div 2)) / 2)"

definition backpressure_rate :: "rat list \<Rightarrow> rat \<Rightarrow> deploy_error + rat" where
  "backpressure_rate rates overload =
     (if rates = [] then Inl (ValueFault ''no headline results yet: run the headline suite first'')
      else Inr (overload * median rates))"

section \<open>Commands\<close>

text \<open>\<^verbatim>\<open>shlex.quote\<close> and \<^verbatim>\<open>shlex.join\<close>.\<close>

definition shell_safe :: "char \<Rightarrow> bool" where
  "shell_safe c \<longleftrightarrow> (let n = of_char c :: nat in
     (48 \<le> n \<and> n \<le> 57) \<or> (65 \<le> n \<and> n \<le> 90) \<or> (97 \<le> n \<and> n \<le> 122) \<or> c \<in> set ''_@%+=:,./-'')"

definition shlex_quote :: "string \<Rightarrow> string" where
  "shlex_quote s =
     (if s = [] then [CHR 0x27, CHR 0x27]
      else if list_all shell_safe s then s
      else CHR 0x27 # concat (map (\<lambda>c. if c = CHR 0x27 then [c, CHR 0x22, c, CHR 0x22, c] else [c]) s) @ [CHR 0x27])"

fun join_with :: "string \<Rightarrow> string list \<Rightarrow> string" where
  "join_with sep [] = []"
| "join_with sep [x] = x"
| "join_with sep (x # y # r) = x @ sep @ join_with sep (y # r)"

definition shlex_join :: "string list \<Rightarrow> string" where
  "shlex_join ws = join_with '' '' (map shlex_quote ws)"

text \<open>The dump script, line by line.\<close>

definition dump_script :: string where
  "dump_script = concat (map (\<lambda>l. l @ [CHR 0x0A])
     [''import base64,gzip,os,textwrap'',
      ''p='' @ CHR 0x27 # ''/tmp/report.json'' @ [CHR 0x27],
      ''if os.path.exists(p):'',
      '' d=base64.b64encode(gzip.compress(open(p,'' @ CHR 0x27 # ''rb'' @ CHR 0x27 # '').read())).decode()'',
      '' print('' @ CHR 0x27 # ''REPORT-BEGIN'' @ CHR 0x27 # '',flush=True)'',
      '' [print('' @ CHR 0x27 # ''R:'' @ CHR 0x27 # ''+c,flush=True) for c in textwrap.wrap(d,60000)]'',
      '' print('' @ CHR 0x27 # ''REPORT-END'' @ CHR 0x27 # '',flush=True)''])"

text \<open>\<^verbatim>\<open>{x:.0f}\<close>.\<close>

definition fmt_0f :: "rat \<Rightarrow> string" where
  "fmt_0f x = (if x < 0 \<and> round_even x = 0 then ''-0'' else str_int (round_even x))"

definition coordinator_args :: "bench_point \<Rightarrow> string \<Rightarrow> (string \<times> json) list \<Rightarrow> rat option \<Rightarrow> string list" where
  "coordinator_args p run_id meta rate =
     [''python'', ''-m'', ''bench.loadgen'', ''--queue'', ''bench'',
      ''--hosts'', ''2'', ''--run-id'', run_id, ''--expect-workers'', str_int (bp_workers p),
      ''--warmup'', str_int (bp_warmup p), ''--measure'', str_int (bp_measure p),
      ''--cooldown'', str_int (bp_cooldown p),
      ''--drain-timeout'', ''600'', ''--host-timeout'', ''180''] @ bp_args p @
     (case rate of None \<Rightarrow> [] | Some r \<Rightarrow> [''--rate'', fmt_0f r]) @
     [''--meta'', dumps (JObj meta), ''--out'', ''/tmp/report.json'']"

definition coordinator_command :: "bench_point \<Rightarrow> string \<Rightarrow> (string \<times> json) list \<Rightarrow> rat option \<Rightarrow> string list" where
  "coordinator_command p run_id meta rate =
     [''sh'', ''-c'', shlex_join (coordinator_args p run_id meta rate) @ ''; rc=$?; python -c '' @
        shlex_quote dump_script @ ''; exit $rc'']"

definition producer_command :: "string \<Rightarrow> string list" where
  "producer_command run_id =
     [''python'', ''-m'', ''bench.loadgen'', ''--queue'', ''bench'',
      ''--producer-only'', ''--run-id'', run_id, ''--host-timeout'', ''300'']"

definition flush_command :: "string list" where
  "flush_command = [''python'', ''-c'', concat (map (\<lambda>l. l @ [CHR 0x0A])
     [''import os,redis'',
      ''r=redis.Redis.from_url(os.environ['' @ CHR 0x27 # ''FTQ_REDIS_URL'' @ CHR 0x27 # ''])'',
      ''r.flushall()'',
      ''print('' @ CHR 0x27 # ''flushed; dbsize'' @ CHR 0x27 # '', r.dbsize())''])]"

text \<open>\<^verbatim>\<open>str.split()\<close>.\<close>

function words_of :: "string \<Rightarrow> string list" where
  "words_of [] = []"
| "words_of (c # cs) = (if is_space c then words_of cs
     else (c # takeWhile (\<lambda>x. \<not> is_space x) cs) # words_of (dropWhile (\<lambda>x. \<not> is_space x) cs))"
  by pat_completeness auto
termination by (relation "measure length") (auto intro: le_imp_less_Suc length_dropWhile_le)

section \<open>The report's trip through the log\<close>

text \<open>What the dump script prints: \<^verbatim>\<open>textwrap.wrap\<close> of one long word cuts it into pieces.\<close>

function wrap_word :: "nat \<Rightarrow> string \<Rightarrow> string list" where
  "wrap_word n s = (if s = [] \<or> n = 0 then [] else take n s # wrap_word n (drop n s))"
  by auto
termination by (relation "measure (\<lambda>(n, s). length s)") auto

declare wrap_word.simps [simp del]

definition dump_lines :: "(string \<Rightarrow> string) \<Rightarrow> string \<Rightarrow> string list" where
  "dump_lines pack report = [''REPORT-BEGIN''] @ map (\<lambda>c. ''R:'' @ c) (wrap_word 60000 (pack report)) @ [''REPORT-END'']"

fun scan_report :: "bool \<Rightarrow> string list \<Rightarrow> string list \<Rightarrow> string list option" where
  "scan_report inside chunks [] = None"
| "scan_report inside chunks (raw # rest) =
     (let line = strip raw in
      if line = ''REPORT-BEGIN'' then scan_report True [] rest
      else if line = ''REPORT-END'' \<and> inside then Some chunks
      else if inside \<and> take 2 line = ''R:'' then scan_report inside (chunks @ [drop 2 line]) rest
      else scan_report inside chunks rest)"

definition decode_report :: "(string \<Rightarrow> string option) \<Rightarrow> string list \<Rightarrow> deploy_error + json option" where
  "decode_report unpack lines =
     (case scan_report False [] lines of
        None \<Rightarrow> Inr None
      | Some chunks \<Rightarrow>
          (case unpack (concat chunks) of
             None \<Rightarrow> Inl BadCodec
           | Some text \<Rightarrow> (case loads text of None \<Rightarrow> Inl BadJson | Some r \<Rightarrow> Inr (Some r))))"

section \<open>Account ids\<close>

text \<open>\<^verbatim>\<open>str.replace\<close> with a non-empty pattern.\<close>

function replace_all :: "string \<Rightarrow> string \<Rightarrow> string \<Rightarrow> string" where
  "replace_all old new s =
     (if old = [] then s
      else if s = [] then []
      else if take (length old) s = old then new @ replace_all old new (drop (length old) s)
      else hd s # replace_all old new (tl s))"
  by auto
termination by (relation "measure (\<lambda>(old, new, s). length s)") auto

declare replace_all.simps [simp del]

definition scrub :: "string \<Rightarrow> string \<Rightarrow> string" where
  "scrub text account = (if account \<noteq> [] then replace_all account ''<acct>'' text else text)"

section \<open>The shell sees the intended words\<close>

text \<open>
  How a POSIX shell splits a simple command without expansions into words: single quotes keep
  everything up to the next one, double quotes keep what is neither an expansion nor an escape.
  An unquoted character that means something to the shell is outside this fragment.
\<close>

datatype sh_mode = Plain | Single | Double

fun sh_words :: "sh_mode \<Rightarrow> string option \<Rightarrow> string \<Rightarrow> string list option" where
  "sh_words Plain w [] = Some (case w of None \<Rightarrow> [] | Some x \<Rightarrow> [x])"
| "sh_words Single w [] = None"
| "sh_words Double w [] = None"
| "sh_words Plain w (c # cs) =
     (if c = CHR '' '' then
        map_option (\<lambda>ws. (case w of None \<Rightarrow> [] | Some x \<Rightarrow> [x]) @ ws) (sh_words Plain None cs)
      else if c = CHR 0x27 then sh_words Single (Some (case w of None \<Rightarrow> [] | Some x \<Rightarrow> x)) cs
      else if c = CHR 0x22 then sh_words Double (Some (case w of None \<Rightarrow> [] | Some x \<Rightarrow> x)) cs
      else if shell_safe c then sh_words Plain (Some ((case w of None \<Rightarrow> [] | Some x \<Rightarrow> x) @ [c])) cs
      else None)"
| "sh_words Single w (c # cs) =
     (if c = CHR 0x27 then sh_words Plain w cs
      else sh_words Single (Some ((case w of None \<Rightarrow> [] | Some x \<Rightarrow> x) @ [c])) cs)"
| "sh_words Double w (c # cs) =
     (if c = CHR 0x22 then sh_words Plain w cs
      else if c \<in> {CHR ''$'', CHR 0x60, CHR 0x5C} then None
      else sh_words Double (Some ((case w of None \<Rightarrow> [] | Some x \<Rightarrow> x) @ [c])) cs)"

definition word_so_far :: "string option \<Rightarrow> string" where
  "word_so_far w = (case w of None \<Rightarrow> [] | Some x \<Rightarrow> x)"

lemma sh_safe:
  "list_all shell_safe s \<Longrightarrow> s \<noteq> [] \<Longrightarrow>
   sh_words Plain w (s @ r) = sh_words Plain (Some (word_so_far w @ s)) r"
proof (induction s arbitrary: w)
  case (Cons c s)
  have "c \<noteq> CHR '' ''" "c \<noteq> CHR 0x27" "c \<noteq> CHR 0x22"
    using Cons.prems(1) by (auto simp: shell_safe_def)
  with Cons show ?case by (cases s) (auto simp: word_so_far_def split: option.split)
qed simp

lemma sh_single:
  "sh_words Single (Some w) (concat (map (\<lambda>c. if c = CHR 0x27 then [c, CHR 0x22, c, CHR 0x22, c] else [c]) s) @
     CHR 0x27 # r) = sh_words Plain (Some (w @ s)) r"
  by (induction s arbitrary: w) auto

lemma sh_quote: "sh_words Plain w (shlex_quote s @ r) = sh_words Plain (Some (word_so_far w @ s)) r"
  using sh_safe [of s w r] sh_single [of "word_so_far w" s r]
  by (auto simp: shlex_quote_def word_so_far_def)

lemma sh_join: "sh_words Plain None (shlex_join ws) = Some ws"
proof -
  have "sh_words Plain None (join_with '' '' (map shlex_quote ws)) = Some ws"
  proof (induction ws rule: induct_list012)
    case (2 x)
    show ?case using sh_quote [of None x "[]"] by (simp add: word_so_far_def)
  next
    case (3 x y zs)
    then show ?case using sh_quote [of None x] by (simp add: word_so_far_def)
  qed simp
  then show ?thesis by (simp add: shlex_join_def)
qed

section \<open>Reports survive the log\<close>

text \<open>
  What is documented of the codec: \<^verbatim>\<open>gzip.decompress\<close> undoes \<^verbatim>\<open>gzip.compress\<close>, \<^verbatim>\<open>b64decode\<close> undoes
  \<^verbatim>\<open>b64encode\<close>, whose output uses the base64 alphabet, and no gzip stream is empty.
\<close>

definition b64_char :: "char \<Rightarrow> bool" where
  "b64_char c \<longleftrightarrow> (let n = of_char c :: nat in
     (48 \<le> n \<and> n \<le> 57) \<or> (65 \<le> n \<and> n \<le> 90) \<or> (97 \<le> n \<and> n \<le> 122) \<or> c \<in> set ''+/='')"

definition codec_doc :: "(string \<Rightarrow> string) \<Rightarrow> (string \<Rightarrow> string option) \<Rightarrow> bool" where
  "codec_doc pack unpack \<longleftrightarrow> (\<forall>s. unpack (pack s) = Some s \<and> list_all b64_char (pack s) \<and> pack s \<noteq> [])"

text \<open>Lines of a task's log that belong to a report dump.\<close>

definition report_line :: "string \<Rightarrow> bool" where
  "report_line l \<longleftrightarrow> l = ''REPORT-BEGIN'' \<or> l = ''REPORT-END'' \<or> take 2 l = ''R:''"

lemma scan_report_filter:
  "scan_report inside chunks lines = scan_report inside chunks (filter report_line (map strip lines))"
proof (induction lines arbitrary: inside chunks)
  case (Cons raw rest)
  have again: "scan_report inside chunks (raw # r) = scan_report inside chunks (strip raw # r)" for r
    by (simp add: strip_strip)
  show ?case
  proof (cases "report_line (strip raw)")
    case True
    then have "filter report_line (map strip (raw # rest)) = strip raw # filter report_line (map strip rest)" by simp
    then show ?thesis using again Cons.IH by (simp only: scan_report.simps Let_def strip_strip)
  next
    case False
    then have "strip raw \<noteq> ''REPORT-BEGIN''" "strip raw \<noteq> ''REPORT-END''" "take 2 (strip raw) \<noteq> ''R:''"
      unfolding report_line_def by blast+
    then have "scan_report inside chunks (raw # rest) = scan_report inside chunks rest"
      by (simp only: scan_report.simps Let_def if_False simp_thms)
    with False Cons.IH show ?thesis by (simp only: list.map filter.simps if_False)
  qed
qed simp

lemma wrap_word_concat: "0 < n \<Longrightarrow> concat (wrap_word n s) = s"
  by (induction n s rule: wrap_word.induct) (subst wrap_word.simps, simp)

lemma wrap_word_chars: "w \<in> set (wrap_word n s) \<Longrightarrow> set w \<subseteq> set s"
proof (induction n s rule: wrap_word.induct)
  case (1 n s)
  show ?case
    using "1.IH" "1.prems" set_take_subset [of n s] set_drop_subset [of n s]
    by (subst (asm) (2) wrap_word.simps) (auto split: if_splits)
qed

lemma b64_not_space: "b64_char c \<Longrightarrow> \<not> is_space c"
  by (auto simp: b64_char_def is_space_def Let_def)

lemma strip_chunk: "list_all b64_char w \<Longrightarrow> strip (''R:'' @ w) = ''R:'' @ w"
proof (rule strip_no_space)
  assume w: "list_all b64_char w"
  have "\<not> is_space CHR ''R''" "\<not> is_space CHR '':''" by code_simp+
  with w show "\<forall>c \<in> set (''R:'' @ w). \<not> is_space c" by (auto simp: list_all_iff b64_not_space)
qed

lemma scan_chunks:
  "\<forall>w \<in> set ws. list_all b64_char w \<Longrightarrow>
   scan_report True acc (map (\<lambda>w. ''R:'' @ w) ws @ rest) = scan_report True (acc @ ws) rest"
proof (induction ws arbitrary: acc)
  case (Cons w ws)
  then show ?case using strip_chunk [of w] by simp
qed simp

lemma dump_strip: "strip ''REPORT-BEGIN'' = ''REPORT-BEGIN''" "strip ''REPORT-END'' = ''REPORT-END''"
  by code_simp+

lemma packed_chunks:
  assumes "codec_doc pack unpack"
  shows "\<forall>w \<in> set (wrap_word 60000 (pack rep)). list_all b64_char w"
  using assms wrap_word_chars unfolding codec_doc_def list_all_iff by blast

lemma scan_dump:
  assumes "codec_doc pack unpack"
  shows "scan_report False [] (dump_lines pack rep) = Some (wrap_word 60000 (pack rep))"
  using scan_chunks [of "wrap_word 60000 (pack rep)" "[]" "[''REPORT-END'']"] packed_chunks [OF assms]
  by (simp add: dump_lines_def dump_strip)

lemma scan_cut:
  assumes "codec_doc pack unpack" and "strict_prefix ls (dump_lines pack rep)"
  shows "scan_report False [] ls = None"
proof (cases ls)
  case (Cons l ls')
  let ?ws = "wrap_word 60000 (pack rep)" and ?m = "map (\<lambda>w. ''R:'' @ w) (wrap_word 60000 (pack rep))"
  have "prefix ls (''REPORT-BEGIN'' # ?m)"
    using assms(2) prefix_snoc [of ls "''REPORT-BEGIN'' # ?m" "''REPORT-END''"]
    by (auto simp: dump_lines_def strict_prefix_def)
  with Cons have l: "l = ''REPORT-BEGIN''" and "prefix ls' ?m" by simp_all
  then have "ls' = map (\<lambda>w. ''R:'' @ w) (take (length ls') ?ws)"
    by (metis append_eq_conv_conj prefix_def take_map)
  moreover have "\<forall>w \<in> set (take (length ls') ?ws). list_all b64_char w"
    using packed_chunks [OF assms(1)] by (auto dest: in_set_takeD)
  ultimately have "scan_report True [] ls' = None"
    using scan_chunks [of "take (length ls') ?ws" "[]" "[]"] by simp
  with Cons l show ?thesis by (simp add: dump_strip)
qed simp

lemma report_arrives:
  assumes "codec_doc pack unpack" and "filter report_line (map strip lines) = dump_lines pack rep"
    and "loads rep = Some r"
  shows "decode_report unpack lines = Inr (Some r)"
proof -
  have "scan_report False [] lines = Some (wrap_word 60000 (pack rep))"
    using scan_report_filter [of False "[]" lines] scan_dump [OF assms(1)] assms(2) by simp
  then show ?thesis using assms(1,3) by (simp add: decode_report_def wrap_word_concat codec_doc_def)
qed

lemma cut_report_is_none:
  assumes "codec_doc pack unpack" and "strict_prefix (filter report_line (map strip lines)) (dump_lines pack rep)"
  shows "decode_report unpack lines = Inr None"
  using scan_report_filter [of False "[]" lines] scan_cut [OF assms] by (simp add: decode_report_def)

section \<open>Scrubbed texts do not contain the account id\<close>

lemma replace_all_prefix:
  assumes "\<forall>c \<in> set b. c \<noteq> hd new" and "new \<noteq> []" and "prefix b (replace_all old new s)" and "old \<noteq> []"
  shows "prefix b s"
  using assms(1,3)
proof (induction "length s" arbitrary: s b)
  case 0
  then show ?case by (simp add: replace_all.simps [of old new "[]"] assms(4))
next
  case (Suc n)
  then obtain x s' where s: "s = x # s'" by (cases s) auto
  show ?case
  proof (cases b)
    case (Cons c b')
    show ?thesis
    proof (cases "take (length old) s = old")
      case True
      then have "replace_all old new s = new @ replace_all old new (drop (length old) s)"
        using assms(4) s by (subst replace_all.simps) auto
      with Suc.prems Cons assms(2) show ?thesis by (cases new) auto
    next
      case False
      then have "replace_all old new s = x # replace_all old new s'"
        using assms(4) s by (subst replace_all.simps) auto
      with Suc Cons s show ?thesis by auto
    qed
  qed simp
qed

lemma no_account_left:
  assumes "old \<noteq> []" and "list_all is_digit old"
  shows "\<not> sublist old (replace_all old ''<acct>'' s)"
proof (induction "length s" arbitrary: s rule: less_induct)
  case less
  have d: "\<forall>c \<in> set old. c \<noteq> hd ''<acct>''" "\<not> is_digit x" if "x \<in> set ''<acct>''" for x
    using assms(2) that by (auto simp: list_all_iff is_digit_def char_digit_def)
  show ?case
  proof (cases "s = []")
    case False
    show ?thesis
    proof (cases "take (length old) s = old")
      case True
      let ?r = "replace_all old ''<acct>'' (drop (length old) s)"
      have r: "\<not> sublist old ?r" using less [of "drop (length old) s"] False assms(1) by simp
      obtain o1 os where o: "old = o1 # os" using assms(1) by (cases old) auto
      then have "o1 \<notin> set ''<acct>''" using assms(2) d(2) by auto
      then have "\<not> sublist old (''<acct>'' @ ?r)" using r o by (auto simp: sublist_Cons_right)
      then show ?thesis using True False assms(1) by (simp add: replace_all.simps [of old _ s])
    next
      case no: False
      then have e: "replace_all old ''<acct>'' s = hd s # replace_all old ''<acct>'' (tl s)"
        using False assms(1) by (simp add: replace_all.simps [of old _ s])
      have "\<not> prefix old s" using no by (auto simp: prefix_def)
      then have "\<not> prefix old (replace_all old ''<acct>'' s)"
        using replace_all_prefix [of old "''<acct>''" old s] d(1) assms(1) by (auto simp: is_digit_def)
      with less [of "tl s"] False e show ?thesis by (simp add: sublist_Cons_right)
    qed
  next
    case True
    with assms(1) show ?thesis by (simp add: replace_all.simps)
  qed
qed

lemma scrub_removes:
  "account \<noteq> [] \<Longrightarrow> list_all is_digit account \<Longrightarrow> \<not> sublist account (scrub s account)"
  by (simp add: scrub_def no_account_left)

section \<open>Points are told apart by their keys\<close>

lemma read_pad2: "read_int (pad2 i) = Some i"
proof (cases "0 \<le> i \<and> i < 10")
  case True
  then have "i \<in> set [0, 1, 2, 3, 4, 5, 6, 7, 8, 9]" unfolding list.set insert_iff empty_iff by presburger
  moreover have "list_all (\<lambda>i. read_int (pad2 i) = Some i) [0, 1, 2, 3, 4, 5, 6, 7, 8, 9]" by code_simp
  ultimately show ?thesis unfolding list_all_iff by blast
next
  case False
  then have "pad2 i = str_int i" by (simp add: pad2_def)
  then show ?thesis by simp
qed

lemma pad2_inject [simp]: "pad2 i = pad2 j \<longleftrightarrow> i = j"
  by (metis option.inject read_pad2)

definition point_key :: "bench_point \<Rightarrow> string \<times> string" where
  "point_key p = (bp_suite p, bp_label p)"

lemma session_points_distinct:
  assumes "distinct (ss_worker_counts s)"
  shows "distinct (map point_key (session_points s))"
proof -
  have "distinct [1 .. ss_headline_repeats s]" by simp
  then show ?thesis
    using assms by (auto simp: session_points_def point_key_def Let_def distinct_map inj_on_def comp_def)
qed

end
