(* ===== verification/Deploy_Backend.thy ===== *)
theory Deploy_Backend
  imports Deploy_Commands "HOL-Library.AList"
begin

text \<open>
  \<^verbatim>\<open>deploy/bench.py\<close>, the AWS backend: the retried command-line call, waiting, and the operations a
  benchmark session needs. The command line tool, the clock and sleeping are parameters (\<open>shell\<close>); an
  action either never returns (None) or ends with a result or an exception.
\<close>

section \<open>Actions\<close>

text \<open>
  \<open>run_cmd\<close> runs a command and raises when it fails; \<open>sh_output\<close> returns its output and error output
  whatever its exit code.
\<close>

record 's shell =
  run_cmd :: "string list \<Rightarrow> 's \<Rightarrow> (deploy_error + string) \<times> 's"
  sh_output :: "string list \<Rightarrow> 's \<Rightarrow> (deploy_error + string) \<times> 's"
  sh_sleep :: "rat \<Rightarrow> 's \<Rightarrow> 's"
  sh_clock :: "'s \<Rightarrow> rat \<times> 's"
  sh_token :: "'s \<Rightarrow> string \<times> 's"
  sh_today :: "'s \<Rightarrow> string \<times> 's"

type_synonym ('s, 'a) act = "'s \<Rightarrow> ((deploy_error + 'a) \<times> 's) option"

definition act_ret :: "'a \<Rightarrow> ('s, 'a) act" where
  "act_ret x = (\<lambda>s. Some (Inr x, s))"

definition act_fail :: "deploy_error \<Rightarrow> ('s, 'a) act" where
  "act_fail e = (\<lambda>s. Some (Inl e, s))"

definition act_bind :: "('s, 'a) act \<Rightarrow> ('a \<Rightarrow> ('s, 'b) act) \<Rightarrow> ('s, 'b) act" where
  "act_bind m k = (\<lambda>s. case m s of None \<Rightarrow> None | Some (Inl e, s') \<Rightarrow> Some (Inl e, s') | Some (Inr x, s') \<Rightarrow> k x s')"

definition act_of :: "deploy_error + 'a \<Rightarrow> ('s, 'a) act" where
  "act_of r = (\<lambda>s. Some (r, s))"

definition act_read :: "('s \<Rightarrow> 'a \<times> 's) \<Rightarrow> ('s, 'a) act" where
  "act_read f = (\<lambda>s. case f s of (x, s') \<Rightarrow> Some (Inr x, s'))"

section \<open>JSON values\<close>

text \<open>\<^verbatim>\<open>json.dumps(x)\<close> with its default separators, and with \<^verbatim>\<open>indent=1\<close>.\<close>

fun py_dumps :: "json \<Rightarrow> string" where
  "py_dumps (JArr xs) = CHR ''['' # join_with '', '' (map py_dumps xs) @ '']''"
| "py_dumps (JObj ps) = CHR ''{'' # join_with '', '' (map (\<lambda>p. quote (fst p) @ '': '' @ py_dumps (snd p)) ps) @ ''}''"
| "py_dumps j = dumps j"

definition new_line :: "nat \<Rightarrow> string" where
  "new_line n = CHR 0x0A # replicate n CHR '' ''"

fun dumps_indent :: "nat \<Rightarrow> json \<Rightarrow> string" where
  "dumps_indent n (JArr xs) = (if xs = [] then ''[]'' else CHR ''['' # new_line (Suc n) @
     join_with (CHR '','' # new_line (Suc n)) (map (dumps_indent (Suc n)) xs) @ new_line n @ '']'')"
| "dumps_indent n (JObj ps) = (if ps = [] then ''{}'' else CHR ''{'' # new_line (Suc n) @
     join_with (CHR '','' # new_line (Suc n))
       (map (\<lambda>p. quote (fst p) @ '': '' @ dumps_indent (Suc n) (snd p)) ps) @ new_line n @ ''}'')"
| "dumps_indent n j = dumps j"

text \<open>Indexing, \<^verbatim>\<open>dict.get\<close> and truth. What the AWS CLI documents as a list or a string is one.\<close>

definition jfield :: "string \<Rightarrow> json \<Rightarrow> deploy_error + json" where
  "jfield k j = (case j of
       JObj ps \<Rightarrow> (case map_of ps k of None \<Rightarrow> Inl (KeyFault k) | Some v \<Rightarrow> Inr v)
     | _ \<Rightarrow> Inl TypeFault)"

definition jlist :: "json \<Rightarrow> deploy_error + json list" where
  "jlist j = (case j of JArr xs \<Rightarrow> Inr xs | _ \<Rightarrow> Inl TypeFault)"

definition jstr :: "json \<Rightarrow> deploy_error + string" where
  "jstr j = (case j of JStr s \<Rightarrow> Inr s | _ \<Rightarrow> Inl TypeFault)"

definition jfirst :: "json \<Rightarrow> deploy_error + json" where
  "jfirst j = (case jlist j of Inl e \<Rightarrow> Inl e | Inr [] \<Rightarrow> Inl IndexFault | Inr (x # _) \<Rightarrow> Inr x)"

definition jget :: "string \<Rightarrow> json \<Rightarrow> deploy_error + json" where
  "jget k j = (case j of
       JObj ps \<Rightarrow> Inr (case map_of ps k of None \<Rightarrow> JNull | Some v \<Rightarrow> v)
     | _ \<Rightarrow> Inl TypeFault)"

definition jtrue :: "json \<Rightarrow> bool" where
  "jtrue j = (case j of
       JNull \<Rightarrow> False | JBool b \<Rightarrow> b | JInt i \<Rightarrow> i \<noteq> 0 | JFloat t \<Rightarrow> read_float t \<noteq> Some (Finite 0)
     | JStr s \<Rightarrow> s \<noteq> [] | JArr xs \<Rightarrow> xs \<noteq> [] | JObj ps \<Rightarrow> ps \<noteq> [])"

fun collect :: "('a \<Rightarrow> deploy_error + 'b) \<Rightarrow> 'a list \<Rightarrow> deploy_error + 'b list" where
  "collect f [] = Inr []"
| "collect f (x # xs) = (case f x of Inl e \<Rightarrow> Inl e | Inr y \<Rightarrow>
     (case collect f xs of Inl e \<Rightarrow> Inl e | Inr ys \<Rightarrow> Inr (y # ys)))"

definition and_then :: "deploy_error + 'a \<Rightarrow> ('a \<Rightarrow> deploy_error + 'b) \<Rightarrow> deploy_error + 'b" where
  "and_then r f = (case r of Inl e \<Rightarrow> Inl e | Inr x \<Rightarrow> f x)"

definition strings_of :: "json \<Rightarrow> deploy_error + string list" where
  "strings_of j = and_then (jlist j) (collect jstr)"

text \<open>\<^verbatim>\<open>s.rsplit(sep, 1)[-1]\<close>.\<close>

definition after_last :: "char \<Rightarrow> string \<Rightarrow> string" where
  "after_last c s = rev (takeWhile ((\<noteq>) c) (rev s))"

section \<open>Calls and waiting\<close>

record aws_backend =
  ab_cluster :: string
  ab_task_def :: string
  ab_account :: string
  ab_poll :: rat
  ab_retry :: rat

definition read_only_calls :: "(string \<times> string) list" where
  "read_only_calls =
     [(''sts'', ''get-caller-identity''), (''ecs'', ''describe-services''), (''ecs'', ''describe-tasks''),
      (''ecs'', ''describe-container-instances''), (''ecs'', ''describe-task-definition''),
      (''ecs'', ''list-tasks''), (''ecs'', ''list-container-instances''),
      (''logs'', ''get-log-events''), (''logs'', ''filter-log-events'')]"

definition read_attempts :: nat where
  "read_attempts = 3"

definition is_read_only :: "string list \<Rightarrow> bool" where
  "is_read_only args = (case args of a # b # _ \<Rightarrow> (a, b) \<in> set read_only_calls | _ \<Rightarrow> False)"

fun aws_tries :: "'s shell \<Rightarrow> rat \<Rightarrow> string list \<Rightarrow> nat \<Rightarrow> nat \<Rightarrow> ('s, string) act" where
  "aws_tries W retry_s cmd k 0 = act_fail (RuntimeFault ''unreachable'')"
| "aws_tries W retry_s cmd k (Suc left) = (\<lambda>s.
     case run_cmd W cmd s of
       (Inr out, s') \<Rightarrow> Some (Inr out, s')
     | (Inl e, s') \<Rightarrow>
         (case e of
            CommandFailed c x \<Rightarrow>
              (if left = 0 then Some (Inl e, s')
               else aws_tries W retry_s cmd (Suc k) left (sh_sleep W (retry_s * 2 ^ k) s'))
          | _ \<Rightarrow> Some (Inl e, s')))"

definition aws_call :: "'s shell \<Rightarrow> aws_backend \<Rightarrow> string list \<Rightarrow> ('s, string) act" where
  "aws_call W B args = aws_tries W (ab_retry B) (''aws'' # args @ [''--output'', ''json'']) 0
     (if is_read_only args then read_attempts else 1)"

definition aws_json :: "'s shell \<Rightarrow> aws_backend \<Rightarrow> string list \<Rightarrow> ('s, json) act" where
  "aws_json W B args = act_bind (aws_call W B args)
     (\<lambda>out. case loads out of None \<Rightarrow> act_fail BadJson | Some j \<Rightarrow> act_ret j)"

definition ecs :: "'s shell \<Rightarrow> aws_backend \<Rightarrow> string list \<Rightarrow> ('s, json) act" where
  "ecs W B args = aws_json W B (''ecs'' # args @ [''--cluster'', ab_cluster B])"

definition aws_open :: "'s shell \<Rightarrow> string \<Rightarrow> string \<Rightarrow> rat \<Rightarrow> rat \<Rightarrow> ('s, aws_backend) act" where
  "aws_open W cluster task_def poll_s retry_s =
     (let B = \<lparr>ab_cluster = cluster, ab_task_def = task_def, ab_account = [], ab_poll = poll_s, ab_retry = retry_s\<rparr> in
      act_bind (aws_json W B [''sts'', ''get-caller-identity'']) (\<lambda>j.
      act_bind (act_of (and_then (jfield ''Account'' j) jstr)) (\<lambda>a. act_ret (B\<lparr>ab_account := a\<rparr>))))"

text \<open>\<^verbatim>\<open>_stack_outputs\<close> of \<^verbatim>\<open>deploy/aws.py\<close>.\<close>

definition stack_outputs :: "'s shell \<Rightarrow> string \<Rightarrow> ('s, json) act" where
  "stack_outputs W stack_dir = (\<lambda>s.
     case run_cmd W [''terraform'', ''-chdir='' @ stack_dir, ''output'', ''-json''] s of
       (Inl e, s') \<Rightarrow> Some (Inl e, s')
     | (Inr out, s') \<Rightarrow> (case loads out of
           None \<Rightarrow> Some (Inl BadJson, s')
         | Some (JObj ps) \<Rightarrow> Some (and_then (collect (\<lambda>p. and_then (jfield ''value'' (snd p)) (\<lambda>v. Inr (fst p, v))) ps)
             (\<lambda>vs. Inr (JObj vs)), s')
         | Some _ \<Rightarrow> Some (Inl TypeFault, s')))"

definition output_text :: "string \<Rightarrow> json \<Rightarrow> deploy_error + string" where
  "output_text k outputs = and_then (jfield k outputs) jstr"

partial_function (option) wait_loop ::
  "'s shell \<Rightarrow> string \<Rightarrow> ('s, bool) act \<Rightarrow> rat \<Rightarrow> rat \<Rightarrow> ('s, unit) act" where
  "wait_loop W late check deadline every s =
     Option.bind (check s) (\<lambda>p. case p of
       (Inl e, s1) \<Rightarrow> Some (Inl e, s1)
     | (Inr b, s1) \<Rightarrow>
         (if b then Some (Inr (), s1)
          else (case sh_clock W s1 of (t, s2) \<Rightarrow>
            (if deadline < t then Some (Inl (RuntimeFault late), s2)
             else wait_loop W late check deadline every (sh_sleep W every s2)))))"

definition wait_for :: "'s shell \<Rightarrow> string \<Rightarrow> ('s, bool) act \<Rightarrow> rat \<Rightarrow> rat \<Rightarrow> ('s, unit) act" where
  "wait_for W what check limit every = (\<lambda>s. case sh_clock W s of (t, s1) \<Rightarrow>
     wait_loop W (''timed out after '' @ fmt_0f limit @ ''s waiting for '' @ what) check (t + limit) every s1)"

section \<open>Operations\<close>

definition first_of :: "string \<Rightarrow> json \<Rightarrow> deploy_error + json" where
  "first_of k j = and_then (jfield k j) jfirst"

definition ecs_task :: "'s shell \<Rightarrow> aws_backend \<Rightarrow> string \<Rightarrow> ('s, json) act" where
  "ecs_task W B arn = act_bind (ecs W B [''describe-tasks'', ''--tasks'', arn]) (\<lambda>j. act_of (first_of ''tasks'' j))"

definition redis_healthy :: "'s shell \<Rightarrow> aws_backend \<Rightarrow> ('s, bool) act" where
  "redis_healthy W B =
     act_bind (ecs W B [''describe-services'', ''--services'', ''redis'']) (\<lambda>j.
     act_bind (act_of (and_then (first_of ''services'' j) (jfield ''runningCount''))) (\<lambda>running.
     if running \<noteq> JInt 1 then act_ret False
     else
       act_bind (ecs W B [''list-tasks'', ''--service-name'', ''redis'']) (\<lambda>l.
       act_bind (act_of (and_then (jfield ''taskArns'' l) strings_of)) (\<lambda>arns.
       if length arns \<noteq> 1 then act_ret False
       else
         act_bind (ecs_task W B (hd arns)) (\<lambda>task.
         act_bind (act_of (jfield ''lastStatus'' task)) (\<lambda>status.
         if status \<noteq> JStr ''RUNNING'' then act_ret False
         else act_bind (act_of (jget ''healthStatus'' task)) (\<lambda>health. act_ret (health = JStr ''HEALTHY''))))))))"

definition wait_for_redis :: "'s shell \<Rightarrow> aws_backend \<Rightarrow> rat \<Rightarrow> ('s, unit) act" where
  "wait_for_redis W B limit =
     wait_for W ''the Redis task to be running and healthy'' (redis_healthy W B) limit (ab_poll B)"

definition workers_settled :: "'s shell \<Rightarrow> aws_backend \<Rightarrow> int \<Rightarrow> ('s, bool) act" where
  "workers_settled W B n =
     act_bind (ecs W B [''describe-services'', ''--services'', ''worker'']) (\<lambda>j.
     act_bind (act_of (first_of ''services'' j)) (\<lambda>svc.
     act_bind (act_of (jfield ''runningCount'' svc)) (\<lambda>running.
     if running \<noteq> JInt n then act_ret False
     else act_bind (act_of (jfield ''pendingCount'' svc)) (\<lambda>pending.
       if pending \<noteq> JInt 0 then act_ret False
       else act_bind (act_of (and_then (jfield ''deployments'' svc) jlist)) (\<lambda>ds. act_ret (length ds = 1))))))"

definition set_workers :: "'s shell \<Rightarrow> aws_backend \<Rightarrow> int \<Rightarrow> ('s, unit) act" where
  "set_workers W B n =
     act_bind (ecs W B [''update-service'', ''--service'', ''worker'', ''--desired-count'', str_int n]) (\<lambda>_.
     wait_for W (str_int n @ '' running workers'') (workers_settled W B n) 600 (ab_poll B))"

definition loadgen_instances :: "'s shell \<Rightarrow> aws_backend \<Rightarrow> ('s, string \<times> string) act" where
  "loadgen_instances W B =
     act_bind (ecs W B [''list-container-instances'', ''--filter'', ''attribute:ftq.role == loadgen'']) (\<lambda>j.
     act_bind (act_of (and_then (jfield ''containerInstanceArns'' j) strings_of)) (\<lambda>found.
     case sort found of
       a # b # _ \<Rightarrow> act_ret (a, b)
     | _ \<Rightarrow> act_fail (RuntimeFault (''need 2 loadgen hosts, found '' @ str_nat (length found)))))"

definition start_task :: "'s shell \<Rightarrow> aws_backend \<Rightarrow> string \<Rightarrow> string list \<Rightarrow> ('s, string) act" where
  "start_task W B instance_arn command =
     (let overrides = JObj [(''containerOverrides'',
            JArr [JObj [(''name'', JStr ''loadgen''), (''command'', JArr (map JStr command))]])] in
      act_bind (ecs W B [''start-task'', ''--task-definition'', ab_task_def B,
        ''--container-instances'', instance_arn, ''--overrides'', py_dumps overrides]) (\<lambda>res.
      act_bind (act_of (jget ''failures'' res)) (\<lambda>failures.
      act_bind (act_of (jget ''tasks'' res)) (\<lambda>tasks.
      if jtrue failures \<or> \<not> jtrue tasks then act_fail (RuntimeFault ''start-task failed'')
      else act_of (and_then (and_then (jfirst tasks) (jfield ''taskArn'')) jstr)))))"

text \<open>The pages of a log, as long as a page has events and a token that is new.\<close>

definition log_args :: "string \<Rightarrow> string \<Rightarrow> string list" where
  "log_args task_id token =
     [''logs'', ''get-log-events'', ''--log-group-name'', ''/ftq/loadgen'',
      ''--log-stream-name'', ''loadgen/loadgen/'' @ task_id, ''--start-from-head''] @
     (if token \<noteq> [] then [''--next-token'', token] else [])"

definition page_of :: "json \<Rightarrow> deploy_error + string list \<times> string" where
  "page_of page =
     and_then (and_then (jfield ''events'' page) jlist) (\<lambda>es.
     and_then (collect (\<lambda>e. and_then (jfield ''message'' e) jstr) es) (\<lambda>ms.
     if ms = [] then Inr ([], [])
     else and_then (and_then (jfield ''nextForwardToken'' page) jstr) (\<lambda>t. Inr (ms, t))))"

partial_function (option) log_pages ::
  "'s shell \<Rightarrow> aws_backend \<Rightarrow> string \<Rightarrow> string \<Rightarrow> string list \<Rightarrow> ('s, string list) act" where
  "log_pages W B task_id token acc s =
     Option.bind (aws_json W B (log_args task_id token) s) (\<lambda>p. case p of
       (Inl e, s1) \<Rightarrow> Some (Inl e, s1)
     | (Inr page, s1) \<Rightarrow>
         (case page_of page of
            Inl e \<Rightarrow> Some (Inl e, s1)
          | Inr (ms, t) \<Rightarrow>
              (if ms = [] \<or> t = token then Some (Inr (acc @ ms), s1)
               else log_pages W B task_id t (acc @ ms) s1)))"

definition task_logs :: "'s shell \<Rightarrow> aws_backend \<Rightarrow> string \<Rightarrow> ('s, string list) act" where
  "task_logs W B arn = log_pages W B (after_last CHR ''/'' arn) [] []"

definition task_stopped :: "'s shell \<Rightarrow> aws_backend \<Rightarrow> string \<Rightarrow> ('s, bool) act" where
  "task_stopped W B arn = act_bind (ecs_task W B arn) (\<lambda>t.
     act_bind (act_of (jfield ''lastStatus'' t)) (\<lambda>st. act_ret (st = JStr ''STOPPED'')))"

definition exit_code :: "'s shell \<Rightarrow> aws_backend \<Rightarrow> string \<Rightarrow> ('s, json) act" where
  "exit_code W B arn = act_bind (ecs_task W B arn) (\<lambda>t.
     act_of (and_then (first_of ''containers'' t) (jget ''exitCode'')))"

definition flush :: "'s shell \<Rightarrow> aws_backend \<Rightarrow> ('s, unit) act" where
  "flush W B =
     act_bind (loadgen_instances W B) (\<lambda>hosts.
     act_bind (start_task W B (fst hosts) flush_command) (\<lambda>arn.
     act_bind (wait_for W ''the flush task'' (task_stopped W B arn) 300 (ab_poll B)) (\<lambda>_.
     act_bind (exit_code W B arn) (\<lambda>code.
     if code \<noteq> JInt 0 then act_bind (task_logs W B arn) (\<lambda>_. act_fail (RuntimeFault ''flush exited''))
     else act_ret ()))))"

section \<open>The snapshot of the fleet\<close>

definition pick :: "string list \<Rightarrow> json \<Rightarrow> deploy_error + json" where
  "pick ks j = and_then (collect (\<lambda>k. and_then (jfield k j) (\<lambda>v. Inr (k, v))) ks) (\<lambda>ps. Inr (JObj ps))"

text \<open>A dictionary comprehension over a list of objects: the last value of a name counts.\<close>

definition named_values :: "(json \<Rightarrow> deploy_error + json) \<Rightarrow> json list \<Rightarrow> deploy_error + (string \<times> json) list" where
  "named_values val xs =
     and_then (collect (\<lambda>x. and_then (and_then (jfield ''name'' x) jstr) (\<lambda>n. and_then (val x) (\<lambda>v. Inr (n, v)))) xs)
       (\<lambda>ps. Inr (fold (\<lambda>p m. AList.update (fst p) (snd p) m) ps []))"

text \<open>\<^verbatim>\<open>j.get(k, [])\<close>, as a list.\<close>

definition list_or_empty :: "string \<Rightarrow> json \<Rightarrow> deploy_error + json list" where
  "list_or_empty k j = (case j of
       JObj ps \<Rightarrow> (case map_of ps k of None \<Rightarrow> Inr [] | Some v \<Rightarrow> jlist v)
     | _ \<Rightarrow> Inl TypeFault)"

definition instance_of :: "json \<Rightarrow> deploy_error + string \<times> (string \<times> json) list" where
  "instance_of ci =
     and_then (list_or_empty ''attributes'' ci) (\<lambda>xs.
     and_then (named_values (jget ''value'') xs) (\<lambda>attrs.
     and_then (jfield ''ec2InstanceId'' ci) (\<lambda>i.
     and_then (and_then (jfield ''containerInstanceArn'' ci) jstr) (\<lambda>arn.
     Inr (arn, [(''ec2_instance_id'', i),
       (''instance_type'', case map_of attrs ''ecs.instance-type'' of None \<Rightarrow> JNull | Some v \<Rightarrow> v)])))))"

definition worker_task :: "(string \<times> (string \<times> json) list) list \<Rightarrow> json \<Rightarrow> deploy_error + json" where
  "worker_task instances t =
     and_then (and_then (jfield ''taskArn'' t) jstr) (\<lambda>arn.
     and_then (jfield ''lastStatus'' t) (\<lambda>st.
     and_then (and_then (jfield ''containerInstanceArn'' t) jstr) (\<lambda>ci.
     Inr (JObj ([(''task'', JStr (after_last CHR ''/'' arn)), (''last_status'', st)] @
       (case map_of instances ci of None \<Rightarrow> [] | Some ps \<Rightarrow> ps))))))"

definition worker_container :: "'s shell \<Rightarrow> aws_backend \<Rightarrow> json list \<Rightarrow> ('s, json) act" where
  "worker_container W B services =
     act_bind (act_of (collect (jfield ''serviceName'')
       (takeWhile (\<lambda>s. jfield ''serviceName'' s \<noteq> Inr (JStr ''worker'')) services))) (\<lambda>_.
     case find (\<lambda>s. jfield ''serviceName'' s = Inr (JStr ''worker'')) services of
       None \<Rightarrow> act_fail (RuntimeFault ''StopIteration'')
     | Some worker \<Rightarrow>
         act_bind (act_of (and_then (jfield ''taskDefinition'' worker) jstr)) (\<lambda>td_arn.
         act_bind (aws_json W B [''ecs'', ''describe-task-definition'', ''--task-definition'', td_arn]) (\<lambda>j.
         act_of (and_then (jfield ''taskDefinition'' j) (\<lambda>td.
           and_then (first_of ''containerDefinitions'' td) (\<lambda>c.
           and_then (list_or_empty ''environment'' c) (\<lambda>xs.
           and_then (named_values (jfield ''value'') xs) (\<lambda>env.
           and_then (and_then (jfield ''taskDefinitionArn'' td) jstr) (\<lambda>arn.
           and_then (and_then (jfield ''image'' c) jstr) (\<lambda>image.
           Inr (JObj [(''task_definition'', JStr (after_last CHR ''/'' arn)),
             (''image_tag'', JStr (after_last CHR '':'' image)),
             (''env'', JObj (filter (\<lambda>p. fst p \<noteq> ''FTQ_REDIS_URL'') (sort_key fst env)))])))))))))))"

definition fleet_snapshot :: "'s shell \<Rightarrow> aws_backend \<Rightarrow> ('s, json) act" where
  "fleet_snapshot W B =
     act_bind (ecs W B [''describe-services'', ''--services'', ''worker'', ''redis'']) (\<lambda>sj.
     act_bind (act_of (and_then (jfield ''services'' sj) jlist)) (\<lambda>services.
     act_bind (ecs W B [''list-tasks'', ''--service-name'', ''worker'']) (\<lambda>aj.
     act_bind (act_of (and_then (jfield ''taskArns'' aj) strings_of)) (\<lambda>arns.
     act_bind (if arns = [] then act_ret [] else
       act_bind (ecs W B ([''describe-tasks'', ''--tasks''] @ arns)) (\<lambda>tj. act_of (and_then (jfield ''tasks'' tj) jlist)))
       (\<lambda>tasks.
     act_bind (act_of (collect (\<lambda>t. and_then (jfield ''containerInstanceArn'' t) jstr) tasks)) (\<lambda>cis.
     act_bind (if cis = [] then act_ret [] else
       act_bind (ecs W B ([''describe-container-instances'', ''--container-instances''] @ sort (remdups cis))) (\<lambda>cj.
       act_of (and_then (and_then (jfield ''containerInstances'' cj) jlist) (collect instance_of)))) (\<lambda>instances.
     act_bind (act_read (sh_today W)) (\<lambda>today.
     act_bind (act_of (collect (pick [''serviceName'', ''desiredCount'', ''runningCount'', ''pendingCount'']) services))
       (\<lambda>ss.
     act_bind (worker_container W B services) (\<lambda>wc.
     act_bind (act_of (collect (worker_task (rev instances)) tasks)) (\<lambda>wts.
     act_ret (JObj [(''taken_at_utc'', JStr today), (''services'', JArr ss), (''worker_container'', wc),
       (''worker_tasks'', JArr wts)]))))))))))))"

section \<open>Running the pair\<close>

text \<open>Both tasks of a pair: the second is only described when the first has stopped.\<close>

definition both_stopped :: "'s shell \<Rightarrow> aws_backend \<Rightarrow> string \<Rightarrow> string \<Rightarrow> ('s, bool) act" where
  "both_stopped W B p c = act_bind (task_stopped W B p) (\<lambda>b. if b then task_stopped W B c else act_ret False)"

text \<open>
  Waiting for the report: the log of the last look is what is returned, whether the report arrived or
  the time was up (\<^verbatim>\<open>suppress(RuntimeError)\<close>).
\<close>

partial_function (option) report_loop ::
  "'s shell \<Rightarrow> (string \<Rightarrow> string option) \<Rightarrow> aws_backend \<Rightarrow> string \<Rightarrow> rat \<Rightarrow> string list \<Rightarrow> ('s, string list) act" where
  "report_loop W unpack B arn deadline seen s =
     Option.bind (task_logs W B arn s) (\<lambda>p. case p of
       (Inl e, s1) \<Rightarrow> Some (case e of RuntimeFault _ \<Rightarrow> Inr seen | _ \<Rightarrow> Inl e, s1)
     | (Inr ls, s1) \<Rightarrow>
         (case decode_report unpack ls of
            Inl e \<Rightarrow> Some (Inl e, s1)
          | Inr (Some _) \<Rightarrow> Some (Inr ls, s1)
          | Inr None \<Rightarrow> (case sh_clock W s1 of (t, s2) \<Rightarrow>
              (if deadline < t then Some (Inr ls, s2)
               else report_loop W unpack B arn deadline ls (sh_sleep W (ab_poll B) s2)))))"

definition await_report :: "'s shell \<Rightarrow> (string \<Rightarrow> string option) \<Rightarrow> aws_backend \<Rightarrow> string \<Rightarrow> ('s, string list) act" where
  "await_report W unpack B arn = (\<lambda>s. case sh_clock W s of (t, s1) \<Rightarrow> report_loop W unpack B arn (t + 180) [] s1)"

record pair_result =
  pr_coordinator_exit :: json
  pr_producer_exit :: json
  pr_coordinator_log :: "string list"
  pr_producer_log :: "string list"
  pr_placement :: "(string \<times> json) list"

definition run_pair :: "'s shell \<Rightarrow> (string \<Rightarrow> string option) \<Rightarrow> aws_backend \<Rightarrow> string list \<Rightarrow> string list \<Rightarrow> rat
    \<Rightarrow> ('s, pair_result) act" where
  "run_pair W unpack B coordinator producer limit =
     act_bind (loadgen_instances W B) (\<lambda>(a, b).
     act_bind (start_task W B a producer) (\<lambda>prod.
     act_bind (start_task W B b coordinator) (\<lambda>coord.
     act_bind (wait_for W ''both loadgen tasks to stop'' (both_stopped W B prod coord) limit (ab_poll B)) (\<lambda>_.
     act_bind (exit_code W B coord) (\<lambda>code.
     act_bind (if code = JInt 0 \<or> code = JInt 1 then await_report W unpack B coord else task_logs W B coord) (\<lambda>log.
     act_bind (exit_code W B coord) (\<lambda>c_code.
     act_bind (exit_code W B prod) (\<lambda>p_code.
     act_bind (task_logs W B prod) (\<lambda>p_log.
     act_ret \<lparr>pr_coordinator_exit = c_code, pr_producer_exit = p_code, pr_coordinator_log = log,
       pr_producer_log = p_log,
       pr_placement = [(''producer_only'', JStr (after_last CHR ''/'' a)),
                       (''coordinator'', JStr (after_last CHR ''/'' b))]\<rparr>)))))))))"

section \<open>Writes are never repeated\<close>

lemma write_runs_once:
  assumes "\<not> is_read_only args"
  shows "aws_call W B args s = Some (run_cmd W (''aws'' # args @ [''--output'', ''json'']) s)"
proof -
  have "aws_tries W r cmd k 1 s = Some (run_cmd W cmd s)" for r cmd k
    by (cases "run_cmd W cmd s") (auto split: sum.split deploy_error.split)
  then show ?thesis using assms by (simp add: aws_call_def)
qed

lemma read_survives_failures:
  assumes "is_read_only args" and "cmd = ''aws'' # args @ [''--output'', ''json'']"
    and "run_cmd W cmd s = (Inl (CommandFailed c x), s1)"
    and "run_cmd W cmd (sh_sleep W (ab_retry B) s1) = (Inl (CommandFailed c' x'), s2)"
  shows "aws_call W B args s = Some (run_cmd W cmd (sh_sleep W (ab_retry B * 2) s2))"
proof -
  have "aws_tries W r cmd k 1 s = Some (run_cmd W cmd s)" for r k s
    by (cases "run_cmd W cmd s") (auto split: sum.split deploy_error.split)
  then show ?thesis
    using assms by (simp add: aws_call_def read_attempts_def numeral_eq_Suc)
qed

lemma fleet_writes: "\<not> is_read_only (''ecs'' # ''start-task'' # r)" "\<not> is_read_only (''ecs'' # ''update-service'' # r)"
  by (simp_all add: is_read_only_def read_only_calls_def)

section \<open>Waiting ends\<close>

text \<open>
  What is documented of the clock: it does not run backwards, and sleeping for \<open>d\<close> seconds takes at
  least \<open>d\<close> seconds.
\<close>

definition clock_doc :: "'s shell \<Rightarrow> ('s \<Rightarrow> rat) \<Rightarrow> bool" where
  "clock_doc W time_of \<longleftrightarrow>
     (\<forall>s. time_of s \<le> fst (sh_clock W s) \<and> fst (sh_clock W s) \<le> time_of (snd (sh_clock W s))) \<and>
     (\<forall>d s. 0 \<le> d \<longrightarrow> time_of s + d \<le> time_of (sh_sleep W d s)) \<and>
     (\<forall>c s. time_of s \<le> time_of (snd (run_cmd W c s)) \<and> time_of s \<le> time_of (snd (sh_output W c s)))"

text \<open>An action that always ends, with the clock not set back.\<close>

definition steady :: "('s \<Rightarrow> rat) \<Rightarrow> ('s, 'a) act \<Rightarrow> bool" where
  "steady time_of m \<longleftrightarrow> (\<forall>s. \<exists>r s'. m s = Some (r, s') \<and> time_of s \<le> time_of s')"

named_theorems steady_intro \<open>structural rules for actions that end\<close>

lemma steadyD: "steady time_of m \<Longrightarrow> \<exists>r s'. m s = Some (r, s') \<and> time_of s \<le> time_of s'"
  by (simp add: steady_def)

lemma steady_basic [steady_intro]:
  "steady time_of (act_ret x)" "steady time_of (act_fail e)" "steady time_of (act_of r)"
  by (simp_all add: steady_def act_ret_def act_fail_def act_of_def)

lemma steady_bind [steady_intro]:
  assumes "steady time_of m" and "\<And>x. steady time_of (k x)"
  shows "steady time_of (act_bind m k)"
  unfolding steady_def
proof
  fix s
  obtain r s1 where m: "m s = Some (r, s1)" "time_of s \<le> time_of s1" using steadyD [OF assms(1)] by blast
  show "\<exists>r s'. act_bind m k s = Some (r, s') \<and> time_of s \<le> time_of s'"
  proof (cases r)
    case (Inr x)
    from steadyD [OF assms(2)] obtain r' s2 where "k x s1 = Some (r', s2)" "time_of s1 \<le> time_of s2" by blast
    with m Inr show ?thesis by (auto simp: act_bind_def)
  qed (use m in \<open>auto simp: act_bind_def\<close>)
qed

lemma steady_if [steady_intro]:
  "steady time_of m \<Longrightarrow> steady time_of m' \<Longrightarrow> steady time_of (if b then m else m')"
  by simp

lemma steady_option [steady_intro]:
  "steady time_of m \<Longrightarrow> (\<And>x. steady time_of (k x)) \<Longrightarrow> steady time_of (case p of None \<Rightarrow> m | Some x \<Rightarrow> k x)"
  by (cases p) auto

lemma steady_tries:
  assumes "clock_doc W time_of" and "0 \<le> r"
  shows "steady time_of (aws_tries W r cmd k n)"
  unfolding steady_def
proof
  fix s
  show "\<exists>x s'. aws_tries W r cmd k n s = Some (x, s') \<and> time_of s \<le> time_of s'"
  proof (induction n arbitrary: k s)
    case 0
    then show ?case by (simp add: act_fail_def)
  next
    case (Suc n)
    obtain y s1 where run: "run_cmd W cmd s = (y, s1)" by fastforce
    have t1: "time_of s \<le> time_of s1" using assms(1) run unfolding clock_doc_def by (metis snd_conv)
    have "0 \<le> r * 2 ^ k" using assms(2) by simp
    then have "time_of s1 \<le> time_of (sh_sleep W (r * 2 ^ k) s1)"
      using assms(1) unfolding clock_doc_def by (meson le_add_same_cancel1 order_trans)
    with Suc.IH [of "Suc k" "sh_sleep W (r * 2 ^ k) s1"] t1 run show ?case
      by (auto split: sum.split deploy_error.split intro: order_trans)
  qed
qed

lemma steady_calls [steady_intro]:
  assumes "clock_doc W time_of" and "0 \<le> ab_retry B"
  shows "steady time_of (aws_json W B args)" "steady time_of (ecs W B args)"
proof -
  show json: "steady time_of (aws_json W B args)" for args
    unfolding aws_json_def aws_call_def by (intro steady_intro steady_tries assms)
  show "steady time_of (ecs W B args)" unfolding ecs_def by (rule json)
qed

lemma steady_wait:
  assumes doc: "clock_doc W time_of" and c: "steady time_of check" and e: "0 < every"
  shows "\<exists>r s'. wait_loop W late check deadline every s = Some (r, s') \<and> time_of s \<le> time_of s'"
proof (induction "nat (\<lfloor>(deadline - time_of s) / every\<rfloor> + 1)" arbitrary: s rule: less_induct)
  case less
  obtain r s1 where m: "check s = Some (r, s1)" "time_of s \<le> time_of s1" using steadyD [OF c] by blast
  obtain t s2 where k: "sh_clock W s1 = (t, s2)" by fastforce
  have t: "time_of s1 \<le> t" "t \<le> time_of s2"
    using doc k unfolding clock_doc_def by (metis fst_conv snd_conv)+
  let ?s3 = "sh_sleep W every s2"
  have t3: "t + every \<le> time_of ?s3"
    using doc e t(2) unfolding clock_doc_def by (meson add_right_mono less_imp_le order_trans)
  show ?case
  proof (cases "r = Inr False \<and> t \<le> deadline")
    case True
    have "deadline - time_of ?s3 \<le> (deadline - time_of s) - every" using t3 t(1) m(2) by linarith
    from divide_right_mono [OF this, of every] e
    have "(deadline - time_of ?s3) / every \<le> (deadline - time_of s) / every - 1" by (simp add: diff_divide_distrib)
    then have "\<lfloor>(deadline - time_of ?s3) / every\<rfloor> < \<lfloor>(deadline - time_of s) / every\<rfloor>"
      by linarith
    moreover have "0 \<le> \<lfloor>(deadline - time_of s) / every\<rfloor>"
      using True t(1) m(2) e by (simp add: field_simps)
    ultimately have "nat (\<lfloor>(deadline - time_of ?s3) / every\<rfloor> + 1) < nat (\<lfloor>(deadline - time_of s) / every\<rfloor> + 1)"
      by linarith
    from less [OF this] obtain r' s' where "wait_loop W late check deadline every ?s3 = Some (r', s')"
      "time_of ?s3 \<le> time_of s'" by blast
    with True m k t3 t e show ?thesis by (subst wait_loop.simps) auto
  next
    case False
    with m k t show ?thesis by (subst wait_loop.simps) (auto split: sum.split)
  qed
qed

lemma steady_wait_for [steady_intro]:
  assumes "clock_doc W time_of" and "steady time_of check" and "0 < every"
  shows "steady time_of (wait_for W what check limit every)"
  unfolding steady_def
proof
  fix s
  obtain t s1 where k: "sh_clock W s = (t, s1)" by fastforce
  have "time_of s \<le> time_of s1" using assms(1) k unfolding clock_doc_def by (metis fst_conv order_trans snd_conv)
  with steady_wait [OF assms, of _ "t + limit" s1] k
  show "\<exists>r s'. wait_for W what check limit every s = Some (r, s') \<and> time_of s \<le> time_of s'"
    by (fastforce simp: wait_for_def)
qed

lemma scaling_ends:
  assumes "clock_doc W time_of" and "0 \<le> ab_retry B" and "0 < ab_poll B"
  shows "steady time_of (set_workers W B n)" and "steady time_of (wait_for_redis W B limit)"
  unfolding set_workers_def wait_for_redis_def workers_settled_def redis_healthy_def ecs_task_def
  by (intro steady_intro assms)+

end
