(* ===== verification/Deploy_Bench.thy ===== *)
theory Deploy_Bench
  imports Deploy_Backend
begin

text \<open>
  \<^verbatim>\<open>deploy/bench.py\<close>, the driver: \<^verbatim>\<open>run_session\<close> over any backend and the reading of the headline rates. The
  results directory is a dictionary from relative paths to texts. Two ghost fields of
  the session record the calls made on the backend and when each point was started.
\<close>

section \<open>Backends and sessions\<close>

record 's backend =
  be_name :: string
  be_wait_for_redis :: "('s, unit) act"
  be_set_workers :: "int \<Rightarrow> ('s, unit) act"
  be_flush :: "('s, unit) act"
  be_snapshot :: "('s, json) act"
  be_run_pair :: "string list \<Rightarrow> string list \<Rightarrow> rat \<Rightarrow> ('s, pair_result) act"
  be_scrub :: "string \<Rightarrow> string"

definition aws_ops :: "'s shell \<Rightarrow> (string \<Rightarrow> string option) \<Rightarrow> aws_backend \<Rightarrow> 's backend" where
  "aws_ops W unpack B = \<lparr>be_name = ''aws'', be_wait_for_redis = wait_for_redis W B 300,
     be_set_workers = set_workers W B, be_flush = flush W B, be_snapshot = fleet_snapshot W B,
     be_run_pair = run_pair W unpack B, be_scrub = (\<lambda>s. scrub s (ab_account B))\<rparr>"

datatype bench_call = WaitRedis | SetWorkers int | Flush | Snapshot | RunPair bench_point

datatype outcome_text =
    SkippedSaved | NotRunDeadline | FailedNoReport json | Ran json json json json
  | NotRecovered nat | Recovered json json json

record 's session =
  se_world :: 's
  se_files :: "(string \<times> string) list"
  se_outcomes :: "(string \<times> outcome_text) list"
  se_ready :: bool
  se_calls :: "bench_call list"
  se_starts :: "(bench_point \<times> rat) list"

definition on_world :: "('s, 'a) act \<Rightarrow> ('s session, 'a) act" where
  "on_world m = (\<lambda>z. case m (se_world z) of
     None \<Rightarrow> None | Some (r, s') \<Rightarrow> Some (r, z\<lparr>se_world := s'\<rparr>))"

definition backend_call :: "bench_call \<Rightarrow> ('s, 'a) act \<Rightarrow> ('s session, 'a) act" where
  "backend_call c m = (\<lambda>z. on_world m (z\<lparr>se_calls := se_calls z @ [c]\<rparr>))"

definition update_session :: "('s session \<Rightarrow> 's session) \<Rightarrow> ('s session, unit) act" where
  "update_session f = (\<lambda>z. Some (Inr (), f z))"

definition write_text :: "string \<Rightarrow> string \<Rightarrow> ('s session, unit) act" where
  "write_text path content = update_session (\<lambda>z. z\<lparr>se_files := AList.update path content (se_files z)\<rparr>)"

definition set_outcome :: "string \<Rightarrow> outcome_text \<Rightarrow> ('s session, unit) act" where
  "set_outcome key out = update_session (\<lambda>z. z\<lparr>se_outcomes := AList.update key out (se_outcomes z)\<rparr>)"

definition point_path :: "bench_point \<Rightarrow> string \<Rightarrow> string" where
  "point_path p ending = bp_suite p @ ''/'' @ bp_label p @ ending"

definition outcome_key :: "bench_point \<Rightarrow> string" where
  "outcome_key p = bp_suite p @ ''/'' @ bp_label p"

section \<open>Reading and changing reports\<close>

definition headline_file :: "string \<Rightarrow> bool" where
  "headline_file path \<longleftrightarrow> prefix ''headline/'' path \<and> suffix ''.json'' path \<and>
     CHR ''/'' \<notin> set (drop 9 path) \<and> \<not> suffix ''.services.json'' path"

definition rate_of :: "string \<Rightarrow> deploy_error + rat" where
  "rate_of content = (case loads content of
       None \<Rightarrow> Inl BadJson
     | Some j \<Rightarrow> and_then (and_then (jfield ''throughput'' j) (jfield ''completed_per_s'')) (\<lambda>v.
         case py_float_of v of Inr (Finite r) \<Rightarrow> Inr r | _ \<Rightarrow> Inl TypeFault))"

definition headline_rates :: "(string \<times> string) list \<Rightarrow> deploy_error + rat list" where
  "headline_rates files = collect (\<lambda>f. rate_of (snd f)) (sort_key fst (filter (\<lambda>f. headline_file (fst f)) files))"

text \<open>\<^verbatim>\<open>report["meta"][k] = v\<close>.\<close>

definition set_meta :: "string \<Rightarrow> json \<Rightarrow> json \<Rightarrow> deploy_error + json" where
  "set_meta k v report = (case report of
       JObj ps \<Rightarrow> (case map_of ps ''meta'' of
           None \<Rightarrow> Inl (KeyFault ''meta'')
         | Some (JObj ms) \<Rightarrow> Inr (JObj (AList.update ''meta'' (JObj (AList.update k v ms)) ps))
         | _ \<Rightarrow> Inl TypeFault)
     | _ \<Rightarrow> Inl TypeFault)"

definition ran_of :: "json \<Rightarrow> deploy_error + outcome_text" where
  "ran_of report =
     and_then (jfield ''exactly_once'' report) (\<lambda>once.
     and_then (and_then (jfield ''throughput'' report) (jfield ''completed_per_s'')) (\<lambda>rate.
     and_then (jfield ''ok'' once) (\<lambda>ok.
     and_then (and_then (and_then (jfield ''producers'' report) (jfield ''hosts'')) (jfield ''reported'')) (\<lambda>hosts.
     and_then (and_then (jfield ''depth_in_window'' report) (jfield ''min'')) (\<lambda>depth.
     Inr (Ran rate ok hosts depth))))))"

definition git_rev :: "'s shell \<Rightarrow> ('s, string) act" where
  "git_rev W = (\<lambda>s. case run_cmd W [''git'', ''rev-parse'', ''--short'', ''HEAD''] s of
     (Inr out, s') \<Rightarrow> Some (Inr (strip out), s')
   | (Inl e, s') \<Rightarrow> (case e of
         CommandFailed _ _ \<Rightarrow> Some (Inr ''unknown'', s')
       | OsFault _ \<Rightarrow> Some (Inr ''unknown'', s')
       | _ \<Rightarrow> Some (Inl e, s')))"

definition aws_environment :: string where
  "aws_environment = ''AWS us-west-2a, ECS on EC2: Redis on m7i-flex.large, 2 loadgen hosts and the '' @
     ''workers on c7i-flex.large (2 workers per host)''"

section \<open>The driver\<close>

definition text_of_log :: "string list \<Rightarrow> string" where
  "text_of_log ls = join_with [CHR 0x0A] ls"

definition redis_once :: "'s backend \<Rightarrow> ('s session, unit) act" where
  "redis_once B = (\<lambda>z. if se_ready z then act_ret () z
     else act_bind (backend_call WaitRedis (be_wait_for_redis B))
       (\<lambda>_. update_session (\<lambda>z. z\<lparr>se_ready := True\<rparr>)) z)"

text \<open>A point from the reset of the fleet to its outcome.\<close>

definition save_report :: "'s backend \<Rightarrow> bench_point \<Rightarrow> pair_result \<Rightarrow> json option \<Rightarrow> ('s session, unit) act" where
  "save_report B p pair found = (case found of
       None \<Rightarrow> set_outcome (outcome_key p) (FailedNoReport (pr_coordinator_exit pair))
     | Some report0 \<Rightarrow>
         act_bind (act_of (and_then (set_meta ''placement'' (JObj (pr_placement pair)) report0)
           (set_meta ''producer_exit'' (pr_producer_exit pair)))) (\<lambda>report.
         act_bind (write_text (point_path p ''.json'') (be_scrub B (dumps_indent 0 report) @ [CHR 0x0A])) (\<lambda>_.
         act_bind (act_of (ran_of report)) (\<lambda>out. set_outcome (outcome_key p) out))))"

definition measure_point :: "'s shell \<Rightarrow> (string \<Rightarrow> string option) \<Rightarrow> 's backend \<Rightarrow> bench_point \<Rightarrow> rat option \<Rightarrow> string
    \<Rightarrow> ('s session, unit) act" where
  "measure_point W unpack B p rate run_id =
     act_bind (backend_call (SetWorkers 0) (be_set_workers B 0)) (\<lambda>_.
     act_bind (backend_call Flush (be_flush B)) (\<lambda>_.
     act_bind (backend_call (SetWorkers (bp_workers p)) (be_set_workers B (bp_workers p))) (\<lambda>_.
     act_bind (backend_call Snapshot (be_snapshot B)) (\<lambda>snap.
     act_bind (write_text (point_path p ''.services.json'') (be_scrub B (dumps_indent 0 snap) @ [CHR 0x0A])) (\<lambda>_.
     act_bind (on_world (act_read (sh_today W))) (\<lambda>today.
     act_bind (on_world (git_rev W)) (\<lambda>git.
     act_bind (backend_call (RunPair p)
         (be_run_pair B (coordinator_command p run_id
           [(''suite'', JStr (bp_suite p)), (''label'', JStr (bp_label p)), (''workers'', JInt (bp_workers p)),
            (''backend'', JStr (be_name B)),
            (''environment'', JStr (if be_name B = ''aws'' then aws_environment else ''local Docker (driver test)'')),
            (''date_utc'', JStr today), (''git'', JStr git), (''run_id'', JStr run_id)] rate)
           (producer_command run_id) (of_int (bp_warmup p + bp_measure p + bp_cooldown p + 1200)))) (\<lambda>pair.
     act_bind (write_text (point_path p ''.coordinator.txt'')
         (be_scrub B (text_of_log (filter (\<lambda>x. take 2 x \<noteq> ''R:'') (pr_coordinator_log pair))))) (\<lambda>_.
     act_bind (write_text (point_path p ''.producer.txt'') (be_scrub B (text_of_log (pr_producer_log pair)))) (\<lambda>_.
     act_bind (act_of (decode_report unpack (pr_coordinator_log pair))) (\<lambda>found.
     save_report B p pair found)))))))))))"

definition offered_rate :: "bench_point \<Rightarrow> (string \<times> string) list \<Rightarrow> deploy_error + rat option" where
  "offered_rate p files =
     (if bp_overload p \<noteq> 0
      then and_then (headline_rates files) (\<lambda>rs. and_then (backpressure_rate rs (bp_overload p)) (\<lambda>r. Inr (Some r)))
      else Inr None)"

definition run_point :: "'s shell \<Rightarrow> (string \<Rightarrow> string option) \<Rightarrow> 's backend \<Rightarrow> bench_point \<Rightarrow> ('s session, unit) act" where
  "run_point W unpack B p =
     act_bind (\<lambda>z. act_of (offered_rate p (se_files z)) z) (\<lambda>rate.
     act_bind (on_world (act_read (sh_token W))) (\<lambda>tok.
     act_bind (redis_once B) (\<lambda>_.
     measure_point W unpack B p rate (bp_suite p @ ''-'' @ bp_label p @ ''-'' @ take 8 tok))))"

definition saved :: "bench_point \<Rightarrow> 's session \<Rightarrow> bool" where
  "saved p z \<longleftrightarrow> map_of (se_files z) (point_path p ''.json'') \<noteq> None"

definition session_point :: "'s shell \<Rightarrow> (string \<Rightarrow> string option) \<Rightarrow> 's backend \<Rightarrow> rat \<Rightarrow> rat \<Rightarrow> bool \<Rightarrow> bench_point
    \<Rightarrow> ('s session, unit) act" where
  "session_point W unpack B started deadline_s redo p = (\<lambda>z.
     if saved p z \<and> \<not> redo then set_outcome (outcome_key p) SkippedSaved z
     else act_bind (on_world (act_read (sh_clock W))) (\<lambda>now.
       if now - started + of_int (bp_seconds p) > deadline_s then set_outcome (outcome_key p) NotRunDeadline
       else act_bind (update_session (\<lambda>z. z\<lparr>se_starts := se_starts z @ [(p, now - started)]\<rparr>))
         (\<lambda>_. run_point W unpack B p)) z)"

fun session_loop :: "'s shell \<Rightarrow> (string \<Rightarrow> string option) \<Rightarrow> 's backend \<Rightarrow> rat \<Rightarrow> rat \<Rightarrow> bool \<Rightarrow> bench_point list
    \<Rightarrow> ('s session, unit) act" where
  "session_loop W unpack B started deadline_s redo [] = act_ret ()"
| "session_loop W unpack B started deadline_s redo (p # ps) =
     act_bind (session_point W unpack B started deadline_s redo p)
       (\<lambda>_. session_loop W unpack B started deadline_s redo ps)"

definition fresh_session :: "'s \<Rightarrow> (string \<times> string) list \<Rightarrow> 's session" where
  "fresh_session s files = \<lparr>se_world = s, se_files = files, se_outcomes = [], se_ready = False, se_calls = [],
     se_starts = []\<rparr>"

definition run_session :: "'s shell \<Rightarrow> (string \<Rightarrow> string option) \<Rightarrow> 's backend \<Rightarrow> bench_point list
    \<Rightarrow> (string \<times> string) list \<Rightarrow> rat \<Rightarrow> bool \<Rightarrow> 's \<Rightarrow> ((deploy_error + unit) \<times> 's session) option" where
  "run_session W unpack B points files deadline_s redo s =
     (case sh_clock W s of (started, s1) \<Rightarrow>
        session_loop W unpack B started deadline_s redo points (fresh_session s1 files))"

section \<open>The order of the calls\<close>

definition point_calls :: "bench_point \<Rightarrow> bench_call list" where
  "point_calls p = [SetWorkers 0, Flush, SetWorkers (bp_workers p), Snapshot, RunPair p]"

definition session_calls :: "bool \<Rightarrow> bench_point list \<Rightarrow> bench_call list" where
  "session_calls ready ps = (if ready \<or> ps = [] then [] else [WaitRedis]) @ concat (map point_calls ps)"

text \<open>
  An action that makes the calls \<open>cs\<close>, all of them unless it fails, and leaves the rest of what the
  driver keeps about its progress alone.
\<close>

definition makes :: "bench_call list \<Rightarrow> ('s session, 'a) act \<Rightarrow> bool" where
  "makes cs m \<longleftrightarrow> (\<forall>z r z'. m z = Some (r, z') \<longrightarrow>
     (\<exists>ys. se_calls z' = se_calls z @ ys \<and> prefix ys cs \<and> (\<not> isl r \<longrightarrow> ys = cs)) \<and>
     se_ready z' = se_ready z \<and> se_starts z' = se_starts z)"

named_theorems makes_intro \<open>structural rules for the calls an action makes\<close>

lemma makes_bind [makes_intro]:
  assumes m: "makes cs m" and k: "\<And>x. makes ds (k x)"
  shows "makes (cs @ ds) (act_bind m k)"
  unfolding makes_def
proof (intro allI impI)
  fix z r z'
  assume "act_bind m k z = Some (r, z')"
  then obtain r1 z1 where 1: "m z = Some (r1, z1)" and
    2: "case r1 of Inl e \<Rightarrow> Some (Inl e, z1) = Some (r, z') | Inr x \<Rightarrow> k x z1 = Some (r, z')"
    by (auto simp: act_bind_def split: option.splits sum.splits prod.splits)
  from m 1 obtain ys where ys: "se_calls z1 = se_calls z @ ys" "prefix ys cs" "\<not> isl r1 \<Longrightarrow> ys = cs"
    "se_ready z1 = se_ready z" "se_starts z1 = se_starts z" unfolding makes_def by blast
  show "(\<exists>ys. se_calls z' = se_calls z @ ys \<and> prefix ys (cs @ ds) \<and> (\<not> isl r \<longrightarrow> ys = cs @ ds)) \<and>
     se_ready z' = se_ready z \<and> se_starts z' = se_starts z"
  proof (cases r1)
    case (Inl e)
    with 2 ys show ?thesis by (auto intro: prefix_prefix)
  next
    case (Inr x)
    with 2 k [of x] obtain zs where "se_calls z' = se_calls z1 @ zs" "prefix zs ds" "\<not> isl r \<Longrightarrow> zs = ds"
      "se_ready z' = se_ready z1" "se_starts z' = se_starts z1" unfolding makes_def by fastforce
    with ys Inr show ?thesis by auto
  qed
qed

lemma makes_nothing [makes_intro]:
  "makes [] (act_ret x)" "makes [] (act_of r)" "makes [] (\<lambda>z. act_of (f z) z)"
  "makes [] (write_text path s)" "makes [] (set_outcome key out)"
  by (auto simp: makes_def act_ret_def act_of_def write_text_def set_outcome_def update_session_def)

lemma makes_world [makes_intro]: "makes [] (on_world m)"
  by (auto simp: makes_def on_world_def split: option.splits)

lemma makes_call [makes_intro]: "makes [c] (backend_call c m)"
  by (auto simp: makes_def backend_call_def on_world_def split: option.splits)

lemma makes_save: "makes [] (save_report B p pair found)"
proof (cases found)
  case None
  then show ?thesis by (simp add: save_report_def makes_nothing)
next
  case (Some report0)
  have "makes ([] @ [] @ [] @ []) (save_report B p pair found)"
    unfolding save_report_def Some option.case by (intro makes_intro)
  then show ?thesis by simp
qed

lemma makes_measure: "makes (point_calls p) (measure_point W unpack B p rate run_id)"
proof -
  have "makes ([SetWorkers 0] @ [Flush] @ [SetWorkers (bp_workers p)] @ [Snapshot] @ [] @ [] @ [] @ [RunPair p] @
      [] @ [] @ [] @ []) (measure_point W unpack B p rate run_id)"
    unfolding measure_point_def by (intro makes_intro makes_save)
  then show ?thesis by (simp add: point_calls_def)
qed

lemma act_bindE:
  assumes "act_bind m k z = Some (r, z')"
  obtains e where "m z = Some (Inl e, z')" "r = Inl e"
  | x z1 where "m z = Some (Inr x, z1)" "k x z1 = Some (r, z')"
  using assms by (auto simp: act_bind_def split: option.splits sum.splits prod.splits)

lemma makesD:
  assumes "makes cs m" and "m z = Some (r, z')"
  obtains ys where "se_calls z' = se_calls z @ ys" "prefix ys cs" "\<not> isl r \<longrightarrow> ys = cs"
    "se_ready z' = se_ready z" "se_starts z' = se_starts z"
  using assms unfolding makes_def by blast

lemma redis_once_calls:
  assumes "redis_once B z = Some (r, z')"
  shows "prefix (se_calls z) (se_calls z')" and "se_starts z' = se_starts z" and "se_ready z \<longrightarrow> se_ready z'"
    and "if isl r then prefix (se_calls z') (se_calls z @ [WaitRedis])
      else se_ready z' \<and> se_calls z' = se_calls z @ (if se_ready z then [] else [WaitRedis])"
  using assms
  by (auto simp: redis_once_def act_bind_def act_ret_def backend_call_def on_world_def update_session_def
      split: if_splits option.splits sum.splits)

lemma run_point_calls:
  assumes "run_point W unpack B p z = Some (r, z')"
  shows "\<exists>ys. se_calls z' = se_calls z @ ys \<and> prefix ys (session_calls (se_ready z) [p]) \<and>
      (\<not> isl r \<longrightarrow> ys = session_calls (se_ready z) [p] \<and> se_ready z')" (is ?calls)
    and "se_starts z' = se_starts z"
proof -
  show ?calls "se_starts z' = se_starts z"
    using assms unfolding run_point_def
  proof (atomize(full), elim act_bindE, goal_cases)
    case (1 e)
    then show ?case by (auto simp: act_of_def)
  next
    case (2 rate z1 e)
    obtain ys where "se_calls z' = se_calls z1 @ ys" "prefix ys []" "se_starts z' = se_starts z1"
      by (rule makesD [OF makes_world 2(2)])
    moreover have "z1 = z" using 2(1) by (simp add: act_of_def)
    ultimately show ?case using 2(3) by simp
  next
    case (3 rate z1 tok z2 e)
    obtain ys where "se_calls z2 = se_calls z1 @ ys" "prefix ys []" "se_ready z2 = se_ready z1"
      "se_starts z2 = se_starts z1" by (rule makesD [OF makes_world 3(2)])
    moreover have "z1 = z" using 3(1) by (simp add: act_of_def)
    ultimately have same: "se_calls z2 = se_calls z" "se_ready z2 = se_ready z" "se_starts z2 = se_starts z" by simp_all
    have nr: "\<not> se_ready z2" using 3(3) by (auto simp: redis_once_def act_ret_def)
    obtain us where us: "se_calls z' = se_calls z @ us" using redis_once_calls(1) [OF 3(3)] same unfolding prefix_def by auto
    then have "us = [WaitRedis] \<or> us = []" using redis_once_calls(4) [OF 3(3)] same by auto
    then have "prefix us (session_calls (se_ready z) [p])" using nr same by (auto simp: session_calls_def)
    with us redis_once_calls(2) [OF 3(3)] same 3(4) show ?case by simp
  next
    case (4 rate z1 tok z2 u z3)
    obtain ys where ys: "se_calls z2 = se_calls z1 @ ys" "prefix ys []" "se_ready z2 = se_ready z1"
      "se_starts z2 = se_starts z1" by (rule makesD [OF makes_world 4(2)])
    have z1: "z1 = z" using 4(1) by (simp add: act_of_def)
    obtain zs where zs: "se_calls z' = se_calls z3 @ zs" "prefix zs (point_calls p)"
      "\<not> isl r \<longrightarrow> zs = point_calls p" "se_ready z' = se_ready z3" "se_starts z' = se_starts z3"
      by (rule makesD [OF makes_measure 4(4)])
    from redis_once_calls [OF 4(3)] ys zs z1 show ?case by (auto simp: session_calls_def)
  qed
qed

lemma session_calls_Cons:
  "session_calls ready (p # ps) = session_calls ready [p] @ session_calls True ps"
  by (simp add: session_calls_def)

text \<open>What one point, run, skipped or too late, adds to the calls and to the starts.\<close>

definition progress :: "rat \<Rightarrow> bench_point list \<Rightarrow> 's session \<Rightarrow> bool \<Rightarrow> 's session \<Rightarrow> bool" where
  "progress deadline_s ps z failed z' \<longleftrightarrow> (\<exists>st ys. se_starts z' = se_starts z @ st \<and> se_calls z' = se_calls z @ ys \<and>
     subseq (map fst st) ps \<and> (\<forall>(p, e) \<in> set st. e + of_int (bp_seconds p) \<le> deadline_s) \<and>
     prefix ys (session_calls (se_ready z) (map fst st)) \<and>
     (\<not> failed \<longrightarrow> ys = session_calls (se_ready z) (map fst st) \<and> se_ready z' = (se_ready z \<or> st \<noteq> [])))"

lemma session_point_progress:
  assumes "session_point W unpack B started deadline_s redo p z = Some (r, z')"
  shows "progress deadline_s [p] z (isl r) z'"
proof (cases "saved p z \<and> \<not> redo")
  case True
  with assms show ?thesis
    by (auto simp: session_point_def set_outcome_def update_session_def progress_def session_calls_def)
next
  case False
  obtain now s1 where k: "sh_clock W (se_world z) = (now, s1)" by fastforce
  let ?z1 = "z\<lparr>se_world := s1\<rparr>" let ?z2 = "?z1\<lparr>se_starts := se_starts z @ [(p, now - started)]\<rparr>"
  have run: "(if now - started + of_int (bp_seconds p) > deadline_s then set_outcome (outcome_key p) NotRunDeadline ?z1
      else run_point W unpack B p ?z2) = Some (r, z')"
    using assms False k by (simp add: session_point_def act_bind_def on_world_def act_read_def update_session_def
        split: if_splits)
  show ?thesis
  proof (cases "now - started + of_int (bp_seconds p) > deadline_s")
    case True
    with run show ?thesis
      by (auto simp: set_outcome_def update_session_def progress_def session_calls_def)
  next
    case False
    with run have "run_point W unpack B p ?z2 = Some (r, z')" by simp
    from run_point_calls [OF this] obtain ys where "se_calls z' = se_calls z @ ys"
      "prefix ys (session_calls (se_ready z) [p])" "\<not> isl r \<longrightarrow> ys = session_calls (se_ready z) [p] \<and> se_ready z'"
      "se_starts z' = se_starts z @ [(p, now - started)]" by auto
    with False show ?thesis
      by (auto simp: progress_def not_less intro!: exI [of _ "[(p, now - started)]"])
  qed
qed

lemma progress_trans:
  assumes "progress d ps z False z1" and "progress d qs z1 failed z'"
  shows "progress d (ps @ qs) z failed z'"
proof -
  obtain st ys where 1: "se_starts z1 = se_starts z @ st" "se_calls z1 = se_calls z @ ys"
    "subseq (map fst st) ps" "\<forall>(p, e) \<in> set st. e + of_int (bp_seconds p) \<le> d"
    "ys = session_calls (se_ready z) (map fst st)" "se_ready z1 = (se_ready z \<or> st \<noteq> [])"
    using assms(1) unfolding progress_def by blast
  obtain st' ys' where 2: "se_starts z' = se_starts z1 @ st'" "se_calls z' = se_calls z1 @ ys'"
    "subseq (map fst st') qs" "\<forall>(p, e) \<in> set st'. e + of_int (bp_seconds p) \<le> d"
    "prefix ys' (session_calls (se_ready z1) (map fst st'))"
    "\<not> failed \<longrightarrow> ys' = session_calls (se_ready z1) (map fst st') \<and> se_ready z' = (se_ready z1 \<or> st' \<noteq> [])"
    using assms(2) unfolding progress_def by blast
  have sc: "session_calls (se_ready z) (map fst (st @ st')) = ys @ session_calls (se_ready z1) (map fst st')"
    using 1(5,6) by (auto simp: session_calls_def)
  have "prefix (ys @ ys') (session_calls (se_ready z) (map fst (st @ st')))" unfolding sc using 2(5) by simp
  moreover have "subseq (map fst (st @ st')) (ps @ qs)" using 1(3) 2(3) by (simp add: list_emb_append_mono)
  ultimately show ?thesis
    unfolding progress_def using 1 2 sc by (intro exI [of _ "st @ st'"] exI [of _ "ys @ ys'"]) auto
qed

lemma session_loop_progress:
  "session_loop W unpack B started deadline_s redo ps z = Some (r, z') \<Longrightarrow> progress deadline_s ps z (isl r) z'"
proof (induction ps arbitrary: z)
  case Nil
  then show ?case by (auto simp: act_ret_def progress_def session_calls_def)
next
  case (Cons p ps)
  from Cons.prems show ?case unfolding session_loop.simps
  proof (cases rule: act_bindE)
    case (1 e)
    from session_point_progress [OF this(1)] have "progress deadline_s [p] z True z'" by simp
    then obtain st ys where st: "se_starts z' = se_starts z @ st" "se_calls z' = se_calls z @ ys" "subseq (map fst st) [p]"
      "\<forall>(p, e) \<in> set st. e + of_int (bp_seconds p) \<le> deadline_s"
      "prefix ys (session_calls (se_ready z) (map fst st))" unfolding progress_def by blast
    have "subseq [p] (p # ps)" by simp
    with st(3) have "subseq (map fst st) (p # ps)" by (rule subseq_order.trans)
    with st 1(2) show ?thesis unfolding progress_def by auto
  next
    case (2 x z1)
    from session_point_progress [OF 2(1)] have "progress deadline_s [p] z False z1" by simp
    from progress_trans [OF this Cons.IH [OF 2(2)]] show ?thesis by simp
  qed
qed

lemma session_order:
  assumes "run_session W unpack B points files deadline_s redo s = Some (r, z)"
  shows "subseq (map fst (se_starts z)) points"
    and "\<forall>(p, e) \<in> set (se_starts z). e + of_int (bp_seconds p) \<le> deadline_s"
    and "prefix (se_calls z) (session_calls False (map fst (se_starts z)))"
    and "\<not> isl r \<Longrightarrow> se_calls z = session_calls False (map fst (se_starts z))"
proof -
  obtain started s1 where "sh_clock W s = (started, s1)" by fastforce
  with assms have "session_loop W unpack B started deadline_s redo points (fresh_session s1 files) = Some (r, z)"
    by (simp add: run_session_def)
  from session_loop_progress [OF this] have "progress deadline_s points (fresh_session s1 files) (isl r) z" .
  then show "subseq (map fst (se_starts z)) points" "\<forall>(p, e) \<in> set (se_starts z). e + of_int (bp_seconds p) \<le> deadline_s"
    "prefix (se_calls z) (session_calls False (map fst (se_starts z)))"
    "\<not> isl r \<Longrightarrow> se_calls z = session_calls False (map fst (se_starts z))"
    unfolding progress_def by (auto simp: fresh_session_def)
qed

section \<open>Invariants of the session\<close>

definition stays :: "('z \<Rightarrow> bool) \<Rightarrow> ('z, 'a) act \<Rightarrow> bool" where
  "stays I m \<longleftrightarrow> (\<forall>z r z'. I z \<longrightarrow> m z = Some (r, z') \<longrightarrow> I z')"

named_theorems stays_intro \<open>structural rules for invariants of actions\<close>

lemma staysD: "stays I m \<Longrightarrow> m z = Some (r, z') \<Longrightarrow> I z \<Longrightarrow> I z'"
  unfolding stays_def by blast

lemma stays_bind [stays_intro]: "stays I m \<Longrightarrow> (\<And>x. stays I (k x)) \<Longrightarrow> stays I (act_bind m k)"
  unfolding stays_def
proof (intro allI impI)
  fix z r z'
  assume m: "\<forall>z r z'. I z \<longrightarrow> m z = Some (r, z') \<longrightarrow> I z'"
    and k: "\<And>x. \<forall>z r z'. I z \<longrightarrow> k x z = Some (r, z') \<longrightarrow> I z'" and z: "I z"
  assume "act_bind m k z = Some (r, z')"
  then show "I z'" by (rule act_bindE) (use m k z in blast)+
qed

lemma stays_basic [stays_intro]: "stays I (act_ret x)" "stays I (act_of r)" "stays I (\<lambda>z. act_of (f z) z)"
  by (auto simp: stays_def act_ret_def act_of_def)

lemma stays_if [stays_intro]: "stays I m \<Longrightarrow> stays I m' \<Longrightarrow> stays I (\<lambda>z. if b z then m z else m' z)"
  unfolding stays_def by (intro allI impI) (metis (full_types))

text \<open>
  An invariant of the files and the outcomes alone: it is enough that every text the driver writes
  and every outcome it notes keeps it.
\<close>

definition about_results :: "('s session \<Rightarrow> bool) \<Rightarrow> bool" where
  "about_results I \<longleftrightarrow> (\<forall>z z'. se_files z = se_files z' \<longrightarrow> se_outcomes z = se_outcomes z' \<longrightarrow> I z = I z')"

lemma about_resultsD:
  "about_results I \<Longrightarrow> I z \<Longrightarrow> se_files z' = se_files z \<Longrightarrow> se_outcomes z' = se_outcomes z \<Longrightarrow> I z'"
  unfolding about_results_def by metis

lemma stays_world [stays_intro]: "about_results I \<Longrightarrow> stays I (on_world m)"
  unfolding stays_def on_world_def by (auto split: option.splits elim!: about_resultsD)

lemma stays_call [stays_intro]: "about_results I \<Longrightarrow> stays I (backend_call c m)"
  unfolding stays_def backend_call_def on_world_def by (auto split: option.splits elim!: about_resultsD)

lemma stays_redis_once [stays_intro]: "about_results I \<Longrightarrow> stays I (redis_once B)"
  unfolding redis_once_def
  by (intro stays_intro) (auto simp: stays_def update_session_def elim!: about_resultsD)

lemma stays_before:
  assumes "about_results I" and "\<And>ending s. stays I (write_text (point_path p ending) (be_scrub B s))"
    and "\<And>s. stays I (write_text (point_path p ''.services.json'') (be_scrub B s @ [CHR 0x0A]))"
    and "\<And>pair found. stays I (save_report B p pair found)"
  shows "stays I (run_point W unpack B p)"
  unfolding run_point_def measure_point_def by (intro stays_intro assms)

lemma session_point_runs:
  assumes "session_point W unpack B started deadline_s redo p z = Some (r, z')"
  obtains "saved p z \<and> \<not> redo" "z' = z\<lparr>se_outcomes := AList.update (outcome_key p) SkippedSaved (se_outcomes z)\<rparr>" "r = Inr ()"
  | s1 where "\<not> (saved p z \<and> \<not> redo)" "r = Inr ()"
      "z' = z\<lparr>se_world := s1, se_outcomes := AList.update (outcome_key p) NotRunDeadline (se_outcomes z)\<rparr>"
  | s1 e where "\<not> (saved p z \<and> \<not> redo)"
      "run_point W unpack B p (z\<lparr>se_world := s1, se_starts := se_starts z @ [(p, e)]\<rparr>) = Some (r, z')"
proof (cases "saved p z \<and> \<not> redo")
  case True
  with assms that(1) show thesis by (auto simp: session_point_def set_outcome_def update_session_def)
next
  case False
  obtain now s1 where k: "sh_clock W (se_world z) = (now, s1)" by fastforce
  with assms False that(2) that(3) show thesis
    by (auto simp: session_point_def act_bind_def on_world_def act_read_def update_session_def set_outcome_def
        split: if_splits)
qed

section \<open>No account id is saved\<close>

definition clean :: "string \<Rightarrow> (string \<times> string) list \<Rightarrow> bool" where
  "clean account files \<longleftrightarrow> (\<forall>c \<in> snd ` set files. \<not> sublist account c)"

lemma update_contents: "snd ` set (AList.update k v al) \<subseteq> insert v (snd ` set al)"
proof (induction al)
  case (Cons p al)
  then show ?case by (cases p) auto
qed simp

lemma clean_update: "clean a files \<Longrightarrow> \<not> sublist a c \<Longrightarrow> clean a (AList.update k c files)"
  unfolding clean_def using update_contents [of k c files] by blast

lemma no_account_line:
  assumes "\<not> sublist a s" and "list_all is_digit a"
  shows "\<not> sublist a (s @ [CHR 0x0A])"
proof
  assume "sublist a (s @ [CHR 0x0A])"
  moreover have "CHR 0x0A \<notin> set a" using assms(2) by (auto simp: list_all_iff is_digit_def char_digit_def)
  ultimately show False using assms(1)
    by (auto simp: sublist_append sublist_Cons_right prefix_Cons suffix_imp_sublist)
qed

lemma scrubbed_contents:
  assumes "a \<noteq> []" and "list_all is_digit a"
  shows "\<not> sublist a (scrub s a)" and "\<not> sublist a (scrub s a @ [CHR 0x0A])"
  using scrub_removes [OF assms] no_account_line [OF _ assms(2)] by blast+

lemma session_clean:
  assumes a: "a \<noteq> []" "list_all is_digit a" and b: "be_scrub B = (\<lambda>s. scrub s a)"
    and "session_loop W unpack B started deadline_s redo ps z = Some (r, z')" and "clean a (se_files z)"
  shows "clean a (se_files z')"
  using assms(4,5)
proof (induction ps arbitrary: z)
  case Nil
  then show ?case by (simp add: act_ret_def)
next
  case (Cons p ps)
  let ?I = "\<lambda>z :: 'a session. clean a (se_files z)"
  have w: "stays ?I (write_text k (scrub s a))" "stays ?I (write_text k (scrub s a @ [CHR 0x0A]))" for k s
    using scrubbed_contents [OF a] by (auto simp: stays_def write_text_def update_session_def clean_update)
  have o: "stays ?I (set_outcome k out)" for k out by (auto simp: stays_def set_outcome_def update_session_def)
  have "stays ?I (save_report B p pair found)" for pair found
    unfolding save_report_def b by (cases found) (auto intro!: stays_intro w o)
  then have rp: "stays ?I (run_point W unpack B p)"
    by (intro stays_before) (auto simp: about_results_def b w)
  have "?I z1" if "session_point W unpack B started deadline_s redo p z = Some (r1, z1)" for r1 z1
    using that by (rule session_point_runs) (use Cons.prems(2) staysD [OF rp] in \<open>auto\<close>)
  with Cons show ?case unfolding session_loop.simps by (elim act_bindE) blast+
qed

section \<open>An interrupted session resumes\<close>

text \<open>What is saved stays saved, and an outcome that says so is true.\<close>

definition told :: "'s session \<Rightarrow> bool" where
  "told z \<longleftrightarrow> (\<forall>k out. map_of (se_outcomes z) k = Some out \<longrightarrow>
     out = SkippedSaved \<or> (\<exists>a b c d. out = Ran a b c d) \<longrightarrow> map_of (se_files z) (k @ ''.json'') \<noteq> None)"

lemma point_path_key: "point_path p ending = outcome_key p @ ending"
  by (simp add: point_path_def outcome_key_def)

lemma told_write: "stays told (write_text path s)"
  by (auto simp: stays_def told_def write_text_def update_session_def update_conv')

lemma told_outcome: "told z \<Longrightarrow> (out = SkippedSaved \<or> (\<exists>a b c d. out = Ran a b c d) \<Longrightarrow> map_of (se_files z) (k @ ''.json'') \<noteq> None) \<Longrightarrow>
   told (z\<lparr>se_outcomes := AList.update k out (se_outcomes z)\<rparr>)"
  by (auto simp: told_def update_conv')

lemma told_save: "stays told (save_report B p pair found)"
proof (cases found)
  case None
  then show ?thesis
    by (auto simp: stays_def save_report_def set_outcome_def update_session_def intro!: told_outcome)
next
  case (Some report0)
  show ?thesis unfolding stays_def
  proof (intro allI impI)
    fix z r z'
    assume z: "told z" and run: "save_report B p pair found z = Some (r, z')"
    from run have "told z'" unfolding save_report_def Some option.case
    proof (elim act_bindE, goal_cases)
      case (1 e)
      with z show ?case by (simp add: act_of_def)
    next
      case (2 report z1 e)
      then show ?case by (simp add: write_text_def update_session_def)
    next
      case (3 report z1 x z2 e)
      with z staysD [OF told_write 3(2)] show ?case by (simp add: act_of_def)
    next
      case (4 report z1 x z2 out z3)
      then have z2: "told z2" "map_of (se_files z2) (outcome_key p @ ''.json'') \<noteq> None" and z3: "z3 = z2"
        using z staysD [OF told_write 4(2)]
        by (auto simp: act_of_def write_text_def update_session_def update_conv' point_path_key)
      with 4(4) told_outcome [OF z2(1)] show ?case by (auto simp: set_outcome_def update_session_def)
    qed
    then show "told z'" .
  qed
qed

lemma told_point:
  assumes "session_point W unpack B started deadline_s redo p z = Some (r, z')" and "told z"
  shows "told z'"
proof -
  have rp: "stays told (run_point W unpack B p)"
    by (rule stays_before [OF _ told_write told_write told_save]) (auto simp: about_results_def told_def)
  from assms(1) show ?thesis
  proof (rule session_point_runs)
    assume "saved p z \<and> \<not> redo"
    moreover assume "z' = z\<lparr>se_outcomes := AList.update (outcome_key p) SkippedSaved (se_outcomes z)\<rparr>"
    ultimately show "told z'" using told_outcome [OF assms(2)] by (simp add: saved_def point_path_key)
  next
    fix s1
    assume "z' = z\<lparr>se_world := s1, se_outcomes := AList.update (outcome_key p) NotRunDeadline (se_outcomes z)\<rparr>"
    then show "told z'" using assms(2) by (auto simp: told_def update_conv')
  next
    fix s1 e
    assume "run_point W unpack B p (z\<lparr>se_world := s1, se_starts := se_starts z @ [(p, e)]\<rparr>) = Some (r, z')"
    from staysD [OF rp this] assms(2) show "told z'" by (simp add: told_def)
  qed
qed

text \<open>Files and outcomes are only added to.\<close>

definition grown :: "'s session \<Rightarrow> 's session \<Rightarrow> bool" where
  "grown z0 z \<longleftrightarrow> dom (map_of (se_files z0)) \<subseteq> dom (map_of (se_files z)) \<and>
     dom (map_of (se_outcomes z0)) \<subseteq> dom (map_of (se_outcomes z))"

lemma grown_refl [simp]: "grown z z"
  by (simp add: grown_def)

lemma grown_trans: "grown z0 z1 \<Longrightarrow> grown z1 z2 \<Longrightarrow> grown z0 z2"
  unfolding grown_def by blast

lemma grown_write: "stays (grown z0) (write_text path s)" "stays (grown z0) (set_outcome k out)"
  by (auto simp: stays_def grown_def write_text_def set_outcome_def update_session_def update_conv')

lemma grown_save: "stays (grown z0) (save_report B p pair found)"
proof (cases found)
  case None
  then show ?thesis by (simp add: save_report_def grown_write)
next
  case (Some r)
  show ?thesis unfolding save_report_def Some option.case by (intro stays_intro grown_write)
qed

lemma grown_run:
  assumes "run_point W unpack B p z = Some (r, z')"
  shows "grown z z'"
proof -
  have "stays (grown z) (run_point W unpack B p)"
    by (rule stays_before [OF _ grown_write(1) grown_write(1) grown_save]) (auto simp: about_results_def grown_def)
  from staysD [OF this assms grown_refl] show ?thesis .
qed

text \<open>An action that notes an outcome under the key whenever it ends normally.\<close>

definition settles :: "string \<Rightarrow> ('s session, 'a) act \<Rightarrow> bool" where
  "settles key m \<longleftrightarrow> (\<forall>z r z'. m z = Some (r, z') \<longrightarrow> \<not> isl r \<longrightarrow> key \<in> dom (map_of (se_outcomes z')))"

lemma settles_bind: "(\<And>x. settles key (k x)) \<Longrightarrow> settles key (act_bind m k)"
  unfolding settles_def
proof (intro allI impI)
  fix z r z'
  assume k: "\<And>x. \<forall>z r z'. k x z = Some (r, z') \<longrightarrow> \<not> isl r \<longrightarrow> key \<in> dom (map_of (se_outcomes z'))"
    and run: "act_bind m k z = Some (r, z')" and r: "\<not> isl r"
  from run show "key \<in> dom (map_of (se_outcomes z'))" by (rule act_bindE) (use k r in auto)
qed

lemma settles_outcome: "settles key (set_outcome key out)"
  by (auto simp: settles_def set_outcome_def update_session_def update_conv')

lemma settles_save: "settles (outcome_key p) (save_report B p pair found)"
  by (cases found) (simp_all add: save_report_def settles_bind settles_outcome)

lemma outcome_noted:
  assumes "run_point W unpack B p z = Some (r, z')" and "\<not> isl r"
  shows "outcome_key p \<in> dom (map_of (se_outcomes z'))"
proof -
  have "settles (outcome_key p) (run_point W unpack B p)"
    unfolding run_point_def measure_point_def by (intro settles_bind settles_save)
  with assms show ?thesis unfolding settles_def by blast
qed

lemma session_point_grown:
  assumes "session_point W unpack B started deadline_s redo p z = Some (r, z')"
  shows "grown z z' \<and> (\<not> isl r \<longrightarrow> outcome_key p \<in> dom (map_of (se_outcomes z'))) \<and>
    (\<exists>st. se_starts z' = se_starts z @ st \<and> (\<forall>q \<in> fst ` set st. saved q z \<longrightarrow> redo))"
  using assms
proof (rule session_point_runs)
  assume "z' = z\<lparr>se_outcomes := AList.update (outcome_key p) SkippedSaved (se_outcomes z)\<rparr>"
  then show ?thesis by (auto simp: grown_def update_conv')
next
  fix s1
  assume "z' = z\<lparr>se_world := s1, se_outcomes := AList.update (outcome_key p) NotRunDeadline (se_outcomes z)\<rparr>"
  then show ?thesis by (auto simp: grown_def update_conv')
next
  fix s1 e
  let ?z = "z\<lparr>se_world := s1, se_starts := se_starts z @ [(p, e)]\<rparr>"
  assume s: "\<not> (saved p z \<and> \<not> redo)" and run: "run_point W unpack B p ?z = Some (r, z')"
  have "grown z ?z" by (simp add: grown_def)
  from grown_trans [OF this grown_run [OF run]] have "grown z z'" .
  moreover have "se_starts z' = se_starts z @ [(p, e)]" using run_point_calls(2) [OF run] by simp
  moreover have "\<not> isl r \<longrightarrow> outcome_key p \<in> dom (map_of (se_outcomes z'))" using outcome_noted [OF run] by blast
  ultimately show ?thesis using s by auto
qed

lemma session_resumes:
  assumes "session_loop W unpack B started deadline_s redo ps z = Some (r, z')" and "told z"
  shows "told z' \<and> grown z z' \<and> (\<not> isl r \<longrightarrow> (\<forall>p \<in> set ps. outcome_key p \<in> dom (map_of (se_outcomes z')))) \<and>
    (\<exists>st. se_starts z' = se_starts z @ st \<and> (\<forall>p \<in> fst ` set st. saved p z \<longrightarrow> redo))"
  using assms
proof (induction ps arbitrary: z)
  case Nil
  then show ?case by (simp add: act_ret_def)
next
  case (Cons p ps)
  from Cons.prems(1) show ?case unfolding session_loop.simps
  proof (rule act_bindE)
    fix e
    assume sp: "session_point W unpack B started deadline_s redo p z = Some (Inl e, z')" and "r = Inl e"
    with session_point_grown [OF sp] told_point [OF sp Cons.prems(2)] show ?thesis by simp
  next
    fix x z1
    assume sp: "session_point W unpack B started deadline_s redo p z = Some (Inr x, z1)"
      and sl: "session_loop W unpack B started deadline_s redo ps z1 = Some (r, z')"
    note one = session_point_grown [OF sp] and rest = Cons.IH [OF sl told_point [OF sp Cons.prems(2)]]
    have g: "grown z z'" using one rest grown_trans by blast
    have "outcome_key p \<in> dom (map_of (se_outcomes z'))" using one rest unfolding grown_def by auto
    moreover obtain st where st: "se_starts z1 = se_starts z @ st" "\<forall>q \<in> fst ` set st. saved q z \<longrightarrow> redo"
      using one by blast
    moreover obtain st' where st': "se_starts z' = se_starts z1 @ st'" "\<forall>q \<in> fst ` set st'. saved q z1 \<longrightarrow> redo"
      using rest by blast
    moreover have "saved q z1" if "saved q z" for q using one that unfolding grown_def saved_def by blast
    ultimately have "se_starts z' = se_starts z @ (st @ st')" "\<forall>q \<in> fst ` set (st @ st'). saved q z \<longrightarrow> redo" by auto
    with g rest \<open>outcome_key p \<in> dom (map_of (se_outcomes z'))\<close> show ?thesis by (metis set_ConsD)
  qed
qed

lemma told_outcomes:
  assumes "told z" and "map_of (se_outcomes z) k = Some out" and "out = SkippedSaved \<or> (\<exists>a b c d. out = Ran a b c d)"
  shows "k @ ''.json'' \<in> dom (map_of (se_files z))"
  using assms(1) [unfolded told_def, rule_format, OF assms(2,3)] unfolding domIff .

end
