(* ===== verification/Deploy_Local.thy ===== *)
theory Deploy_Local
  imports Deploy_Bench
begin

text \<open>
  \<^verbatim>\<open>deploy/bench.py\<close>, \<^verbatim>\<open>LocalBackend\<close>: the same session on local Docker containers, and the part of
  \<^verbatim>\<open>main\<close> that runs a session and tears the local backend down. Docker is behind the \<open>shell\<close>. The
  Compose file the constructor writes is kept in the backend's record.
\<close>

section \<open>The backend\<close>

record local_backend =
  lb_file :: string
  lb_document :: string

definition local_project :: string where
  "local_project = ''ftq-awsbench''"

definition queue_env :: "(string \<times> json) list" where
  "queue_env = [(''FTQ_REDIS_URL'', JStr ''redis://redis:6379/0''), (''FTQ_QUEUE'', JStr ''bench'')]"

definition words_json :: "string list \<Rightarrow> json" where
  "words_json ws = JArr (map JStr ws)"

definition compose_document :: "int \<Rightarrow> json" where
  "compose_document slots = JObj
     [(''name'', JStr local_project),
      (''services'', JObj
        [(''redis'', JObj
           [(''image'', JStr ''redis:8.8.3''),
            (''command'', words_json [''redis-server'', ''--appendonly'', ''no'', ''--save'', '''',
               ''--maxmemory'', ''2gb'', ''--maxmemory-policy'', ''noeviction'']),
            (''ports'', words_json [''127.0.0.1:6392:6379'']),
            (''healthcheck'', JObj [(''test'', words_json [''CMD'', ''redis-cli'', ''ping'']),
               (''interval'', JStr ''1s''), (''retries'', JInt 30)])]),
         (''worker'', JObj
           [(''image'', JStr ''ftq-worker:local''),
            (''environment'', JObj (queue_env @ [(''FTQ_CONCURRENCY'', JStr (str_int slots)),
               (''FTQ_LOG_LEVEL'', JStr ''WARNING'')])),
            (''depends_on'', JObj [(''redis'', JObj [(''condition'', JStr ''service_healthy'')])])]),
         (''loadgen'', JObj
           [(''image'', JStr ''ftq-worker:local''), (''working_dir'', JStr ''/opt/ftq''),
            (''entrypoint'', words_json [''timeout'', ''-k'', ''30'', ''1800'']),
            (''environment'', JObj queue_env), (''profiles'', words_json [''loadgen''])])])]"

definition compose :: "local_backend \<Rightarrow> string list" where
  "compose L = [''docker'', ''compose'', ''-f'', lb_file L, ''-p'', local_project]"

definition act_cmd :: "'s shell \<Rightarrow> string list \<Rightarrow> ('s, string) act" where
  "act_cmd W cmd = (\<lambda>s. Some (run_cmd W cmd s))"

definition local_wait_for_redis :: "'s shell \<Rightarrow> local_backend \<Rightarrow> ('s, unit) act" where
  "local_wait_for_redis W L = act_bind (act_cmd W (compose L @ [''up'', ''-d'', ''--wait'', ''redis''])) (\<lambda>_. act_ret ())"

definition local_open :: "'s shell \<Rightarrow> string \<Rightarrow> int \<Rightarrow> ('s, local_backend) act" where
  "local_open W path slots =
     (let L = \<lparr>lb_file = path, lb_document = dumps_indent 0 (compose_document slots)\<rparr> in
      act_bind (act_cmd W (compose L @ [''up'', ''-d'', ''--wait'', ''redis''])) (\<lambda>_. act_ret L))"

definition local_workers :: "'s shell \<Rightarrow> local_backend \<Rightarrow> ('s, string list) act" where
  "local_workers W L = act_bind (act_cmd W (compose L @ [''ps'', ''-q'', ''worker''])) (\<lambda>out. act_ret (words_of out))"

definition local_set_workers :: "'s shell \<Rightarrow> local_backend \<Rightarrow> int \<Rightarrow> ('s, unit) act" where
  "local_set_workers W L n =
     act_bind (act_cmd W (compose L @ [''up'', ''-d'', ''--no-deps'', ''--scale'', ''worker='' @ str_int n, ''worker''])) (\<lambda>_.
     wait_for W (str_int n @ '' running workers'')
       (act_bind (local_workers W L) (\<lambda>ws. act_ret (int (length ws) = n))) 120 1)"

definition local_flush :: "'s shell \<Rightarrow> local_backend \<Rightarrow> ('s, unit) act" where
  "local_flush W L =
     act_bind (act_cmd W (compose L @ [''--profile'', ''loadgen'', ''run'', ''--rm'', ''-T'', ''--no-deps'', ''loadgen''] @
       flush_command)) (\<lambda>out.
     if sublist ''flushed; dbsize 0'' out then act_ret () else act_fail (RuntimeFault (''flush failed: '' @ out)))"

definition local_snapshot :: "'s shell \<Rightarrow> local_backend \<Rightarrow> ('s, json) act" where
  "local_snapshot W L =
     act_bind (local_workers W L) (\<lambda>ws.
     act_bind (act_read (sh_today W)) (\<lambda>today.
     act_ret (JObj [(''taken_at_utc'', JStr today),
       (''services'', JArr [JObj [(''serviceName'', JStr ''worker''), (''runningCount'', JInt (int (length ws)))]]),
       (''worker_tasks'', JArr (map (\<lambda>i. JObj [(''task'', JStr (take 12 i)), (''last_status'', JStr ''RUNNING'')]) ws))])))"

definition local_start :: "'s shell \<Rightarrow> local_backend \<Rightarrow> string \<Rightarrow> string list \<Rightarrow> ('s, unit) act" where
  "local_start W L name command =
     act_bind (act_cmd W (compose L @ [''--profile'', ''loadgen'', ''run'', ''-d'', ''--no-deps'', ''--name'', name,
       ''loadgen''] @ command)) (\<lambda>_. act_ret ())"

definition exited :: "'s shell \<Rightarrow> string \<Rightarrow> ('s, bool) act" where
  "exited W name = act_bind (act_cmd W [''docker'', ''inspect'', ''-f'', ''{{.State.Status}}'', name])
     (\<lambda>out. act_ret (strip out = ''exited''))"

text \<open>\<^verbatim>\<open>str.splitlines\<close>; the flag says that the last character was a carriage return.\<close>

definition line_break :: "char \<Rightarrow> bool" where
  "line_break c \<longleftrightarrow> (of_char c :: nat) \<in> {10, 11, 12, 13, 28, 29, 30, 133}"

fun lines_from :: "bool \<Rightarrow> string \<Rightarrow> string \<Rightarrow> string list" where
  "lines_from cr cur [] = (if cur = [] then [] else [cur])"
| "lines_from cr cur (c # cs) =
     (if c = CHR 0x0A \<and> cr then lines_from False cur cs
      else if line_break c then cur # lines_from (c = CHR 0x0D) [] cs
      else lines_from False (cur @ [c]) cs)"

definition split_lines :: "string \<Rightarrow> string list" where
  "split_lines s = lines_from False [] s"

definition act_int :: "string \<Rightarrow> ('s, int) act" where
  "act_int s = act_of (case read_int s of None \<Rightarrow> Inl (ValueFault s) | Some i \<Rightarrow> Inr i)"

definition collect_run :: "'s shell \<Rightarrow> string \<Rightarrow> ('s, int \<times> string list) act" where
  "collect_run W name =
     act_bind (act_cmd W [''docker'', ''inspect'', ''-f'', ''{{.State.ExitCode}}'', name]) (\<lambda>out.
     act_bind (act_int out) (\<lambda>code.
     act_bind (\<lambda>s. Some (sh_output W [''docker'', ''logs'', name] s)) (\<lambda>logs.
     act_bind (act_cmd W [''docker'', ''rm'', name]) (\<lambda>_. act_ret (code, split_lines logs)))))"

definition local_run_pair :: "'s shell \<Rightarrow> local_backend \<Rightarrow> string list \<Rightarrow> string list \<Rightarrow> rat \<Rightarrow> ('s, pair_result) act" where
  "local_run_pair W L coordinator producer limit =
     act_bind (act_read (sh_token W)) (\<lambda>tok.
     let prod = ''awsbench-prod-'' @ take 6 tok; coord = ''awsbench-coord-'' @ take 6 tok in
     act_bind (local_start W L prod producer) (\<lambda>_.
     act_bind (local_start W L coord coordinator) (\<lambda>_.
     act_bind (wait_for W ''both loadgen containers''
       (act_bind (exited W prod) (\<lambda>b. if b then exited W coord else act_ret False)) limit 1) (\<lambda>_.
     act_bind (collect_run W coord) (\<lambda>(c_code, c_log).
     act_bind (collect_run W prod) (\<lambda>(p_code, p_log).
     act_ret \<lparr>pr_coordinator_exit = JInt c_code, pr_producer_exit = JInt p_code, pr_coordinator_log = c_log,
       pr_producer_log = p_log,
       pr_placement = [(''producer_only'', JStr prod), (''coordinator'', JStr coord)]\<rparr>))))))"

definition local_down :: "'s shell \<Rightarrow> local_backend \<Rightarrow> ('s, unit) act" where
  "local_down W L = act_bind (act_cmd W (compose L @ [''--profile'', ''loadgen'', ''down'', ''-v'', ''--remove-orphans'']))
     (\<lambda>_. act_ret ())"

definition local_ops :: "'s shell \<Rightarrow> local_backend \<Rightarrow> 's backend" where
  "local_ops W L = \<lparr>be_name = ''local'', be_wait_for_redis = local_wait_for_redis W L,
     be_set_workers = local_set_workers W L, be_flush = local_flush W L, be_snapshot = local_snapshot W L,
     be_run_pair = local_run_pair W L, be_scrub = (\<lambda>s. s)\<rparr>"

section \<open>A session from the command line\<close>

definition failed_outcome :: "outcome_text \<Rightarrow> bool" where
  "failed_outcome out = (case out of FailedNoReport _ \<Rightarrow> True | _ \<Rightarrow> False)"

text \<open>\<^verbatim>\<open>finally: backend.down()\<close>; an error of the teardown replaces that of the session.\<close>

definition torn_down :: "'s shell \<Rightarrow> local_backend \<Rightarrow> ((deploy_error + 'a) \<times> 's session) option
    \<Rightarrow> ((deploy_error + 'a) \<times> 's session) option" where
  "torn_down W L result = (case result of
       None \<Rightarrow> None
     | Some (r, z) \<Rightarrow> (case on_world (local_down W L) z of
           None \<Rightarrow> None
         | Some (Inl e, z') \<Rightarrow> Some (Inl e, z')
         | Some (Inr _, z') \<Rightarrow> Some (r, z')))"

text \<open>The exit code of \<^verbatim>\<open>run\<close>: an exception ends the program with 1 too.\<close>

definition exit_status :: "(deploy_error + unit) \<times> 's session \<Rightarrow> int" where
  "exit_status rz = (case rz of
       (Inl _, _) \<Rightarrow> 1
     | (Inr _, z) \<Rightarrow> (if list_ex (\<lambda>o'. failed_outcome (snd o')) (se_outcomes z) then 1 else 0))"

definition local_session :: "'s shell \<Rightarrow> (string \<Rightarrow> string option) \<Rightarrow> string \<Rightarrow> session_spec \<Rightarrow> (string \<times> string) list
    \<Rightarrow> rat \<Rightarrow> bool \<Rightarrow> 's \<Rightarrow> ((deploy_error + unit) \<times> 's session) option" where
  "local_session W unpack path spec files deadline_min redo s =
     (case local_open W path 50 s of
        None \<Rightarrow> None
      | Some (Inl e, s') \<Rightarrow> Some (Inl e, fresh_session s' files)
      | Some (Inr L, s') \<Rightarrow>
          torn_down W L (run_session W unpack (local_ops W L) (session_points spec) files (deadline_min * 60) redo s'))"

definition aws_from_stack :: "'s shell \<Rightarrow> string \<Rightarrow> ('s, aws_backend) act" where
  "aws_from_stack W stack_dir =
     act_bind (stack_outputs W stack_dir) (\<lambda>outputs.
     act_bind (act_of (output_text ''cluster'' outputs)) (\<lambda>cluster.
     act_bind (act_of (output_text ''loadgen_task_definition'' outputs)) (\<lambda>task_def.
     aws_open W cluster task_def 5 2)))"

definition aws_session :: "'s shell \<Rightarrow> (string \<Rightarrow> string option) \<Rightarrow> string \<Rightarrow> session_spec \<Rightarrow> (string \<times> string) list
    \<Rightarrow> rat \<Rightarrow> bool \<Rightarrow> 's \<Rightarrow> ((deploy_error + unit) \<times> 's session) option" where
  "aws_session W unpack stack_dir spec files deadline_min redo s =
     (case aws_from_stack W stack_dir s of
        None \<Rightarrow> None
      | Some (Inl e, s') \<Rightarrow> Some (Inl e, fresh_session s' files)
      | Some (Inr B, s') \<Rightarrow>
          run_session W unpack (aws_ops W unpack B) (session_points spec) files (deadline_min * 60) redo s')"

section \<open>Printed lines are read back\<close>

lemma lines_from_line:
  "list_all (\<lambda>c. \<not> line_break c) l \<Longrightarrow> lines_from False cur (l @ CHR 0x0A # rest) = (cur @ l) # lines_from False [] rest"
proof (induction l arbitrary: cur)
  case Nil
  then show ?case by (simp add: line_break_def)
next
  case (Cons c l)
  then show ?case by auto
qed

lemma split_printed:
  "list_all (list_all (\<lambda>c. \<not> line_break c)) ls \<Longrightarrow> split_lines (concat (map (\<lambda>l. l @ [CHR 0x0A]) ls)) = ls"
  unfolding split_lines_def by (induction ls) (simp_all add: lines_from_line)

lemma local_report_read:
  assumes "codec_doc pack unpack" and "loads rep = Some r"
    and "out = concat (map (\<lambda>l. l @ [CHR 0x0A]) (dump_lines pack rep))"
  shows "decode_report unpack (split_lines out) = Inr (Some r)"
proof -
  have b: "\<not> line_break c" if "b64_char c" for c using that by (auto simp: b64_char_def line_break_def Let_def)
  have "list_all (list_all (\<lambda>c. \<not> line_break c)) (map (\<lambda>w. ''R:'' @ w) (wrap_word 60000 (pack rep)))"
    using packed_chunks [OF assms(1), of rep] b by (auto simp: list_all_iff line_break_def)
  moreover have "list_all (list_all (\<lambda>c. \<not> line_break c)) [''REPORT-BEGIN'', ''REPORT-END'']" by code_simp
  ultimately have "split_lines out = dump_lines pack rep"
    unfolding assms(3) by (intro split_printed) (simp add: dump_lines_def)
  then show ?thesis
    using scan_dump [OF assms(1), of rep] assms(1,2) by (simp add: decode_report_def wrap_word_concat codec_doc_def)
qed

section \<open>The local steps end\<close>

lemma steady_cmd [steady_intro]: "clock_doc W time_of \<Longrightarrow> steady time_of (act_cmd W cmd)"
  unfolding steady_def act_cmd_def clock_doc_def by (metis prod.collapse)

lemma local_scaling_ends:
  assumes "clock_doc W time_of"
  shows "steady time_of (local_set_workers W L n)" and "steady time_of (local_flush W L)"
    and "steady time_of (local_wait_for_redis W L)"
  unfolding local_set_workers_def local_flush_def local_wait_for_redis_def local_workers_def
  by (intro steady_intro assms; simp)+

text \<open>An action that ends.\<close>

definition ends :: "('s, 'a) act \<Rightarrow> bool" where
  "ends m \<longleftrightarrow> (\<forall>s. m s \<noteq> None)"

named_theorems ends_intro \<open>structural rules for actions that end\<close>

lemma endsI: "(\<And>s. \<exists>x. m s = Some x) \<Longrightarrow> ends m"
  by (simp add: ends_def)

lemma steady_ends: "steady time_of m \<Longrightarrow> ends m"
  unfolding steady_def ends_def by (metis option.distinct(1))

lemma ends_bind [ends_intro]: "ends m \<Longrightarrow> (\<And>x. ends (k x)) \<Longrightarrow> ends (act_bind m k)"
  by (auto simp: ends_def act_bind_def split: option.split sum.split)

lemma ends_basic [ends_intro]:
  "ends (act_ret x)" "ends (act_of r)" "ends (act_fail e)" "ends (act_read f)" "ends (act_cmd W cmd)"
  "ends (\<lambda>s. Some (g s))" "ends (\<lambda>z. act_of (h z) z)" "ends (update_session u)"
  by (simp_all add: ends_def act_ret_def act_of_def act_fail_def act_read_def act_cmd_def update_session_def
      split: prod.split)

lemma ends_if [ends_intro]: "ends m \<Longrightarrow> ends m' \<Longrightarrow> ends (\<lambda>z. if b z then m z else m' z)"
  "ends m \<Longrightarrow> ends m' \<Longrightarrow> ends (if c then m else m')"
  by (simp_all add: ends_def)

lemma ends_option [ends_intro]:
  "ends m \<Longrightarrow> (\<And>x. ends (k x)) \<Longrightarrow> ends (case p of None \<Rightarrow> m | Some x \<Rightarrow> k x)"
  by (cases p) auto

lemma ends_world [ends_intro]: "ends m \<Longrightarrow> ends (on_world m)" "ends m \<Longrightarrow> ends (backend_call c m)"
  by (auto simp: ends_def on_world_def backend_call_def split: option.split)

definition backend_ends :: "'s backend \<Rightarrow> bool" where
  "backend_ends B \<longleftrightarrow> ends (be_wait_for_redis B) \<and> (\<forall>n. ends (be_set_workers B n)) \<and> ends (be_flush B) \<and>
     ends (be_snapshot B) \<and> (\<forall>c p w. ends (be_run_pair B c p w))"

lemma run_point_ends:
  assumes "backend_ends B"
  shows "ends (run_point W unpack B p)"
proof -
  have git: "ends (git_rev W)"
    by (rule endsI) (auto simp: git_rev_def split: sum.split deploy_error.split prod.split)
  have once: "ends (redis_once B)"
    using assms unfolding redis_once_def backend_ends_def by (intro ends_intro) blast
  have "ends (save_report B p pair found)" for pair found
    unfolding save_report_def write_text_def set_outcome_def by (intro ends_intro)
  with assms git once show ?thesis
    unfolding run_point_def measure_point_def write_text_def backend_ends_def by (intro ends_intro) blast+
qed

lemma session_ends:
  assumes "backend_ends B"
  shows "\<exists>rz. run_session W unpack B points files deadline_s redo s = Some rz"
proof -
  have "ends (session_point W unpack B started deadline_s redo p)" for started p
    unfolding session_point_def set_outcome_def by (intro ends_intro run_point_ends assms)
  then have "ends (session_loop W unpack B started deadline_s redo points)" for started
    by (induction points) (auto intro!: ends_intro)
  then show ?thesis unfolding run_session_def ends_def by (auto split: prod.split)
qed

lemma local_backend_ends:
  assumes doc: "clock_doc W time_of"
  shows "backend_ends (local_ops W L)"
proof -
  have "ends (collect_run W name)" for name
    unfolding collect_run_def act_int_def by (intro ends_intro)
  moreover have "ends (wait_for W what (act_bind (exited W a) (\<lambda>b. if b then exited W c else act_ret False)) limit 1)"
    for what a c limit unfolding exited_def by (rule steady_ends [of time_of]) (intro steady_intro doc; simp)
  ultimately have "ends (local_run_pair W L c p limit)" for c p limit
    unfolding local_run_pair_def local_start_def Let_def by (intro ends_intro) (auto split: prod.split intro!: ends_intro)
  moreover have "ends (local_snapshot W L)" unfolding local_snapshot_def local_workers_def by (intro ends_intro)
  ultimately show ?thesis
    using local_scaling_ends [OF doc] steady_ends unfolding backend_ends_def local_ops_def by simp blast
qed

lemma local_session_ends:
  assumes "clock_doc W time_of"
  shows "\<exists>rz. local_session W unpack path spec files deadline_min redo s = Some rz"
proof -
  have op: "ends (local_open W path 50)" unfolding local_open_def Let_def by (intro ends_intro)
  have down: "ends (on_world (local_down W L))" for L unfolding local_down_def by (intro ends_intro)
  have td: "\<exists>rz. torn_down W L (Some p) = Some rz" for L p
    using down [of L] unfolding ends_def torn_down_def by (cases p) (auto split: option.split sum.split)
  obtain r s1 where o: "local_open W path 50 s = Some (r, s1)"
    using op unfolding ends_def by (metis not_None_eq surj_pair)
  show ?thesis
  proof (cases r)
    case (Inl e)
    with o show ?thesis by (simp add: local_session_def)
  next
    case (Inr L)
    obtain p where "run_session W unpack (local_ops W L) (session_points spec) files (deadline_min * 60) redo s1 = Some p"
      using session_ends [OF local_backend_ends [OF assms]] by blast
    with o Inr td [of L p] show ?thesis by (simp add: local_session_def)
  qed
qed

end
