(* ===== verification/Deploy_Recover.thy ===== *)
theory Deploy_Recover
  imports Deploy_Bench
begin

text \<open>
  \<^verbatim>\<open>deploy/bench.py\<close>, \<^verbatim>\<open>recover\<close>: for every point that has a snapshot and no report, the coordinator's
  log is looked up, its report is decoded, checked to be that point's, and saved. Nothing runs again
  and no report is overwritten.
\<close>

section \<open>Looking up logs\<close>

definition filter_args :: "string \<Rightarrow> int \<Rightarrow> string \<Rightarrow> string list" where
  "filter_args pattern since_ms token =
     [''logs'', ''filter-log-events'', ''--log-group-name'', ''/ftq/loadgen'',
      ''--start-time'', str_int since_ms, ''--filter-pattern'', pattern] @
     (if token \<noteq> [] then [''--next-token'', token] else [])"

definition stream_page_of :: "json \<Rightarrow> deploy_error + string list \<times> string" where
  "stream_page_of page =
     and_then (list_or_empty ''events'' page) (\<lambda>es.
     and_then (collect (\<lambda>e. and_then (jfield ''logStreamName'' e) jstr) es) (\<lambda>names.
     and_then (jget ''nextToken'' page) (\<lambda>t. if t = JNull then Inr (names, []) else and_then (jstr t) (\<lambda>s. Inr (names, s)))))"

partial_function (option) filter_pages ::
  "'s shell \<Rightarrow> aws_backend \<Rightarrow> string \<Rightarrow> int \<Rightarrow> string \<Rightarrow> string list \<Rightarrow> ('s, string list) act" where
  "filter_pages W B pattern since_ms token acc s =
     Option.bind (aws_json W B (filter_args pattern since_ms token) s) (\<lambda>p. case p of
       (Inl e, s1) \<Rightarrow> Some (Inl e, s1)
     | (Inr page, s1) \<Rightarrow>
         (case stream_page_of page of
            Inl e \<Rightarrow> Some (Inl e, s1)
          | Inr (names, t) \<Rightarrow>
              (if t = [] then Some (Inr (sort (remdups (acc @ names))), s1)
               else filter_pages W B pattern since_ms t (acc @ names) s1)))"

definition filter_streams :: "'s shell \<Rightarrow> aws_backend \<Rightarrow> string \<Rightarrow> int \<Rightarrow> ('s, string list) act" where
  "filter_streams W B pattern since_ms = filter_pages W B pattern since_ms [] []"

definition stream_logs :: "'s shell \<Rightarrow> aws_backend \<Rightarrow> string \<Rightarrow> ('s, string list) act" where
  "stream_logs W B stream = task_logs W B (''x/'' @ after_last CHR ''/'' stream)"

section \<open>One point\<close>

definition is_report_of :: "string \<Rightarrow> string \<Rightarrow> json \<Rightarrow> deploy_error + bool" where
  "is_report_of suite label report =
     and_then (jfield ''meta'' report) (\<lambda>m.
     and_then (jget ''suite'' m) (\<lambda>s.
     and_then (jget ''label'' m) (\<lambda>l. Inr (s = JStr suite \<and> l = JStr label))))"

fun matching_logs :: "'s shell \<Rightarrow> (string \<Rightarrow> string option) \<Rightarrow> aws_backend \<Rightarrow> string \<Rightarrow> string \<Rightarrow> string list
    \<Rightarrow> ('s, (string \<times> json \<times> string list) list) act" where
  "matching_logs W unpack B suite label [] = act_ret []"
| "matching_logs W unpack B suite label (stream # rest) =
     act_bind (stream_logs W B stream) (\<lambda>ls.
     act_bind (act_of (decode_report unpack ls)) (\<lambda>found.
     act_bind (case found of
         Some report \<Rightarrow> (if jtrue report then act_of (is_report_of suite label report) else act_ret False)
       | None \<Rightarrow> act_ret False) (\<lambda>hit.
     act_bind (matching_logs W unpack B suite label rest) (\<lambda>others.
     act_ret (if hit then (stream, the found, ls) # others else others)))))"

definition recovered_note :: "string \<Rightarrow> string" where
  "recovered_note stream = ''read back from CloudWatch stream '' @ stream @
     '' after the driver'' @ CHR 0x27 # ''s log-fetch race (ADR-048): the same run, not a rerun''"

definition producer_lines :: "'s shell \<Rightarrow> aws_backend \<Rightarrow> json \<Rightarrow> int \<Rightarrow> ('s, string list) act" where
  "producer_lines W B report since_ms =
     act_bind (act_of (and_then (jfield ''meta'' report) (jget ''run_id''))) (\<lambda>run_id.
     if \<not> jtrue run_id then act_ret []
     else act_bind (act_of (jstr run_id)) (\<lambda>rid.
       act_bind (filter_streams W B (CHR 0x22 # rid @ [CHR 0x22]) since_ms) (\<lambda>producers.
       case producers of [] \<Rightarrow> act_ret [] | p # _ \<Rightarrow> stream_logs W B p)))"

definition recovered_of :: "json \<Rightarrow> deploy_error + outcome_text" where
  "recovered_of report =
     and_then (jfield ''exactly_once'' report) (\<lambda>once.
     and_then (and_then (jfield ''throughput'' report) (jfield ''completed_per_s'')) (\<lambda>rate.
     and_then (jfield ''ok'' once) (\<lambda>ok.
     and_then (and_then (and_then (jfield ''producers'' report) (jfield ''hosts'')) (jfield ''reported'')) (\<lambda>hosts.
     Inr (Recovered rate ok hosts)))))"

definition save_recovered :: "'s shell \<Rightarrow> aws_backend \<Rightarrow> int \<Rightarrow> string \<Rightarrow> string \<Rightarrow> json \<Rightarrow> string list
    \<Rightarrow> ('s session, unit) act" where
  "save_recovered W B since_ms key stream report0 ls =
     (let clean_text = (\<lambda>s. scrub s (ab_account B)) in
      act_bind (act_of (set_meta ''recovered'' (JStr (recovered_note stream)) report0)) (\<lambda>report.
      act_bind (on_world (producer_lines W B report since_ms)) (\<lambda>prod.
      act_bind (write_text (key @ ''.coordinator.txt'')
        (clean_text (text_of_log (filter (\<lambda>x. take 2 x \<noteq> ''R:'') ls)))) (\<lambda>_.
      act_bind (write_text (key @ ''.producer.txt'') (clean_text (text_of_log prod))) (\<lambda>_.
      act_bind (write_text (key @ ''.json'') (clean_text (dumps_indent 0 report) @ [CHR 0x0A])) (\<lambda>_.
      act_bind (act_of (recovered_of report)) (\<lambda>out. set_outcome key out)))))))"

definition recover_point :: "'s shell \<Rightarrow> (string \<Rightarrow> string option) \<Rightarrow> aws_backend \<Rightarrow> int \<Rightarrow> string \<Rightarrow> string
    \<Rightarrow> ('s session, unit) act" where
  "recover_point W unpack B since_ms suite label = (\<lambda>z.
     let key = suite @ ''/'' @ label in
     if map_of (se_files z) (key @ ''.json'') \<noteq> None then act_ret () z
     else act_bind (on_world (filter_streams W B
         (CHR 0x22 # ''producing for'' @ CHR 0x22 # '' '' @ CHR 0x22 # ''('' @ label @ '')'' @ [CHR 0x22]) since_ms)) (\<lambda>streams.
       act_bind (on_world (matching_logs W unpack B suite label streams)) (\<lambda>found.
       case found of
         [(stream, report0, ls)] \<Rightarrow> save_recovered W B since_ms key stream report0 ls
       | _ \<Rightarrow> set_outcome key (NotRecovered (length found)))) z)"

section \<open>All points\<close>

definition services_ending :: string where
  "services_ending = ''.services.json''"

text \<open>\<^verbatim>\<open>*/*.services.json\<close>: a directory, a name and the ending.\<close>

definition snapshot_file :: "string \<Rightarrow> bool" where
  "snapshot_file path \<longleftrightarrow> length (filter ((=) CHR ''/'') path) = 1 \<and> suffix services_ending path"

definition suite_of :: "string \<Rightarrow> string" where
  "suite_of path = takeWhile ((\<noteq>) CHR ''/'') path"

definition label_of :: "string \<Rightarrow> string" where
  "label_of path = (let name = after_last CHR ''/'' path in take (length name - length services_ending) name)"

fun recover_all :: "'s shell \<Rightarrow> (string \<Rightarrow> string option) \<Rightarrow> aws_backend \<Rightarrow> int \<Rightarrow> string list \<Rightarrow> ('s session, unit) act" where
  "recover_all W unpack B since_ms [] = act_ret ()"
| "recover_all W unpack B since_ms (path # rest) =
     act_bind (recover_point W unpack B since_ms (suite_of path) (label_of path))
       (\<lambda>_. recover_all W unpack B since_ms rest)"

definition recover :: "'s shell \<Rightarrow> (string \<Rightarrow> string option) \<Rightarrow> aws_backend \<Rightarrow> (string \<times> string) list \<Rightarrow> int \<Rightarrow> 's
    \<Rightarrow> ((deploy_error + unit) \<times> 's session) option" where
  "recover W unpack B files since_ms s =
     recover_all W unpack B since_ms (sort_key (\<lambda>path. [suite_of path, after_last CHR ''/'' path]) (filter snapshot_file (map fst files))) (fresh_session s files)"

section \<open>No report is overwritten\<close>

definition reports_kept :: "(string \<times> string) list \<Rightarrow> 's session \<Rightarrow> bool" where
  "reports_kept files z \<longleftrightarrow>
     (\<forall>k c. map_of files k = Some c \<longrightarrow> suffix ''.json'' k \<longrightarrow> map_of (se_files z) k = Some c)"

lemma kept_write:
  "\<not> suffix ''.json'' path \<or> map_of files path = None \<Longrightarrow> stays (reports_kept files) (write_text path c)"
  by (auto simp: stays_def reports_kept_def write_text_def update_session_def update_conv')

lemma kept_outcome: "stays (reports_kept files) (set_outcome k out)"
  by (auto simp: stays_def reports_kept_def set_outcome_def update_session_def)

lemma kept_world: "stays (reports_kept files) (on_world m)"
  by (rule stays_world) (auto simp: about_results_def reports_kept_def)

lemma txt_not_json: "\<not> suffix ''.json'' (k @ ''.coordinator.txt'')" "\<not> suffix ''.json'' (k @ ''.producer.txt'')"
  by (auto simp: suffix_def)

lemma kept_recovery:
  assumes "map_of files (key @ ''.json'') = None"
  shows "stays (reports_kept files) (save_recovered W B since_ms key stream report0 ls)"
  unfolding save_recovered_def Let_def
  by (intro stays_bind stays_basic kept_world kept_write kept_outcome) (simp_all add: assms txt_not_json)

lemma recover_point_keeps: "stays (reports_kept files) (recover_point W unpack B since_ms suite label)"
  unfolding stays_def
proof (intro allI impI)
  fix z r z'
  assume z: "reports_kept files z" and run: "recover_point W unpack B since_ms suite label z = Some (r, z')"
  let ?key = "suite @ ''/'' @ label"
  show "reports_kept files z'"
  proof (cases "map_of (se_files z) (?key @ ''.json'')")
    case None
    have "suffix ''.json'' (?key @ ''.json'')" by (auto simp: suffix_def)
    with None z have none: "map_of files (?key @ ''.json'') = None"
      unfolding reports_kept_def by (cases "map_of files (?key @ ''.json'')") auto
    have "stays (reports_kept files) (case found of
        [(stream, report0, ls)] \<Rightarrow> save_recovered W B since_ms ?key stream report0 ls
      | _ \<Rightarrow> set_outcome ?key (NotRecovered (length found)))" for found
      by (auto split: list.split intro: kept_outcome kept_recovery [OF none, simplified])
    then have "stays (reports_kept files) (act_bind (on_world m) (\<lambda>streams. act_bind (on_world (m' streams)) (\<lambda>found.
        case found of
          [(stream, report0, ls)] \<Rightarrow> save_recovered W B since_ms ?key stream report0 ls
        | _ \<Rightarrow> set_outcome ?key (NotRecovered (length found)))))" for m m'
      by (intro stays_bind kept_world)
    from staysD [OF this run [unfolded recover_point_def Let_def None simp_thms if_False] z] show ?thesis .
  next
    case (Some c)
    with run z show ?thesis by (simp add: recover_point_def Let_def act_ret_def)
  qed
qed

lemma recover_keeps:
  assumes "recover W unpack B files since_ms s = Some (r, z)"
  shows "reports_kept files z"
proof -
  have "stays (reports_kept files) (recover_all W unpack B since_ms paths)" for paths
    by (induction paths) (auto intro!: stays_basic stays_bind recover_point_keeps)
  from staysD [OF this assms [unfolded recover_def]] show ?thesis by (simp add: reports_kept_def fresh_session_def)
qed

section \<open>What is recovered is the point's own report\<close>

lemma matching_own:
  "matching_logs W unpack B suite label names s = Some (Inr found, s') \<Longrightarrow> (stream, report, ls) \<in> set found \<Longrightarrow>
   decode_report unpack ls = Inr (Some report) \<and> is_report_of suite label report = Inr True"
proof (induction names arbitrary: s s' found)
  case (Cons st names)
  from Cons.prems(1) show ?case unfolding matching_logs.simps
  proof (elim act_bindE, goal_cases)
    case (1 e) then show ?case by simp
  next
    case (2 x z1 e) then show ?case by simp
  next
    case (3 x z1 xa z1a e) then show ?case by simp
  next
    case (4 x z1 xa z1a xb z1b e) then show ?case by simp
  next
    case (5 ls' s1 d s2 hit s3 others s4)
    show ?case
    proof (cases "hit \<and> (stream, report, ls) = (st, the d, ls')")
      case True
      with 5 show ?thesis by (auto simp: act_of_def act_ret_def split: option.splits if_splits)
    next
      case False
      with 5 Cons.prems(2) have "(stream, report, ls) \<in> set others"
        by (auto simp: act_ret_def split: if_splits)
      with Cons.IH [OF 5(4)] show ?thesis by blast
    qed
  qed
qed (simp add: act_ret_def)

end
