(* ===== verification/Deploy_Aws.thy ===== *)
theory Deploy_Aws
  imports Deploy_Backend
begin

text \<open>
  \<^verbatim>\<open>deploy/aws.py\<close>: the cost estimate of a terraform plan, the one-off task behind \<^verbatim>\<open>smoke\<close>, and the
  check that nothing billable is left. The AWS CLI and terraform are the \<open>shell\<close> of \<open>Deploy_Backend\<close>;
  a \<^verbatim>\<open>SystemExit\<close> is the error \<open>RuntimeFault\<close>, and what is only printed is left out.
\<close>

section \<open>The fleet a plan would leave running\<close>

record box =
  bx_role :: string
  bx_type :: string

definition root_volume_gb :: rat where
  "root_volume_gb = 30"

definition hours_per_month :: rat where
  "hours_per_month = 730"

definition after_field :: "string \<Rightarrow> json \<Rightarrow> deploy_error + json" where
  "after_field k c = and_then (and_then (jfield ''change'' c) (jfield ''after'')) (jfield k)"

definition is_live :: "json \<Rightarrow> deploy_error + bool" where
  "is_live c = and_then (and_then (jfield ''change'' c) (jfield ''actions'')) (\<lambda>a. Inr (a \<noteq> JArr [JStr ''delete'']))"

fun keep_if :: "('a \<Rightarrow> deploy_error + bool) \<Rightarrow> 'a list \<Rightarrow> deploy_error + 'a list" where
  "keep_if f [] = Inr []"
| "keep_if f (x # xs) = and_then (f x) (\<lambda>b. and_then (keep_if f xs) (\<lambda>ys. Inr (if b then x # ys else ys)))"

definition has_type :: "string \<Rightarrow> json \<Rightarrow> deploy_error + bool" where
  "has_type ty c = and_then (jfield ''type'' c) (\<lambda>t. Inr (t = JStr ty))"

definition template_of :: "json \<Rightarrow> deploy_error + json \<times> string" where
  "template_of c = and_then (jget ''index'' c) (\<lambda>i.
     and_then (and_then (after_field ''instance_type'' c) jstr) (\<lambda>t. Inr (i, t)))"

text \<open>\<^verbatim>\<open>str(c.get("index", c["name"]))\<close>; \<open>sh\<close> is Python's text of a list, a dictionary or a float.\<close>

definition role_of :: "(json \<Rightarrow> string) \<Rightarrow> json \<Rightarrow> deploy_error + string" where
  "role_of sh c = and_then (jfield ''name'' c) (\<lambda>name.
     case c of
       JObj ps \<Rightarrow> Inr (py_str sh (case map_of ps ''index'' of None \<Rightarrow> name | Some i \<Rightarrow> i))
     | _ \<Rightarrow> Inl TypeFault)"

definition boxes_of :: "(json \<Rightarrow> string) \<Rightarrow> (json \<times> string) list \<Rightarrow> json \<Rightarrow> deploy_error + box list" where
  "boxes_of sh templates c =
     and_then (and_then (jfield ''change'' c) (jfield ''after'')) (\<lambda>after.
     and_then (jfield ''type'' c) (\<lambda>ty.
     if ty = JStr ''aws_instance'' then
       and_then (and_then (jfield ''name'' c) jstr) (\<lambda>name.
       and_then (and_then (jfield ''instance_type'' after) jstr) (\<lambda>it. Inr [\<lparr>bx_role = name, bx_type = it\<rparr>]))
     else if ty = JStr ''aws_autoscaling_group'' then
       and_then (role_of sh c) (\<lambda>role.
       and_then (jget ''index'' c) (\<lambda>i.
       case map_of (rev templates) i of
         None \<Rightarrow> Inl (KeyFault ''template'')
       | Some it \<Rightarrow>
           and_then (jfield ''desired_capacity'' after) (\<lambda>n.
           case py_int n of
             Inl _ \<Rightarrow> Inl TypeFault
           | Inr k \<Rightarrow> Inr (replicate (nat k) \<lparr>bx_role = role, bx_type = it\<rparr>))))
     else Inr []))"

definition fleet_from_plan :: "(json \<Rightarrow> string) \<Rightarrow> json \<Rightarrow> deploy_error + box list" where
  "fleet_from_plan sh plan =
     and_then (list_or_empty ''resource_changes'' plan) (\<lambda>changes.
     and_then (keep_if is_live changes) (\<lambda>live.
     and_then (keep_if (has_type ''aws_launch_template'') live) (\<lambda>ts.
     and_then (collect template_of ts) (\<lambda>templates.
     and_then (collect (boxes_of sh templates) live) (\<lambda>bs. Inr (concat bs))))))"

section \<open>Prices\<close>

record prices =
  per_instance_hour :: "(string \<times> rat) list"
  gp3_gb_month :: rat
  ipv4_hour :: rat

fun count_types :: "box list \<Rightarrow> (string \<times> nat) list \<Rightarrow> (string \<times> nat) list" where
  "count_types [] m = m"
| "count_types (b # bs) m =
     count_types bs (AList.update (bx_type b) (case map_of m (bx_type b) of None \<Rightarrow> 1 | Some n \<Rightarrow> Suc n) m)"

text \<open>One line of the estimate: how many, of what, at which price, and the cost per hour.\<close>

type_synonym cost_line = "nat \<times> string \<times> rat \<times> rat"

definition type_line :: "prices \<Rightarrow> string \<times> nat \<Rightarrow> deploy_error + cost_line" where
  "type_line P p = (case map_of (per_instance_hour P) (fst p) of
       None \<Rightarrow> Inl (KeyFault (fst p))
     | Some price \<Rightarrow> Inr (snd p, fst p, price, of_nat (snd p) * price))"

definition line_cost :: "cost_line \<Rightarrow> rat" where
  "line_cost l = (case l of (_, _, _, c) \<Rightarrow> c)"

definition estimate_lines :: "box list \<Rightarrow> prices \<Rightarrow> deploy_error + cost_line list \<times> rat" where
  "estimate_lines boxes P =
     and_then (collect (type_line P) (sort_key fst (count_types boxes []))) (\<lambda>ls.
     let n = length boxes;
         ebs = of_nat n * root_volume_gb * gp3_gb_month P / hours_per_month;
         ipv4 = of_nat n * ipv4_hour P
     in Inr (ls @ [(n, ''30 GB gp3 root'', gp3_gb_month P, ebs), (n, ''public IPv4'', ipv4_hour P, ipv4)],
             sum_list (map line_cost ls) + (ebs + ipv4)))"

definition usd_of :: "json \<Rightarrow> deploy_error + rat" where
  "usd_of pd = and_then (and_then (jfield ''pricePerUnit'' pd) (jfield ''USD'')) (\<lambda>v.
     case py_float_of v of Inr (Finite r) \<Rightarrow> Inr r | _ \<Rightarrow> Inl TypeFault)"

definition values_of :: "json \<Rightarrow> deploy_error + json list" where
  "values_of j = (case j of JObj ps \<Rightarrow> Inr (map snd ps) | _ \<Rightarrow> Inl TypeFault)"

definition offer_prices :: "json \<Rightarrow> deploy_error + rat list" where
  "offer_prices raw =
     and_then (jstr raw) (\<lambda>t. case loads t of None \<Rightarrow> Inl BadJson | Some product \<Rightarrow>
       and_then (and_then (and_then (jfield ''terms'' product) (jfield ''OnDemand'')) values_of) (\<lambda>offers.
       and_then (collect (\<lambda>ofr. and_then (and_then (jfield ''priceDimensions'' ofr) values_of) (collect usd_of)) offers)
         (\<lambda>rs. Inr (concat rs))))"

definition the_price :: "json \<Rightarrow> deploy_error + rat" where
  "the_price reply =
     and_then (and_then (jfield ''PriceList'' reply) jlist) (\<lambda>raws.
     and_then (collect offer_prices raws) (\<lambda>rs.
     case remdups (filter (\<lambda>r. r > 0) (concat rs)) of
       [p] \<Rightarrow> Inr p
     | _ \<Rightarrow> Inl (RuntimeFault ''expected one price'')))"

section \<open>The AWS CLI\<close>

definition aws_region :: "'s shell \<Rightarrow> string \<Rightarrow> string list \<Rightarrow> ('s, json) act" where
  "aws_region W region args = (\<lambda>s.
     case run_cmd W (''aws'' # args @ [''--region'', region, ''--output'', ''json'']) s of
       (Inl e, s') \<Rightarrow> Some (Inl e, s')
     | (Inr out, s') \<Rightarrow>
         (if strip out = [] then Some (Inr JNull, s')
          else (case loads out of None \<Rightarrow> Some (Inl BadJson, s') | Some j \<Rightarrow> Some (Inr j, s'))))"

definition home_region :: string where
  "home_region = ''us-west-2''"

abbreviation aws :: "'s shell \<Rightarrow> string list \<Rightarrow> ('s, json) act" where
  "aws W args \<equiv> aws_region W home_region args"

definition fetch_price :: "'s shell \<Rightarrow> string \<Rightarrow> (string \<times> string) list \<Rightarrow> ('s, rat) act" where
  "fetch_price W service filters =
     act_bind (aws_region W ''us-east-1'' ([''pricing'', ''get-products'', ''--service-code'', service, ''--filters''] @
       map (\<lambda>(k, v). ''Type=TERM_MATCH,Field='' @ k @ '',Value='' @ v) filters)) (\<lambda>j. act_of (the_price j))"

fun fetch_types :: "'s shell \<Rightarrow> string list \<Rightarrow> ('s, (string \<times> rat) list) act" where
  "fetch_types W [] = act_ret []"
| "fetch_types W (t # ts) =
     act_bind (fetch_price W ''AmazonEC2'' [(''instanceType'', t), (''regionCode'', home_region),
       (''operatingSystem'', ''Linux''), (''tenancy'', ''Shared''), (''preInstalledSw'', ''NA''),
       (''capacitystatus'', ''Used'')]) (\<lambda>p.
     act_bind (fetch_types W ts) (\<lambda>ps. act_ret ((t, p) # ps)))"

definition fetch_prices :: "'s shell \<Rightarrow> string list \<Rightarrow> ('s, prices) act" where
  "fetch_prices W types =
     act_bind (fetch_types W (sort (remdups types))) (\<lambda>per_hour.
     act_bind (fetch_price W ''AmazonEC2'' [(''volumeApiName'', ''gp3''), (''regionCode'', home_region),
       (''productFamily'', ''Storage'')]) (\<lambda>gp3.
     act_bind (fetch_price W ''AmazonVPC'' [(''regionCode'', home_region),
       (''usagetype'', ''USW2-PublicIPv4:InUseAddress'')]) (\<lambda>ipv4.
     act_ret \<lparr>per_instance_hour = per_hour, gp3_gb_month = gp3, ipv4_hour = ipv4\<rparr>)))"

section \<open>A one-off task\<close>

definition services_steady :: "'s shell \<Rightarrow> string \<Rightarrow> ('s, bool) act" where
  "services_steady W cluster =
     act_bind (aws W [''ecs'', ''describe-services'', ''--cluster'', cluster, ''--services'', ''redis'', ''worker'']) (\<lambda>j.
     act_of (and_then (and_then (jfield ''services'' j) jlist) (\<lambda>ss.
       and_then (collect (\<lambda>s. and_then (and_then (jfield ''serviceName'' s) jstr) (\<lambda>n.
         and_then (jfield ''runningCount'' s) (\<lambda>r. and_then (jfield ''desiredCount'' s) (\<lambda>d. Inr (n, r, d))))) ss) (\<lambda>ps.
       Inr (\<forall>(r, d) \<in> set (map snd (fold (\<lambda>p m. AList.update (fst p) (snd p) m) ps [])). r = d)))))"

definition describe_task :: "'s shell \<Rightarrow> string \<Rightarrow> string \<Rightarrow> ('s, json) act" where
  "describe_task W cluster arn =
     act_bind (aws W [''ecs'', ''describe-tasks'', ''--cluster'', cluster, ''--tasks'', arn]) (\<lambda>j. act_of (first_of ''tasks'' j))"

partial_function (option) log_lines ::
  "'s shell \<Rightarrow> string \<Rightarrow> string option \<Rightarrow> string list \<Rightarrow> ('s, string list) act" where
  "log_lines W task_id token acc s =
     Option.bind (aws W (log_args task_id (case token of None \<Rightarrow> [] | Some t \<Rightarrow> t)) s) (\<lambda>p. case p of
       (Inl e, s1) \<Rightarrow> Some (Inl e, s1)
     | (Inr page, s1) \<Rightarrow>
         (case page_of page of
            Inl e \<Rightarrow> Some (Inl e, s1)
          | Inr (ms, t) \<Rightarrow>
              (if ms = [] \<or> Some t = token then Some (Inr (acc @ ms), s1)
               else log_lines W task_id (Some t) (acc @ ms) s1)))"

definition run_one_off :: "'s shell \<Rightarrow> string \<Rightarrow> string list \<Rightarrow> rat \<Rightarrow> ('s, int) act" where
  "run_one_off W stack_dir command limit =
     act_bind (stack_outputs W stack_dir) (\<lambda>outputs.
     act_bind (act_of (output_text ''cluster'' outputs)) (\<lambda>cluster.
     act_bind (wait_for W ''services to reach their desired count'' (services_steady W cluster) 600 10) (\<lambda>_.
     act_bind (act_of (output_text ''loadgen_task_definition'' outputs)) (\<lambda>task_def.
     act_bind (act_of (output_text ''loadgen_placement'' outputs)) (\<lambda>placement.
     act_bind (aws W [''ecs'', ''run-task'', ''--cluster'', cluster, ''--task-definition'', task_def,
       ''--launch-type'', ''EC2'', ''--placement-constraints'', ''type=memberOf,expression='' @ placement,
       ''--overrides'', py_dumps (JObj [(''containerOverrides'',
         JArr [JObj [(''name'', JStr ''loadgen''), (''command'', JArr (map JStr command))]])])]) (\<lambda>task.
     act_bind (act_of (jfield ''failures'' task)) (\<lambda>failures.
     act_bind (if jtrue failures then act_fail (RuntimeFault ''run-task failed'') else act_of (jfield ''tasks'' task)) (\<lambda>tasks.
     if \<not> jtrue tasks then act_fail (RuntimeFault ''run-task failed'')
     else act_bind (act_of (and_then (and_then (jfirst tasks) (jfield ''taskArn'')) jstr)) (\<lambda>arn.
       act_bind (wait_for W ''the task to stop'' (act_bind (describe_task W cluster arn) (\<lambda>t.
         act_bind (act_of (jfield ''lastStatus'' t)) (\<lambda>st. act_ret (st = JStr ''STOPPED'')))) (limit + 300) 10) (\<lambda>_.
       act_bind (describe_task W cluster arn) (\<lambda>t.
       act_bind (log_lines W (after_last CHR ''/'' arn) None []) (\<lambda>_.
       act_bind (act_of (and_then (first_of ''containers'' t) (jget ''exitCode''))) (\<lambda>code.
       if code = JNull then act_ret (- 1)
       else act_of (case py_int code of Inl _ \<Rightarrow> Inl TypeFault | Inr n \<Rightarrow> Inr n))))))))))))))"

definition smoke_passes :: "'s shell \<Rightarrow> string \<Rightarrow> int \<Rightarrow> rat \<Rightarrow> ('s, bool) act" where
  "smoke_passes W stack_dir jobs limit =
     act_bind (run_one_off W stack_dir
       [''ftq'', ''bench'', ''--jobs'', str_int jobs, ''--timeout'', str_int (py_trunc limit)] limit) (\<lambda>code. act_ret (code = 0))"

section \<open>Nothing billable left\<close>

definition state_resource_count :: "int \<Rightarrow> string \<Rightarrow> string \<Rightarrow> nat option" where
  "state_resource_count returncode stdout stderr =
     (if returncode = 0 then Some (length (words_of stdout))
      else if sublist ''No state file was found'' stderr then Some 0
      else None)"

text \<open>\<^verbatim>\<open>_count\<close>: a label is a failure unless its number is 0.\<close>

definition note_count :: "string \<Rightarrow> nat \<Rightarrow> string list \<Rightarrow> string list" where
  "note_count label n failures = (if n = 0 then failures else failures @ [label])"

definition count_in :: "string \<Rightarrow> json \<Rightarrow> deploy_error + nat" where
  "count_in k j = and_then (and_then (jfield k j) jlist) (\<lambda>xs. Inr (length xs))"

definition instance_count :: "json \<Rightarrow> deploy_error + nat" where
  "instance_count j = and_then (and_then (jfield ''Reservations'' j) jlist) (\<lambda>rs.
     and_then (collect (count_in ''Instances'') rs) (\<lambda>ns. Inr (sum_list ns)))"

definition counted :: "'s shell \<Rightarrow> string \<Rightarrow> string list \<Rightarrow> (json \<Rightarrow> deploy_error + nat) \<Rightarrow> string list
    \<Rightarrow> ('s, string list) act" where
  "counted W label args number failures =
     act_bind (aws W args) (\<lambda>j. act_bind (act_of (number j)) (\<lambda>n. act_ret (note_count label n failures)))"

definition active_clusters :: "'s shell \<Rightarrow> ('s, nat) act" where
  "active_clusters W =
     act_bind (aws W [''ecs'', ''list-clusters'']) (\<lambda>j.
     act_bind (act_of (and_then (jfield ''clusterArns'' j) strings_of)) (\<lambda>arns.
     if arns = [] then act_ret 0
     else act_bind (aws W ([''ecs'', ''describe-clusters'', ''--clusters''] @ arns)) (\<lambda>cj.
       act_of (and_then (and_then (jfield ''clusters'' cj) jlist) (\<lambda>cs.
         and_then (collect (jfield ''status'') cs) (\<lambda>ss. Inr (length (filter ((=) (JStr ''ACTIVE'')) ss))))))))"

fun image_count :: "'s shell \<Rightarrow> json list \<Rightarrow> ('s, nat) act" where
  "image_count W [] = act_ret 0"
| "image_count W (r # rs) =
     act_bind (act_of (and_then (jfield ''repositoryName'' r) jstr)) (\<lambda>name.
     act_bind (aws W [''ecr'', ''list-images'', ''--repository-name'', name]) (\<lambda>j.
     act_bind (act_of (count_in ''imageIds'' j)) (\<lambda>n.
     act_bind (image_count W rs) (\<lambda>m. act_ret (n + m)))))"

definition state_count :: "'s shell \<Rightarrow> string \<Rightarrow> ('s, nat option) act" where
  "state_count W stack_dir = (\<lambda>s. case run_cmd W [''terraform'', ''-chdir='' @ stack_dir, ''state'', ''list''] s of
     (Inr out, s') \<Rightarrow> Some (Inr (state_resource_count 0 out []), s')
   | (Inl e, s') \<Rightarrow> (case e of
         CommandFailed code err \<Rightarrow> Some (Inr (state_resource_count code [] err), s')
       | _ \<Rightarrow> Some (Inl e, s')))"

definition note_state :: "nat option \<Rightarrow> string list \<Rightarrow> string list" where
  "note_state in_state failures = (case in_state of
       None \<Rightarrow> failures @ [''Terraform state unreadable'']
     | Some n \<Rightarrow> note_count (''resources in the stack'' @ CHR 0x27 # ''s Terraform state'') n failures)"

text \<open>The failures of \<^verbatim>\<open>cmd_verify_clean\<close>; it exits with an error unless there are none.\<close>

definition verify_clean :: "'s shell \<Rightarrow> string \<Rightarrow> ('s, string list) act" where
  "verify_clean W stack_dir =
     act_bind (counted W ''EC2 instances (not terminated)'' [''ec2'', ''describe-instances'', ''--filters'',
       ''Name=instance-state-name,Values=pending,running,stopping,stopped,shutting-down''] instance_count []) (\<lambda>f.
     act_bind (counted W ''EBS volumes'' [''ec2'', ''describe-volumes''] (count_in ''Volumes'') f) (\<lambda>f.
     act_bind (counted W ''network interfaces'' [''ec2'', ''describe-network-interfaces'']
       (count_in ''NetworkInterfaces'') f) (\<lambda>f.
     act_bind (counted W ''Elastic IPs'' [''ec2'', ''describe-addresses''] (count_in ''Addresses'') f) (\<lambda>f.
     act_bind (counted W ''NAT gateways'' [''ec2'', ''describe-nat-gateways'', ''--filter'',
       ''Name=state,Values=pending,available''] (count_in ''NatGateways'') f) (\<lambda>f.
     act_bind (counted W ''load balancers'' [''elbv2'', ''describe-load-balancers''] (count_in ''LoadBalancers'') f) (\<lambda>f.
     act_bind (counted W ''auto scaling groups'' [''autoscaling'', ''describe-auto-scaling-groups'']
       (count_in ''AutoScalingGroups'') f) (\<lambda>f.
     act_bind (active_clusters W) (\<lambda>n.
     let f = note_count ''active ECS clusters'' n f in
     act_bind (aws W [''ecr'', ''describe-repositories'']) (\<lambda>rj.
     act_bind (act_of (and_then (jfield ''repositories'' rj) jlist)) (\<lambda>repos.
     act_bind (image_count W repos) (\<lambda>images.
     let f = note_count ''ECR images'' images f in
     act_bind (counted W ''CloudWatch log groups /ftq*'' [''logs'', ''describe-log-groups'', ''--log-group-name-prefix'', ''/ftq'']
       (count_in ''logGroups'') f) (\<lambda>f.
     act_bind (state_count W stack_dir) (\<lambda>st. act_ret (note_state st f))))))))))))))"

section \<open>The estimate adds up\<close>

lemma count_types_total:
  "sum_list (map snd (count_types bs m)) = sum_list (map snd m) + length bs"
proof (induction bs m rule: count_types.induct)
  case (2 b bs m)
  have "sum_list (map snd (AList.update k (case map_of m k of None \<Rightarrow> 1 | Some n \<Rightarrow> Suc n) m)) = Suc (sum_list (map snd m))" for k
    by (induction m) auto
  with 2 show ?case by simp
qed simp

lemma collect_pairs: "collect f xs = Inr ys \<Longrightarrow> list_all2 (\<lambda>x y. f x = Inr y) xs ys"
  by (induction xs arbitrary: ys) (auto split: sum.splits)

lemma estimate_total:
  assumes "estimate_lines boxes P = Inr (ls, cost)"
  shows "cost = sum_list (map line_cost ls)"
  using assms by (auto simp: estimate_lines_def and_then_def line_cost_def Let_def split: sum.splits)

definition weighted :: "(string \<Rightarrow> rat) \<Rightarrow> (string \<times> nat) list \<Rightarrow> rat" where
  "weighted f m = sum_list (map (\<lambda>p. of_nat (snd p) * f (fst p)) m)"

lemma weighted_update:
  "distinct (map fst m) \<Longrightarrow>
   weighted f (AList.update k (case map_of m k of None \<Rightarrow> 1 | Some n \<Rightarrow> Suc n) m) = weighted f m + f k"
  by (induction m) (auto simp: weighted_def algebra_simps)

lemma weighted_count:
  "distinct (map fst m) \<Longrightarrow> weighted f (count_types bs m) = weighted f m + sum_list (map (\<lambda>b. f (bx_type b)) bs)"
  by (induction bs m rule: count_types.induct) (simp_all add: weighted_update distinct_update)

lemma weighted_sort: "weighted f (sort_key fst m) = weighted f m"
proof -
  have "weighted f xs = sum_mset (image_mset (\<lambda>p. of_nat (snd p) * f (fst p)) (mset xs))" for xs
    by (simp add: weighted_def flip: sum_mset_sum_list)
  then show ?thesis by simp
qed

text \<open>The reference: every box pays its own price, its volume and its address.\<close>

lemma estimate_is_per_box:
  assumes "estimate_lines boxes P = Inr (ls, cost)"
  shows "cost = sum_list (map (\<lambda>b. the (map_of (per_instance_hour P) (bx_type b)) +
    root_volume_gb * gp3_gb_month P / hours_per_month + ipv4_hour P) boxes)"
proof -
  let ?price = "\<lambda>t. the (map_of (per_instance_hour P) t)" and ?m = "sort_key fst (count_types boxes [])"
  obtain ts where c: "collect (type_line P) ?m = Inr ts" and
    t: "cost = sum_list (map line_cost ts) + (of_nat (length boxes) * root_volume_gb * gp3_gb_month P / hours_per_month
      + of_nat (length boxes) * ipv4_hour P)"
    using assms by (auto simp: estimate_lines_def and_then_def Let_def split: sum.splits)
  have "map line_cost ts = map (\<lambda>p. of_nat (snd p) * ?price (fst p)) ?m"
    using collect_pairs [OF c]
    by (induction rule: list_all2_induct) (auto simp: type_line_def line_cost_def split: option.splits)
  then have "sum_list (map line_cost ts) = weighted ?price ?m" by (simp add: weighted_def)
  also have "\<dots> = sum_list (map (\<lambda>b. ?price (bx_type b)) boxes)"
    unfolding weighted_sort using weighted_count [of "[]" ?price boxes] by (simp add: weighted_def)
  finally have sum: "sum_list (map line_cost ts) = sum_list (map (\<lambda>b. ?price (bx_type b)) boxes)" .
  have "sum_list (map g bs) + (of_nat (length bs) * v * p / h + of_nat (length bs) * i) =
    sum_list (map (\<lambda>b. g b + v * p / h + i) bs)" for g :: "box \<Rightarrow> rat" and v p h i bs
    by (induction bs) (auto simp: algebra_simps add_divide_distrib)
  then show ?thesis unfolding t sum .
qed

section \<open>Clean means clean\<close>

text \<open>An account whose answers do not change while it is being looked at.\<close>

definition answers :: "'s shell \<Rightarrow> (string list \<Rightarrow> deploy_error + string) \<Rightarrow> bool" where
  "answers W reply \<longleftrightarrow> (\<forall>c s. run_cmd W c s = (reply c, s))"

definition answer :: "(string list \<Rightarrow> deploy_error + string) \<Rightarrow> string list \<Rightarrow> deploy_error + json" where
  "answer reply args = and_then (reply (''aws'' # args @ [''--region'', home_region, ''--output'', ''json'']))
     (\<lambda>out. if strip out = [] then Inr JNull else (case loads out of None \<Rightarrow> Inl BadJson | Some j \<Rightarrow> Inr j))"

text \<open>What bills by the hour or by the gigabyte, but for clusters and images: a query and the count of its answer.\<close>

definition hourly :: "(string list \<times> (json \<Rightarrow> deploy_error + nat)) list" where
  "hourly =
     [([''ec2'', ''describe-instances'', ''--filters'',
        ''Name=instance-state-name,Values=pending,running,stopping,stopped,shutting-down''], instance_count),
      ([''ec2'', ''describe-volumes''], count_in ''Volumes''),
      ([''ec2'', ''describe-network-interfaces''], count_in ''NetworkInterfaces''),
      ([''ec2'', ''describe-addresses''], count_in ''Addresses''),
      ([''ec2'', ''describe-nat-gateways'', ''--filter'', ''Name=state,Values=pending,available''],
        count_in ''NatGateways''),
      ([''elbv2'', ''describe-load-balancers''], count_in ''LoadBalancers''),
      ([''autoscaling'', ''describe-auto-scaling-groups''], count_in ''AutoScalingGroups''),
      ([''logs'', ''describe-log-groups'', ''--log-group-name-prefix'', ''/ftq''], count_in ''logGroups'')]"

definition none_left :: "(string list \<Rightarrow> deploy_error + string) \<Rightarrow> string list \<times> (json \<Rightarrow> deploy_error + nat) \<Rightarrow> bool" where
  "none_left reply q \<longleftrightarrow> and_then (answer reply (fst q)) (snd q) = Inr 0"

lemma note_count_clean: "note_count label n f = [] \<longleftrightarrow> n = 0 \<and> f = []"
  by (simp add: note_count_def)

lemma note_state_clean: "note_state st f = [] \<longleftrightarrow> st = Some 0 \<and> f = []"
  by (auto simp: note_state_def note_count_clean split: option.split)

lemma unreadable_state: "r \<noteq> 0 \<Longrightarrow> \<not> sublist ''No state file was found'' e \<Longrightarrow> note_state (state_resource_count r out e) f \<noteq> []"
  by (simp add: note_state_def state_resource_count_def)

lemma answered: "answers W reply \<Longrightarrow> aws W args s = Some (answer reply args, s)"
  by (auto simp: answers_def answer_def aws_region_def and_then_def split: sum.split option.split)

lemma counted_answered:
  assumes "answers W reply"
  shows "counted W label args number f s =
    Some (and_then (and_then (answer reply args) number) (\<lambda>n. Inr (note_count label n f)), s)"
  by (auto simp: counted_def act_bind_def act_of_def act_ret_def and_then_def answered [OF assms] split: sum.split)

lemma counted_none:
  assumes "answers W reply" and "act_bind (counted W label args number f) k s = Some (Inr [], s')"
    and "\<And>g. k g s = Some (Inr [], s') \<Longrightarrow> g = [] \<and> list_all (none_left reply) qs \<and> P"
  shows "f = [] \<and> list_all (none_left reply) ((args, number) # qs) \<and> P"
proof -
  obtain n where "and_then (answer reply args) number = Inr n" and "k (note_count label n f) s = Some (Inr [], s')"
    using assms(2) by (auto simp: act_bind_def counted_answered [OF assms(1)] and_then_def split: sum.splits)
  with assms(3) [of "note_count label n f"] show ?thesis by (simp add: none_left_def note_count_clean)
qed

lemma clusters_answered:
  assumes "answers W reply"
  shows "\<exists>r. active_clusters W s = Some (r, s)"
  by (auto simp: active_clusters_def act_bind_def act_of_def act_ret_def answered [OF assms] split: sum.split)

lemma images_answered:
  assumes "answers W reply"
  shows "\<exists>r. image_count W repos s = Some (r, s)"
  by (induction repos) (auto simp: act_bind_def act_of_def act_ret_def answered [OF assms] split: sum.split)

lemma state_answered:
  assumes "answers W reply"
  shows "\<exists>r. state_count W d s = Some (r, s)"
  using assms by (auto simp: state_count_def answers_def split: sum.split deploy_error.split)

lemma bind_same_state:
  assumes "act_bind m k s = Some (Inr y, s')" and "\<exists>r. m s = Some (r, s)"
  obtains x where "m s = Some (Inr x, s)" and "k x s = Some (Inr y, s')"
  using assms by (auto simp: act_bind_def split: sum.splits)

lemma clean_tail:
  assumes a: "answers W reply"
    and run: "act_bind (active_clusters W) (\<lambda>n.
      let f = note_count lc n f in
      act_bind (aws W qr) (\<lambda>rj.
      act_bind (act_of (repos_of rj)) (\<lambda>repos.
      act_bind (image_count W repos) (\<lambda>images.
      let f = note_count li images f in
      act_bind (counted W ll ql nl f) (\<lambda>f.
      act_bind (state_count W d) (\<lambda>st. act_ret (note_state st f))))))) s = Some (Inr [], s')"
  shows "f = [] \<and> list_all (none_left reply) [(ql, nl)] \<and> active_clusters W s = Some (Inr 0, s) \<and>
    (\<exists>repos. and_then (answer reply qr) repos_of = Inr repos \<and> image_count W repos s = Some (Inr 0, s)) \<and>
    state_count W d s = Some (Inr (Some 0), s)"
proof -
  from run clusters_answered [OF a] obtain n where n: "active_clusters W s = Some (Inr n, s)" and
    1: "act_bind (aws W qr) (\<lambda>rj. act_bind (act_of (repos_of rj)) (\<lambda>repos. act_bind (image_count W repos) (\<lambda>images.
      let f = note_count li images (note_count lc n f) in
      act_bind (counted W ll ql nl f) (\<lambda>f. act_bind (state_count W d) (\<lambda>st. act_ret (note_state st f)))))) s =
      Some (Inr [], s')" unfolding Let_def by (rule bind_same_state)
  then obtain repos where r: "and_then (answer reply qr) repos_of = Inr repos" and
    2: "act_bind (image_count W repos) (\<lambda>images.
      act_bind (counted W ll ql nl (note_count li images (note_count lc n f)))
        (\<lambda>f. act_bind (state_count W d) (\<lambda>st. act_ret (note_state st f)))) s = Some (Inr [], s')"
    by (auto simp: act_bind_def answered [OF a] act_of_def and_then_def Let_def split: sum.splits)
  from 2 images_answered [OF a] obtain m where m: "image_count W repos s = Some (Inr m, s)" and
    3: "act_bind (counted W ll ql nl (note_count li m (note_count lc n f)))
        (\<lambda>f. act_bind (state_count W d) (\<lambda>st. act_ret (note_state st f))) s = Some (Inr [], s')"
    by (rule bind_same_state)
  have "note_count li m (note_count lc n f) = [] \<and> list_all (none_left reply) [(ql, nl)] \<and> state_count W d s = Some (Inr (Some 0), s)"
  proof (rule counted_none [OF a 3])
    fix g
    assume "act_bind (state_count W d) (\<lambda>st. act_ret (note_state st g)) s = Some (Inr [], s')"
    from this state_answered [OF a] obtain st where "state_count W d s = Some (Inr st, s)" "note_state st g = []"
      by (rule bind_same_state) (simp add: act_ret_def)
    then show "g = [] \<and> list_all (none_left reply) [] \<and> state_count W d s = Some (Inr (Some 0), s)" by (simp add: note_state_clean)
  qed
  with n m r show ?thesis by (auto simp: note_count_clean)
qed

lemma verify_clean_sound:
  assumes a: "answers W reply" and run: "verify_clean W d s = Some (Inr [], s')"
  shows "list_all (none_left reply) hourly" and "active_clusters W s = Some (Inr 0, s)"
    and "\<exists>repos. and_then (answer reply [''ecr'', ''describe-repositories'']) (\<lambda>j. and_then (jfield ''repositories'' j) jlist) =
      Inr repos \<and> image_count W repos s = Some (Inr 0, s)"
    and "state_count W d s = Some (Inr (Some 0), s)"
proof -
  let ?rest = "active_clusters W s = Some (Inr 0, s) \<and>
    (\<exists>repos. and_then (answer reply [''ecr'', ''describe-repositories'']) (\<lambda>j. and_then (jfield ''repositories'' j) jlist) =
      Inr repos \<and> image_count W repos s = Some (Inr 0, s)) \<and> state_count W d s = Some (Inr (Some 0), s)"
  have "[] = ([] :: string list) \<and> list_all (none_left reply) hourly \<and> ?rest"
    unfolding hourly_def
    by (rule counted_none [OF a run [unfolded verify_clean_def]], (erule counted_none [OF a])+, erule clean_tail [OF a])
  then show "list_all (none_left reply) hourly" "active_clusters W s = Some (Inr 0, s)"
    "\<exists>repos. and_then (answer reply [''ecr'', ''describe-repositories'']) (\<lambda>j. and_then (jfield ''repositories'' j) jlist) =
      Inr repos \<and> image_count W repos s = Some (Inr 0, s)" "state_count W d s = Some (Inr (Some 0), s)" by blast+
qed

end
