(* ===== verification/Example_Deploy.thy ===== *)
theory Example_Deploy
  imports Deploy_Local Deploy_Recover Deploy_Aws
begin

text \<open>
  A concrete environment for the benchmark driver: a codec with the documented round trip, a shell
  over a clock, an account in which nothing is left, and a backend that measures at once. On it two
  points are driven, one of which has already been saved.
\<close>

section \<open>A codec\<close>

definition nibble :: "nat \<Rightarrow> char" where
  "nibble n = char_of (65 + n)"

definition demo_pack :: "string \<Rightarrow> string" where
  "demo_pack s = CHR ''x'' # concat (map (\<lambda>c. [nibble (of_char c div 16), nibble (of_char c mod 16)]) s)"

fun demo_pairs :: "string \<Rightarrow> string option" where
  "demo_pairs [] = Some []"
| "demo_pairs [c] = None"
| "demo_pairs (a # b # r) =
     map_option ((#) (char_of (16 * (of_char a - 65) + (of_char b - 65) :: nat))) (demo_pairs r)"

definition demo_unpack :: "string \<Rightarrow> string option" where
  "demo_unpack s = (case s of [] \<Rightarrow> None | _ # r \<Rightarrow> demo_pairs r)"

lemma nibble_value: "n < 16 \<Longrightarrow> of_char (nibble n) = 65 + n"
  by (simp add: nibble_def of_char_of take_bit_eq_mod)

lemma nibble_b64: "n < 16 \<Longrightarrow> b64_char (nibble n)"
  by (simp add: b64_char_def nibble_value)

lemma demo_pairs_pack:
  "demo_pairs (concat (map (\<lambda>c. [nibble (of_char c div 16), nibble (of_char c mod 16)]) s)) = Some s"
proof (induction s)
  case (Cons c s)
  have "(of_char c :: nat) div 16 < 16" using nat_of_char_less_256 [of c] by (simp add: less_mult_imp_div_less)
  then have "of_char (nibble (of_char c div 16)) = 65 + of_char c div (16 :: nat)" "of_char (nibble (of_char c mod 16)) = 65 + of_char c mod (16 :: nat)"
    by (simp_all add: nibble_value)
  with Cons show ?case by simp
qed simp

lemma demo_codec: "codec_doc demo_pack demo_unpack"
proof -
  have "list_all b64_char (concat (map (\<lambda>c. [nibble (of_char c div 16), nibble (of_char c mod 16)]) s))" for s
    using nat_of_char_less_256 by (induction s) (auto intro!: nibble_b64 simp: less_mult_imp_div_less)
  moreover have "b64_char CHR ''x''" by code_simp
  ultimately show ?thesis by (simp add: codec_doc_def demo_pack_def demo_unpack_def demo_pairs_pack)
qed

lemma wrap_short: "s \<noteq> [] \<Longrightarrow> length s \<le> n \<Longrightarrow> wrap_word n s = [s]"
  by (subst wrap_word.simps, subst wrap_word.simps) (cases s; auto)

section \<open>A shell\<close>

text \<open>The state is the clock. Every query of the account is answered with empty lists.\<close>

definition demo_listing :: json where
  "demo_listing = JObj (map (\<lambda>k. (k, JArr []))
     [''Reservations'', ''Volumes'', ''NetworkInterfaces'', ''Addresses'', ''NatGateways'', ''LoadBalancers'',
      ''AutoScalingGroups'', ''clusterArns'', ''repositories'', ''logGroups''])"

definition demo_reply :: "string list \<Rightarrow> deploy_error + string" where
  "demo_reply cmd = (if take 1 cmd = [''terraform''] then Inl (CommandFailed 1 ''No state file was found!'')
     else Inr (dumps demo_listing))"

definition demo_shell :: "rat shell" where
  "demo_shell = \<lparr>run_cmd = (\<lambda>c s. (demo_reply c, s)), sh_output = (\<lambda>c s. (demo_reply c, s)), sh_sleep = (\<lambda>d s. s + d),
     sh_clock = (\<lambda>s. (s, s)), sh_token = (\<lambda>s. (''0123456789abcdef'', s)), sh_today = (\<lambda>s. (''2025-01-01T00:00:00+00:00'', s))\<rparr>"

lemma demo_clock: "clock_doc demo_shell (\<lambda>s. s)"
  by (simp add: clock_doc_def demo_shell_def)

lemma demo_answers: "answers demo_shell demo_reply"
  by (simp add: answers_def demo_shell_def)

section \<open>A backend\<close>

definition demo_account :: string where
  "demo_account = ''123456789012''"

definition demo_report :: json where
  "demo_report = JObj [(''meta'', JObj [(''arn'', JStr (''arn:aws:ecs:'' @ demo_account))]),
     (''exactly_once'', JObj [(''ok'', JBool True)]), (''throughput'', JObj [(''completed_per_s'', JInt 900)]),
     (''producers'', JObj [(''hosts'', JObj [(''reported'', JInt 2)])]), (''depth_in_window'', JObj [(''min'', JInt 10)])]"

definition demo_log :: "string list" where
  "demo_log = [''INFO start'', ''REPORT-BEGIN'', ''R:'' @ demo_pack (dumps demo_report), ''REPORT-END'']"

definition demo_aws :: aws_backend where
  "demo_aws = \<lparr>ab_cluster = ''ftq'', ab_task_def = ''loadgen'', ab_account = demo_account, ab_poll = 5, ab_retry = 2\<rparr>"

text \<open>Measuring a point takes two hundred seconds.\<close>

definition demo_backend :: "rat backend" where
  "demo_backend = \<lparr>be_name = ''aws'', be_wait_for_redis = act_ret (), be_set_workers = (\<lambda>n. act_ret ()),
     be_flush = act_ret (), be_snapshot = act_ret (JObj [(''account'', JStr demo_account)]),
     be_run_pair = (\<lambda>c p w s. Some (Inr \<lparr>pr_coordinator_exit = JInt 0, pr_producer_exit = JInt 0,
       pr_coordinator_log = demo_log, pr_producer_log = [''arn '' @ demo_account],
       pr_placement = [(''coordinator'', JStr ''b'')]\<rparr>, s + 200)),
     be_scrub = be_scrub (aws_ops demo_shell demo_unpack demo_aws)\<rparr>"

definition demo_spec :: session_spec where
  "demo_spec = session_defaults\<lparr>ss_worker_counts := [1, 2, 4], ss_suites := [''scaling'']\<rparr>"

definition demo_files :: "(string \<times> string) list" where
  "demo_files = [(''scaling/w01.json'', ''{}'')]"

text \<open>From the start, 450 seconds are enough for the second point and not for the third.\<close>

definition demo_session :: "((deploy_error + unit) \<times> rat session) option" where
  "demo_session = run_session demo_shell demo_unpack demo_backend (session_points demo_spec) demo_files 450 False 1000"

lemma demo_report_text: "loads (dumps demo_report) = Some demo_report"
  by (rule loads_dumps) code_simp

lemma demo_log_read: "decode_report demo_unpack demo_log = Inr (Some demo_report)"
proof -
  have pack_ok: "list_all b64_char (demo_pack t)" "demo_unpack (demo_pack t) = Some t" for t
    using demo_codec unfolding codec_doc_def by blast+
  have "strip ''INFO start'' = ''INFO start''" by code_simp
  moreover have "scan_report True [] (map (\<lambda>w. ''R:'' @ w) [demo_pack (dumps demo_report)] @ [''REPORT-END'']) =
      scan_report True ([] @ [demo_pack (dumps demo_report)]) [''REPORT-END'']"
    by (rule scan_chunks) (simp add: pack_ok)
  ultimately have "scan_report False [] demo_log = Some [demo_pack (dumps demo_report)]"
    unfolding demo_log_def by (simp add: dump_strip)
  then show ?thesis by (simp add: decode_report_def pack_ok demo_report_text)
qed

definition demo_point :: "int \<Rightarrow> string \<Rightarrow> bench_point" where
  "demo_point w label = \<lparr>bp_suite = ''scaling'', bp_label = label, bp_workers = w, bp_warmup = 20, bp_measure = 180,
     bp_cooldown = 5, bp_args = [''--processes'', str_int 4] @ saturate_args, bp_overload = 0\<rparr>"

lemma demo_points: "session_points demo_spec = [demo_point 1 ''w01'', demo_point 2 ''w02'', demo_point 4 ''w04'']"
proof -
  have "pad2 1 = ''01''" "pad2 2 = ''02''" "pad2 4 = ''04''" by code_simp+
  then show ?thesis
    by (simp add: session_points_def demo_spec_def session_defaults_def demo_point_def)
qed

lemma demo_skip:
  "session_point demo_shell demo_unpack demo_backend 1000 450 False (demo_point 1 ''w01'') (fresh_session 1000 demo_files) =
     Some (Inr (), (fresh_session 1000 demo_files)\<lparr>se_outcomes := [(''scaling/w01'', SkippedSaved)]\<rparr>)"
  by (simp add: session_point_def saved_def fresh_session_def demo_files_def point_path_def demo_point_def set_outcome_def
      update_session_def outcome_key_def)

lemma demo_late:
  assumes "450 < se_world z - 1000 + 295" and "map_of (se_files z) ''scaling/w04.json'' = None"
  shows "session_point demo_shell demo_unpack demo_backend 1000 450 False (demo_point 4 ''w04'') z =
     Some (Inr (), z\<lparr>se_outcomes := AList.update ''scaling/w04'' NotRunDeadline (se_outcomes z)\<rparr>)"
  using assms by (simp add: session_point_def saved_def point_path_def demo_point_def set_outcome_def update_session_def
      outcome_key_def act_bind_def on_world_def act_read_def demo_shell_def bp_seconds_def point_overhead_s_def)

definition demo_saved :: json where
  "demo_saved = JObj (AList.update ''meta'' (JObj [(''arn'', JStr (''arn:aws:ecs:'' @ demo_account)),
     (''placement'', JObj [(''coordinator'', JStr ''b'')]), (''producer_exit'', JInt 0)]) (case demo_report of JObj ps \<Rightarrow> ps | _ \<Rightarrow> []))"

lemma demo_run:
  assumes "se_world z = 1000" and "\<not> saved (demo_point 2 ''w02'') z"
  shows "\<exists>z'. session_point demo_shell demo_unpack demo_backend 1000 450 False (demo_point 2 ''w02'') z = Some (Inr (), z') \<and>
    se_world z' = 1200 \<and> se_starts z' = se_starts z @ [(demo_point 2 ''w02'', 0)] \<and>
    se_outcomes z' = AList.update ''scaling/w02'' (Ran (JInt 900) (JBool True) (JInt 2) (JInt 10)) (se_outcomes z) \<and>
    dom (map_of (se_files z')) = dom (map_of (se_files z)) \<union> {''scaling/w02.services.json'', ''scaling/w02.coordinator.txt'',
      ''scaling/w02.producer.txt'', ''scaling/w02.json''}"
proof -
  have set1: "and_then (set_meta ''placement'' (JObj [(''coordinator'', JStr ''b'')]) demo_report)
      (set_meta ''producer_exit'' (JInt 0)) = Inr demo_saved"
    by (simp add: set_meta_def demo_report_def demo_saved_def and_then_def)
  have ran: "ran_of demo_saved = Inr (Ran (JInt 900) (JBool True) (JInt 2) (JInt 10))"
    by (simp add: ran_of_def demo_saved_def demo_report_def and_then_def jfield_def)
  show ?thesis
    using assms(2)
    by (auto simp: session_point_def assms(1) act_bind_def on_world_def act_read_def demo_shell_def bp_seconds_def
        point_overhead_s_def demo_backend_def run_point_def measure_point_def offered_rate_def act_of_def redis_once_def
        backend_call_def update_session_def act_ret_def git_rev_def demo_reply_def demo_log_read save_report_def set1 ran
        write_text_def set_outcome_def point_path_def outcome_key_def update_conv' bp_seconds_def
        demo_point_def [of 2] split: option.splits)
qed

lemma act_bind_step: "m s = Some (Inr x, s') \<Longrightarrow> act_bind m k s = k x s'"
  by (simp add: act_bind_def)

text \<open>The whole session: the first point is skipped, the second is run, the third would end too late.\<close>

lemma demo_session_runs:
  "\<exists>z. demo_session = Some (Inr (), z) \<and> se_starts z = [(demo_point 2 ''w02'', 0)] \<and>
    se_outcomes z = [(''scaling/w01'', SkippedSaved), (''scaling/w02'', Ran (JInt 900) (JBool True) (JInt 2) (JInt 10)),
      (''scaling/w04'', NotRunDeadline)] \<and>
    ''scaling/w02.json'' \<in> dom (map_of (se_files z))"
proof -
  let ?z = "(fresh_session (1000 :: rat) demo_files)\<lparr>se_outcomes := [(''scaling/w01'', SkippedSaved)]\<rparr>"
  have "\<not> saved (demo_point 2 ''w02'') ?z"
    by (simp add: saved_def point_path_def demo_point_def fresh_session_def demo_files_def)
  moreover have "se_world ?z = 1000" by (simp add: fresh_session_def)
  ultimately obtain z where
    p: "session_point demo_shell demo_unpack demo_backend 1000 450 False (demo_point 2 ''w02'') ?z = Some (Inr (), z)"
    and w: "se_world z = 1200" and "se_starts z = se_starts ?z @ [(demo_point 2 ''w02'', 0)]"
    and "se_outcomes z = AList.update ''scaling/w02'' (Ran (JInt 900) (JBool True) (JInt 2) (JInt 10)) (se_outcomes ?z)"
    and f: "dom (map_of (se_files z)) = dom (map_of (se_files ?z)) \<union> {''scaling/w02.services.json'',
      ''scaling/w02.coordinator.txt'', ''scaling/w02.producer.txt'', ''scaling/w02.json''}"
    using demo_run [of ?z] by blast
  then have st: "se_starts z = [(demo_point 2 ''w02'', 0)]"
    and o: "se_outcomes z = [(''scaling/w01'', SkippedSaved), (''scaling/w02'', Ran (JInt 900) (JBool True) (JInt 2) (JInt 10))]"
    by (simp_all add: fresh_session_def)
  have "''scaling/w04.json'' \<notin> dom (map_of (se_files z))" "''scaling/w02.json'' \<in> dom (map_of (se_files z))"
    unfolding f by (simp_all add: fresh_session_def demo_files_def)
  then have f4: "map_of (se_files z) ''scaling/w04.json'' = None" and f2: "''scaling/w02.json'' \<in> dom (map_of (se_files z))"
    by (simp_all only: domIff not_not simp_thms)
  have clock: "sh_clock demo_shell 1000 = (1000, 1000)" by (simp add: demo_shell_def)
  from f4 have late: "session_point demo_shell demo_unpack demo_backend 1000 450 False (demo_point 4 ''w04'') z =
    Some (Inr (), z\<lparr>se_outcomes := AList.update ''scaling/w04'' NotRunDeadline (se_outcomes z)\<rparr>)"
    using w by (intro demo_late) simp_all
  have "demo_session = Some (Inr (), z\<lparr>se_outcomes := AList.update ''scaling/w04'' NotRunDeadline (se_outcomes z)\<rparr>)"
    unfolding demo_session_def run_session_def demo_points clock prod.case session_loop.simps
    by (simp only: act_bind_step [where m = "session_point _ _ _ _ _ _ _", OF demo_skip]
        act_bind_step [where m = "session_point _ _ _ _ _ _ _", OF p]
        act_bind_step [where m = "session_point _ _ _ _ _ _ _", OF late] act_ret_def)
  with st o f2 show ?thesis by (intro exI [of _ "z\<lparr>se_outcomes := _\<rparr>"]) simp
qed

definition demo_end :: "rat session" where
  "demo_end = snd (the demo_session)"

lemma demo_end_run:
  "run_session demo_shell demo_unpack demo_backend (session_points demo_spec) demo_files 450 False 1000 = Some (Inr (), demo_end)"
proof -
  obtain z where z: "demo_session = Some (Inr (), z)" using demo_session_runs by blast
  have "demo_end = z" unfolding demo_end_def by (subst z) simp
  with z show ?thesis unfolding demo_session_def by simp
qed

lemma demo_end_values:
  "se_starts demo_end = [(demo_point 2 ''w02'', 0)]"
  "se_outcomes demo_end = [(''scaling/w01'', SkippedSaved), (''scaling/w02'', Ran (JInt 900) (JBool True) (JInt 2) (JInt 10)),
      (''scaling/w04'', NotRunDeadline)]"
  "map_of (se_files demo_end) ''scaling/w02.json'' \<noteq> None"
proof -
  obtain z where z: "demo_session = Some (Inr (), z)" "se_starts z = [(demo_point 2 ''w02'', 0)]"
    "se_outcomes z = [(''scaling/w01'', SkippedSaved), (''scaling/w02'', Ran (JInt 900) (JBool True) (JInt 2) (JInt 10)),
      (''scaling/w04'', NotRunDeadline)]" "''scaling/w02.json'' \<in> dom (map_of (se_files z))"
    using demo_session_runs by blast
  have "demo_end = z" unfolding demo_end_def by (subst z(1)) simp
  with z(2-4) show "se_starts demo_end = [(demo_point 2 ''w02'', 0)]"
    "se_outcomes demo_end = [(''scaling/w01'', SkippedSaved), (''scaling/w02'', Ran (JInt 900) (JBool True) (JInt 2) (JInt 10)),
      (''scaling/w04'', NotRunDeadline)]" "map_of (se_files demo_end) ''scaling/w02.json'' \<noteq> None"
    by (simp_all add: domIff)
qed

section \<open>A clean account\<close>

lemma demo_answer: "answer demo_reply args = Inr demo_listing"
proof -
  have l: "loads (dumps demo_listing) = Some demo_listing" by (rule loads_dumps) code_simp
  have "strip (dumps demo_listing) \<noteq> []" by code_simp
  with l show ?thesis by (simp add: answer_def and_then_def demo_reply_def)
qed

lemma demo_lists:
  "jfield ''Reservations'' demo_listing = Inr (JArr [])" "jfield ''Volumes'' demo_listing = Inr (JArr [])"
  "jfield ''NetworkInterfaces'' demo_listing = Inr (JArr [])" "jfield ''Addresses'' demo_listing = Inr (JArr [])"
  "jfield ''NatGateways'' demo_listing = Inr (JArr [])" "jfield ''LoadBalancers'' demo_listing = Inr (JArr [])"
  "jfield ''AutoScalingGroups'' demo_listing = Inr (JArr [])" "jfield ''clusterArns'' demo_listing = Inr (JArr [])"
  "jfield ''repositories'' demo_listing = Inr (JArr [])" "jfield ''logGroups'' demo_listing = Inr (JArr [])"
  by code_simp+

lemma demo_none: "jfield k demo_listing = Inr (JArr []) \<Longrightarrow>
   counted demo_shell label args (count_in k) f s = Some (Inr f, s)"
  by (simp add: counted_answered [OF demo_answers] demo_answer and_then_def count_in_def jlist_def note_count_def)

lemma demo_clean: "verify_clean demo_shell ''stack'' 0 = Some (Inr [], 0)"
proof -
  have "instance_count demo_listing = Inr 0"
    by (simp add: instance_count_def demo_lists jlist_def and_then_def)
  then have inst: "counted demo_shell label args instance_count f s = Some (Inr f, s)" for label args f s
    by (simp add: counted_answered [OF demo_answers] demo_answer and_then_def note_count_def)
  have "sublist ''No state file was found'' ''No state file was found!''" by code_simp
  then have state: "state_count demo_shell ''stack'' 0 = Some (Inr (Some 0), 0)"
    by (simp add: state_count_def demo_shell_def demo_reply_def state_resource_count_def)
  have clusters: "active_clusters demo_shell 0 = Some (Inr 0, 0)"
    by (simp add: active_clusters_def act_bind_def answered [OF demo_answers] demo_answer act_of_def act_ret_def and_then_def
        demo_lists strings_of_def jlist_def)
  have repos: "aws demo_shell [''ecr'', ''describe-repositories''] 0 = Some (Inr demo_listing, 0)"
    "act_of (and_then (Inr (JArr [])) jlist) 0 = Some (Inr [], 0 :: rat)"
    "image_count demo_shell [] 0 = Some (Inr 0, 0)"
    by (simp_all add: answered [OF demo_answers] demo_answer demo_lists act_of_def and_then_def jlist_def act_ret_def)
  show ?thesis
    unfolding verify_clean_def
    by (simp only: act_bind_step [where m = "counted demo_shell _ _ _ _", OF inst]
        act_bind_step [where m = "counted demo_shell _ _ _ _", OF demo_none] demo_lists act_bind_step [where m = "active_clusters demo_shell", OF clusters]
        act_bind_step [where m = "aws demo_shell _", OF repos(1)]
        act_bind_step [where m = "act_of _", OF repos(2)] act_bind_step [where m = "image_count demo_shell []", OF repos(3)]
        act_bind_step [where m = "state_count demo_shell _", OF state]
        Let_def note_count_def note_state_def if_True option.case act_ret_def refl simp_thms)
qed

end
