(* ===== verification/Spec2Isabelle.thy ===== *)
theory Spec2Isabelle
  imports Example_Run Example_Client Example_Worker Example_Chaos Worker_Loops Client Dlq Metrics Handlers Chaos_Run Bench_Loadgen Cli Example_Deploy
begin

text \<open>
  \<^bold>\<open>A verification of \<^verbatim>\<open>ftq\<close>, a fault-tolerant task queue on Redis Streams.\<close>

  \<^bold>\<open>The program.\<close> Producers (\<^verbatim>\<open>src/ftq/client.py\<close>) add jobs to a Redis stream. Worker processes
  (\<^verbatim>\<open>worker.py\<close>) read entries of the stream through a consumer group, run the handler registered for
  the job's type (\<^verbatim>\<open>registry.py\<close>, \<^verbatim>\<open>handlers/\<close>) and settle the entry: commit its result, schedule a
  retry after a backoff (\<^verbatim>\<open>backoff.py\<close>), or bury it in the dead-letter queue. Every change of the
  queue's keys (\<^verbatim>\<open>keys.py\<close>) is one Lua script (\<^verbatim>\<open>src/ftq/scripts/\<close>), run atomically by the server and
  called from \<^verbatim>\<open>transitions.py\<close>, \<^verbatim>\<open>ledger.py\<close>, \<^verbatim>\<open>scheduler.py\<close>, \<^verbatim>\<open>reaper.py\<close>, \<^verbatim>\<open>dlq.py\<close> and
  \<^verbatim>\<open>client.py\<close>. Each worker also renews the leases of what it runs, moves due retries back into the
  stream and takes over entries whose owner has gone silent. Delivery is at least once; results,
  dead letters and ledger effects are exactly once, because the scripts decide by the job's terminal
  record. The repository also holds a chaos harness that injects faults and checks these promises
  (\<^verbatim>\<open>chaos/\<close>), a load generator with its statistics (\<^verbatim>\<open>bench/\<close>) and the driver of the cloud
  benchmark (\<^verbatim>\<open>deploy/\<close>).

  \<^bold>\<open>The server is a parameter.\<close> Redis is not part of the repository. \<open>Redis_Service\<close> lists the
  commands the code sends as the record \<open>redis_ops\<close> over an opaque server state, writes down what
  the Redis documentation says of each of them as functions on a store (\<open>rdb\<close>), and states the
  agreement of the two as the locale \<open>redis_service\<close>. A script is a function of the server's state
  to a reply or an error reply and a state; an error leaves the writes made before it in place, as
  Redis does. \<open>Redis_Instance\<close> interprets the locale, so the hypotheses can hold, and the example
  theories run the model on that instance.

  \<^bold>\<open>Theories.\<close>
  \<^item> \<open>Prelude\<close>, \<open>Json\<close>: numbers as text, dictionaries, Python's \<^verbatim>\<open>json\<close>; \<open>loads\<close> undoes \<open>dumps\<close>.
  \<^item> \<open>Redis_Service\<close>, \<open>Redis_Instance\<close>: the server, see above.
  \<^item> \<open>Queue_Keys\<close> (\<^verbatim>\<open>keys.py\<close>), \<open>Config\<close> (\<^verbatim>\<open>config.py\<close>), \<open>Backoff\<close> (\<^verbatim>\<open>backoff.py\<close>), \<open>Job_Model\<close>
    (\<^verbatim>\<open>models.py\<close>), \<open>Registry\<close> (\<^verbatim>\<open>registry.py\<close>): key names are injective and of one cluster slot,
    what validated settings guarantee, the range of a backoff, jobs survive their encoding, a
    registry keeps what was registered.
  \<^item> \<open>Lua_Scripts\<close>: the ten scripts, command by command. \<open>Transitions\<close>: their Python callers.
  \<^item> \<open>Queue_State\<close>, \<open>Queue_Spec\<close>: the view \<open>qview\<close> of one queue's keys as a record, one total
    function per transition on it, and that each script implements its function (\<open>implements\<close>) on
    every well-formed store, with no error reply.
  \<^item> \<open>Worker\<close>: \<^verbatim>\<open>_process\<close>, \<^verbatim>\<open>_fail\<close>, \<^verbatim>\<open>_to_dlq\<close> and their refinement. \<open>Handler_Runs\<close>: one handler
    run with its clock and timeout. \<open>Worker_Node\<close>: the state of a worker process, its fetch loop,
    pools, cancellation and shutdown, as a step relation. \<open>Worker_Loops\<close>: start-up, heartbeat and
    maintenance loops.
  \<^item> \<open>Retention\<close>: expiry times; no script lets a terminal record or a ledger marker expire before the
    retention period is over.
  \<^item> \<open>Queue_Invariant\<close>, \<open>Queue_Steps\<close>: the invariants of a queue and that every transition keeps
    them. \<open>Protocol\<close>: the whole system as a step relation (any clients in any order, lost replies,
    crashes, the passage of time) with the invariant as an \<open>invariant_system\<close>. \<open>Queue_Simulation\<close>:
    the abstract machine and the simulation.
  \<^item> \<open>Client\<close> (\<^verbatim>\<open>client.py\<close>), \<open>Dlq\<close> (\<^verbatim>\<open>dlq.py\<close>), \<open>Metrics\<close> (\<^verbatim>\<open>metrics.py\<close>), \<open>Handlers\<close>
    (\<^verbatim>\<open>handlers/\<close>): the producer's loop, the sweep of the dead-letter queue, the snapshot, the
    built-in handlers.
  \<^item> \<open>Chaos_Mix\<close>, \<open>Chaos_Faults\<close>, \<open>Chaos_Verifier\<close>, \<open>Chaos_Run\<close> (\<^verbatim>\<open>chaos/mix.py\<close>, \<^verbatim>\<open>faults.py\<close>,
    \<^verbatim>\<open>verifier.py\<close>, \<^verbatim>\<open>run.py\<close>): the job mix, the fault plan, the injector and the supervisor, the
    verdict, the orchestrator's decisions.
  \<^item> \<open>Bench_Analysis\<close>, \<open>Bench_Loadgen\<close> (\<^verbatim>\<open>bench/analysis.py\<close>, \<^verbatim>\<open>loadgen.py\<close>): percentiles and
    windows, the open-loop producer, the results log and the exactly-once check.
  \<^item> \<open>Cli\<close> (\<^verbatim>\<open>bench.py\<close>, \<^verbatim>\<open>cli.py\<close>): the smoke benchmark and the commands on a queue; what the benchmark
    counts is the log of results up to where it stopped reading (\<open>bench_wait_reads\<close>, \<open>bench_check\<close>).
  \<^item> \<open>Deploy_Commands\<close>, \<open>Deploy_Backend\<close>, \<open>Deploy_Bench\<close>, \<open>Deploy_Local\<close>, \<open>Deploy_Recover\<close>
    (\<^verbatim>\<open>deploy/bench.py\<close>): the points and commands of a session and the report's trip through a log; the
    AWS backend with its retried reads and its waits; the driver over any backend; the local backend
    and the run branch of \<^verbatim>\<open>main\<close>; \<^verbatim>\<open>recover\<close>, which overwrites no report and saves only the point's
    own. \<open>Deploy_Aws\<close> (\<^verbatim>\<open>deploy/aws.py\<close>): the estimate, equal to the sum over the boxes, the one-off
    task, the check that nothing billable is left. The command line tools, the clock, tokens and
    sleeping are a record of functions (\<open>shell\<close>), and gzip with base64 is a codec; what is assumed of
    them is \<open>clock_doc\<close> and \<open>codec_doc\<close>. A command that is a write is run once, whatever it returns
    (\<open>write_runs_once\<close>); a quoted command reaches the program as the words it was made from (\<open>sh_join\<close>).
  \<^item> \<open>Example_Run\<close>, \<open>Example_Client\<close>, \<open>Example_Worker\<close>, \<open>Example_Chaos\<close>, \<open>Example_Deploy\<close>: concrete
    runs, on which the theorems below are instantiated.

  \<^bold>\<open>What the theorems show.\<close> For every reachable state of the system: exactly-once results, no
  accepted job lost, effects at most once, the dead-letter queue holds exactly the dead, bounded
  depth, what is pending was delivered (first section). Every step of the program is a step of the
  abstract machine (second section). Then, per component: capacity of a worker, leases, due retries,
  the client's accounting and its termination under backpressure, the end of a sweep, waiting for
  handlers, round trips of jobs, dead letters and JSON, the snapshot, the settings, the chaos
  harness, the load generator, and the benchmark session with its check of the account.

  \<^bold>\<open>Bounds and fuel.\<close> Loops that end by the program's own logic are total functions. A loop whose end
  depends on the environment takes the list of what the environment does (one element per turn) and
  returns None when the list runs out: the rounds of a blocking enqueue, the pages of a sweep, the
  wake-ups of a wait, the turns of a producer; the theorems state how many turns are enough
  (\<open>blocked_enqueue_returns\<close>, \<open>dlq_sweep_ends\<close>, \<open>handler_wait_ends\<close>). \<open>plan_loop\<close>, \<open>stream_from\<close> and
  \<open>results_from\<close> are partial functions; that they return is proved (\<open>fault_plan_is_survivable\<close>,
  \<open>verifier_verdict\<close>, \<open>exactly_once_verdict\<close>). The JSON parser takes the length of its input as fuel.
  \<open>wait_loop\<close> ends when its clock advances (\<open>steady_wait\<close>), so a local session returns
  (\<open>local_session_returns\<close>). \<open>log_pages\<close>, \<open>filter_pages\<close> and \<open>log_lines\<close> follow the service's tokens and are
  not shown to end: a service that always returns a new token and an event would keep them busy.
  Times and rates are exact rationals where the code has floats, so no statement depends on rounding
  except where the code rounds.

  \<^bold>\<open>Not modelled.\<close> Option parsing and the signal wiring of the command line (\<^verbatim>\<open>cli.py\<close>), logging (\<^verbatim>\<open>logs.py\<close>)
  and script loading (\<^verbatim>\<open>lua.py\<close>) only parse, print or read files, and so do the argument parsers and
  printed tables of the deployment scripts. The container, proxy and plotting code of the harnesses (\<^verbatim>\<open>chaos/topology.py\<close>,
  \<^verbatim>\<open>toxiproxy.py\<close>, \<^verbatim>\<open>bench/run.py\<close>, \<^verbatim>\<open>plot.py\<close>) calls docker, Toxiproxy and matplotlib. Code points above 255 in job texts and the loss of
  acknowledged writes by the server itself are outside the model, and so is what a queue does with
  copies of a job that surface after the job's terminal record has expired. The process pool of the
  load generator is represented by one producer at a time, and its cross-host handshake by the keys
  and waits it uses.
\<close>

section \<open>Guarantees of the whole system\<close>

text \<open>
  The theorems of this section hold for every run of the protocol (\<open>reaches\<close>): any number of
  producers, workers, schedulers, reapers and operators in any interleaving, calls re-sent
  after a lost reply, crashed and abandoned tasks, entries of unknown origin, lost leases.
  The server is any service that behaves as Redis documents and the settings are any validated
  ones (\<open>queue_service\<close>). Terminal records and ledger markers expire after \<^verbatim>\<open>done_ttl_seconds\<close> (a week
  by default, 0 for never): the theorems hold as long as that time has not passed since the queue
  was empty (\<open>retained\<close>), without limit when the setting is 0.
\<close>

text \<open>
  C1. Exactly-once results: in every reachable state the results stream holds exactly one
  entry for a job whose terminal state is SUCCEEDED, and none for any other job.
\<close>

theorem exactly_once_results:
  assumes "queue_service R view S" and "view s0 = empty_rdb\<lparr>clock := t\<rparr>"
    and "reaches R S reg xt (start R S s0) z"
    and "retained S t (view (server z))"
  shows "length (results_for (qview S (view (server z))) j) =
    (if state_of (qview S (view (server z))) j = Some ''SUCCEEDED'' then 1 else 0)"
  using queue_service.reached_inv [OF assms]
  by (simp add: sys_inv_def queue_inv_def base_inv_def results_inv_def)

theorem exactly_once_results_witness:
  "length (results_for (qview demo_settings (server demo_done)) ''01'') = 1 \<and>
   state_of (qview demo_settings (server demo_done)) ''01'' = Some ''SUCCEEDED''"
  using exactly_once_results [OF demo_queue.queue_service_axioms demo_start_ok demo_reaches_start
      demo_queue.always_retained, of "''01''"]
    demo_done_view(2) by simp

text \<open>
  C2. No accepted job is lost: a job id an enqueue has accepted is terminal, or an entry of
  the stream holds the job, or a member of the delayed set does.
\<close>

theorem no_accepted_job_lost:
  assumes "queue_service R view S" and "view s0 = empty_rdb\<lparr>clock := t\<rparr>"
    and "reaches R S reg xt (start R S s0) z" and "retained S t (view (server z))"
    and "j \<in> ids z"
  shows "state_of (qview S (view (server z))) j \<in> {Some ''SUCCEEDED'', Some ''DEAD''} \<or>
    (\<exists>e \<in> set (ents (qview S (view (server z)))). holds_job j (snd e)) \<or>
    (\<exists>m \<in> fst ` set (dlyd (qview S (view (server z)))). holds_job j (member_fields (cjson_decode R) m))"
proof -
  let ?q = "qview S (view (server z))"
  have "queue_inv (cjson_decode R) S (ids z) (extra z) ?q"
    using queue_service.reached_inv [OF assms(1-4)] by (simp add: sys_inv_def)
  then have "states_inv ?q" and "accept_inv (cjson_decode R) (ids z) ?q"
    by (simp_all add: queue_inv_def base_inv_def)
  then have "accounted (cjson_decode R) ?q j" and "state_of ?q j \<in> {None, Some ''SUCCEEDED'', Some ''DEAD''}"
    using assms(5) by (simp_all add: accept_inv_def states_inv_def)
  then show ?thesis unfolding accounted_def by auto
qed

theorem no_accepted_job_lost_witness:
  "''01'' \<in> ids demo_day \<and>
   (state_of (qview default_settings (server demo_day)) ''01'' \<in> {Some ''SUCCEEDED'', Some ''DEAD''} \<or>
    (\<exists>e \<in> set (ents (qview default_settings (server demo_day))). holds_job ''01'' (snd e)) \<or>
    (\<exists>m \<in> fst ` set (dlyd (qview default_settings (server demo_day))).
       holds_job ''01'' (member_fields (cjson_decode json_redis) m)))"
  using no_accepted_job_lost [OF default_queue.queue_service_axioms demo_start_ok demo_day_reached, of "''01''"]
    demo_day_view by simp

text \<open>
  C3. Effects happen at most once: no two entries of the effects stream have the same effect
  key, and the marker of a key is set exactly when the effect is in the stream.
\<close>

theorem effects_at_most_once:
  assumes "queue_service R view S" and "view s0 = empty_rdb\<lparr>clock := t\<rparr>"
    and "reaches R S reg xt (start R S s0) z"
    and "retained S t (view (server z))"
  shows "distinct (map effect_key_of (efflog (qview S (view (server z))))) \<and>
    (\<forall>k. led (qview S (view (server z))) k \<longleftrightarrow>
       k \<in> effect_key_of ` set (efflog (qview S (view (server z)))))"
  using queue_service.reached_inv [OF assms]
  by (simp add: sys_inv_def queue_inv_def base_inv_def effects_inv_def)

theorem effects_at_most_once_witness:
  "distinct (map effect_key_of (efflog (qview demo_settings (server demo_done))))"
  using effects_at_most_once [OF demo_queue.queue_service_axioms demo_start_ok demo_reaches_start
      demo_queue.always_retained] by simp

text \<open>
  C4. The dead-letter queue holds exactly the DEAD jobs: one entry for a job whose terminal
  state is DEAD, none for any other (a late success or a requeue has removed it).
\<close>

theorem dlq_holds_exactly_the_dead:
  assumes "queue_service R view S" and "view s0 = empty_rdb\<lparr>clock := t\<rparr>"
    and "reaches R S reg xt (start R S s0) z"
    and "retained S t (view (server z))"
  shows "length (filter (\<lambda>e. dlq_job (snd e) = Some j) (dlq (qview S (view (server z))))) =
    (if state_of (qview S (view (server z))) j = Some ''DEAD'' then 1 else 0)"
proof -
  have "dlq_inv (qview S (view (server z)))"
    using queue_service.reached_inv [OF assms] by (simp add: sys_inv_def queue_inv_def base_inv_def)
  then show ?thesis by (rule dlq_count)
qed

theorem dlq_holds_exactly_the_dead_witness:
  "length (filter (\<lambda>e. dlq_job (snd e) = Some ''01'') (dlq (qview demo_settings (server demo_done)))) = 0"
  using dlq_holds_exactly_the_dead [OF demo_queue.queue_service_axioms demo_start_ok demo_reaches_start
      demo_queue.always_retained,
      of "''01''"] demo_done_view(2) by simp

text \<open>
  C5. No entry is stranded: every entry of the stream is either pending, so a reaper reclaims
  it when its lease expires, or the next read delivers it. And every pending entry is still in
  the stream.
\<close>

theorem no_entry_stranded:
  assumes "queue_service R view S" and "view s0 = empty_rdb\<lparr>clock := t\<rparr>"
    and "reaches R S reg xt (start R S s0) z"
    and "retained S t (view (server z))"
  shows "(\<forall>e \<in> set (ents (qview S (view (server z)))).
      fst e \<in> fst ` set (pend (qview S (view (server z)))) \<or>
      e \<in> set (fst (q_read w (length (ents (qview S (view (server z))))) (qview S (view (server z)))))) \<and>
    fst ` set (pend (qview S (view (server z)))) \<subseteq> fst ` set (ents (qview S (view (server z))))"
proof -
  have "delivery_inv (qview S (view (server z)))"
    using queue_service.reached_inv [OF assms] by (simp add: sys_inv_def queue_inv_def base_inv_def)
  then show ?thesis by (simp add: delivery_covers delivery_pel_ok [unfolded pel_ok_def])
qed

theorem no_entry_stranded_witness:
  "fst ` set (pend (qview demo_settings (server demo_done))) \<subseteq> fst ` set (ents (qview demo_settings (server demo_done)))"
  using no_entry_stranded [OF demo_queue.queue_service_axioms demo_start_ok demo_reaches_start
      demo_queue.always_retained] by simp

text \<open>
  C6. The depth is bounded: stream entries and delayed retries together exceed the high
  watermark by at most the number of requeued dead letters and entries added behind the
  client's back; enqueues alone never push the depth past it.
\<close>

theorem depth_bounded:
  assumes "queue_service R view S" and "view s0 = empty_rdb\<lparr>clock := t\<rparr>"
    and "reaches R S reg xt (start R S s0) z"
    and "retained S t (view (server z))"
  shows "int (length (ents (qview S (view (server z)))) + length (dlyd (qview S (view (server z)))))
    \<le> high_watermark S + int (extra z)"
  using queue_service.reached_inv [OF assms]
  by (simp add: sys_inv_def queue_inv_def base_inv_def depth_inv_def q_depth_def)

theorem depth_bounded_witness:
  "int (length (ents (qview demo_settings (server demo_done))) + length (dlyd (qview demo_settings (server demo_done))))
    \<le> high_watermark demo_settings + int (extra demo_done)"
  using depth_bounded [OF demo_queue.queue_service_axioms demo_start_ok demo_reaches_start
      demo_queue.always_retained] by simp

text \<open>
  C7. Counters never disagree with what happened: \<^verbatim>\<open>processed\<close> counts the results,
  \<^verbatim>\<open>effects_applied\<close> the effects, every job counted \<^verbatim>\<open>dead\<close> is in the dead-letter queue, was
  requeued or succeeded late, and no retry is scheduled that was not counted \<^verbatim>\<open>retried\<close>.
\<close>

theorem counters_agree:
  assumes "queue_service R view S" and "view s0 = empty_rdb\<lparr>clock := t\<rparr>"
    and "reaches R S reg xt (start R S s0) z"
    and "retained S t (view (server z))"
  shows "cnt (qview S (view (server z))) ''processed'' = int (length (reslog (qview S (view (server z))))) \<and>
    cnt (qview S (view (server z))) ''effects_applied'' = int (length (efflog (qview S (view (server z))))) \<and>
    cnt (qview S (view (server z))) ''dead'' = int (length (dlq (qview S (view (server z))))) +
      cnt (qview S (view (server z))) ''late_successes'' + cnt (qview S (view (server z))) ''requeued'' \<and>
    cnt (qview S (view (server z))) ''scheduled'' + int (length (dlyd (qview S (view (server z)))))
      \<le> cnt (qview S (view (server z))) ''retried''"
  using queue_service.reached_inv [OF assms]
  by (simp add: sys_inv_def queue_inv_def counts_inv_def)

theorem counters_agree_witness:
  "cnt (qview demo_settings (server demo_done)) ''processed'' =
     int (length (reslog (qview demo_settings (server demo_done))))"
  using counters_agree [OF demo_queue.queue_service_axioms demo_start_ok demo_reaches_start
      demo_queue.always_retained] by simp

text \<open>
  C8. Success is final: once a job is SUCCEEDED its terminal record never changes again,
  whatever later steps do with other copies of the job.
\<close>

theorem success_is_final:
  assumes "queue_service R view S" and "view s0 = empty_rdb\<lparr>clock := t\<rparr>"
    and "reaches R S reg xt (start R S s0) z" and "reaches R S reg xt z z'"
    and "retained S t (view (server z'))" and "state_of (qview S (view (server z))) j = Some ''SUCCEEDED''"
  shows "fin (qview S (view (server z'))) j = fin (qview S (view (server z))) j"
  using queue_service.success_retained [OF assms] .

theorem success_is_final_witness:
  "fin (qview demo_settings (server demo_done)) ''01'' = fin (qview demo_settings (server demo_done)) ''01'' \<and>
   state_of (qview demo_settings (server demo_done)) ''01'' = Some ''SUCCEEDED''"
  using success_is_final [OF demo_queue.queue_service_axioms demo_start_ok demo_reaches_start, of demo_done "''01''"]
    demo_done_view(2) demo_queue.always_retained by (simp add: reaches_def)

section \<open>The queue as an abstract machine\<close>

text \<open>
  C9. Refinement: every run of the program against a documented server, seen through the view
  of the queue, is a run of the abstract queue \<open>q_step\<close>, which knows no keys, scripts or
  replies. It starts at the empty queue.
\<close>

theorem program_refines_queue:
  assumes "queue_service R view S" and "view s0 = empty_rdb\<lparr>clock := t\<rparr>"
    and "reaches R S reg xt (start R S s0) z"
    and "retained S t (view (server z))"
  shows "(q_step (cjson_encode R) (cjson_decode R) S reg xt)\<^sup>*\<^sup>*
    (qview S (view (server (start R S s0)))) (qview S (view (server z)))"
  using queue_service.run_simulated [OF assms] .

theorem program_refines_queue_witness:
  "(q_step (cjson_encode json_redis) (cjson_decode json_redis) demo_settings demo_registry no_text)\<^sup>*\<^sup>*
     (qview demo_settings (server (start json_redis demo_settings empty_rdb))) (qview demo_settings (server demo_done))"
  using program_refines_queue [OF demo_queue.queue_service_axioms demo_start_ok demo_reaches_start
      demo_queue.always_retained] by simp

text \<open>
  Refinement of the success path: \<^verbatim>\<open>Transitions.commit\<close>, that is \<^verbatim>\<open>commit.lua\<close> with its dozen
  commands, never fails on a well-typed queue and does what \<open>q_commit\<close> says: a first commit of a
  job writes the terminal record and one result, a commit of a DEAD job also takes it out of the
  dead-letter queue, a commit of a job that succeeded changes no record.
\<close>

theorem commit_refines:
  assumes "queue_service R view S" and "typed S (view s)" and "commit R S w i j result s = (r, s')"
  shows "r = Inr (fst (q_commit w i (job_id j) (str_int (enqueued_at_ms j)) result (qview S (view s)))) \<and>
    typed S (view s') \<and>
    qview S (view s') = snd (q_commit w i (job_id j) (str_int (enqueued_at_ms j)) result (qview S (view s)))"
  using queue_service.run_spec [OF assms(1) implements_commit
      redis_service.commit_api_doc [OF queue_service.axioms(1) [OF assms(1)]] assms(2) TrueI assms(3)] by simp

theorem commit_refines_witness:
  "fst (commit json_redis demo_settings ''w1'' (0, 1) demo_job ''null'' (server demo_read)) = Inr COMMITTED"
  using commit_refines [OF demo_queue.queue_service_axioms _ prod.collapse [symmetric], of "server demo_read"
      "''w1''" "(0, 1)" demo_job "''null''"] demo_read_view
  by (simp add: q_commit_def state_of_def empty_queue_def)

text \<open>
  A commit can be repeated: after any commit of a job, by any worker and entry, a second one
  answers DUPLICATE, adds no result and leaves the terminal record as it is.
\<close>

theorem commit_is_idempotent:
  assumes "queue_service R view S" and "typed S (view s)" and "commit R S w i j result s = (r, s1)"
    and "commit R S w' i' j' result' s1 = (r', s2)" and "job_id j' = job_id j"
  shows "r' = Inr DUPLICATE \<and> fin (qview S (view s2)) = fin (qview S (view s1)) \<and>
    reslog (qview S (view s2)) = reslog (qview S (view s1))"
proof -
  note doc = redis_service.commit_api_doc [OF queue_service.axioms(1) [OF assms(1)]]
  note a = queue_service.run_spec [OF assms(1) implements_commit doc assms(2) TrueI assms(3)]
  note b = queue_service.run_spec [OF assms(1) implements_commit doc a(2) TrueI assms(4)]
  have "state_of (qview S (view s1)) (job_id j) = Some ''SUCCEEDED''"
    using a(3) by (simp add: q_commit_def state_of_def succeed_def q_count_def q_drop_def Let_def)
  with b(1,3) assms(5) show ?thesis by (simp add: q_commit_def q_count_def q_drop_def)
qed

theorem commit_is_idempotent_witness:
  "fst (commit json_redis demo_settings ''w2'' (0, 7) demo_job ''other''
     (snd (commit json_redis demo_settings ''w1'' (0, 1) demo_job ''null'' (server demo_read)))) = Inr DUPLICATE"
  using commit_is_idempotent [OF demo_queue.queue_service_axioms _ prod.collapse [symmetric] prod.collapse [symmetric],
      of "server demo_read" demo_job demo_job "''w2''" "(0, 7)" "''other''" "''w1''" "(0, 1)" "''null''"]
    demo_read_view(1) by simp

text \<open>
  Refinement of the failure path: \<^verbatim>\<open>Transitions.retry\<close> and \<^verbatim>\<open>Transitions.dead\<close> act only for the
  worker that owns the entry and only while the job has no terminal record; otherwise they
  report LEASE_LOST or TERMINAL and neither delay nor bury anything.
\<close>

theorem failure_refines:
  assumes "queue_service R view S" and "typed S (view s)" and "pel_ok (qview S (view s))"
    and "retry R S w i j d timed_out s = (r, s1)"
    and "dead R S w i jid reason error attempts timed_out s = (r', s2)"
  shows "(r, qview S (view s1)) = apfst Inr (q_retry (cjson_encode R) w i (job_id j) (str_int (attempt j + 1))
      (py_trunc (d * 1000)) timed_out (qview S (view s))) \<and>
    (r', qview S (view s2)) = apfst Inr (q_dead w i jid (reason_value reason) error (str_int attempts) timed_out
      (qview S (view s)))"
  using queue_service.run_spec(1,3) [OF assms(1) implements_retry
      redis_service.retry_api_doc [OF queue_service.axioms(1) [OF assms(1)]] assms(2-4)]
    queue_service.run_spec(1,3) [OF assms(1) implements_dead
      redis_service.dead_api_doc [OF queue_service.axioms(1) [OF assms(1)]] assms(2) TrueI assms(5)]
  by (simp add: apfst_def map_prod_def case_prod_unfold)

theorem failure_refines_witness:
  "fst (dead json_redis demo_settings ''w2'' (0, 1) ''01'' MAX_ATTEMPTS ''boom'' 5 False (server demo_read)) =
     Inr LEASE_LOST"
proof -
  have "pel_ok (qview demo_settings (server demo_read))"
    by (simp add: demo_read_view pel_ok_def demo_group_def empty_queue_def)
  from failure_refines [OF demo_queue.queue_service_axioms _ _ prod.collapse [symmetric] prod.collapse [symmetric],
      of "server demo_read" "''w2''" "(0, 1)" demo_job 0 False "''01''" MAX_ATTEMPTS "''boom''" 5,
      simplified, OF demo_read_view(1) this] show ?thesis
    by (simp add: demo_read_view q_dead_def q_owned_def owns_def demo_group_def demo_pent_def)
qed

text \<open>
  Refinement of admission: \<^verbatim>\<open>enqueue.lua\<close> is \<open>q_enqueue\<close>. A known idempotency key returns the
  original job id and adds nothing; a queue that is full by the hysteresis rule refuses and counts
  the refusal; otherwise exactly one entry is added at the end, with the server's time.
\<close>

theorem enqueue_refines:
  assumes "queue_service R view S" and "typed S (view s)"
    and "enqueue_call R S idk j count_as (flat_of fs) s = (r, s')"
  shows "r = Inr (fst (q_enqueue S idk j count_as fs (qview S (view s)))) \<and> typed S (view s') \<and>
    qview S (view s') = snd (q_enqueue S idk j count_as fs (qview S (view s)))"
  using queue_service.run_spec [OF assms(1) implements_enqueue
      redis_service.enqueue_call_doc [OF queue_service.axioms(1) [OF assms(1)]] assms(2) TrueI assms(3)] by simp

theorem enqueue_refines_witness:
  "fst (enqueue_call json_redis demo_settings (Some ''k'') ''02'' ''rejected'' (flat_of (to_fields demo_job))
     (server demo_enqueued)) = Inr (''01'', 0, - 1)"
  using enqueue_refines [OF demo_queue.queue_service_axioms _ prod.collapse [symmetric], of "server demo_enqueued"
      "Some ''k''" "''02''" "''rejected''" "to_fields demo_job"] demo_enqueued_view
  by (simp add: q_enqueue_def)

text \<open>
  Refinement of the reaper and the scheduler: \<^verbatim>\<open>Reaper.reclaim\<close> is \<open>q_reclaim\<close> (expired leases
  change owner, each with its delivery count, at most as many suspects as asked for), and
  \<^verbatim>\<open>Scheduler.move_due\<close> is \<open>q_schedule\<close> (the due retries, at most a batch, become entries).
\<close>

theorem background_refines:
  assumes "queue_service R view S" and "typed S (view s)" and "delayed_ok (cjson_decode R) (qview S (view s))"
    and "reclaim R S w cur n slots s = (r, s1)" and "move_due R S s = (r', s2)"
  shows "(r, qview S (view s1)) = apfst Inr (q_reclaim S w cur n slots (qview S (view s))) \<and>
    (r', qview S (view s2)) =
      apfst Inr (q_schedule (cjson_decode R) (nat (scheduler_batch S)) (qview S (view s)))"
  using queue_service.run_spec(1,3) [OF assms(1) implements_reclaim
      redis_service.reclaim_api_doc [OF queue_service.axioms(1) [OF assms(1)]] assms(2) TrueI assms(4)]
    queue_service.run_spec(1,3) [OF assms(1) implements_schedule
      redis_service.move_due_doc [OF queue_service.axioms(1) [OF assms(1)]] assms(2,3,5)]
  by (simp add: apfst_def map_prod_def case_prod_unfold)

theorem background_refines_witness:
  "fst (move_due json_redis demo_settings (server demo_read)) = Inr 0"
  using background_refines [OF demo_queue.queue_service_axioms _ _ prod.collapse [symmetric] prod.collapse [symmetric],
      of "server demo_read" "''w2''" "(0, 0)" 1 0] demo_read_view
  by (simp add: q_schedule_def due_members_def empty_queue_def delayed_ok_def)

section \<open>Leases, background work and monitoring\<close>





text \<open>
  C13. Retries come back: on a quiet queue the maintenance loop, given more passes than full
  batches of due retries, runs until a pass moves less than a batch; then no due retry is left in
  the delayed set and the queue is still well-typed.
\<close>

theorem due_retries_move:
  assumes "queue_service R view S" and "typed S (view s)" and "delayed_ok (cjson_decode R) (qview S (view s))"
    and "distinct (map fst (dlyd (qview S (view s))))"
    and "length (filter (\<lambda>p. snd p \<le> int (qnow (qview S (view s)))) (dlyd (qview S (view s))))
      div nat (scheduler_batch S) < n"
  shows "\<exists>next s'. maintain n R S w now np s = Some (next, s') \<and> typed S (view s') \<and>
    (\<forall>p \<in> set (dlyd (qview S (view s'))). int (qnow (qview S (view s'))) < snd p)"
proof -
  have "length (all_due (qview S (view s))) div nat (scheduler_batch S) < n"
    using assms(5) by (simp add: all_due_def)
  from queue_service.maintain_drains [OF assms(1-4) this, of w now np] show ?thesis
    by (auto simp: all_due_def filter_empty_conv not_le)
qed

theorem due_retries_move_witness:
  "\<exists>next s'. maintain 1 json_redis demo_settings ''w1'' 0 0 (server demo_read) = Some (next, s') \<and>
     typed demo_settings s'"
  using due_retries_move [OF demo_queue.queue_service_axioms, of "server demo_read" 1 "''w1''" 0 0] demo_read_view
  by (auto simp: empty_queue_def delayed_ok_def)

text \<open>
  C23. The snapshot tells the truth: in every reachable state, read without interference, it
  reports the depth, the entries in flight and undelivered, the delayed and dead jobs, the
  consumers and every counter as they are, and reading it changes nothing.
\<close>

theorem snapshot_reads_the_queue:
  assumes "queue_service R view S" and "view s0 = empty_rdb\<lparr>clock := t\<rparr>"
    and "reaches R S reg xt (start R S s0) z"
    and "retained S t (view (server z))"
  shows "fst (snapshot R S (\<lambda>_ s. s) (server z)) = Inr (snapshot_of S (qview S (view (server z)))) \<and>
    view (snd (snapshot R S (\<lambda>_ s. s) (server z))) = view (server z) \<and>
    sn_depth (snapshot_of S (qview S (view (server z)))) =
      sn_in_flight (snapshot_of S (qview S (view (server z)))) +
      sn_undelivered (snapshot_of S (qview S (view (server z)))) +
      sn_delayed (snapshot_of S (qview S (view (server z))))"
proof -
  note inv = queue_service.sys_invD [OF assms(1) queue_service.reached_inv [OF assms]]
  show ?thesis
    using redis_service.snapshot_quiet [OF queue_service.axioms(1) [OF assms(1)] inv(1,4)] undelivered_count [OF inv(4)]
    by (simp add: snapshot_of_def q_depth_def)
qed

theorem snapshot_reads_the_queue_witness:
  "fst (snapshot json_redis demo_settings (\<lambda>_ s. s) (server demo_buried)) =
     Inr (snapshot_of demo_settings (qview demo_settings (server demo_buried))) \<and>
   sn_dlq (snapshot_of demo_settings (qview demo_settings (server demo_buried))) = 1"
  using snapshot_reads_the_queue [OF demo_queue.queue_service_axioms demo_start_ok demo_buried_reached
      demo_queue.always_retained]
    demo_buried_view by (simp add: snapshot_of_def)

text \<open>
  C24. The snapshot's "full" is not what the next enqueue sees. It is sound: when it says full, an
  enqueue with a new job is refused. It is not complete: with the flag unset and the depth at the
  high watermark (where the last accepted enqueue leaves it) it says "not full" and the next
  enqueue is refused.
\<close>

theorem snapshot_full_is_one_sided:
  assumes "queue_service R view S" and "view s0 = empty_rdb\<lparr>clock := t\<rparr>"
    and "reaches R S reg xt (start R S s0) z"
    and "fst (snapshot R S (\<lambda>_ s. s) (server z)) = Inr sn"
    and "enqueue_call R S None j count_as (flat_of fs) (server z) = (r, s')"
    and "retained S t (view (server z))"
  shows "(sn_full sn \<longrightarrow> r = Inr ('''', - 1, sn_depth sn)) \<and>
    (sn_depth sn = high_watermark S \<and> \<not> fullf (qview S (view (server z))) \<longrightarrow>
      \<not> sn_full sn \<and> r = Inr ('''', - 1, sn_depth sn))"
proof -
  note R = queue_service.axioms(1) [OF assms(1)]
  note inv = queue_service.sys_invD [OF assms(1) queue_service.reached_inv [OF assms(1-3,6)]]
  have sn: "sn = snapshot_of S (qview S (view (server z)))"
    using redis_service.snapshot_quiet(1) [OF R inv(1,4)] assms(4) by simp
  have "r = Inr (fst (q_enqueue S None j count_as fs (qview S (view (server z)))))"
    using queue_service.run_spec(1) [OF assms(1) implements_enqueue redis_service.enqueue_call_doc [OF R] inv(1) TrueI
        assms(5)] .
  then show ?thesis by (auto simp: sn snapshot_of_def q_enqueue_def now_full_def Let_def)
qed

theorem snapshot_full_is_one_sided_witness:
  "\<exists>sn. fst (snapshot json_redis demo_small (\<lambda>_ s. s) (server demo_brim)) = Inr sn \<and> \<not> sn_full sn \<and>
     fst (enqueue_call json_redis demo_small None ''02'' ''rejected'' (flat_of (to_fields demo_job)) (server demo_brim)) =
       Inr ('''', - 1, 1)"
proof -
  note quiet = json_server.snapshot_quiet(1) [OF demo_small_queue.sys_invD(1,4)
      [OF demo_small_queue.forever_inv [OF demo_start_ok demo_brim_reached]]]
  obtain sn where sn: "fst (snapshot json_redis demo_small (\<lambda>_ s. s) (server demo_brim)) = Inr sn"
    and d: "sn_depth sn = 1"
    using quiet by (simp add: snapshot_of_def demo_brim_view q_depth_def empty_queue_def)
  from snapshot_full_is_one_sided [OF demo_small_queue.queue_service_axioms demo_start_ok demo_brim_reached sn
      prod.collapse [symmetric] demo_small_queue.always_retained, of "''02''" "''rejected''" "to_fields demo_job"] d
  have "\<not> sn_full sn \<and> fst (enqueue_call json_redis demo_small None ''02'' ''rejected'' (flat_of (to_fields demo_job))
      (server demo_brim)) = Inr ('''', - 1, 1)"
    by (simp add: demo_brim_view empty_queue_def demo_small_high)
  with sn show ?thesis by blast
qed

section \<open>The dead-letter queue\<close>

text \<open>
  C21. What a burial writes can be read back: when \<^verbatim>\<open>dead\<close> answers OK the dead-letter queue has
  grown by one entry, and \<^verbatim>\<open>DeadJob.from_entry\<close> reads from it the job's id and type, the reason, the
  error text, the attempts, the number of deliveries and the time of death that were recorded.
\<close>

theorem burial_reads_back:
  assumes "queue_service R view S" and "typed S (view s)"
    and "dead R S w i jid reason error attempts timed_out s = (Inr OK, s')"
  shows "\<exists>d fs. dlq (qview S (view s')) = dlq (qview S (view s)) @ [(d, fs)] \<and>
    dead_from_entry d fs = Inr \<lparr>dj_entry_id = d, dj_job_id = jid,
      dj_type = (case dict_get (case map_of (ents (qview S (view s))) i of None \<Rightarrow> [] | Some es \<Rightarrow> es) ''type'' of
        None \<Rightarrow> [] | Some ty \<Rightarrow> ty),
      dj_reason = reason_value reason, dj_error = error, dj_attempts = attempts,
      dj_deliveries = int (p_count (the (map_of (pend (qview S (view s))) i))),
      dj_dead_at_ms = int (qnow (qview S (view s)))\<rparr>"
proof -
  let ?q = "qview S (view s)"
  note spec = queue_service.run_spec [OF assms(1) implements_dead
      redis_service.dead_api_doc [OF queue_service.axioms(1) [OF assms(1)]] assms(2) TrueI assms(3)]
  then have "owns ?q w i" and "qview S (view s') = count_timeout timed_out (q_count ''dead'' 1
      (q_drop i (bury w jid (reason_value reason) error (str_int attempts) i ?q)))"
    by (auto simp: q_dead_def q_owned_def split: if_splits)
  then show ?thesis
    by (auto simp: bury_def count_timeout_def q_count_def q_drop_def Let_def dead_from_meta split: option.splits)
qed

theorem burial_reads_back_witness:
  "\<exists>d fs. dlq (qview demo_settings (snd (dead json_redis demo_settings ''w1'' (0, 1) ''01'' MAX_ATTEMPTS ''boom'' 5 False
       (server demo_read)))) = [(d, fs)] \<and>
     (\<exists>dj. dead_from_entry d fs = Inr dj \<and> dj_type dj = ''send_email'' \<and> dj_error dj = ''boom'' \<and> dj_attempts dj = 5)"
proof -
  obtain r s' where run: "dead json_redis demo_settings ''w1'' (0, 1) ''01'' MAX_ATTEMPTS ''boom'' 5 False
      (server demo_read) = (r, s')" by fastforce
  have "r = Inr OK"
    using demo_queue.run_spec(1) [OF implements_dead json_server.dead_api_doc _ TrueI run, simplified, OF demo_read_view(1)]
    by (simp add: demo_read_view q_dead_def q_owned_def owns_def demo_group_def demo_pent_def state_of_def empty_queue_def)
  then have run': "dead json_redis demo_settings ''w1'' (0, 1) ''01'' MAX_ATTEMPTS ''boom'' 5 False
      (server demo_read) = (Inr OK, s')" using run by simp
  have ty: "dict_get demo_fields ''type'' = Some ''send_email''" by code_simp
  have "typed demo_settings (id (server demo_read))" using demo_read_view(1) by simp
  from burial_reads_back [OF demo_queue.queue_service_axioms this run'] run ty show ?thesis
    by (auto simp: demo_read_view empty_queue_def)
qed





section \<open>The client\<close>

text \<open>
  C14. Every job of a call is accounted for: \<^verbatim>\<open>enqueue_many\<close> either returns one id per job, or raises
  QueueFull with, for each job, its id or None. Its counters grow by exactly one per job, accepted
  or duplicate for each id and rejected for each None, whatever the server and other producers do
  between its calls.
\<close>

theorem client_accounts_for_every_job:
  assumes "enqueue_many R S pc started rounds jobs s = Some (r, pc', s')" and "accepted_in_call r = Inr n"
  shows "n \<le> length jobs \<and> pc_rejected pc' = pc_rejected pc + (length jobs - n) \<and>
    pc_accepted pc' + pc_duplicates pc' = pc_accepted pc + pc_duplicates pc + n \<and>
    (case r of Ids js \<Rightarrow> length js = length jobs | QueueFull _ js \<Rightarrow> length js = length jobs \<and> None \<in> set js
     | ClientError _ \<Rightarrow> False)"
  using enqueue_many_counts [OF assms] enqueue_many_end [OF assms(1)] assms(2)
  by (auto simp: end_ok_def accepted_in_call_def split: enqueue_result.splits)

theorem client_accounts_for_every_job_witness:
  "\<exists>s'. enqueue_many json_redis demo_small no_counters 0 [demo_round 0] demo_jobs (server demo_brim) =
     Some (QueueFull 1 [None], no_counters\<lparr>pc_rejected := 1\<rparr>, s') \<and> length demo_jobs = 1"
proof -
  obtain s' where run: "enqueue_many json_redis demo_small no_counters 0 [demo_round 0] demo_jobs (server demo_brim) =
     Some (QueueFull 1 [None], no_counters\<lparr>pc_rejected := 1\<rparr>, s')" using demo_refused by blast
  have "accepted_in_call (QueueFull 1 [None]) = Inr 0" by (simp add: accepted_in_call_def)
  from client_accounts_for_every_job [OF run this] run show ?thesis by simp
qed



text \<open>
  C16. A blocking enqueue returns: with validated settings, and time not running backwards, the
  rounds that fit into the block timeout at half a poll interval each are enough for a result.
\<close>

theorem blocked_enqueue_returns:
  assumes "make_settings S = Inr S" and "started \<le> checked_at rd"
    and "paced_rounds S (started + block_timeout S) (checked_at rd) rds"
    and "block_timeout S \<le> of_nat (length rds) * (block_poll_interval S / 2)"
  shows "enqueue_many R S pc started (rd # rds) jobs s \<noteq> None"
  using enqueue_many_returns [OF assms] .

theorem blocked_enqueue_returns_witness:
  "enqueue_many json_redis demo_blocking no_counters 0 [demo_round 0, demo_round (1 / 40), demo_round (2 / 40)]
     demo_jobs (server demo_brim) \<noteq> None"
  by (rule blocked_enqueue_returns [OF demo_blocking_valid])
    (simp_all add: demo_round_def demo_blocking_def demo_small_def demo_settings_def default_settings_def)

section \<open>The worker process\<close>

text \<open>
  C11. A worker never takes more than it can hold: in every state a worker process reaches, the
  jobs in flight and the orphaned runs together use at most \<^verbatim>\<open>concurrency\<close> slots, at most one
  suspect is in flight, no more threads run than there are slots, and no more runs hold a process
  slot than the process pool has children.
\<close>

theorem worker_stays_within_capacity:
  assumes "redis_service R view" and "make_settings S = Inr S" and "init_worker S reg wid = Inr W"
    and "(node_step R S reg xt)\<^sup>*\<^sup>* (boot W s) z"
  shows "int (card (set (in_flight (wk z)) \<union> set (orphans (wk z)))) \<le> concurrency S \<and>
    length (suspects (wk z)) \<le> 1 \<and> int (card {t. thread_running (wk z) t}) \<le> concurrency S \<and>
    int (card {t. \<exists>spec. stages (wk z) t = Running spec \<and> run_kind spec = RunProcess}) \<le> process_pool_size S"
proof -
  have inv: "worker_inv S (phase_of z) (wk z)" by (rule redis_service.booted_inv [OF assms])
  note D = worker_invD [OF inv]
  have "int (card (busy (wk z))) \<le> concurrency S" using D(1) by (simp add: cap_inv_def)
  moreover have "length (suspects (wk z)) \<le> 1" using D(2) by (auto simp: suspect_inv_def)
  moreover have "int (card (holders (wk z))) \<le> process_pool_size S" using D(3) by (auto simp: slot_inv_def)
  ultimately show ?thesis using threads_bounded [OF inv] by (simp add: busy_def holders_def)
qed

theorem worker_stays_within_capacity_witness:
  "in_flight demo_failed = [0] \<and> card {t. \<exists>spec. stages demo_failed t = Running spec \<and> run_kind spec = RunProcess} \<le> 2"
proof -
  have "process_pool_size demo_settings = 2" by (simp add: demo_settings_def default_settings_def)
  with worker_stays_within_capacity [OF json_server.redis_service_axioms demo_settings_valid demo_worker_init demo_failed_reached]
  show ?thesis by (simp add: boot_def demo_failed_eq)
qed

text \<open>
  C17. A process pool that failed to start is never replaced: once the pool's start-up has raised,
  whatever the worker does afterwards it keeps the failed pool, and every run that asks for the
  pool fails with the start-up's error (\<^verbatim>\<open>_ready_processes\<close> raises outside the \<^verbatim>\<open>try\<close> of
  \<^verbatim>\<open>_run_in_process\<close>, the only place that drops a broken pool).
\<close>

theorem failed_pool_is_never_replaced:
  assumes "process_pool (wk z) = Some p" and "pool_ready (wk z) p = StartFailed x"
    and "\<forall>t r. runs (wk z) t = Some r \<longrightarrow> r_pool r \<noteq> Some p"
    and "(node_step R S reg xt)\<^sup>*\<^sup>* z z'" and "runs (wk z') t = Some r"
  shows "process_pool (wk z') = Some p \<and>
    (\<exists>r'. runs (pool_answered now t (await_pool t r (wk z'))) t = Some r' \<and> r_future r' = Exc x)"
proof -
  have "stuck p x (wk z)" using assms(1-3) by (simp add: stuck_def)
  from failed_pool.run_inv [OF assms(4) this] have s: "stuck p x (wk z')" .
  from s stuck_fails [OF s assms(5)] show ?thesis by (simp add: stuck_def)
qed

theorem failed_pool_is_never_replaced_witness:
  "\<exists>r'. runs (pool_answered 9 0 (await_pool 0 (start_run demo_process 1) demo_failed)) 0 = Some r' \<and>
     r_future r' = Exc demo_start_error"
  using failed_pool_is_never_replaced [OF _ _ _ rtranclp.rtrancl_refl, of "boot demo_failed (server demo_read)" 0
      demo_start_error 0 "start_run demo_process 1" 9]
  by (simp add: boot_def demo_failed_eq)

text \<open>
  C18. Waiting for a handler ends, the right way: if every wake-up of \<^verbatim>\<open>asyncio.wait\<close> is justified and
  there are more of them than restarts of the run's clock, the wait returns. It reports an end only
  for a run that is over, and a timeout only when the timeout has passed since the run last started.
\<close>

theorem handler_wait_ends:
  assumes "wakes_ok timeout r wakes" and "restarts r wakes < length wakes"
  shows "(\<exists>r'. await_run timeout now r wakes = Some (Ended r') \<and> r_future r' \<noteq> Waiting) \<or>
    (\<exists>r' t st. await_run timeout now r wakes = Some (Overdue r' t) \<and> r_future r' = Waiting \<and>
       r_started r' = Some st \<and> timeout \<le> t - st)"
proof -
  obtain e where e: "await_run timeout now r wakes = Some e" using await_run_returns [OF assms] by fastforce
  show ?thesis
  proof (cases e)
    case (Ended r')
    with e ended_future [of timeout now r wakes r'] show ?thesis by auto
  next
    case (Overdue r' t)
    with e overdue_deadline [of timeout now r wakes r' t] show ?thesis by (auto simp: le_diff_eq add.commute)
  qed
qed

theorem handler_wait_ends_witness:
  "\<exists>r' t st. await_run 2 0 (new_run RunAsync 0) [(2, new_run RunAsync 0)] = Some (Overdue r' t) \<and>
     r_started r' = Some st \<and> 2 \<le> t - st"
proof -
  have w: "wakes_ok 2 (new_run RunAsync 0) [(2, new_run RunAsync 0)]"
    "restarts (new_run RunAsync 0) [(2, new_run RunAsync 0)] < length [(2 :: rat, new_run RunAsync 0)]"
    by (simp_all add: wake_ok_def new_run_def)
  have "r_future (new_run RunAsync 0) = Waiting" by (simp add: new_run_def)
  with handler_wait_ends [OF w, of 0] ended_future [of 2 0 "new_run RunAsync 0" "[(2, new_run RunAsync 0)]"]
  show ?thesis by auto
qed

section \<open>Data on the wire\<close>



text \<open>
  JSON round trip: \<^verbatim>\<open>loads\<close> of \<^verbatim>\<open>dumps\<close> gives back every value without floats whose objects have
  distinct keys, whatever characters its strings hold and however deep it nests.
\<close>

theorem json_round_trip:
  assumes "wf_json j"
  shows "loads (dumps j) = Some j"
  using loads_dumps [OF assms] .

theorem json_round_trip_witness:
  "loads (dumps (JObj [(''a'', JArr [JInt (- 7), JStr [CHR 0x22, CHR 0x0A]]), (''b'', JNull)])) =
     Some (JObj [(''a'', JArr [JInt (- 7), JStr [CHR 0x22, CHR 0x0A]]), (''b'', JNull)])"
  using json_round_trip [of "JObj [(''a'', JArr [JInt (- 7), JStr [CHR 0x22, CHR 0x0A]]), (''b'', JNull)]"] by simp

text \<open>
  C26. One slot per queue, no key in two: every key of a queue with a valid name hashes, in Redis
  Cluster, by the queue's name alone, so the scripts may use them together; and two valid queues
  that share a key are the same queue.
\<close>

theorem queue_keys_are_its_own:
  assumes "queue_name_ok (queue K)" and "queue_name_ok (queue K')" and "k \<in> queue_keys K"
  shows "hash_tag k = queue K \<and> (k \<in> queue_keys K' \<longrightarrow> queue K' = queue K)"
  using assms hash_tag_prefix queue_keys_prefix by metis

theorem queue_keys_are_its_own_witness:
  "hash_tag (done_key \<lparr>queue = ''chaos''\<rparr> ''01'') = ''chaos'' \<and>
   done_key \<lparr>queue = ''chaos''\<rparr> ''01'' \<notin> queue_keys \<lparr>queue = ''bench''\<rparr>"
proof -
  have "queue_name_ok ''chaos''" "queue_name_ok ''bench''" by code_simp+
  with queue_keys_are_its_own [of "\<lparr>queue = ''chaos''\<rparr>" "\<lparr>queue = ''bench''\<rparr>" "done_key \<lparr>queue = ''chaos''\<rparr> ''01''"]
  show ?thesis by (auto simp: queue_keys_def)
qed





section \<open>The chaos harness\<close>

text \<open>
  C28. The verifier's verdict: on a server nobody writes to any more, \<^verbatim>\<open>verify\<close> reads the whole logs
  page by page and ends without changing anything; and the run passes exactly when it was correct:
  every accepted job in its kind's final state, one effect and one result per success and none
  besides, one dead letter with the right reason and counts per job that had to die, a drained
  queue, and the faults and exits of the orchestrator's report within bounds.
\<close>

theorem verifier_verdict:
  assumes "redis_service R view" and "typed S (view s)" and "logs_grow S (view s)"
    and "evidence_of (qview S (view s)) acc = Inr ev" and "kinds_of acc = Inr ks"
    and "judge max_att max_del ev seen ms acc = Inr cs"
  shows "\<exists>s'. verify R S acc max_att max_del seen ms s = Some (Inr cs, s') \<and> view s' = view s \<and>
    (passed cs \<longleftrightarrow> run_correct max_att max_del ev seen ms ks)"
  using redis_service.verify_yields [OF assms(1-3), of acc max_att max_del seen ms] judge_verdict [OF assms(6,5)]
    assms(4,6) by (auto simp: yields_def)

theorem verifier_verdict_witness:
  "\<exists>cs s'. verify json_redis demo_settings demo_accepted 5 10 None [] (server demo_done) = Some (Inr cs, s') \<and> \<not> passed cs"
proof -
  obtain cs where j: "judge 5 10 demo_evidence None [] demo_accepted = Inr cs" using demo_judged by blast
  have "\<not> run_correct 5 10 demo_evidence None [] [(''01'', demo_kind)]"
    by (simp add: run_correct_def effect_of_def demo_kind_of demo_state want_def) (simp add: demo_evidence_def)
  with verifier_verdict [OF json_server.redis_service_axioms _ _ _ demo_kind_of(1) j, of demo_settings "server demo_done"]
    demo_done_view(1) demo_logs_grow demo_evidence_of
  show ?thesis by auto
qed

text \<open>
  C29. The queue passes the checks the verifier makes: in every reachable state in which the stream
  and the delayed set are empty, the evidence read from the server shows each accepted job in a
  terminal state, one result if it succeeded and none otherwise, and a dead letter if and only if
  it is DEAD.
\<close>

theorem drained_queue_passes:
  assumes "queue_service R view S" and "view s0 = empty_rdb\<lparr>clock := t\<rparr>"
    and "reaches R S reg xt (start R S s0) z" and "evidence_of (qview S (view (server z))) acc = Inr ev"
    and "c_ok (i5_check ev)" and "j \<in> fst ` set acc" and "j \<in> ids z" and "retained S t (view (server z))"
  shows "terminal (ev_states ev j) \<and> count_list (ev_results ev) j = want ev j \<and>
    length (entries_for ev j) = (if ev_states ev j = ''DEAD'' then 1 else 0)"
proof -
  let ?q = "qview S (view (server z))"
  have "queue_inv (cjson_decode R) S (ids z) (extra z) ?q"
    using queue_service.reached_inv [OF assms(1-3,8)] by (simp add: sys_inv_def)
  then have "states_inv ?q" "accept_inv (cjson_decode R) (ids z) ?q" "results_inv ?q" "dlq_inv ?q"
    by (simp_all add: queue_inv_def base_inv_def)
  then show ?thesis
    using drained_evidence [OF _ _ assms(4-7)] results_evidence [OF _ assms(4,6)] dlq_evidence [OF _ assms(4,6)] by simp
qed

theorem drained_queue_passes_witness:
  "terminal (ev_states demo_evidence ''01'') \<and> count_list (ev_results demo_evidence) ''01'' = want demo_evidence ''01''"
  using drained_queue_passes [OF demo_queue.queue_service_axioms demo_start_ok demo_reaches_start, of demo_accepted
      demo_evidence "''01''"] demo_evidence_of demo_done_view demo_queue.always_retained
  by (simp add: i5_check_ok demo_evidence_def demo_accepted_def)

text \<open>
  C30. The mix does what its kinds expect: for every kind and every payload it can draw, a kind
  expected to succeed fails on its first \<open>m\<close> attempts (\<open>m\<close> at most 3, less than the attempts
  allowed) and succeeds on all later ones; a kind expected to die of its attempts fails on each of
  them; the kind expected to die of its deliveries takes the process down with status 70.
\<close>

theorem mix_jobs_end_as_expected:
  assumes "redis_service R view" and "k \<in> set kinds" and "rng_ok G" and "draws G p k n" and "mix_agrees p S"
  shows "(k_expect k = ''SUCCEEDED'' \<longrightarrow> (\<exists>m \<in> {0 .. 3}. m < max_attempts S \<and>
      (\<forall>j s. of_new n j \<and> typed S (view s) \<and> 0 \<le> attempt j \<longrightarrow>
         (if attempt j < m then fails (attempt_outcome R S rx render sha j s)
          else succeeds (attempt_outcome R S rx render sha j s))))) \<and>
    (k_reason k = Some ''max_attempts'' \<longrightarrow> (\<forall>j s. of_new n j \<and> attempt j < max_attempts S \<longrightarrow>
      fails (attempt_outcome R S rx render sha j s))) \<and>
    (k_reason k = Some ''max_deliveries'' \<longrightarrow> (\<forall>j s. of_new n j \<longrightarrow>
      run_builtin R S rx render sha j s = Some (quick (Exits 70) s)))"
proof (intro conjI impI allI)
  have 3: "3 < max_attempts S" using assms(5) by (simp add: mix_agrees_def)
  assume "k_expect k = ''SUCCEEDED''"
  from redis_service.kind_succeeds [OF assms(1,2) this assms(3-5), of rx render sha] obtain m where
    "m \<in> {0 .. 3}" and "fate_after (attempt_outcome R S rx render sha)
      (\<lambda>j s. of_new n j \<and> typed S (view s) \<and> 0 \<le> attempt j) m" by blast
  with 3 show "\<exists>m \<in> {0 .. 3}. m < max_attempts S \<and>
      (\<forall>j s. of_new n j \<and> typed S (view s) \<and> 0 \<le> attempt j \<longrightarrow>
         (if attempt j < m then fails (attempt_outcome R S rx render sha j s)
          else succeeds (attempt_outcome R S rx render sha j s)))"
    unfolding fate_after_def by (intro bexI [of _ m] conjI) simp_all
next
  fix j s
  assume "k_reason k = Some ''max_attempts''" and "of_new n j \<and> attempt j < max_attempts S"
  then show "fails (attempt_outcome R S rx render sha j s)"
    by (intro redis_service.kind_dies(1) [OF assms]) simp_all
next
  fix j s
  assume "k_reason k = Some ''max_deliveries''" and "of_new n j"
  then show "run_builtin R S rx render sha j s = Some (quick (Exits 70) s)"
    using redis_service.kind_dies(2) [OF assms] by blast
qed

theorem mix_jobs_end_as_expected_witness:
  "run_builtin json_redis (worker_env 4) (\<lambda>e. PyExc ''ResponseError'' ''reply'') dumps (\<lambda>x. x)
     \<lparr>job_id = ''01'', job_type = ''crashy'', payload = [], attempt = 0, idempotency_key = ''01'', enqueued_at_ms = 0\<rparr>
     (server demo_done) = Some (quick (Exits 70) (server demo_done))"
proof -
  have "\<exists>k \<in> set kinds. k_reason k = Some ''max_deliveries'' \<and> k_job_type k = ''crashy'' \<and> k_payload k = NoPayload"
    by (simp add: kinds_def)
  then obtain k where k: "k \<in> set kinds" "k_reason k = Some ''max_deliveries''" "k_job_type k = ''crashy''"
    "k_payload k = NoPayload" by blast
  have "draws demo_rng (chaos_params 4) k \<lparr>nj_type = ''crashy'', nj_payload = [], nj_key = None\<rparr>"
    by (simp add: draws_def k)
  note ends = mix_jobs_end_as_expected [OF json_server.redis_service_axioms k(1) demo_rng_ok this chaos_mix_agrees,
      of "\<lambda>e. PyExc ''ResponseError'' ''reply''" dumps "\<lambda>x. x"]
  show ?thesis using ends k(2) by (simp add: of_new_def)
qed



section \<open>The benchmark\<close>







section \<open>The benchmark session\<close>



text \<open>
  C36. A session can be interrupted and resumed: a run that ends without an exception gives every
  point an outcome; a point reported as run or as already saved has its report on disk; no file
  disappears; and, unless a rerun is asked for, no point whose report was there at the start is
  started again.
\<close>

theorem session_can_be_resumed:
  assumes "run_session W unpack B points files deadline_s redo s = Some (r, z)"
  shows "(isl r \<or> outcome_key ` set points \<subseteq> dom (map_of (se_outcomes z))) \<and>
    (\<forall>k out. map_of (se_outcomes z) k = Some out \<longrightarrow> out = SkippedSaved \<or> (\<exists>a b c d. out = Ran a b c d) \<longrightarrow>
      k @ ''.json'' \<in> dom (map_of (se_files z))) \<and>
    dom (map_of files) \<subseteq> dom (map_of (se_files z)) \<and>
    (redo \<or> (\<forall>p \<in> fst ` set (se_starts z). map_of files (point_path p ''.json'') = None))"
proof -
  obtain started s1 where "sh_clock W s = (started, s1)" by fastforce
  with assms have run: "session_loop W unpack B started deadline_s redo points (fresh_session s1 files) = Some (r, z)"
    by (simp add: run_session_def)
  have "told (fresh_session s1 files)" by (simp add: told_def fresh_session_def)
  note res = session_resumes [OF run this]
  have outs: "isl r \<or> outcome_key ` set points \<subseteq> dom (map_of (se_outcomes z))" using res by blast
  have told: "\<forall>k out. map_of (se_outcomes z) k = Some out \<longrightarrow> out = SkippedSaved \<or> (\<exists>a b c d. out = Ran a b c d) \<longrightarrow>
      k @ ''.json'' \<in> dom (map_of (se_files z))" using told_outcomes [OF conjunct1 [OF res]] by blast
  have files: "dom (map_of files) \<subseteq> dom (map_of (se_files z))" using res by (simp add: grown_def fresh_session_def)
  obtain st where st: "se_starts z = se_starts (fresh_session s1 files) @ st"
    "\<forall>p \<in> fst ` set st. saved p (fresh_session s1 files) \<longrightarrow> redo" using res by blast
  have e: "se_starts (fresh_session s1 files) = []" "\<And>p. saved p (fresh_session s1 files) = (map_of files (point_path p ''.json'') \<noteq> None)"
    by (simp_all add: fresh_session_def saved_def)
  have "redo \<or> (\<forall>p \<in> fst ` set (se_starts z). map_of files (point_path p ''.json'') = None)"
    using st(2) unfolding st(1) e append_Nil by blast
  with outs told files show ?thesis by blast
qed

theorem session_can_be_resumed_witness:
  "map_of (se_outcomes demo_end) ''scaling/w01'' = Some SkippedSaved \<and>
   map_of (se_files demo_end) ''scaling/w01.json'' \<noteq> None \<and>
   outcome_key ` set (session_points demo_spec) \<subseteq> dom (map_of (se_outcomes demo_end))"
  using session_can_be_resumed [OF demo_end_run] demo_end_values(2) by (auto simp: demo_files_def)

text \<open>
  C37. The account id never reaches the results: when the backend scrubs as the AWS backend does and
  no file contained the account id before, no file contains it after the session, however the
  session ends and whatever the tasks logged.
\<close>

theorem account_id_is_never_saved:
  assumes "run_session W unpack B points files deadline_s redo s = Some (r, z)"
    and "be_scrub B = be_scrub (aws_ops W unpack A)"
    and "ab_account A \<noteq> []" and "list_all is_digit (ab_account A)"
    and "list_all (\<lambda>f. \<not> sublist (ab_account A) (snd f)) files"
  shows "list_all (\<lambda>f. \<not> sublist (ab_account A) (snd f)) (se_files z)"
proof -
  obtain started s1 where "sh_clock W s = (started, s1)" by fastforce
  with assms(1) have run: "session_loop W unpack B started deadline_s redo points (fresh_session s1 files) = Some (r, z)"
    by (simp add: run_session_def)
  have "clean (ab_account A) (se_files (fresh_session s1 files))"
    using assms(5) by (auto simp: clean_def fresh_session_def list_all_iff)
  from session_clean [OF assms(3,4) _ run this] assms(2) have "clean (ab_account A) (se_files z)" by (simp add: aws_ops_def)
  then show ?thesis by (auto simp: clean_def list_all_iff)
qed

theorem account_id_is_never_saved_witness:
  "list_all (\<lambda>f. \<not> sublist demo_account (snd f)) (se_files demo_end) \<and>
   map_of (se_files demo_end) ''scaling/w02.json'' \<noteq> None"
proof -
  have a: "ab_account demo_aws = demo_account" by (simp add: demo_aws_def)
  have s: "be_scrub demo_backend = be_scrub (aws_ops demo_shell demo_unpack demo_aws)" by (simp add: demo_backend_def)
  have "demo_account \<noteq> []" "list_all is_digit demo_account" by code_simp+
  moreover have "list_all (\<lambda>f. \<not> sublist demo_account (snd f)) demo_files"
    by (simp add: demo_files_def demo_account_def sublist_Cons_right)
  ultimately show ?thesis
    using account_id_is_never_saved [OF demo_end_run s] demo_end_values(3) unfolding a by blast
qed

text \<open>
  C38. The report survives the task's log: from any log in which the lines of the dump arrived, in
  their order and among any other lines and padding, the driver reads the coordinator's report; from
  a log in which they have not all arrived yet it reads no report, never a part of one.
\<close>

theorem report_survives_the_log:
  assumes "codec_doc pack unpack" and "loads content = Some report"
  shows "(\<forall>log. filter report_line (map strip log) = dump_lines pack content \<longrightarrow>
      decode_report unpack log = Inr (Some report)) \<and>
    (\<forall>log. strict_prefix (filter report_line (map strip log)) (dump_lines pack content) \<longrightarrow>
      decode_report unpack log = Inr None)"
  using report_arrives [OF assms(1) _ assms(2)] cut_report_is_none [OF assms(1)] by blast

theorem report_survives_the_log_witness:
  "decode_report demo_unpack (dump_lines demo_pack ''7'') = Inr (Some (JInt 7)) \<and>
   decode_report demo_unpack [''REPORT-BEGIN''] = Inr None"
proof -
  have d: "dump_lines demo_pack ''7'' = [''REPORT-BEGIN'', ''R:xDH'', ''REPORT-END'']"
  proof -
    have "demo_pack ''7'' = ''xDH''" by code_simp
    then show ?thesis by (simp add: dump_lines_def wrap_short)
  qed
  have "loads ''7'' = Some (JInt 7)" by code_simp
  note survives = report_survives_the_log [OF demo_codec this, unfolded d]
  have "filter report_line (map strip [''REPORT-BEGIN'', ''R:xDH'', ''REPORT-END'']) = [''REPORT-BEGIN'', ''R:xDH'', ''REPORT-END'']"
    "filter report_line (map strip [''REPORT-BEGIN'']) = [''REPORT-BEGIN'']" by code_simp+
  with survives show ?thesis unfolding d by (simp add: strict_prefix_def)
qed

text \<open>
  C39. A local session ends: whatever the containers and Docker answer, the driver with the local
  backend returns a result or an exception; the only assumption is that sleeping takes time and
  the clock does not run backwards.
\<close>

theorem local_session_returns:
  assumes "clock_doc W time_of"
  shows "\<exists>r z. local_session W unpack path spec files deadline_min redo s = Some (r, z)"
  using local_session_ends [OF assms] by fast

theorem local_session_returns_witness:
  "\<exists>r z. local_session demo_shell demo_unpack ''compose.json'' session_defaults [] 120 False 0 = Some (r, z)"
  using local_session_returns [OF demo_clock] .



end
